(* ===== verification/Prelude.thy ===== *)
theory Prelude
  imports Complex_Main
begin

text \<open>
  Vocabulary shared by every component: results of fallible code, loops that may throw,
  the JavaScript values and string operations the sources use, and lemmas about lists,
  options and searches that the component proofs rewrite with.

  Conventions of the whole development.
  \<^item> A function that throws returns a value of \<open>'e + 'a\<close>: \<open>Inl e\<close> for the error \<open>e\<close>,
    \<open>Inr x\<close> for the returned value.
  \<^item> An optional property (\<open>field?: T\<close>) is an \<open>option\<close>; \<open>undefined\<close> is \<open>None\<close>.
  \<^item> JavaScript strings are \<open>string\<close>; the sources compare, split on ASCII characters and
    take prefixes, which agree on the UTF-8 bytes and on the UTF-16 units.
  \<^item> Instants are integers (milliseconds since the epoch), percentages are rationals.
\<close>

named_theorems result_simps \<open>equations for results\<close>
named_theorems pool_simps \<open>unfolding rules of the pool components\<close>

section \<open>Results\<close>

definition bind_r :: "'e + 'a \<Rightarrow> ('a \<Rightarrow> 'e + 'b) \<Rightarrow> 'e + 'b" where
  "bind_r m f = (case m of Inl e \<Rightarrow> Inl e | Inr x \<Rightarrow> f x)"

definition require_r :: "bool \<Rightarrow> 'e \<Rightarrow> 'e + unit" where
  "require_r b e = (if b then Inr () else Inl e)"

definition map_r :: "('a \<Rightarrow> 'b) \<Rightarrow> 'e + 'a \<Rightarrow> 'e + 'b" where
  "map_r f m = bind_r m (\<lambda>x. Inr (f x))"

fun is_ok :: "'e + 'a \<Rightarrow> bool" where
  "is_ok (Inl _) = False"
| "is_ok (Inr _) = True"

lemma bind_r_simps [simp, result_simps]:
  "bind_r (Inl e) f = Inl e"
  "bind_r (Inr x) f = f x"
  by (simp_all add: bind_r_def)

lemma bind_r_Inr_iff [result_simps]:
  "bind_r m f = Inr y \<longleftrightarrow> (\<exists>x. m = Inr x \<and> f x = Inr y)"
  by (cases m) simp_all

lemma bind_unit_Inr: "bind_r (m :: 'e + unit) f = Inr y \<longleftrightarrow> m = Inr () \<and> f () = Inr y"
  by (auto simp: bind_r_Inr_iff)

lemma bind_r_Inl_iff [result_simps]:
  "bind_r m f = Inl e \<longleftrightarrow> m = Inl e \<or> (\<exists>x. m = Inr x \<and> f x = Inl e)"
  by (cases m) simp_all

lemma bind_r_split:
  "P (bind_r m f) \<longleftrightarrow> (\<forall>e. m = Inl e \<longrightarrow> P (Inl e)) \<and> (\<forall>x. m = Inr x \<longrightarrow> P (f x))"
  by (cases m) simp_all

lemma require_r_simps [simp, result_simps]:
  "require_r True e = Inr ()"
  "require_r False e = Inl e"
  by (simp_all add: require_r_def)

lemma require_r_Inr [simp, result_simps]: "require_r b e = Inr u \<longleftrightarrow> b"
  by (simp add: require_r_def)

lemma require_r_Inl [simp, result_simps]: "require_r b e = Inl e' \<longleftrightarrow> \<not> b \<and> e' = e"
  by (auto simp: require_r_def)

lemma map_r_simps [simp]:
  "map_r f (Inl e) = Inl e"
  "map_r f (Inr x) = Inr (f x)"
  by (simp_all add: map_r_def)

lemma map_r_Inr_iff: "map_r f m = Inr y \<longleftrightarrow> (\<exists>x. m = Inr x \<and> y = f x)"
  by (cases m) auto

lemma is_ok_iff: "is_ok m \<longleftrightarrow> (\<exists>x. m = Inr x)"
  by (cases m) auto

text \<open>A \<open>for ... of\<close> loop whose body may throw.\<close>

primrec loop_r :: "('a \<Rightarrow> 's \<Rightarrow> 'e + 's) \<Rightarrow> 'a list \<Rightarrow> 's \<Rightarrow> 'e + 's" where
  "loop_r f [] s = Inr s"
| "loop_r f (x # xs) s = bind_r (f x s) (loop_r f xs)"

lemma loop_r_append: "loop_r f (xs @ ys) s = bind_r (loop_r f xs s) (loop_r f ys)"
  by (induction xs arbitrary: s) (auto simp: bind_r_def split: sum.splits)

lemma loop_r_invariant:
  assumes "loop_r f xs s = Inr t" and "I s"
    and "\<And>x s s'. x \<in> set xs \<Longrightarrow> I s \<Longrightarrow> f x s = Inr s' \<Longrightarrow> I s'"
  shows "I t"
  using assms
proof (induction xs arbitrary: s)
  case Nil
  then show ?case by simp
next
  case (Cons x xs)
  then obtain s' where "f x s = Inr s'" and rest: "loop_r f xs s' = Inr t"
    by (auto simp: bind_r_Inr_iff)
  with Cons.prems have "I s'" by auto
  with rest show ?case using Cons.IH Cons.prems(3) by auto
qed

text \<open>A loop that only checks: it succeeds exactly when every body does.\<close>

primrec each_r :: "('a \<Rightarrow> 'e + unit) \<Rightarrow> 'a list \<Rightarrow> 'e + unit" where
  "each_r f [] = Inr ()"
| "each_r f (x # xs) = bind_r (f x) (\<lambda>_. each_r f xs)"

lemma each_r_Inr [simp, result_simps]: "each_r f xs = Inr u \<longleftrightarrow> (\<forall>x \<in> set xs. f x = Inr ())"
  by (induction xs) (auto simp: bind_r_Inr_iff)

lemma each_r_Inl: "each_r f xs = Inl e \<Longrightarrow> \<exists>x \<in> set xs. f x = Inl e"
  by (induction xs) (auto simp: bind_r_Inl_iff)

section \<open>JavaScript values\<close>

text \<open>A number as \<open>JSON.parse\<close> can return it: finite, or infinite on overflow.\<close>

datatype js_num = Fin rat | PosInf | NegInf

datatype json =
    JNull
  | JBool bool
  | JNum js_num
  | JStr string
  | JArr "json list"
  | JObj "(string \<times> json) list"

text \<open>\<open>obj[key]\<close> on a parsed object; \<open>None\<close> is \<open>undefined\<close>.\<close>

fun js_get :: "json \<Rightarrow> string \<Rightarrow> json option" where
  "js_get (JObj kvs) k = map_of kvs k"
| "js_get _ k = None"

fun as_string :: "json \<Rightarrow> string option" where
  "as_string (JStr s) = Some s"
| "as_string _ = None"

fun as_bool :: "json \<Rightarrow> bool option" where
  "as_bool (JBool b) = Some b"
| "as_bool _ = None"

fun as_finite :: "json \<Rightarrow> rat option" where
  "as_finite (JNum (Fin q)) = Some q"
| "as_finite _ = None"

fun as_array :: "json \<Rightarrow> json list option" where
  "as_array (JArr xs) = Some xs"
| "as_array _ = None"

fun as_object :: "json \<Rightarrow> (string \<times> json) list option" where
  "as_object (JObj kvs) = Some kvs"
| "as_object _ = None"

lemma as_string_Some [simp]: "as_string j = Some s \<longleftrightarrow> j = JStr s"
  by (cases j) auto

lemma as_bool_Some [simp]: "as_bool j = Some b \<longleftrightarrow> j = JBool b"
  by (cases j) auto

lemma as_finite_Some [simp]: "as_finite j = Some q \<longleftrightarrow> j = JNum (Fin q)"
proof (cases j)
  case (JNum n)
  then show ?thesis by (cases n) auto
qed auto

lemma as_array_Some [simp]: "as_array j = Some xs \<longleftrightarrow> j = JArr xs"
  by (cases j) auto

lemma as_object_Some [simp]: "as_object j = Some xs \<longleftrightarrow> j = JObj xs"
  by (cases j) auto

text \<open>Every element of an array as a string; used after a check that all of them are.\<close>

definition strings_of :: "json list \<Rightarrow> string list" where
  "strings_of xs = List.map_filter as_string xs"

lemma strings_of_all:
  "\<forall>x \<in> set xs. as_string x \<noteq> None \<Longrightarrow> map Some (strings_of xs) = map as_string xs"
  by (induction xs) (auto simp: strings_of_def map_filter_simps split: option.splits)

section \<open>Strings\<close>

text \<open>\<open>s.startsWith(p)\<close>, \<open>s.endsWith(p)\<close> and \<open>s.split(c)\<close>.\<close>

definition starts_with :: "string \<Rightarrow> string \<Rightarrow> bool" where
  "starts_with s p \<longleftrightarrow> take (length p) s = p"

definition ends_with :: "string \<Rightarrow> string \<Rightarrow> bool" where
  "ends_with s p \<longleftrightarrow> length p \<le> length s \<and> drop (length s - length p) s = p"

fun split_on :: "'a \<Rightarrow> 'a list \<Rightarrow> 'a list list" where
  "split_on c [] = [[]]"
| "split_on c (x # xs) =
     (if x = c then [] # split_on c xs
      else (case split_on c xs of [] \<Rightarrow> [[x]] | w # ws \<Rightarrow> (x # w) # ws))"

fun join_with :: "'a list \<Rightarrow> 'a list list \<Rightarrow> 'a list" where
  "join_with s [] = []"
| "join_with s [w] = w"
| "join_with s (w # ws) = w @ s @ join_with s ws"

lemma starts_with_iff: "starts_with s p \<longleftrightarrow> (\<exists>r. s = p @ r)"
proof
  assume "starts_with s p"
  then have "s = p @ drop (length p) s"
    unfolding starts_with_def by (metis append_take_drop_id)
  then show "\<exists>r. s = p @ r" ..
qed (auto simp: starts_with_def)

lemma starts_with_append [simp]: "starts_with (p @ r) p"
  by (auto simp: starts_with_iff)

lemma split_on_not_Nil [simp]: "split_on c xs \<noteq> []"
  by (induction xs) (auto split: list.splits)

lemma Nil_not_split_on [simp]: "[] \<noteq> split_on c xs"
  by (metis split_on_not_Nil)

lemma join_with_Cons: "ws \<noteq> [] \<Longrightarrow> join_with s (w # ws) = w @ s @ join_with s ws"
  by (cases ws) auto

lemma join_with_Cons_char: "join_with s ((x # w) # ws) = x # join_with s (w # ws)"
  by (cases ws) auto

lemma join_split [simp]: "join_with [c] (split_on c xs) = xs"
proof (induction xs)
  case (Cons x xs)
  then show ?case
    by (cases "split_on c xs") (auto simp: join_with_Cons join_with_Cons_char)
qed simp

lemma split_on_no_sep: "w \<in> set (split_on c xs) \<Longrightarrow> c \<notin> set w"
  by (induction xs arbitrary: w) (auto split: list.splits if_splits)

lemma split_on_append_sep:
  "split_on c (xs @ c # ys) = split_on c xs @ split_on c ys"
  by (induction xs) (auto split: list.splits)

lemma split_on_no_occurrence: "c \<notin> set xs \<Longrightarrow> split_on c xs = [xs]"
  by (induction xs) auto

lemma split_join:
  "ws \<noteq> [] \<Longrightarrow> \<forall>w \<in> set ws. c \<notin> set w \<Longrightarrow> split_on c (join_with [c] ws) = ws"
  by (induction "[c]" ws rule: join_with.induct)
    (auto simp: split_on_no_occurrence split_on_append_sep)

section \<open>Lists, searches and options\<close>

text \<open>\<open>a ?? b\<close>.\<close>

definition default :: "'a \<Rightarrow> 'a option \<Rightarrow> 'a" where
  "default d x = (case x of None \<Rightarrow> d | Some y \<Rightarrow> y)"

lemma default_simps [simp]: "default d None = d" "default d (Some x) = x"
  by (simp_all add: default_def)

text \<open>An optional string counts in a condition when it is there and not empty.\<close>

definition truthy :: "string option \<Rightarrow> bool" where
  "truthy v \<longleftrightarrow> v \<noteq> None \<and> v \<noteq> Some ''''"

text \<open>\<open>xs[xs.length - 1]\<close>.\<close>

definition last_opt :: "'a list \<Rightarrow> 'a option" where
  "last_opt xs = (if xs = [] then None else Some (last xs))"

lemma find_Some_set: "find P xs = Some x \<Longrightarrow> x \<in> set xs \<and> P x"
  by (induction xs) (auto split: if_splits)

lemma find_None_iff': "find P xs = None \<longleftrightarrow> (\<forall>x \<in> set xs. \<not> P x)"
  by (induction xs) auto

lemma find_filter: "find P (filter Q xs) = find (\<lambda>x. Q x \<and> P x) xs"
  by (induction xs) auto

lemma find_unique:
  assumes "x \<in> set xs" "P x" "\<And>y. y \<in> set xs \<Longrightarrow> P y \<Longrightarrow> y = x"
  shows "find P xs = Some x"
proof (cases "find P xs")
  case None
  with assms(1,2) show ?thesis by (auto simp: find_None_iff)
next
  case (Some y)
  with assms(3) show ?thesis by (metis find_Some_set)
qed

text \<open>\<open>xs.map(f).filter((x) => x !== undefined)\<close>.\<close>

lemma map_filter_set: "y \<in> set (List.map_filter f xs) \<longleftrightarrow> (\<exists>x \<in> set xs. f x = Some y)"
  by (induction xs) (auto simp: map_filter_simps split: option.splits)

text \<open>The first element after the stable sort of a list by a key: a least element.\<close>

lemma sort_key_hd_least:
  assumes "sort_key f xs = y # ys"
  shows "y \<in> set xs \<and> (\<forall>x \<in> set xs. f y \<le> f x)"
proof -
  have "sorted (map f (y # ys))" by (metis assms sorted_sort_key)
  moreover have "set (y # ys) = set xs" by (metis assms set_sort)
  ultimately show ?thesis by auto
qed

text \<open>\<open>Math.max(...xs)\<close> and \<open>Math.min(...xs)\<close> of a list that is not empty.\<close>

definition list_max :: "'a::linorder list \<Rightarrow> 'a" where
  "list_max xs = foldr max (butlast xs) (last xs)"

definition list_min :: "'a::linorder list \<Rightarrow> 'a" where
  "list_min xs = foldr min (butlast xs) (last xs)"

lemma foldr_max_ge: "(x::'a::linorder) \<in> insert z (set xs) \<Longrightarrow> x \<le> foldr max xs z"
  by (induction xs) (auto simp: le_max_iff_disj)

lemma foldr_max_in: "foldr max xs (z::'a::linorder) \<in> insert z (set xs)"
  by (induction xs) (auto simp: max_def)

lemma foldr_min_le: "(x::'a::linorder) \<in> insert z (set xs) \<Longrightarrow> foldr min xs z \<le> x"
  by (induction xs) (auto simp: min_le_iff_disj)

lemma foldr_min_in: "foldr min xs (z::'a::linorder) \<in> insert z (set xs)"
  by (induction xs) (auto simp: min_def)

lemma set_butlast_last: "xs \<noteq> [] \<Longrightarrow> insert (last xs) (set (butlast xs)) = set xs"
  by (induction xs) auto

lemma list_max_ge: "x \<in> set xs \<Longrightarrow> x \<le> list_max xs"
  unfolding list_max_def
  by (rule foldr_max_ge) (metis empty_iff list.set(1) set_butlast_last)

lemma list_max_in: "xs \<noteq> [] \<Longrightarrow> list_max xs \<in> set xs"
  unfolding list_max_def by (metis foldr_max_in set_butlast_last)

lemma list_min_le: "x \<in> set xs \<Longrightarrow> list_min xs \<le> x"
  unfolding list_min_def
  by (rule foldr_min_le) (metis empty_iff list.set(1) set_butlast_last)

lemma list_min_in: "xs \<noteq> [] \<Longrightarrow> list_min xs \<in> set xs"
  unfolding list_min_def by (metis foldr_min_in set_butlast_last)

end
