(* ===== verification/Identity_Colour.thy ===== *)
theory Identity_Colour
  imports Prelude "HOL-Library.Word"
begin

text \<open>
  Session colours (\<open>src/identities/colour.ts\<close>): the accepted grammar, the canonical form, and
  the automatic pick by a 32-bit FNV-1a hash of the tool-qualified name. \<open>Math.imul\<close> followed by
  \<open>>>> 0\<close> is multiplication of 32-bit words.
\<close>

unbundle bit_operations_syntax

definition IDENTITY_COLOUR_PALETTE :: "string list" where
  "IDENTITY_COLOUR_PALETTE =
     [''#ef4444'', ''#3b82f6'', ''#22c55e'', ''#eab308'', ''#a855f7'', ''#14b8a6'', ''#f97316'',
      ''#ec4899'', ''#06b6d4'', ''#84cc16'', ''#8b5cf6'', ''#f43f5e'', ''#0ea5e9'', ''#10b981'',
      ''#e879f9'', ''#f59e0b'']"

definition is_hex :: "char \<Rightarrow> bool" where
  "is_hex c = (let n = of_char c :: nat in
     (48 \<le> n \<and> n \<le> 57) \<or> (97 \<le> n \<and> n \<le> 102) \<or> (65 \<le> n \<and> n \<le> 70))"

definition is_lower_hex :: "char \<Rightarrow> bool" where
  "is_lower_hex c = (let n = of_char c :: nat in (48 \<le> n \<and> n \<le> 57) \<or> (97 \<le> n \<and> n \<le> 102))"

text \<open>\<open>/^#([0-9a-fA-F]{3}|[0-9a-fA-F]{6})$/\<close>\<close>

fun isValidIdentityColour :: "string \<Rightarrow> bool" where
  "isValidIdentityColour (c # hex) \<longleftrightarrow>
     c = CHR ''#'' \<and> (length hex = 3 \<or> length hex = 6) \<and> list_all is_hex hex"
| "isValidIdentityColour [] \<longleftrightarrow> False"

text \<open>\<open>toLowerCase\<close> on a hexadecimal digit.\<close>

definition hex_lower :: "char \<Rightarrow> char" where
  "hex_lower c = (let n = of_char c :: nat in if 65 \<le> n \<and> n \<le> 90 then char_of (n + 32) else c)"

definition normaliseIdentityColour :: "string \<Rightarrow> string option" where
  "normaliseIdentityColour raw =
     (if \<not> isValidIdentityColour raw then None
      else let hex = map hex_lower (drop 1 raw)
           in Some (if length hex = 3 then CHR ''#'' # concat (map (\<lambda>d. [d, d]) hex)
                    else CHR ''#'' # hex))"

fun hash_chars :: "32 word \<Rightarrow> string \<Rightarrow> 32 word" where
  "hash_chars acc [] = acc"
| "hash_chars acc (c # cs) = hash_chars ((acc XOR of_char c) * 0x01000193) cs"

definition hashKey :: "string \<Rightarrow> 32 word" where
  "hashKey key = hash_chars 0x811c9dc5 key"

definition autoIdentityColour :: "string \<Rightarrow> string \<Rightarrow> string" where
  "autoIdentityColour tool name =
     IDENTITY_COLOUR_PALETTE ! (unat (hashKey (tool @ '':'' @ name)) mod length IDENTITY_COLOUR_PALETTE)"

definition effectiveIdentityColour :: "string \<Rightarrow> string \<Rightarrow> string option \<Rightarrow> string" where
  "effectiveIdentityColour tool name explicit =
     default (autoIdentityColour tool name) (Option.bind explicit normaliseIdentityColour)"

text \<open>The displayed form: \<open>#\<close> and six lowercase digits.\<close>

definition display_colour :: "string \<Rightarrow> bool" where
  "display_colour s \<longleftrightarrow> (\<exists>hex. s = CHR ''#'' # hex \<and> length hex = 6 \<and> list_all is_lower_hex hex)"

lemma is_hex_lower: "is_hex c \<Longrightarrow> is_lower_hex (hex_lower c)"
  by (auto simp: is_hex_def is_lower_hex_def hex_lower_def Let_def)

lemma hex_lower_id: "is_lower_hex c \<Longrightarrow> hex_lower c = c"
  by (auto simp: is_lower_hex_def hex_lower_def Let_def)

lemma is_lower_hex_imp_hex: "is_lower_hex c \<Longrightarrow> is_hex c"
  by (auto simp: is_lower_hex_def is_hex_def Let_def)

lemma list_all_hex_lower: "list_all is_hex hex \<Longrightarrow> list_all is_lower_hex (map hex_lower hex)"
  by (auto simp: list_all_iff is_hex_lower)

lemma length_doubled: "length (concat (map (\<lambda>d. [d, d]) xs)) = 2 * length xs"
  by (induction xs) auto

lemma list_all_doubled: "list_all P xs \<Longrightarrow> list_all P (concat (map (\<lambda>d. [d, d]) xs))"
  by (induction xs) auto

lemma normaliseIdentityColour_display:
  "normaliseIdentityColour raw = Some s \<Longrightarrow> display_colour s"
  by (cases raw) (auto simp: normaliseIdentityColour_def display_colour_def Let_def length_doubled
      list_all_hex_lower list_all_doubled simp del: map_map split: if_splits)

lemma normaliseIdentityColour_fixed:
  assumes "display_colour s"
  shows "normaliseIdentityColour s = Some s"
proof -
  obtain hex where s: "s = CHR ''#'' # hex" "length hex = 6" and low: "list_all is_lower_hex hex"
    using assms by (auto simp: display_colour_def)
  have "map hex_lower hex = hex"
    using low by (auto simp: list_all_iff hex_lower_id intro: map_idI)
  moreover have "list_all is_hex hex" using low by (auto simp: list_all_iff is_lower_hex_imp_hex)
  ultimately show ?thesis using s by (simp add: normaliseIdentityColour_def)
qed

lemma palette_display: "\<forall>c \<in> set IDENTITY_COLOUR_PALETTE. display_colour c"
  by (simp add: IDENTITY_COLOUR_PALETTE_def display_colour_def is_lower_hex_def Let_def)

lemma autoIdentityColour_palette: "autoIdentityColour tool name \<in> set IDENTITY_COLOUR_PALETTE"
  unfolding autoIdentityColour_def
  by (rule nth_mem) (simp add: IDENTITY_COLOUR_PALETTE_def)

text \<open>Every identity is shown in a well-formed six-digit lowercase colour, whatever its explicit
  colour is; normalising a shown colour again changes nothing; and without a valid explicit
  colour the pick is one of the palette, a function of the tool and the name alone.\<close>

theorem effectiveIdentityColour_display:
  "display_colour (effectiveIdentityColour tool name explicit) \<and>
   normaliseIdentityColour (effectiveIdentityColour tool name explicit) =
     Some (effectiveIdentityColour tool name explicit) \<and>
   (Option.bind explicit normaliseIdentityColour = None \<longrightarrow>
     effectiveIdentityColour tool name explicit \<in> set IDENTITY_COLOUR_PALETTE)"
proof -
  have "display_colour (effectiveIdentityColour tool name explicit)"
    using palette_display autoIdentityColour_palette[of tool name]
    by (cases "Option.bind explicit normaliseIdentityColour")
      (auto simp: effectiveIdentityColour_def bind_eq_Some_conv dest: normaliseIdentityColour_display)
  then show ?thesis
    by (auto simp: normaliseIdentityColour_fixed effectiveIdentityColour_def autoIdentityColour_palette)
qed

theorem effectiveIdentityColour_display_witness:
  "effectiveIdentityColour ''claude'' ''work'' None \<in> set IDENTITY_COLOUR_PALETTE"
  using effectiveIdentityColour_display[of "''claude''" "''work''" None] by simp

end
