(* ===== verification/Host_Path.thy ===== *)
theory Host_Path
  imports Prelude
begin

text \<open>
  Paths: the POSIX \<open>resolve\<close> of \<open>node:path\<close> as the sources use it, the tilde expansion and
  normalisation of \<open>src/identities/match.ts\<close>, and the translation of registry paths between
  a host and a container. What the process reads from outside (home directory, working
  directory, environment, symbolic links, the date parser) is the record \<open>host_env\<close>.
\<close>

record host_env =
  he_home :: string
  he_cwd :: string
  he_env :: "string \<Rightarrow> string option"
  he_realpath :: "string \<Rightarrow> string option"
  he_date_parse :: "string \<Rightarrow> int option"

abbreviation slash :: char where
  "slash \<equiv> CHR ''/''"

section \<open>node:path\<close>

definition is_absolute :: "string \<Rightarrow> bool" where
  "is_absolute p = starts_with p ''/''"

text \<open>The segments that stay after \<open>.\<close>, \<open>..\<close> and empty segments are worked off.\<close>

fun norm_segments :: "string list \<Rightarrow> string list \<Rightarrow> string list" where
  "norm_segments acc [] = rev acc"
| "norm_segments acc (s # ss) =
     (if s = '''' \<or> s = ''.'' then norm_segments acc ss
      else if s = ''..'' then norm_segments (tl acc) ss
      else norm_segments (s # acc) ss)"

definition resolve_absolute :: "string \<Rightarrow> string" where
  "resolve_absolute p = slash # join_with [slash] (norm_segments [] (split_on slash p))"

definition path_resolve :: "host_env \<Rightarrow> string \<Rightarrow> string" where
  "path_resolve h p = resolve_absolute (if is_absolute p then p else he_cwd h @ ''/'' @ p)"

definition path_resolve2 :: "host_env \<Rightarrow> string \<Rightarrow> string \<Rightarrow> string" where
  "path_resolve2 h base p =
     (if is_absolute p then resolve_absolute p else path_resolve h (base @ ''/'' @ p))"

text \<open>
  \<open>normalize\<close> and \<open>join\<close>: a relative path keeps its leading \<open>..\<close> segments, a trailing slash
  survives.
\<close>

fun norm_relative :: "string list \<Rightarrow> string list \<Rightarrow> string list" where
  "norm_relative acc [] = rev acc"
| "norm_relative acc (s # ss) =
     (if s = '''' \<or> s = ''.'' then norm_relative acc ss
      else if s = ''..'' \<and> acc \<noteq> [] \<and> hd acc \<noteq> ''..'' then norm_relative (tl acc) ss
      else norm_relative (s # acc) ss)"

definition path_normalize :: "string \<Rightarrow> string" where
  "path_normalize p =
     (if p = '''' then ''.''
      else let absolute = is_absolute p;
               trailing = (if ends_with p ''/'' then ''/'' else '''');
               segs = (if absolute then norm_segments [] (split_on slash p)
                       else norm_relative [] (split_on slash p));
               body = join_with [slash] segs
           in if body = '''' then (if absolute then ''/'' else ''.'' @ trailing)
              else (if absolute then ''/'' else '''') @ body @ trailing)"

definition path_join :: "string list \<Rightarrow> string" where
  "path_join args =
     (let parts = filter (\<lambda>a. a \<noteq> '''') args
      in if parts = [] then ''.'' else path_normalize (join_with [slash] parts))"

text \<open>\<open>basename\<close>: the last segment, trailing slashes ignored.\<close>

definition path_basename :: "string \<Rightarrow> string" where
  "path_basename p =
     (let segs = filter (\<lambda>s. s \<noteq> '''') (split_on slash p)
      in if segs = [] then '''' else last segs)"

definition good_segment :: "string \<Rightarrow> bool" where
  "good_segment s \<longleftrightarrow> s \<noteq> '''' \<and> s \<noteq> ''.'' \<and> s \<noteq> ''..'' \<and> slash \<notin> set s"

lemma norm_segments_good:
  assumes "\<forall>s \<in> set ss. slash \<notin> set s" "\<forall>s \<in> set acc. good_segment s"
  shows "\<forall>s \<in> set (norm_segments acc ss). good_segment s"
  using assms
proof (induction acc ss rule: norm_segments.induct)
  case (2 acc s ss)
  have tl: "\<forall>s \<in> set (tl acc). good_segment s"
    using "2.prems" by (cases acc) auto
  consider "s = '''' \<or> s = ''.''" | "s = ''..''" | "good_segment s"
    using "2.prems" by (auto simp: good_segment_def)
  then show ?case
  proof cases
    case 1
    with 2 show ?thesis by simp
  next
    case 2
    with "2.IH"(2) "2.prems" tl show ?thesis by simp
  next
    case 3
    then have "\<not> (s = '''' \<or> s = ''.'')" "s \<noteq> ''..''" by (auto simp: good_segment_def)
    with "2.IH"(3) "2.prems" 3 show ?thesis by simp
  qed
qed simp

lemma norm_segments_id:
  "\<forall>s \<in> set ss. good_segment s \<Longrightarrow> norm_segments acc ss = rev acc @ ss"
  by (induction acc ss rule: norm_segments.induct) (auto simp: good_segment_def)

lemma resolve_absolute_segments:
  "\<forall>s \<in> set (norm_segments [] (split_on slash p)). good_segment s"
  by (rule norm_segments_good) (auto dest: split_on_no_sep)

lemma split_resolve_absolute:
  "norm_segments [] (split_on slash (resolve_absolute p)) = norm_segments [] (split_on slash p)"
proof -
  let ?ss = "norm_segments [] (split_on slash p)"
  have good: "\<forall>s \<in> set ?ss. good_segment s" by (rule resolve_absolute_segments)
  show ?thesis
  proof (cases "?ss = []")
    case True
    then show ?thesis by (simp add: resolve_absolute_def)
  next
    case False
    with good have "split_on slash (join_with [slash] ?ss) = ?ss"
      by (intro split_join) (auto simp: good_segment_def)
    with good show ?thesis
      by (simp add: resolve_absolute_def norm_segments_id)
  qed
qed

lemma resolve_absolute_idem: "resolve_absolute (resolve_absolute p) = resolve_absolute p"
  by (simp add: resolve_absolute_def[of "resolve_absolute p"] split_resolve_absolute)
    (simp add: resolve_absolute_def)

lemma resolve_absolute_is_absolute [simp]: "is_absolute (resolve_absolute p)"
  by (simp add: resolve_absolute_def is_absolute_def starts_with_def)

lemma path_resolve_is_absolute [simp]: "is_absolute (path_resolve h p)"
  by (simp add: path_resolve_def)

lemma path_resolve2_is_absolute [simp]: "is_absolute (path_resolve2 h b p)"
  by (simp add: path_resolve2_def)

lemma path_resolve_idem: "path_resolve h (path_resolve h p) = path_resolve h p"
  by (simp add: path_resolve_def[of h "path_resolve h p"])
    (simp add: path_resolve_def resolve_absolute_idem)

section \<open>match.ts: expansion and normalisation\<close>

definition expandTilde :: "host_env \<Rightarrow> string \<Rightarrow> string" where
  "expandTilde h raw =
     (if raw = ''~'' then he_home h
      else if starts_with raw ''~/'' then path_resolve2 h (he_home h) (drop 2 raw)
      else raw)"

definition safeRealpath :: "host_env \<Rightarrow> string \<Rightarrow> string" where
  "safeRealpath h path = (case he_realpath h path of None \<Rightarrow> path | Some r \<Rightarrow> r)"

definition stripTrailingSlash :: "string \<Rightarrow> string" where
  "stripTrailingSlash path =
     (if 1 < length path \<and> ends_with path ''/'' then butlast path else path)"

definition expandPath :: "host_env \<Rightarrow> string \<Rightarrow> string" where
  "expandPath h raw =
     (let expanded = expandTilde h raw
      in if is_absolute expanded then expanded else path_resolve h expanded)"

definition normalizePath :: "host_env \<Rightarrow> string \<Rightarrow> string" where
  "normalizePath h raw = stripTrailingSlash (safeRealpath h (expandPath h raw))"

lemma expandPath_is_absolute [simp]: "is_absolute (expandPath h raw)"
  by (simp add: expandPath_def Let_def)

lemma expandPath_absolute:
  assumes "is_absolute raw"
  shows "expandPath h raw = raw"
proof -
  obtain r where "raw = slash # r"
    using assms by (auto simp: is_absolute_def starts_with_iff)
  then show ?thesis
    by (simp add: expandPath_def expandTilde_def starts_with_def is_absolute_def)
qed

lemma expandPath_idem [simp]: "expandPath h (expandPath h raw) = expandPath h raw"
  by (simp add: expandPath_absolute)

section \<open>match.ts: host and container paths\<close>

text \<open>
  \<open>String.prototype.trim\<close> on the ASCII white space, and \<open>AIS_HOST_HOME\<close> with its fallback:
  an unset or blank variable falls back to the local home (\<open>||\<close>).
\<close>

definition is_space :: "char \<Rightarrow> bool" where
  "is_space c \<longleftrightarrow> c \<in> {CHR '' '', CHR 0x09, CHR 0x0A, CHR 0x0B, CHR 0x0C, CHR 0x0D}"

definition js_trim :: "string \<Rightarrow> string" where
  "js_trim s = rev (dropWhile is_space (rev (dropWhile is_space s)))"

definition env_or :: "string option \<Rightarrow> string \<Rightarrow> string" where
  "env_or v d = (case v of None \<Rightarrow> d | Some s \<Rightarrow> (if js_trim s = '''' then d else js_trim s))"

definition defaultLocalHome :: "host_env \<Rightarrow> string" where
  "defaultLocalHome h = stripTrailingSlash (env_or (he_env h ''HOME'') (he_home h))"

definition hostHomeOf :: "(string \<Rightarrow> string option) \<Rightarrow> string \<Rightarrow> string" where
  "hostHomeOf env localHome = stripTrailingSlash (env_or (env ''AIS_HOST_HOME'') localHome)"

definition translateHostPath :: "string \<Rightarrow> (string \<Rightarrow> string option) \<Rightarrow> string \<Rightarrow> string" where
  "translateHostPath raw env localHome =
     (let hostHome = hostHomeOf env localHome
      in if hostHome = localHome \<or> hostHome = '''' then raw
         else if raw = hostHome then localHome
         else if starts_with raw (hostHome @ ''/'') then localHome @ drop (length hostHome) raw
         else raw)"

definition untranslateHostPath :: "string \<Rightarrow> (string \<Rightarrow> string option) \<Rightarrow> string \<Rightarrow> string" where
  "untranslateHostPath raw env localHome =
     (let hostHome = hostHomeOf env localHome
      in if hostHome = localHome \<or> hostHome = '''' then raw
         else if raw = localHome then hostHome
         else if starts_with raw (localHome @ ''/'') then hostHome @ drop (length localHome) raw
         else raw)"

text \<open>The paths a home covers: itself and everything below it.\<close>

definition under_home :: "string \<Rightarrow> string \<Rightarrow> bool" where
  "under_home home p \<longleftrightarrow> p = home \<or> starts_with p (home @ ''/'')"

lemma translateHostPath_under:
  assumes "hostHomeOf env l \<noteq> l" "hostHomeOf env l \<noteq> ''''"
  shows "translateHostPath (hostHomeOf env l @ r) env l =
    (if r = '''' \<or> starts_with r ''/'' then l @ r else hostHomeOf env l @ r)"
  using assms by (auto simp: translateHostPath_def Let_def starts_with_iff)

lemma untranslateHostPath_under:
  assumes "hostHomeOf env l \<noteq> l" "hostHomeOf env l \<noteq> ''''"
  shows "untranslateHostPath (l @ r) env l =
    (if r = '''' \<or> starts_with r ''/'' then hostHomeOf env l @ r else l @ r)"
  using assms by (auto simp: untranslateHostPath_def Let_def starts_with_iff)

lemma under_home_iff: "under_home home p \<longleftrightarrow> (\<exists>r. p = home @ r \<and> (r = '''' \<or> starts_with r ''/''))"
  by (auto simp: under_home_def starts_with_iff)

lemma translateHostPath_outside:
  "\<not> under_home (hostHomeOf env l) p \<Longrightarrow> translateHostPath p env l = p"
  by (simp add: translateHostPath_def under_home_def Let_def)

lemma untranslateHostPath_outside:
  "\<not> under_home l p \<Longrightarrow> untranslateHostPath p env l = p"
  by (simp add: untranslateHostPath_def under_home_def Let_def)

lemma translate_trivial:
  "hostHomeOf env l = l \<or> hostHomeOf env l = '''' \<Longrightarrow>
     translateHostPath p env l = p \<and> untranslateHostPath p env l = p"
  by (auto simp: translateHostPath_def untranslateHostPath_def Let_def)

lemma translate_untranslate:
  assumes "under_home l p \<or> \<not> under_home (hostHomeOf env l) p"
  shows "translateHostPath (untranslateHostPath p env l) env l = p"
proof (cases "hostHomeOf env l = l \<or> hostHomeOf env l = ''''")
  case True
  then show ?thesis by (simp add: translate_trivial)
next
  case False
  then show ?thesis
  proof (cases "under_home l p")
    case True
    then obtain r where "p = l @ r" "r = '''' \<or> starts_with r ''/''"
      by (auto simp: under_home_iff)
    with False show ?thesis
      by (simp add: untranslateHostPath_under translateHostPath_under)
  next
    case out: False
    with assms show ?thesis
      by (simp add: untranslateHostPath_outside translateHostPath_outside)
  qed
qed

end
