(* ===== verification/Identity_Model.thy ===== *)
theory Identity_Model
  imports Host_Path
begin

text \<open>
  The data of \<open>src/identities/types.ts\<close>, the error classes of \<open>errors.ts\<close>, the tool table of
  \<open>tool-configs.ts\<close> and the retirement rules of \<open>retired.ts\<close>.
\<close>

section \<open>types.ts\<close>

record swap_pool =
  sp_accounts :: "string list"
  sp_active :: "string option"
  sp_disallowed :: "string list option"
  sp_auto :: "bool option"
  sp_thresholdPercent :: "rat option"

record identity =
  i_name :: string
  i_label :: string
  i_description :: "string option"
  i_configDir :: string
  i_directories :: "string list option"
  i_aliases :: "string list option"
  i_colour :: "string option"
  i_env :: "(string \<times> string) list option"
  i_retired :: "bool option"
  i_retiredAt :: "string option"
  i_unretiredAt :: "string option"
  i_swapPool :: "swap_pool option"

record chrome_override =
  co_directories :: "string list"
  co_targetIdentity :: string
  co_label :: "string option"

record identities_file =
  f_identities :: "identity list"
  f_chromeProfileOverrides :: "chrome_override list option"

datatype tool_name = Claude | Codex | Grok | Kimi | Zai | Ali | Pi | Opencode

datatype memory_projection =
    Claude_Append_File | Codex_Developer_Instructions | Grok_Rules | Kimi_Global_Agents
  | Pi_Append_File | Opencode_Config_Content | Crush_Global_Context

record tool_config =
  tc_toolName :: tool_name
  tc_realBinaryName :: string
  tc_envVarName :: string
  tc_extraEnvVarNames :: "(string \<times> string option) list"
  tc_globalMemoryProjection :: memory_projection
  tc_singleInstanceDir :: "string option"
  tc_identitiesJsonPath :: string
  tc_identitiesRootDir :: string

datatype picker_mode = Pick_Identity | Pick_Pool

record resolve_options =
  ro_explicitIdentityFlag :: "string option"
  ro_explicitPoolFlag :: "string option"
  ro_pickerMode :: "picker_mode option"
  ro_cwd :: string
  ro_env :: "string \<Rightarrow> string option"
  ro_nonInteractiveHint :: bool

datatype resolve_source =
    Flag | Env | Directory_Match | Interactive_Existing | Interactive_Created | Single_Instance

record resolved_identity =
  ri_identity :: "identity option"
  ri_configDirValue :: string
  ri_source :: resolve_source

section \<open>errors.ts\<close>

text \<open>What a registry file can have wrong, one constructor per \<open>throw\<close> of \<open>store.ts\<close>.\<close>

datatype file_problem =
    Not_An_Object | Unsupported_Version | Missing_Identities
  | Entry_Not_Object nat | Entry_Without_Name nat
  | Bad_Field string string
  | Bad_Pattern string string
  | Pool_Problem string string
  | Duplicate_Key string
  | Overrides_Not_Array | Bad_Override nat string

datatype error =
    UnknownIdentityError string "string list"
  | UnknownPoolError string "string list"
  | RetiredIdentityError tool_name string
  | InvalidIdentitiesFileError file_problem
  | NonInteractiveResolutionError
  | PromptTimeoutError tool_name
  | PromptCancelledError tool_name
  | SwapPoolError string
  | OtherError string

fun error_code :: "error \<Rightarrow> string option" where
  "error_code (UnknownIdentityError _ _) = Some ''UNKNOWN_IDENTITY''"
| "error_code (UnknownPoolError _ _) = Some ''UNKNOWN_POOL''"
| "error_code (RetiredIdentityError _ _) = Some ''RETIRED_IDENTITY''"
| "error_code (InvalidIdentitiesFileError _) = Some ''INVALID_IDENTITIES_FILE''"
| "error_code NonInteractiveResolutionError = Some ''NON_INTERACTIVE_RESOLUTION''"
| "error_code (PromptTimeoutError _) = Some ''PROMPT_TIMEOUT''"
| "error_code (PromptCancelledError _) = Some ''PROMPT_CANCELLED''"
| "error_code (SwapPoolError _) = None"
| "error_code (OtherError _) = None"

section \<open>tool-configs.ts\<close>

definition CLAUDE_CONFIG :: "string \<Rightarrow> tool_config" where
  "CLAUDE_CONFIG homedir =
     \<lparr> tc_toolName = Claude, tc_realBinaryName = ''claude'', tc_envVarName = ''CLAUDE_CONFIG_DIR'',
       tc_extraEnvVarNames = [], tc_globalMemoryProjection = Claude_Append_File,
       tc_singleInstanceDir = None,
       tc_identitiesJsonPath = path_join [homedir, ''.claude'', ''identities.json''],
       tc_identitiesRootDir = path_join [homedir, ''.claude'', ''identities''] \<rparr>"

definition CODEX_CONFIG :: "string \<Rightarrow> tool_config" where
  "CODEX_CONFIG homedir =
     \<lparr> tc_toolName = Codex, tc_realBinaryName = ''codex'', tc_envVarName = ''CODEX_HOME'',
       tc_extraEnvVarNames = [], tc_globalMemoryProjection = Codex_Developer_Instructions,
       tc_singleInstanceDir = None,
       tc_identitiesJsonPath = path_join [homedir, ''.codex'', ''identities.json''],
       tc_identitiesRootDir = path_join [homedir, ''.codex'', ''identities''] \<rparr>"

definition GROK_CONFIG :: "string \<Rightarrow> tool_config" where
  "GROK_CONFIG homedir =
     \<lparr> tc_toolName = Grok, tc_realBinaryName = ''grok'', tc_envVarName = ''GROK_HOME'',
       tc_extraEnvVarNames = [], tc_globalMemoryProjection = Grok_Rules,
       tc_singleInstanceDir = None,
       tc_identitiesJsonPath = path_join [homedir, ''.grok'', ''identities.json''],
       tc_identitiesRootDir = path_join [homedir, ''.grok'', ''identities''] \<rparr>"

definition KIMI_CONFIG :: "string \<Rightarrow> tool_config" where
  "KIMI_CONFIG homedir =
     \<lparr> tc_toolName = Kimi, tc_realBinaryName = ''kimi'', tc_envVarName = ''KIMI_CODE_HOME'',
       tc_extraEnvVarNames = [], tc_globalMemoryProjection = Kimi_Global_Agents,
       tc_singleInstanceDir = None,
       tc_identitiesJsonPath = path_join [homedir, ''.kimi-code'', ''identities.json''],
       tc_identitiesRootDir = path_join [homedir, ''.kimi-code'', ''identities''] \<rparr>"

definition PI_CONFIG :: "string \<Rightarrow> tool_config" where
  "PI_CONFIG homedir =
     \<lparr> tc_toolName = Pi, tc_realBinaryName = ''pi'', tc_envVarName = ''PI_CODING_AGENT_DIR'',
       tc_extraEnvVarNames = [], tc_globalMemoryProjection = Pi_Append_File,
       tc_singleInstanceDir = Some (path_join [homedir, ''.pi'', ''agent'']),
       tc_identitiesJsonPath = path_join [homedir, ''.pi'', ''identities.json''],
       tc_identitiesRootDir = path_join [homedir, ''.pi'', ''identities''] \<rparr>"

definition OPENCODE_CONFIG :: "string \<Rightarrow> tool_config" where
  "OPENCODE_CONFIG homedir =
     \<lparr> tc_toolName = Opencode, tc_realBinaryName = ''opencode'',
       tc_envVarName = ''OPENCODE_CONFIG_DIR'',
       tc_extraEnvVarNames = [(''XDG_DATA_HOME'', Some ''data''), (''XDG_CACHE_HOME'', Some ''cache''),
                              (''XDG_STATE_HOME'', Some ''state'')],
       tc_globalMemoryProjection = Opencode_Config_Content,
       tc_singleInstanceDir = None,
       tc_identitiesJsonPath = path_join [homedir, ''.opencode'', ''identities.json''],
       tc_identitiesRootDir = path_join [homedir, ''.opencode'', ''identities''] \<rparr>"

definition ZAI_CONFIG :: "string \<Rightarrow> tool_config" where
  "ZAI_CONFIG homedir =
     \<lparr> tc_toolName = Zai, tc_realBinaryName = ''crush'', tc_envVarName = ''CRUSH_GLOBAL_CONFIG'',
       tc_extraEnvVarNames = [(''CRUSH_GLOBAL_DATA'', Some ''data'')],
       tc_globalMemoryProjection = Crush_Global_Context,
       tc_singleInstanceDir = None,
       tc_identitiesJsonPath = path_join [homedir, ''.zai'', ''identities.json''],
       tc_identitiesRootDir = path_join [homedir, ''.zai'', ''identities''] \<rparr>"

definition ALI_CONFIG :: "string \<Rightarrow> tool_config" where
  "ALI_CONFIG homedir =
     \<lparr> tc_toolName = Ali, tc_realBinaryName = ''crush'', tc_envVarName = ''ALI_CONFIG_DIR'',
       tc_extraEnvVarNames = [(''CRUSH_GLOBAL_CONFIG'', None), (''CRUSH_GLOBAL_DATA'', Some ''data'')],
       tc_globalMemoryProjection = Crush_Global_Context,
       tc_singleInstanceDir = None,
       tc_identitiesJsonPath = path_join [homedir, ''.ali'', ''identities.json''],
       tc_identitiesRootDir = path_join [homedir, ''.ali'', ''identities''] \<rparr>"

definition all_tool_configs :: "string \<Rightarrow> tool_config list" where
  "all_tool_configs homedir =
     [CLAUDE_CONFIG homedir, CODEX_CONFIG homedir, GROK_CONFIG homedir, KIMI_CONFIG homedir,
      PI_CONFIG homedir, OPENCODE_CONFIG homedir, ZAI_CONFIG homedir, ALI_CONFIG homedir]"

lemmas tool_config_defs =
  CLAUDE_CONFIG_def CODEX_CONFIG_def GROK_CONFIG_def KIMI_CONFIG_def PI_CONFIG_def
  OPENCODE_CONFIG_def ZAI_CONFIG_def ALI_CONFIG_def all_tool_configs_def

text \<open>
  \<open>open.ts\<close> and step (b) of \<open>resolve.ts\<close> tell the tools apart by this variable, which is why
  \<open>ali\<close> does not reuse the one of \<open>zai\<close>.
\<close>

lemma tool_env_vars_distinct: "distinct (map tc_envVarName (all_tool_configs homedir))"
  by (simp add: tool_config_defs)

section \<open>retired.ts\<close>

definition isRetired :: "identity \<Rightarrow> bool" where
  "isRetired i \<longleftrightarrow> i_retired i = Some True"

definition activeIdentities :: "identity list \<Rightarrow> identity list" where
  "activeIdentities list = filter (\<lambda>i. \<not> isRetired i) list"

text \<open>The instant is the string \<open>now.toISOString()\<close>.\<close>

definition retireIdentityFields :: "identity \<Rightarrow> string \<Rightarrow> identity" where
  "retireIdentityFields i now =
     i\<lparr> i_retired := Some True, i_retiredAt := Some now, i_unretiredAt := None \<rparr>"

definition unretireIdentityFields :: "identity \<Rightarrow> string \<Rightarrow> identity" where
  "unretireIdentityFields i now =
     i\<lparr> i_retired := None, i_retiredAt := None, i_unretiredAt := Some now \<rparr>"

definition lastRetirementEventMs :: "(string \<Rightarrow> int option) \<Rightarrow> identity \<Rightarrow> int option" where
  "lastRetirementEventMs parse i =
     (let times = List.map_filter parse (List.map_filter id [i_retiredAt i, i_unretiredAt i])
      in if times \<noteq> [] then Some (list_max times) else None)"

definition strip_slashes :: "string \<Rightarrow> string" where
  "strip_slashes p = rev (dropWhile (\<lambda>c. c = slash) (rev p))"

definition normaliseDir :: "host_env \<Rightarrow> string \<Rightarrow> string" where
  "normaliseDir h dir =
     (let resolved = path_resolve h dir
      in if 1 < length resolved then strip_slashes resolved else resolved)"

definition findRetiredByConfigDir :: "host_env \<Rightarrow> identity list \<Rightarrow> string \<Rightarrow> identity option" where
  "findRetiredByConfigDir h identities configDir =
     (let target = normaliseDir h configDir
      in find (\<lambda>i. isRetired i \<and> normaliseDir h (i_configDir i) = target) identities)"

lemma isRetired_retire [simp]: "isRetired (retireIdentityFields i now)"
  by (simp add: isRetired_def retireIdentityFields_def)

lemma isRetired_unretire [simp]: "\<not> isRetired (unretireIdentityFields i now)"
  by (simp add: isRetired_def unretireIdentityFields_def)

lemma retire_unretire_name [simp]:
  "i_name (retireIdentityFields i now) = i_name i"
  "i_name (unretireIdentityFields i now) = i_name i"
  "i_aliases (retireIdentityFields i now) = i_aliases i"
  "i_aliases (unretireIdentityFields i now) = i_aliases i"
  "i_configDir (retireIdentityFields i now) = i_configDir i"
  "i_configDir (unretireIdentityFields i now) = i_configDir i"
  by (simp_all add: retireIdentityFields_def unretireIdentityFields_def)

lemma lastRetirementEventMs_retire [simp]:
  "lastRetirementEventMs parse (retireIdentityFields i now) = parse now"
  by (simp add: lastRetirementEventMs_def retireIdentityFields_def map_filter_simps list_max_def
      split: option.splits)

lemma lastRetirementEventMs_unretire [simp]:
  "lastRetirementEventMs parse (unretireIdentityFields i now) = parse now"
  by (simp add: lastRetirementEventMs_def unretireIdentityFields_def map_filter_simps list_max_def
      split: option.splits)

lemma activeIdentities_set [simp]:
  "set (activeIdentities xs) = {i \<in> set xs. \<not> isRetired i}"
  by (auto simp: activeIdentities_def)

lemma findRetiredByConfigDir_Some:
  "findRetiredByConfigDir h ids d = Some i \<Longrightarrow>
     i \<in> set ids \<and> isRetired i \<and> normaliseDir h (i_configDir i) = normaliseDir h d"
  by (auto simp: findRetiredByConfigDir_def Let_def dest: find_Some_set)

lemma findRetiredByConfigDir_None:
  "findRetiredByConfigDir h ids d = None \<longleftrightarrow>
     (\<forall>i \<in> set ids. isRetired i \<longrightarrow> normaliseDir h (i_configDir i) \<noteq> normaliseDir h d)"
  by (auto simp: findRetiredByConfigDir_def Let_def find_None_iff)

end
