(* ===== verification/Directory_Match.thy ===== *)
theory Directory_Match
  imports Identity_Model "HOL-Library.Sublist"
begin

text \<open>
  Directory patterns: \<open>parseDirectoryPattern\<close>, \<open>scorePattern\<close>, \<open>patternMatches\<close> and
  \<open>matchDirectory\<close> of \<open>src/identities/match.ts\<close>, and the Chrome override lookup of
  \<open>src/identities/chrome-profile.ts\<close>. The two nested loops of \<open>matchDirectory\<close> are compared
  with a declarative selection of the best bindings.
\<close>

section \<open>Patterns\<close>

datatype pattern_kind = Exact | Recursive

record parsed_pattern =
  pp_raw :: string
  pp_kind :: pattern_kind
  pp_base :: string

definition parseDirectoryPattern :: "host_env \<Rightarrow> string \<Rightarrow> string \<Rightarrow> error + parsed_pattern" where
  "parseDirectoryPattern h raw ctxt =
     (if CHR ''*'' \<notin> set raw
      then Inr \<lparr> pp_raw = raw, pp_kind = Exact, pp_base = normalizePath h raw \<rparr>
      else if ends_with raw ''/*'' \<and> CHR ''*'' \<notin> set (butlast raw)
      then let withoutStar = (if butlast (butlast raw) = '''' then ''/'' else butlast (butlast raw))
           in Inr \<lparr> pp_raw = raw, pp_kind = Recursive, pp_base = normalizePath h withoutStar \<rparr>
      else Inl (InvalidIdentitiesFileError (Bad_Pattern ctxt raw)))"

definition is_key_char :: "char \<Rightarrow> bool" where
  "is_key_char c =
     (let n = of_char c :: nat in (97 \<le> n \<and> n \<le> 122) \<or> (48 \<le> n \<and> n \<le> 57))"

text \<open>\<open>/^[a-z0-9]+(-[a-z0-9]+)*$/\<close>: non-empty groups of such characters between hyphens.\<close>

definition isValidIdentityKey :: "string \<Rightarrow> bool" where
  "isValidIdentityKey v = list_all (\<lambda>w. w \<noteq> [] \<and> list_all is_key_char w) (split_on (CHR ''-'') v)"

definition segmentCount :: "string \<Rightarrow> nat" where
  "segmentCount path = length (filter (\<lambda>s. s \<noteq> '''') (split_on slash path))"

definition scorePattern :: "parsed_pattern \<Rightarrow> int" where
  "scorePattern p =
     (let segments = int (segmentCount (pp_base p))
      in if pp_kind p = Exact then segments * 2 + 1 else segments * 2)"

definition patternMatches :: "string \<Rightarrow> parsed_pattern \<Rightarrow> bool" where
  "patternMatches normalizedCwd p =
     (if pp_kind p = Exact then normalizedCwd = pp_base p
      else normalizedCwd = pp_base p \<or> starts_with normalizedCwd (pp_base p @ ''/''))"

lemma scorePattern_nonneg [simp]: "0 \<le> scorePattern p"
  by (simp add: scorePattern_def Let_def)

subsection \<open>What a pattern covers\<close>

text \<open>
  The comparison of strings in \<open>patternMatches\<close> against the containment of directories, on
  canonical paths (those \<open>resolve\<close> leaves alone), read as lists of segments.
\<close>

definition segments :: "string \<Rightarrow> string list" where
  "segments p = norm_segments [] (split_on slash p)"

definition canonical :: "string \<Rightarrow> bool" where
  "canonical p \<longleftrightarrow> resolve_absolute p = p"

lemma canonical_eq: "canonical p \<Longrightarrow> p = slash # join_with [slash] (segments p)"
  by (simp add: canonical_def resolve_absolute_def segments_def)

lemma segments_good: "s \<in> set (segments p) \<Longrightarrow> good_segment s"
  using resolve_absolute_segments[of p] by (simp add: segments_def)

lemma canonical_inj: "canonical p \<Longrightarrow> canonical q \<Longrightarrow> p = q \<longleftrightarrow> segments p = segments q"
  using canonical_eq by metis

lemma split_canonical:
  assumes "canonical p"
  shows "split_on slash p = '''' # (if segments p = [] then [''''] else segments p)"
proof (cases "segments p = []")
  case True
  then show ?thesis using canonical_eq[OF assms] by simp
next
  case False
  have "split_on slash (join_with [slash] (segments p)) = segments p"
    using False segments_good[of _ p] by (intro split_join) (auto simp: good_segment_def)
  then have "split_on slash (slash # join_with [slash] (segments p)) = '''' # segments p" by simp
  then show ?thesis using False canonical_eq[OF assms] by metis
qed

lemma segmentCount_canonical: "canonical p \<Longrightarrow> segmentCount p = length (segments p)"
proof -
  assume p: "canonical p"
  have "filter (\<lambda>s. s \<noteq> '''') (segments p) = segments p"
    by (rule filter_True) (auto dest: segments_good simp: good_segment_def)
  then show ?thesis by (auto simp: segmentCount_def split_canonical[OF p])
qed

lemma join_with_append:
  "xs \<noteq> [] \<Longrightarrow> ys \<noteq> [] \<Longrightarrow> join_with s (xs @ ys) = join_with s xs @ s @ join_with s ys"
  by (induction s xs rule: join_with.induct) (auto simp: join_with_Cons)

lemma below_base_iff:
  assumes "canonical c" "canonical b" "segments b \<noteq> []"
  shows "starts_with c (b @ ''/'') \<longleftrightarrow> strict_prefix (segments b) (segments c)"
proof
  assume "starts_with c (b @ ''/'')"
  then obtain r where c: "c = b @ slash # r" by (auto simp: starts_with_iff)
  then have "split_on slash c = split_on slash b @ split_on slash r"
    by (simp add: split_on_append_sep)
  then have eq: "(if segments c = [] then [''''] else segments c) = segments b @ split_on slash r"
    using assms by (simp add: split_canonical)
  have "segments c \<noteq> []"
  proof
    assume "segments c = []"
    with eq have "length (segments b @ split_on slash r) = Suc 0" by (metis length_Cons list.size(3))
    moreover have "0 < length (segments b)" "0 < length (split_on slash r)" using assms(3) by simp_all
    ultimately show False by simp
  qed
  with eq have "segments c = segments b @ split_on slash r" by simp
  then show "strict_prefix (segments b) (segments c)" by (simp add: strict_prefix_def)
next
  assume "strict_prefix (segments b) (segments c)"
  then obtain rest where rest: "segments c = segments b @ rest" "rest \<noteq> []"
    by (auto simp: strict_prefix_def prefix_def)
  have "c = slash # join_with [slash] (segments b @ rest)"
    using canonical_eq[OF assms(1)] rest by simp
  also have "\<dots> = (slash # join_with [slash] (segments b)) @ ''/'' @ join_with [slash] rest"
    using rest assms(3) by (simp add: join_with_append)
  also have "\<dots> = b @ ''/'' @ join_with [slash] rest"
    using canonical_eq[OF assms(2)] by simp
  finally show "starts_with c (b @ ''/'')" by (auto simp: starts_with_iff)
qed

lemma canonical_root_segments: "canonical p \<Longrightarrow> segments p = [] \<longleftrightarrow> p = ''/''"
  using canonical_eq[of p] by (auto simp: segments_def)

text \<open>A recursive pattern on a directory other than the root covers exactly that directory and
  everything beneath it; an exact pattern covers exactly its directory. Directories are
  compared segment by segment, so a sibling whose name merely starts with the same letters
  is never covered.\<close>

theorem patternMatches_covers:
  assumes "canonical cwd" "canonical (pp_base p)" "pp_kind p = Recursive \<Longrightarrow> pp_base p \<noteq> ''/''"
  shows "patternMatches cwd p \<longleftrightarrow>
    (case pp_kind p of Exact \<Rightarrow> segments cwd = segments (pp_base p)
     | Recursive \<Rightarrow> prefix (segments (pp_base p)) (segments cwd))"
proof (cases "pp_kind p")
  case Exact
  then show ?thesis using canonical_inj[OF assms(1,2)] by (simp add: patternMatches_def)
next
  case Recursive
  then have "segments (pp_base p) \<noteq> []" using assms(2,3) canonical_root_segments by blast
  from below_base_iff[OF assms(1,2) this] Recursive show ?thesis
    using canonical_inj[OF assms(1,2)]
    by (auto simp: patternMatches_def strict_prefix_def)
qed

theorem patternMatches_covers_witness:
  "patternMatches ''/a/b'' \<lparr> pp_raw = ''/a/*'', pp_kind = Recursive, pp_base = ''/a'' \<rparr>"
  using patternMatches_covers[of "''/a/b''" "\<lparr> pp_raw = ''/a/*'', pp_kind = Recursive, pp_base = ''/a'' \<rparr>"]
  by (simp add: canonical_def resolve_absolute_def segments_def)

text \<open>The pattern \<open>/*\<close>, which the grammar accepts and the parser maps to the root directory on
  purpose, covers the root only and nothing beneath it: the comparison appends a slash to a
  base that already ends in one.\<close>

theorem root_pattern_covers_root_only:
  assumes "he_realpath h ''/'' \<in> {None, Some ''/''}" "canonical cwd"
  shows "\<exists>p. parseDirectoryPattern h ''/*'' ctxt = Inr p \<and> pp_kind p = Recursive \<and>
    (patternMatches cwd p \<longleftrightarrow> cwd = ''/'')"
proof -
  have base: "normalizePath h ''/'' = ''/''"
    using assms(1) by (auto simp: normalizePath_def expandPath_absolute is_absolute_def
        starts_with_def safeRealpath_def stripTrailingSlash_def)
  have "\<not> starts_with cwd ''//''"
  proof
    assume "starts_with cwd ''//''"
    then obtain r where "cwd = [] @ slash # ([] @ slash # r)" by (auto simp: starts_with_iff)
    then have "split_on slash cwd = [''''] @ [''''] @ split_on slash r"
      by (metis split_on_append_sep split_on.simps(1))
    then have eq: "(if segments cwd = [] then [''''] else segments cwd) = '''' # split_on slash r"
      using split_canonical[OF assms(2)] by simp
    show False
    proof (cases "segments cwd = []")
      case False
      with eq have "'''' \<in> set (segments cwd)" by simp
      then show False using segments_good by (auto simp: good_segment_def)
    qed (use eq in auto)
  qed
  with base show ?thesis
    by (auto simp: parseDirectoryPattern_def ends_with_def patternMatches_def)
qed

theorem root_pattern_covers_root_only_witness:
  "\<exists>p. parseDirectoryPattern \<lparr> he_home = ''/h'', he_cwd = ''/'', he_env = (\<lambda>_. None),
        he_realpath = (\<lambda>_. None), he_date_parse = (\<lambda>_. None) \<rparr> ''/*'' ''c'' = Inr p \<and>
     pp_kind p = Recursive \<and> \<not> patternMatches ''/work'' p"
  using root_pattern_covers_root_only[of "\<lparr> he_home = ''/h'', he_cwd = ''/'', he_env = (\<lambda>_. None),
        he_realpath = (\<lambda>_. None), he_date_parse = (\<lambda>_. None) \<rparr>" "''/work''" "''c''"]
  by (auto simp: canonical_def resolve_absolute_def)

section \<open>matchDirectory\<close>

datatype match_result = No_Match | Unique identity string | Ambiguous "identity list"

type_synonym binding = "identity \<times> string"
type_synonym match_state = "int \<times> binding list"

definition identity_context :: "identity \<Rightarrow> string" where
  "identity_context i = ''identity '' @ [CHR 0x22] @ i_name i @ [CHR 0x22]"

text \<open>The body of the inner loop.\<close>

definition match_step :: "host_env \<Rightarrow> string \<Rightarrow> identity \<Rightarrow> string \<Rightarrow> match_state \<Rightarrow> error + match_state" where
  "match_step h normalizedCwd i raw st =
     bind_r (parseDirectoryPattern h raw (identity_context i)) (\<lambda>parsed.
       case st of (bestScore, bestMatches) \<Rightarrow>
         if \<not> patternMatches normalizedCwd parsed then Inr (bestScore, bestMatches)
         else let score = scorePattern parsed
              in if bestScore < score then Inr (score, [(i, raw)])
                 else if score = bestScore then
                   Inr (bestScore, if \<exists>m \<in> set bestMatches. i_name (fst m) = i_name i then bestMatches
                                   else bestMatches @ [(i, raw)])
                 else Inr (bestScore, bestMatches))"

definition match_identity :: "host_env \<Rightarrow> string \<Rightarrow> identity \<Rightarrow> match_state \<Rightarrow> error + match_state" where
  "match_identity h normalizedCwd i st =
     loop_r (match_step h normalizedCwd i) (default [] (i_directories i)) st"

fun match_outcome :: "binding list \<Rightarrow> match_result" where
  "match_outcome [] = No_Match"
| "match_outcome [(i, raw)] = Unique i raw"
| "match_outcome ms = Ambiguous (map fst ms)"

definition matchDirectory :: "host_env \<Rightarrow> string \<Rightarrow> identity list \<Rightarrow> error + match_result" where
  "matchDirectory h cwd identities =
     map_r (\<lambda>(_, bestMatches). match_outcome bestMatches)
       (loop_r (match_identity h (normalizePath h cwd)) identities (-1, []))"

subsection \<open>The declarative selection\<close>

definition bindings :: "identity list \<Rightarrow> binding list" where
  "bindings ids = concat (map (\<lambda>i. map (Pair i) (default [] (i_directories i))) ids)"

definition pattern_of :: "host_env \<Rightarrow> binding \<Rightarrow> error + parsed_pattern" where
  "pattern_of h b = parseDirectoryPattern h (snd b) (identity_context (fst b))"

definition binding_hit :: "host_env \<Rightarrow> string \<Rightarrow> binding \<Rightarrow> bool" where
  "binding_hit h c b = (case pattern_of h b of Inl _ \<Rightarrow> False | Inr p \<Rightarrow> patternMatches c p)"

definition binding_score :: "host_env \<Rightarrow> binding \<Rightarrow> int" where
  "binding_score h b = (case pattern_of h b of Inl _ \<Rightarrow> 0 | Inr p \<Rightarrow> scorePattern p)"

primrec first_per_name :: "binding list \<Rightarrow> binding list" where
  "first_per_name [] = []"
| "first_per_name (b # bs) =
     b # filter (\<lambda>b'. i_name (fst b') \<noteq> i_name (fst b)) (first_per_name bs)"

definition best_hits :: "host_env \<Rightarrow> string \<Rightarrow> binding list \<Rightarrow> binding list" where
  "best_hits h c bs =
     (let hits = filter (binding_hit h c) bs
      in filter (\<lambda>b. \<forall>b' \<in> set hits. binding_score h b' \<le> binding_score h b) hits)"

definition selected_match :: "host_env \<Rightarrow> string \<Rightarrow> identity list \<Rightarrow> match_result" where
  "selected_match h cwd ids =
     match_outcome (first_per_name (best_hits h (normalizePath h cwd) (bindings ids)))"

lemma first_per_name_subset: "set (first_per_name bs) \<subseteq> set bs"
  by (induction bs) auto

lemma first_per_name_names:
  "(\<lambda>b. i_name (fst b)) ` set (first_per_name bs) = (\<lambda>b. i_name (fst b)) ` set bs"
proof (induction bs)
  case (Cons b bs)
  let ?n = "\<lambda>b. i_name (fst b)"
  have "?n ` set (first_per_name (b # bs)) = insert (?n b) (?n ` set (first_per_name bs) - {?n b})"
    by auto
  also have "\<dots> = insert (?n b) (?n ` set bs)" by (simp add: Cons.IH)
  finally show ?case by simp
qed simp

lemma first_per_name_distinct: "distinct (map (\<lambda>b. i_name (fst b)) (first_per_name bs))"
  by (induction bs) (auto simp: distinct_map inj_on_filter_key_eq inj_on_def)

lemma first_per_name_snoc:
  "first_per_name (bs @ [b]) =
     (if \<exists>b' \<in> set bs. i_name (fst b') = i_name (fst b) then first_per_name bs
      else first_per_name bs @ [b])"
  by (induction bs) auto

lemma first_per_name_has_name:
  "(\<exists>m \<in> set (first_per_name bs). i_name (fst m) = n) \<longleftrightarrow> (\<exists>m \<in> set bs. i_name (fst m) = n)"
proof -
  have "n \<in> (\<lambda>b. i_name (fst b)) ` set (first_per_name bs) \<longleftrightarrow> n \<in> (\<lambda>b. i_name (fst b)) ` set bs"
    by (simp only: first_per_name_names)
  then show ?thesis by (metis (mono_tags, lifting) image_iff)
qed

subsection \<open>The loops compute the selection\<close>

text \<open>The state after a prefix of the bindings: its best score and its best hits.\<close>

definition state_of :: "host_env \<Rightarrow> string \<Rightarrow> binding list \<Rightarrow> match_state" where
  "state_of h c bs =
     (case best_hits h c bs of [] \<Rightarrow> (-1, [])
      | b # _ \<Rightarrow> (binding_score h b, first_per_name (best_hits h c bs)))"

lemma best_hits_iff:
  "b \<in> set (best_hits h c bs) \<longleftrightarrow> b \<in> set bs \<and> binding_hit h c b \<and>
     (\<forall>b' \<in> set bs. binding_hit h c b' \<longrightarrow> binding_score h b' \<le> binding_score h b)"
  unfolding best_hits_def Let_def set_filter by blast

lemma best_hits_bound:
  assumes "b \<in> set (best_hits h c bs)" "b' \<in> set bs" "binding_hit h c b'"
  shows "binding_score h b' \<le> binding_score h b"
  using assms unfolding best_hits_iff by blast

lemma best_hits_score:
  assumes "b \<in> set (best_hits h c bs)" "b' \<in> set (best_hits h c bs)"
  shows "binding_score h b = binding_score h b'"
proof (rule antisym)
  show "binding_score h b \<le> binding_score h b'"
    using best_hits_bound[OF assms(2)] assms(1) unfolding best_hits_iff by blast
  show "binding_score h b' \<le> binding_score h b"
    using best_hits_bound[OF assms(1)] assms(2) unfolding best_hits_iff by blast
qed

lemma best_hits_Nil: "best_hits h c bs = [] \<longleftrightarrow> (\<forall>b \<in> set bs. \<not> binding_hit h c b)"
proof
  assume empty: "best_hits h c bs = []"
  show "\<forall>b \<in> set bs. \<not> binding_hit h c b"
  proof (rule ccontr)
    assume "\<not> ?thesis"
    then have "set (filter (binding_hit h c) bs) \<noteq> {}" by (simp only: set_filter) blast
    then have fin: "finite (binding_score h ` set (filter (binding_hit h c) bs))"
      and ne: "binding_score h ` set (filter (binding_hit h c) bs) \<noteq> {}" by auto
    obtain m where "m \<in> set (filter (binding_hit h c) bs)"
      "binding_score h m = Max (binding_score h ` set (filter (binding_hit h c) bs))"
      using Max_in[OF fin ne] by auto
    then have "m \<in> set (best_hits h c bs)"
      using Max_ge[OF fin] by (auto simp: best_hits_def Let_def)
    with empty show False by simp
  qed
qed (simp add: best_hits_def)

lemma best_hits_snoc_miss: "\<not> binding_hit h c b \<Longrightarrow> best_hits h c (bs @ [b]) = best_hits h c bs"
  by (simp add: best_hits_def)

lemma best_hits_snoc_hit:
  assumes "binding_hit h c b"
  shows "best_hits h c (bs @ [b]) =
    filter (\<lambda>b'. binding_score h b \<le> binding_score h b') (best_hits h c bs) @
    (if \<forall>b' \<in> set bs. binding_hit h c b' \<longrightarrow> binding_score h b' \<le> binding_score h b then [b] else [])"
  using assms by (auto simp: best_hits_def Let_def intro!: filter_cong)

lemma match_step_state_of:
  assumes "pattern_of h b = Inr p"
  shows "match_step h c (fst b) (snd b) (state_of h c bs) = Inr (state_of h c (bs @ [b]))"
proof (cases "binding_hit h c b")
  case False
  with assms show ?thesis
    by (simp add: match_step_def pattern_of_def binding_hit_def state_of_def best_hits_snoc_miss
        split: list.splits)
next
  case True
  with assms have hit: "patternMatches c p" and sc: "binding_score h b = scorePattern p"
    by (simp_all add: binding_hit_def binding_score_def)
  have parse: "parseDirectoryPattern h (snd b) (identity_context (fst b)) = Inr p"
    using assms by (simp add: pattern_of_def)
  show ?thesis
  proof (cases "best_hits h c bs")
    case Nil
    then have "best_hits h c (bs @ [b]) = [b]"
      using best_hits_snoc_hit[OF True, of bs] Nil by (simp add: best_hits_Nil[THEN iffD1])
    moreover have "-1 < scorePattern p" using scorePattern_nonneg[of p] by linarith
    ultimately show ?thesis
      using Nil hit sc by (simp add: match_step_def parse state_of_def Let_def)
  next
    case (Cons m ms)
    have all: "binding_score h b' = binding_score h m" if "b' \<in> set (best_hits h c bs)" for b'
      using best_hits_score[OF that, of m] Cons by simp
    have bound: "binding_score h b' \<le> binding_score h m" if "b' \<in> set bs" "binding_hit h c b'" for b'
      using best_hits_bound[of m h c bs b'] that Cons by simp
    have mhit: "m \<in> set bs" "binding_hit h c m"
      using Cons best_hits_iff[of m h c bs] by simp_all
    have new: "best_hits h c (bs @ [b]) =
      (if binding_score h m < binding_score h b then [b]
       else if binding_score h m = binding_score h b then best_hits h c bs @ [b]
       else best_hits h c bs)"
    proof -
      have "filter (\<lambda>b'. binding_score h b \<le> binding_score h b') (best_hits h c bs) =
        (if binding_score h b \<le> binding_score h m then best_hits h c bs else [])"
        using all by (auto simp: filter_empty_conv intro!: filter_True)
      moreover have "(\<forall>b' \<in> set bs. binding_hit h c b' \<longrightarrow> binding_score h b' \<le> binding_score h b)
        \<longleftrightarrow> binding_score h m \<le> binding_score h b"
        using bound mhit by force
      ultimately show ?thesis using best_hits_snoc_hit[OF True, of bs] by auto
    qed
    have names: "(\<exists>m' \<in> set (first_per_name (best_hits h c bs)). i_name (fst m') = i_name (fst b)) \<longleftrightarrow>
      (\<exists>m' \<in> set (best_hits h c bs). i_name (fst m') = i_name (fst b))"
      by (rule first_per_name_has_name)
    have st: "state_of h c bs = (binding_score h m, first_per_name (best_hits h c bs))"
      using Cons by (simp add: state_of_def)
    consider "binding_score h m < binding_score h b" | "binding_score h m = binding_score h b"
      | "binding_score h b < binding_score h m" by linarith
    then show ?thesis
    proof cases
      case 1
      then show ?thesis using new hit sc
        by (simp add: match_step_def parse st Let_def) (simp add: state_of_def)
    next
      case 2
      have st': "state_of h c (bs @ [b]) = (binding_score h m, first_per_name (best_hits h c bs @ [b]))"
        using new 2 Cons by (simp add: state_of_def)
      show ?thesis using hit sc 2 names
        by (simp add: match_step_def parse st st' Let_def first_per_name_snoc del: first_per_name.simps)
    next
      case 3
      then have "state_of h c (bs @ [b]) = state_of h c bs" using new Cons by (simp add: state_of_def)
      then show ?thesis using 3 hit sc by (simp add: match_step_def parse st Let_def)
    qed
  qed
qed

lemma loop_bindings:
  assumes "\<forall>b \<in> set new. is_ok (pattern_of h b)"
  shows "loop_r (\<lambda>b. match_step h c (fst b) (snd b)) new (state_of h c done) =
    Inr (state_of h c (done @ new))"
  using assms
proof (induction new arbitrary: "done")
  case (Cons b new)
  then obtain p where "pattern_of h b = Inr p" by (auto simp: is_ok_iff)
  then have "match_step h c (fst b) (snd b) (state_of h c done) = Inr (state_of h c (done @ [b]))"
    by (rule match_step_state_of)
  with Cons show ?case by simp
qed simp

lemma loop_map: "loop_r f (map g xs) s = loop_r (\<lambda>x. f (g x)) xs s"
  by (induction xs arbitrary: s) (auto simp: bind_r_def split: sum.splits)

lemma nested_loop:
  "loop_r (match_identity h c) ids st = loop_r (\<lambda>b. match_step h c (fst b) (snd b)) (bindings ids) st"
proof (induction ids arbitrary: st)
  case (Cons i ids)
  have "loop_r (match_identity h c) (i # ids) st =
    bind_r (match_identity h c i st) (loop_r (match_identity h c) ids)" by simp
  also have "\<dots> = bind_r (match_identity h c i st) (loop_r (\<lambda>b. match_step h c (fst b) (snd b)) (bindings ids))"
    by (simp add: Cons.IH bind_r_def split: sum.splits)
  also have "\<dots> = loop_r (\<lambda>b. match_step h c (fst b) (snd b))
      (map (Pair i) (default [] (i_directories i)) @ bindings ids) st"
    by (simp add: loop_r_append match_identity_def loop_map)
  finally show ?case by (simp add: bindings_def)
qed (simp add: bindings_def)

lemma state_of_Nil [simp]: "state_of h c [] = (-1, [])"
  by (simp add: state_of_def best_hits_def)

lemma snd_state_of [simp]: "snd (state_of h c bs) = first_per_name (best_hits h c bs)"
  by (simp add: state_of_def split: list.splits)

lemma matchDirectory_selected:
  assumes "\<forall>b \<in> set (bindings ids). is_ok (pattern_of h b)"
  shows "matchDirectory h cwd ids = Inr (selected_match h cwd ids)"
proof -
  have "loop_r (match_identity h (normalizePath h cwd)) ids (-1, []) =
    Inr (state_of h (normalizePath h cwd) (bindings ids))"
    using loop_bindings[OF assms, of "normalizePath h cwd" "[]"] by (simp add: nested_loop)
  then show ?thesis
    by (simp add: matchDirectory_def selected_match_def case_prod_unfold)
qed

text \<open>A malformed pattern makes the lookup fail, whatever the other bindings are.\<close>

lemma loop_bindings_error:
  assumes "b \<in> set bs" "pattern_of h b = Inl e"
  shows "\<not> is_ok (loop_r (\<lambda>b. match_step h c (fst b) (snd b)) bs st)"
  using assms
proof (induction bs arbitrary: st)
  case (Cons x bs)
  show ?case
  proof (cases "x = b")
    case True
    with Cons.prems show ?thesis by (simp add: match_step_def pattern_of_def)
  next
    case False
    with Cons show ?thesis
      by (cases "match_step h c (fst x) (snd x) st") auto
  qed
qed simp

lemma matchDirectory_ok_iff:
  "is_ok (matchDirectory h cwd ids) \<longleftrightarrow> (\<forall>b \<in> set (bindings ids). is_ok (pattern_of h b))"
proof
  assume ok: "is_ok (matchDirectory h cwd ids)"
  show "\<forall>b \<in> set (bindings ids). is_ok (pattern_of h b)"
  proof (rule ccontr)
    assume "\<not> ?thesis"
    then obtain b e where "b \<in> set (bindings ids)" "pattern_of h b = Inl e"
      by (auto simp: is_ok_iff) (metis obj_sumE)
    from loop_bindings_error[OF this] ok show False
      by (auto simp: matchDirectory_def nested_loop is_ok_iff map_r_Inr_iff)
  qed
qed (auto simp: matchDirectory_selected)

lemma matchDirectory_Inr:
  "matchDirectory h cwd ids = Inr r \<Longrightarrow> r = selected_match h cwd ids"
  using matchDirectory_ok_iff[of h cwd ids] matchDirectory_selected[of ids h cwd]
  by (auto simp: is_ok_iff)

lemma match_outcome_cases:
  "match_outcome ms = No_Match \<longleftrightarrow> ms = []"
  "match_outcome ms = Unique i raw \<longleftrightarrow> ms = [(i, raw)]"
  "match_outcome ms = Ambiguous cs \<longleftrightarrow> 2 \<le> length ms \<and> cs = map fst ms"
  by (cases ms rule: match_outcome.cases; auto)+

lemma matchDirectory_candidates:
  assumes "matchDirectory h cwd ids = Inr r"
    and "r = Unique i raw \<or> (r = Ambiguous cs \<and> i \<in> set cs)"
  shows "i \<in> set ids"
proof -
  let ?ms = "first_per_name (best_hits h (normalizePath h cwd) (bindings ids))"
  have r: "r = match_outcome ?ms"
    using matchDirectory_Inr[OF assms(1)] by (simp add: selected_match_def)
  have "i \<in> fst ` set ?ms"
    using assms(2)
  proof
    assume "r = Unique i raw"
    with r have "?ms = [(i, raw)]" by (metis match_outcome_cases(2))
    then show ?thesis by simp
  next
    assume a: "r = Ambiguous cs \<and> i \<in> set cs"
    with r have "cs = map fst ?ms" by (metis match_outcome_cases(3))
    with a show ?thesis by simp
  qed
  then obtain b where b: "b \<in> set ?ms" "i = fst b" by blast
  then have "b \<in> set (best_hits h (normalizePath h cwd) (bindings ids))"
    using first_per_name_subset by blast
  then have "b \<in> set (bindings ids)" unfolding best_hits_iff by blast
  with b(2) show ?thesis by (auto simp: bindings_def)
qed

text \<open>Property C21.
  The two nested loops with their running best score compute a declarative selection: the
  lookup succeeds exactly when every configured pattern is well formed, and then answers with
  the bindings of highest score among those that cover the directory, one per identity name,
  as nothing, a unique match, or an ambiguity.\<close>

theorem matchDirectory_selects:
  "matchDirectory h cwd ids = Inr r \<longleftrightarrow>
     (\<forall>b \<in> set (bindings ids). is_ok (pattern_of h b)) \<and> r = selected_match h cwd ids"
  using matchDirectory_ok_iff[of h cwd ids] matchDirectory_selected[of ids h cwd]
  by (auto simp: is_ok_iff)

definition example_env :: host_env where
  "example_env = \<lparr> he_home = ''/h'', he_cwd = ''/'', he_env = (\<lambda>_. None),
     he_realpath = (\<lambda>_. None), he_date_parse = (\<lambda>_. None) \<rparr>"

definition example_identity :: "string \<Rightarrow> string list \<Rightarrow> identity" where
  "example_identity n dirs = \<lparr> i_name = n, i_label = n, i_description = None,
     i_configDir = ''/c/'' @ n, i_directories = Some dirs, i_aliases = None, i_colour = None,
     i_env = None, i_retired = None, i_retiredAt = None, i_unretiredAt = None,
     i_swapPool = None \<rparr>"

lemma example_run:
  "matchDirectory example_env ''/w/x'' [example_identity ''a'' [''/w/*''], example_identity ''b'' [''/w/x'']]
     = Inr (Unique (example_identity ''b'' [''/w/x'']) ''/w/x'')"
  by code_simp

theorem matchDirectory_selects_witness:
  "selected_match example_env ''/w/x'' [example_identity ''a'' [''/w/*''], example_identity ''b'' [''/w/x'']]
     = Unique (example_identity ''b'' [''/w/x'']) ''/w/x''"
  using example_run unfolding matchDirectory_selects by simp

text \<open>The most specific directory wins: when the lookup answers with an identity, its pattern
  covers the directory, no pattern that covers it has a higher score, and every pattern
  with the same score belongs to an identity of the same name.\<close>

theorem matchDirectory_unique_dominates:
  assumes "matchDirectory h cwd ids = Inr (Unique i raw)"
  shows "(i, raw) \<in> set (bindings ids) \<and> binding_hit h (normalizePath h cwd) (i, raw) \<and>
    (\<forall>b \<in> set (bindings ids). binding_hit h (normalizePath h cwd) b \<longrightarrow>
       binding_score h b < binding_score h (i, raw) \<or>
       binding_score h b = binding_score h (i, raw) \<and> i_name (fst b) = i_name i)"
proof -
  let ?c = "normalizePath h cwd"
  let ?best = "best_hits h ?c (bindings ids)"
  have "match_outcome (first_per_name ?best) = Unique i raw"
    using matchDirectory_Inr[OF assms] by (simp add: selected_match_def)
  then have first: "first_per_name ?best = [(i, raw)]" by (metis match_outcome_cases(2))
  then have "(i, raw) \<in> set ?best" using first_per_name_subset[of ?best] by simp
  then have mem: "(i, raw) \<in> set (bindings ids)" "binding_hit h ?c (i, raw)"
    "b \<in> set (bindings ids) \<Longrightarrow> binding_hit h ?c b \<Longrightarrow> binding_score h b \<le> binding_score h (i, raw)" for b
    unfolding best_hits_iff by blast+
  have "i_name (fst b) = i_name i"
    if "b \<in> set (bindings ids)" "binding_hit h ?c b" "binding_score h b = binding_score h (i, raw)" for b
  proof -
    have "b \<in> set ?best" unfolding best_hits_iff using that mem(3) by simp
    then have "i_name (fst b) \<in> (\<lambda>b. i_name (fst b)) ` set (first_per_name ?best)"
      unfolding first_per_name_names by blast
    with first show ?thesis by simp
  qed
  with mem show ?thesis by (meson le_less)
qed

theorem matchDirectory_unique_dominates_witness:
  "binding_hit example_env ''/w/x'' (example_identity ''b'' [''/w/x''], ''/w/x'')"
proof -
  have "normalizePath example_env ''/w/x'' = ''/w/x''"
    by (simp add: normalizePath_def expandPath_absolute is_absolute_def starts_with_def
      safeRealpath_def stripTrailingSlash_def example_env_def ends_with_def)
  then show ?thesis using matchDirectory_unique_dominates[OF example_run] by simp
qed

section \<open>chrome-profile.ts\<close>

datatype chrome_source = Directory_Override | Active_Identity

record chrome_target =
  ct_identityName :: string
  ct_source :: chrome_source
  ct_label :: "string option"

definition override_step :: "host_env \<Rightarrow> string \<Rightarrow> chrome_override \<Rightarrow> string \<Rightarrow>
    (chrome_override \<times> int) option \<Rightarrow> error + (chrome_override \<times> int) option" where
  "override_step h normalizedCwd ov raw best =
     bind_r (parseDirectoryPattern h raw ''chromeProfileOverrides'') (\<lambda>parsed.
       if \<not> patternMatches normalizedCwd parsed then Inr best
       else let score = scorePattern parsed
            in Inr (case best of None \<Rightarrow> Some (ov, score)
                    | Some (bo, bs) \<Rightarrow> if bs < score then Some (ov, score) else best))"

definition bestOverrideMatch :: "host_env \<Rightarrow> string \<Rightarrow> chrome_override list \<Rightarrow>
    error + chrome_override option" where
  "bestOverrideMatch h normalizedCwd overrides =
     map_r (map_option fst)
       (loop_r (\<lambda>ov. loop_r (override_step h normalizedCwd ov) (co_directories ov)) overrides None)"

definition resolveChromeMcpTarget :: "host_env \<Rightarrow> string \<Rightarrow> string option \<Rightarrow> identities_file \<Rightarrow>
    error + chrome_target option" where
  "resolveChromeMcpTarget h cwd configDirValue file =
     bind_r (bestOverrideMatch h (normalizePath h cwd) (default [] (f_chromeProfileOverrides file)))
       (\<lambda>ov. case ov of
          Some ov' \<Rightarrow>
            (case find (\<lambda>i. i_name i = co_targetIdentity ov') (f_identities file) of
               Some t \<Rightarrow> if isRetired t then Inr None
                 else Inr (Some \<lparr> ct_identityName = co_targetIdentity ov',
                                  ct_source = Directory_Override, ct_label = co_label ov' \<rparr>)
             | None \<Rightarrow> Inr (Some \<lparr> ct_identityName = co_targetIdentity ov',
                                  ct_source = Directory_Override, ct_label = co_label ov' \<rparr>))
        | None \<Rightarrow>
            (case configDirValue of
               None \<Rightarrow> Inr None
             | Some dir \<Rightarrow>
                 if dir = '''' then Inr None
                 else (case find (\<lambda>i. normalizePath h (i_configDir i) = normalizePath h dir)
                                 (f_identities file) of
                         None \<Rightarrow> Inr None
                       | Some i \<Rightarrow> if isRetired i then Inr None
                           else Inr (Some \<lparr> ct_identityName = i_name i,
                                            ct_source = Active_Identity, ct_label = None \<rparr>))))"

text \<open>No link is ever sent to the browser instance of a retired identity, neither through a
  directory override nor as the active identity.\<close>

theorem resolveChromeMcpTarget_not_retired:
  assumes "resolveChromeMcpTarget h cwd d file = Inr (Some t)"
    and "distinct (map i_name (f_identities file))"
    and "i \<in> set (f_identities file)" "i_name i = ct_identityName t"
  shows "\<not> isRetired i"
proof -
  have same: "j = i" if "j \<in> set (f_identities file)" "i_name j = i_name i" for j
    using assms(2,3) that by (auto simp: distinct_map dest: inj_onD)
  from assms(1) obtain ov where
    ov: "bestOverrideMatch h (normalizePath h cwd) (default [] (f_chromeProfileOverrides file)) = Inr ov"
    by (auto simp: resolveChromeMcpTarget_def bind_r_Inr_iff)
  show ?thesis
  proof (cases ov)
    case (Some ov')
    let ?found = "find (\<lambda>i. i_name i = co_targetIdentity ov') (f_identities file)"
    have name: "i_name i = co_targetIdentity ov'"
      using assms(1,4) ov Some
      by (cases ?found) (auto simp: resolveChromeMcpTarget_def split: if_splits)
    have "?found = Some i"
    proof (rule find_unique)
      show "y = i" if "y \<in> set (f_identities file)" "i_name y = co_targetIdentity ov'" for y
        using that same name by simp
    qed (use assms(3) name in simp_all)
    with assms(1) ov Some show ?thesis
      by (auto simp: resolveChromeMcpTarget_def split: if_splits)
  next
    case None
    with assms(1) ov obtain j where "j \<in> set (f_identities file)" "i_name j = i_name i" "\<not> isRetired j"
      using assms(4)
      by (auto simp: resolveChromeMcpTarget_def split: option.splits if_splits dest!: find_Some_set)
    with same show ?thesis by blast
  qed
qed

theorem resolveChromeMcpTarget_not_retired_witness:
  "\<not> isRetired (example_identity ''a'' [])"
proof -
  have norm: "normalizePath example_env ''/w'' = ''/w''" "normalizePath example_env ''/c/a'' = ''/c/a''"
    by (simp_all add: normalizePath_def expandPath_absolute is_absolute_def
      starts_with_def safeRealpath_def stripTrailingSlash_def example_env_def ends_with_def)
  have "resolveChromeMcpTarget example_env ''/w'' (Some ''/c/a'')
      \<lparr> f_identities = [example_identity ''a'' []], f_chromeProfileOverrides = None \<rparr> =
    Inr (Some \<lparr> ct_identityName = ''a'', ct_source = Active_Identity, ct_label = None \<rparr>)"
    by (simp add: resolveChromeMcpTarget_def bestOverrideMatch_def example_identity_def isRetired_def norm)
  then show ?thesis
    by (rule resolveChromeMcpTarget_not_retired) (simp_all add: example_identity_def)
qed

end
