(* ===== verification/Registry_Store.thy ===== *)
theory Registry_Store
  imports Directory_Match Identity_Colour
begin

text \<open>
  The identity registry (\<open>src/identities/store.ts\<close>): validation of a parsed JSON file, look-up
  by name or alias, and the load and save boundary that turns stored paths into paths of this
  host and back. The validated object is read through the typed view \<open>decode_identity\<close>, as the
  source casts it.
\<close>

section \<open>Validation\<close>

text \<open>An array of non-empty strings; \<open>is_strings\<close> also accepts empty ones.\<close>

definition is_strings :: "json list \<Rightarrow> bool" where
  "is_strings xs = list_all (\<lambda>x. as_string x \<noteq> None) xs"

definition is_names :: "json list \<Rightarrow> bool" where
  "is_names xs = list_all (\<lambda>x. case as_string x of None \<Rightarrow> False | Some s \<Rightarrow> s \<noteq> '''') xs"

definition pool_error :: "string \<Rightarrow> string \<Rightarrow> error" where
  "pool_error owner what = InvalidIdentitiesFileError (Pool_Problem owner what)"

definition field_error :: "string \<Rightarrow> string \<Rightarrow> error" where
  "field_error name field = InvalidIdentitiesFileError (Bad_Field name field)"

text \<open>The local function \<open>names(key)\<close> of \<open>validateSwapPool\<close>.\<close>

definition pool_names :: "string \<Rightarrow> json \<Rightarrow> string \<Rightarrow> error + string list option" where
  "pool_names owner pool key =
     (case js_get pool key of
        None \<Rightarrow> Inr None
      | Some raw \<Rightarrow>
          (case as_array raw of
             None \<Rightarrow> Inl (pool_error owner key)
           | Some xs \<Rightarrow> if is_names xs then Inr (Some (strings_of xs)) else Inl (pool_error owner key)))"

definition threshold_ok :: "json \<Rightarrow> bool" where
  "threshold_ok t = (case as_finite t of None \<Rightarrow> False | Some q \<Rightarrow> 1 \<le> q \<and> q \<le> 100)"

definition validateSwapPool :: "json \<Rightarrow> string \<Rightarrow> error + unit" where
  "validateSwapPool pool owner =
     bind_r (require_r (as_object pool \<noteq> None) (pool_error owner ''swapPool'')) (\<lambda>_.
     bind_r (pool_names owner pool ''accounts'') (\<lambda>acc.
       case acc of
         None \<Rightarrow> Inl (pool_error owner ''accounts'')
       | Some accounts \<Rightarrow>
     bind_r (require_r (distinct accounts) (pool_error owner ''accounts'')) (\<lambda>_.
     bind_r (require_r (owner \<notin> set accounts) (pool_error owner ''accounts'')) (\<lambda>_.
     bind_r (require_r (case js_get pool ''active'' of None \<Rightarrow> True
                        | Some a \<Rightarrow> (case as_string a of None \<Rightarrow> False | Some s \<Rightarrow> s \<in> set accounts))
               (pool_error owner ''active'')) (\<lambda>_.
     bind_r (pool_names owner pool ''disallowed'') (\<lambda>disallowed.
     bind_r (require_r (list_all (\<lambda>n. n \<in> set accounts) (default [] disallowed))
               (pool_error owner ''disallowed'')) (\<lambda>_.
     bind_r (require_r (case js_get pool ''auto'' of None \<Rightarrow> True | Some b \<Rightarrow> as_bool b \<noteq> None)
               (pool_error owner ''auto'')) (\<lambda>_.
     require_r (case js_get pool ''thresholdPercent'' of None \<Rightarrow> True | Some t \<Rightarrow> threshold_ok t)
               (pool_error owner ''thresholdPercent'')))))))))"

text \<open>\<open>typeof x === "object" && x !== null\<close> also holds of arrays.\<close>

fun is_objectlike :: "json \<Rightarrow> bool" where
  "is_objectlike (JObj _) = True"
| "is_objectlike (JArr _) = True"
| "is_objectlike _ = False"

definition nonempty_string :: "json option \<Rightarrow> bool" where
  "nonempty_string v =
     (case v of None \<Rightarrow> False
      | Some j \<Rightarrow> (case as_string j of None \<Rightarrow> False | Some s \<Rightarrow> s \<noteq> ''''))"

definition optional_ok :: "(json \<Rightarrow> bool) \<Rightarrow> json option \<Rightarrow> bool" where
  "optional_ok P v = (case v of None \<Rightarrow> True | Some j \<Rightarrow> P j)"

definition date_ok :: "host_env \<Rightarrow> json \<Rightarrow> bool" where
  "date_ok h j = (case as_string j of None \<Rightarrow> False | Some s \<Rightarrow> he_date_parse h s \<noteq> None)"

definition env_ok :: "json \<Rightarrow> bool" where
  "env_ok j = (case as_object j of None \<Rightarrow> False
               | Some kvs \<Rightarrow> list_all (\<lambda>(k, v). as_string v \<noteq> None) kvs)"

definition name_of :: "json \<Rightarrow> string" where
  "name_of j = default '''' (Option.bind (js_get j ''name'') as_string)"

definition name_context :: "string \<Rightarrow> string" where
  "name_context n = ''identity '' @ [CHR 0x22] @ n @ [CHR 0x22]"

definition validate_directories :: "host_env \<Rightarrow> string \<Rightarrow> json option \<Rightarrow> error + unit" where
  "validate_directories h n v =
     (case v of None \<Rightarrow> Inr ()
      | Some j \<Rightarrow>
          (case as_array j of None \<Rightarrow> Inl (field_error n ''directories'')
           | Some xs \<Rightarrow>
               bind_r (require_r (is_strings xs) (field_error n ''directories'')) (\<lambda>_.
                 each_r (\<lambda>raw. map_r (\<lambda>_. ()) (parseDirectoryPattern h raw (name_context n)))
                   (strings_of xs))))"

definition validateIdentity :: "host_env \<Rightarrow> json \<Rightarrow> nat \<Rightarrow> error + unit" where
  "validateIdentity h rec index =
     bind_r (require_r (is_objectlike rec) (InvalidIdentitiesFileError (Entry_Not_Object index))) (\<lambda>_.
     bind_r (require_r (nonempty_string (js_get rec ''name''))
               (InvalidIdentitiesFileError (Entry_Without_Name index))) (\<lambda>_.
     let n = name_of rec in
     bind_r (require_r (nonempty_string (js_get rec ''label'')) (field_error n ''label'')) (\<lambda>_.
     bind_r (require_r (optional_ok (\<lambda>j. as_string j \<noteq> None) (js_get rec ''description''))
               (field_error n ''description'')) (\<lambda>_.
     bind_r (require_r (nonempty_string (js_get rec ''configDir'')) (field_error n ''configDir'')) (\<lambda>_.
     bind_r (validate_directories h n (js_get rec ''directories'')) (\<lambda>_.
     bind_r (require_r (optional_ok (\<lambda>j. case as_array j of None \<Rightarrow> False | Some xs \<Rightarrow> is_names xs)
               (js_get rec ''aliases'')) (field_error n ''aliases'')) (\<lambda>_.
     bind_r (require_r (optional_ok (\<lambda>j. case as_string j of None \<Rightarrow> False | Some s \<Rightarrow> isValidIdentityColour s)
               (js_get rec ''colour'')) (field_error n ''colour'')) (\<lambda>_.
     bind_r (require_r (optional_ok (\<lambda>j. as_bool j \<noteq> None) (js_get rec ''retired''))
               (field_error n ''retired'')) (\<lambda>_.
     bind_r (require_r (optional_ok (date_ok h) (js_get rec ''retiredAt''))
               (field_error n ''retiredAt'')) (\<lambda>_.
     bind_r (require_r (optional_ok (date_ok h) (js_get rec ''unretiredAt''))
               (field_error n ''unretiredAt'')) (\<lambda>_.
     bind_r (case js_get rec ''swapPool'' of None \<Rightarrow> Inr () | Some p \<Rightarrow> validateSwapPool p n) (\<lambda>_.
     require_r (optional_ok env_ok (js_get rec ''env'')) (field_error n ''env'')))))))))))))"

definition override_error :: "nat \<Rightarrow> string \<Rightarrow> error" where
  "override_error index field = InvalidIdentitiesFileError (Bad_Override index field)"

definition validateChromeProfileOverride :: "host_env \<Rightarrow> json \<Rightarrow> nat \<Rightarrow> error + unit" where
  "validateChromeProfileOverride h rec index =
     bind_r (require_r (is_objectlike rec) (override_error index ''object'')) (\<lambda>_.
     case Option.bind (js_get rec ''directories'') as_array of
       None \<Rightarrow> Inl (override_error index ''directories'')
     | Some xs \<Rightarrow>
     bind_r (require_r (xs \<noteq> [] \<and> is_names xs) (override_error index ''directories'')) (\<lambda>_.
     bind_r (each_r (\<lambda>raw. map_r (\<lambda>_. ()) (parseDirectoryPattern h raw ''chromeProfileOverrides''))
               (strings_of xs)) (\<lambda>_.
     bind_r (require_r (nonempty_string (js_get rec ''targetIdentity''))
               (override_error index ''targetIdentity'')) (\<lambda>_.
     require_r (optional_ok (\<lambda>j. as_string j \<noteq> None) (js_get rec ''label''))
               (override_error index ''label'')))))"

section \<open>The typed view\<close>

definition opt_string :: "json \<Rightarrow> string \<Rightarrow> string option" where
  "opt_string j k = Option.bind (js_get j k) as_string"

definition opt_strings :: "json \<Rightarrow> string \<Rightarrow> string list option" where
  "opt_strings j k = map_option strings_of (Option.bind (js_get j k) as_array)"

definition decode_pool :: "json \<Rightarrow> swap_pool" where
  "decode_pool j =
     \<lparr> sp_accounts = default [] (opt_strings j ''accounts''),
       sp_active = opt_string j ''active'',
       sp_disallowed = opt_strings j ''disallowed'',
       sp_auto = Option.bind (js_get j ''auto'') as_bool,
       sp_thresholdPercent = Option.bind (js_get j ''thresholdPercent'') as_finite \<rparr>"

definition decode_env :: "json \<Rightarrow> (string \<times> string) list" where
  "decode_env j =
     List.map_filter (\<lambda>(k, v). map_option (Pair k) (as_string v)) (default [] (as_object j))"

definition decode_identity :: "json \<Rightarrow> identity" where
  "decode_identity j =
     \<lparr> i_name = name_of j,
       i_label = default '''' (opt_string j ''label''),
       i_description = opt_string j ''description'',
       i_configDir = default '''' (opt_string j ''configDir''),
       i_directories = opt_strings j ''directories'',
       i_aliases = opt_strings j ''aliases'',
       i_colour = opt_string j ''colour'',
       i_env = map_option decode_env (js_get j ''env''),
       i_retired = Option.bind (js_get j ''retired'') as_bool,
       i_retiredAt = opt_string j ''retiredAt'',
       i_unretiredAt = opt_string j ''unretiredAt'',
       i_swapPool = map_option decode_pool (js_get j ''swapPool'') \<rparr>"

definition decode_override :: "json \<Rightarrow> chrome_override" where
  "decode_override j =
     \<lparr> co_directories = default [] (opt_strings j ''directories''),
       co_targetIdentity = default '''' (opt_string j ''targetIdentity''),
       co_label = opt_string j ''label'' \<rparr>"

section \<open>The registry file\<close>

definition keys_of :: "identity \<Rightarrow> string list" where
  "keys_of i = i_name i # default [] (i_aliases i)"

definition claim_key :: "string \<Rightarrow> string set \<Rightarrow> error + string set" where
  "claim_key key seenKeys =
     (if key \<in> seenKeys then Inl (InvalidIdentitiesFileError (Duplicate_Key key))
      else Inr (insert key seenKeys))"

definition parse_entry :: "host_env \<Rightarrow> nat \<times> json \<Rightarrow> string set \<Rightarrow> error + string set" where
  "parse_entry h entry seenKeys =
     (case entry of (index, rec) \<Rightarrow>
       bind_r (validateIdentity h rec index) (\<lambda>_.
         loop_r claim_key (keys_of (decode_identity rec)) seenKeys))"

definition parseIdentitiesFile :: "host_env \<Rightarrow> json \<Rightarrow> error + identities_file" where
  "parseIdentitiesFile h raw =
     bind_r (require_r (is_objectlike raw) (InvalidIdentitiesFileError Not_An_Object)) (\<lambda>_.
     bind_r (require_r (js_get raw ''version'' = Some (JNum (Fin 1)))
               (InvalidIdentitiesFileError Unsupported_Version)) (\<lambda>_.
     case Option.bind (js_get raw ''identities'') as_array of
       None \<Rightarrow> Inl (InvalidIdentitiesFileError Missing_Identities)
     | Some ids \<Rightarrow>
     bind_r (loop_r (parse_entry h) (enumerate 0 ids) {}) (\<lambda>_.
     bind_r (case js_get raw ''chromeProfileOverrides'' of
               None \<Rightarrow> Inr None
             | Some ov \<Rightarrow>
                 (case as_array ov of
                    None \<Rightarrow> Inl (InvalidIdentitiesFileError Overrides_Not_Array)
                  | Some ovs \<Rightarrow>
                      map_r (\<lambda>_. Some (map decode_override ovs))
                        (each_r (\<lambda>(k, j). validateChromeProfileOverride h j k) (enumerate 0 ovs))))
       (\<lambda>overrides.
     Inr \<lparr> f_identities = map decode_identity ids, f_chromeProfileOverrides = overrides \<rparr>))))"

definition findIdentityByNameOrAlias :: "identity list \<Rightarrow> string \<Rightarrow> identity option" where
  "findIdentityByNameOrAlias identities key =
     find (\<lambda>i. i_name i = key \<or> key \<in> set (default [] (i_aliases i))) identities"

text \<open>The file on disk: absent, not JSON, or a JSON value.\<close>

datatype disk_file = Absent | Unparsable | Parsed json

definition local_path :: "host_env \<Rightarrow> string \<Rightarrow> string" where
  "local_path h p = translateHostPath (expandPath h p) (he_env h) (defaultLocalHome h)"

definition loadIdentitiesFile :: "host_env \<Rightarrow> disk_file \<Rightarrow> error + identities_file" where
  "loadIdentitiesFile h disk =
     (case disk of
        Absent \<Rightarrow> Inr \<lparr> f_identities = [], f_chromeProfileOverrides = None \<rparr>
      | Unparsable \<Rightarrow> Inl (OtherError ''SyntaxError'')
      | Parsed raw \<Rightarrow>
          map_r (\<lambda>parsed. parsed\<lparr> f_identities :=
              map (\<lambda>i. i\<lparr> i_configDir := local_path h (i_configDir i) \<rparr>) (f_identities parsed) \<rparr>)
            (parseIdentitiesFile h raw))"

text \<open>\<open>JSON.stringify\<close> leaves out undefined properties.\<close>

definition field :: "string \<Rightarrow> ('a \<Rightarrow> json) \<Rightarrow> 'a option \<Rightarrow> (string \<times> json) list" where
  "field k f v = (case v of None \<Rightarrow> [] | Some x \<Rightarrow> [(k, f x)])"

definition encode_strings :: "string list \<Rightarrow> json" where
  "encode_strings xs = JArr (map JStr xs)"

definition encode_pool :: "swap_pool \<Rightarrow> json" where
  "encode_pool p = JObj
     ([(''accounts'', encode_strings (sp_accounts p))] @
      field ''active'' JStr (sp_active p) @
      field ''disallowed'' encode_strings (sp_disallowed p) @
      field ''auto'' JBool (sp_auto p) @
      field ''thresholdPercent'' (\<lambda>q. JNum (Fin q)) (sp_thresholdPercent p))"

definition encode_env :: "(string \<times> string) list \<Rightarrow> json" where
  "encode_env kvs = JObj (map (\<lambda>(k, v). (k, JStr v)) kvs)"

definition encode_identity :: "identity \<Rightarrow> json" where
  "encode_identity i = JObj
     ([(''name'', JStr (i_name i)), (''label'', JStr (i_label i))] @
      field ''description'' JStr (i_description i) @
      [(''configDir'', JStr (i_configDir i))] @
      field ''directories'' encode_strings (i_directories i) @
      field ''aliases'' encode_strings (i_aliases i) @
      field ''colour'' JStr (i_colour i) @
      field ''env'' encode_env (i_env i) @
      field ''retired'' JBool (i_retired i) @
      field ''retiredAt'' JStr (i_retiredAt i) @
      field ''unretiredAt'' JStr (i_unretiredAt i) @
      field ''swapPool'' encode_pool (i_swapPool i))"

definition encode_override :: "chrome_override \<Rightarrow> json" where
  "encode_override ov = JObj
     ([(''directories'', encode_strings (co_directories ov)),
       (''targetIdentity'', JStr (co_targetIdentity ov))] @ field ''label'' JStr (co_label ov))"

definition saveIdentitiesFile :: "host_env \<Rightarrow> identities_file \<Rightarrow> disk_file" where
  "saveIdentitiesFile h data = Parsed (JObj
     ([(''version'', JNum (Fin 1)),
       (''identities'', JArr (map (\<lambda>i. encode_identity
          (i\<lparr> i_configDir := untranslateHostPath (i_configDir i) (he_env h) (defaultLocalHome h) \<rparr>))
          (f_identities data)))] @
      field ''chromeProfileOverrides'' (\<lambda>ovs. JArr (map encode_override ovs))
        (f_chromeProfileOverrides data)))"

end
