(* ===== verification/Registry_Laws.thy ===== *)
theory Registry_Laws
  imports Registry_Store
begin

text \<open>
  What the registry boundary guarantees: a file that parses is well formed, a well-formed file
  survives being saved and loaded, and keys resolve unambiguously.
\<close>

section \<open>Well-formed registries\<close>

definition pool_wf :: "string \<Rightarrow> swap_pool \<Rightarrow> bool" where
  "pool_wf owner p \<longleftrightarrow>
     distinct (sp_accounts p) \<and> owner \<notin> set (sp_accounts p) \<and> '''' \<notin> set (sp_accounts p) \<and>
     (\<forall>a. sp_active p = Some a \<longrightarrow> a \<in> set (sp_accounts p)) \<and>
     set (default [] (sp_disallowed p)) \<subseteq> set (sp_accounts p) \<and>
     (\<forall>t. sp_thresholdPercent p = Some t \<longrightarrow> 1 \<le> t \<and> t \<le> 100)"

definition identity_wf :: "host_env \<Rightarrow> identity \<Rightarrow> bool" where
  "identity_wf h i \<longleftrightarrow>
     i_name i \<noteq> '''' \<and> i_label i \<noteq> '''' \<and> i_configDir i \<noteq> '''' \<and>
     (\<forall>d \<in> set (default [] (i_directories i)). is_ok (parseDirectoryPattern h d (identity_context i))) \<and>
     '''' \<notin> set (default [] (i_aliases i)) \<and>
     (\<forall>c. i_colour i = Some c \<longrightarrow> isValidIdentityColour c) \<and>
     (\<forall>t. i_retiredAt i = Some t \<longrightarrow> he_date_parse h t \<noteq> None) \<and>
     (\<forall>t. i_unretiredAt i = Some t \<longrightarrow> he_date_parse h t \<noteq> None) \<and>
     (\<forall>p. i_swapPool i = Some p \<longrightarrow> pool_wf (i_name i) p)"

definition override_wf :: "host_env \<Rightarrow> chrome_override \<Rightarrow> bool" where
  "override_wf h ov \<longleftrightarrow>
     co_directories ov \<noteq> [] \<and> '''' \<notin> set (co_directories ov) \<and> co_targetIdentity ov \<noteq> '''' \<and>
     (\<forall>d \<in> set (co_directories ov). is_ok (parseDirectoryPattern h d ''chromeProfileOverrides''))"

definition registry_wf :: "host_env \<Rightarrow> identities_file \<Rightarrow> bool" where
  "registry_wf h f \<longleftrightarrow>
     (\<forall>i \<in> set (f_identities f). identity_wf h i) \<and>
     distinct (concat (map keys_of (f_identities f))) \<and>
     (\<forall>ov \<in> set (default [] (f_chromeProfileOverrides f)). override_wf h ov)"

text \<open>The homes a container and its host agree on are absolute paths.\<close>

definition homes_ok :: "host_env \<Rightarrow> bool" where
  "homes_ok h \<longleftrightarrow> is_absolute (defaultLocalHome h) \<and> is_absolute (hostHomeOf (he_env h) (defaultLocalHome h))"

text \<open>A registry as the load returns it: well formed, every config directory absolute and local.\<close>

definition registry_ok :: "host_env \<Rightarrow> identities_file \<Rightarrow> bool" where
  "registry_ok h f \<longleftrightarrow> registry_wf h f \<and>
     (\<forall>i \<in> set (f_identities f). is_absolute (i_configDir i) \<and>
        (under_home (defaultLocalHome h) (i_configDir i) \<or>
         \<not> under_home (hostHomeOf (he_env h) (defaultLocalHome h)) (i_configDir i)))"

section \<open>A parsed file is well formed\<close>

lemma strings_of_JStr [simp]: "strings_of (map JStr xs) = xs"
  by (induction xs) (auto simp: strings_of_def map_filter_simps)

lemma is_names_strings: "is_names xs \<Longrightarrow> '''' \<notin> set (strings_of xs)"
  by (induction xs) (auto simp: is_names_def strings_of_def map_filter_simps split: option.splits)

lemma is_names_Nil: "is_names xs \<Longrightarrow> strings_of xs = [] \<longleftrightarrow> xs = []"
  by (cases xs) (auto simp: is_names_def strings_of_def map_filter_simps split: option.splits)

lemma each_r_enumerate:
  "each_r (\<lambda>(k, x). f k x) (enumerate n xs) = Inr () \<longleftrightarrow> (\<forall>i < length xs. f (n + i) (xs ! i) = Inr ())"
proof (induction xs arbitrary: n)
  case (Cons x xs)
  show ?case by (simp add: bind_unit_Inr Cons.IH All_less_Suc2 del: each_r_Inr)
qed simp

lemma is_names_JStr [simp]: "is_names (map JStr xs) \<longleftrightarrow> '''' \<notin> set xs"
  by (induction xs) (auto simp: is_names_def)

lemma is_strings_JStr [simp]: "is_strings (map JStr xs)"
  by (simp add: is_strings_def list_all_iff)

lemma name_context_identity: "name_context (i_name i) = identity_context i"
  by (simp add: name_context_def identity_context_def)

lemma is_ok_map_r [simp]: "is_ok (map_r f m) = is_ok m"
  by (cases m) simp_all

lemma map_r_unit: "map_r (\<lambda>_. ()) m = Inr () \<longleftrightarrow> is_ok m"
  by (cases m) simp_all

lemma pool_names_Inr:
  "pool_names owner pool key = Inr v \<Longrightarrow>
     v = opt_strings pool key \<and> '''' \<notin> set (default [] v)"
  by (auto simp: pool_names_def opt_strings_def is_names_strings split: option.splits if_splits)

lemma validateSwapPool_wf:
  assumes "validateSwapPool pool owner = Inr ()"
  shows "pool_wf owner (decode_pool pool)"
proof -
  from assms obtain acc where "pool_names owner pool ''accounts'' = Inr (Some acc)"
    by (cases "pool_names owner pool ''accounts''")
      (auto simp: validateSwapPool_def bind_unit_Inr split: option.splits)
  with assms obtain dis where dis: "pool_names owner pool ''disallowed'' = Inr dis"
    by (cases "pool_names owner pool ''disallowed''") (auto simp: validateSwapPool_def bind_unit_Inr)
  have acc: "opt_strings pool ''accounts'' = Some acc" "'''' \<notin> set acc"
    and dis': "opt_strings pool ''disallowed'' = dis"
    using pool_names_Inr[OF \<open>pool_names owner pool ''accounts'' = Inr (Some acc)\<close>]
      pool_names_Inr[OF dis] by simp_all
  note v = assms[unfolded validateSwapPool_def bind_unit_Inr require_r_Inr
      \<open>pool_names owner pool ''accounts'' = Inr (Some acc)\<close> dis bind_r_simps option.case]
  have "a \<in> set acc" if "opt_string pool ''active'' = Some a" for a
    using v that by (auto simp: opt_string_def bind_eq_Some_conv)
  moreover have "1 \<le> t \<and> t \<le> 100"
    if "Option.bind (js_get pool ''thresholdPercent'') as_finite = Some t" for t
    using v that by (auto simp: threshold_ok_def bind_eq_Some_conv)
  moreover have "distinct acc" "owner \<notin> set acc" "set (default [] dis) \<subseteq> set acc"
    using v by (auto simp: list_all_iff)
  ultimately show ?thesis using acc dis' by (simp add: pool_wf_def decode_pool_def)
qed

lemma validate_directories_Inr:
  "validate_directories h n (js_get j k) = Inr () \<Longrightarrow>
     d \<in> set (default [] (opt_strings j k)) \<Longrightarrow> is_ok (parseDirectoryPattern h d (name_context n))"
  by (auto simp: validate_directories_def opt_strings_def bind_r_Inr_iff map_r_unit
      split: option.splits)

lemma validateIdentity_wf:
  assumes "validateIdentity h j k = Inr ()"
  shows "identity_wf h (decode_identity j)"
proof -
  note v = assms[unfolded validateIdentity_def bind_unit_Inr Let_def require_r_Inr]
  have dirs: "is_ok (parseDirectoryPattern h d (name_context (name_of j)))"
    if "d \<in> set (default [] (opt_strings j ''directories''))" for d
    using v that by (blast intro: validate_directories_Inr)
  have pool: "pool_wf (name_of j) (decode_pool p)" if "js_get j ''swapPool'' = Some p" for p
    using v that by (auto dest: validateSwapPool_wf)
  have aka: "'''' \<notin> set (default [] (opt_strings j ''aliases''))"
    using v by (auto simp: optional_ok_def opt_strings_def is_names_strings split: option.splits)
  have strs: "name_of j \<noteq> ''''" "default '''' (opt_string j ''label'') \<noteq> ''''"
    "default '''' (opt_string j ''configDir'') \<noteq> ''''"
    using v by (auto simp: nonempty_string_def name_of_def opt_string_def split: option.splits)
  have rest: "opt_string j ''colour'' = Some c \<Longrightarrow> isValidIdentityColour c"
    "opt_string j ''retiredAt'' = Some t \<Longrightarrow> he_date_parse h t \<noteq> None"
    "opt_string j ''unretiredAt'' = Some t \<Longrightarrow> he_date_parse h t \<noteq> None" for c t
    using v by (auto simp: optional_ok_def opt_string_def date_ok_def bind_eq_Some_conv
        split: option.splits)
  show ?thesis
    using dirs pool aka strs rest
    by (auto simp: identity_wf_def decode_identity_def identity_context_def name_context_def)
qed

lemma validateOverride_wf:
  "validateChromeProfileOverride h j k = Inr () \<Longrightarrow> override_wf h (decode_override j)"
  for k :: nat
  by (auto simp: validateChromeProfileOverride_def bind_r_Inr_iff override_wf_def decode_override_def
      opt_strings_def opt_string_def nonempty_string_def map_r_unit is_names_strings is_names_Nil
      split: option.splits)

lemma claim_keys:
  "loop_r claim_key ks seen = Inr t \<longleftrightarrow>
     distinct ks \<and> set ks \<inter> seen = {} \<and> t = seen \<union> set ks"
  by (induction ks arbitrary: seen) (auto simp: claim_key_def bind_r_Inr_iff)

lemma parse_entries:
  "loop_r (parse_entry h) (enumerate k js) seen = Inr t \<Longrightarrow>
     (\<forall>j \<in> set js. identity_wf h (decode_identity j)) \<and>
     distinct (concat (map (keys_of \<circ> decode_identity) js)) \<and>
     set (concat (map (keys_of \<circ> decode_identity) js)) \<inter> seen = {}"
proof (induction js arbitrary: k seen)
  case (Cons j js)
  from Cons.prems obtain seen' where entry: "parse_entry h (k, j) seen = Inr seen'"
    and rest: "loop_r (parse_entry h) (enumerate (Suc k) js) seen' = Inr t"
    by (simp add: bind_r_Inr_iff) blast
  from entry have step: "validateIdentity h j k = Inr ()"
    "loop_r claim_key (keys_of (decode_identity j)) seen = Inr seen'"
    by (simp_all add: parse_entry_def bind_unit_Inr)
  note keys = step(2)[unfolded claim_keys]
  show ?case
    using Cons.IH[OF rest] validateIdentity_wf[OF step(1)] keys by auto
qed simp

lemma parsed_registry_wf:
  assumes "parseIdentitiesFile h raw = Inr f"
  shows "registry_wf h f"
proof -
  from assms obtain ids t ov where
    entries: "loop_r (parse_entry h) (enumerate 0 ids) {} = Inr t"
    and overrides: "(case js_get raw ''chromeProfileOverrides'' of None \<Rightarrow> Inr None
       | Some ov \<Rightarrow> (case as_array ov of
            None \<Rightarrow> Inl (InvalidIdentitiesFileError Overrides_Not_Array)
          | Some ovs \<Rightarrow> map_r (\<lambda>_. Some (map decode_override ovs))
              (each_r (\<lambda>(k, j). validateChromeProfileOverride h j k) (enumerate 0 ovs)))) = Inr ov"
    and f: "f = \<lparr> f_identities = map decode_identity ids, f_chromeProfileOverrides = ov \<rparr>"
    by (auto simp: parseIdentitiesFile_def bind_r_Inr_iff split: option.splits)
  have "override_wf h x" if "x \<in> set (default [] ov)" for x
  proof -
    from overrides that obtain ovs where
      "each_r (\<lambda>(k, j). validateChromeProfileOverride h j k) (enumerate 0 ovs) = Inr ()"
      "x \<in> decode_override ` set ovs"
      by (auto simp: map_r_Inr_iff split: option.splits)
    then obtain i where "i < length ovs" "x = decode_override (ovs ! i)"
      "\<forall>i < length ovs. validateChromeProfileOverride h (ovs ! i) (0 + i) = Inr ()"
      unfolding each_r_enumerate by (metis (no_types, lifting) imageE in_set_conv_nth)
    then show ?thesis by (metis validateOverride_wf)
  qed
  with parse_entries[OF entries] show ?thesis
    by (simp add: registry_wf_def f)
qed

definition example_registry_json :: json where
  "example_registry_json = JObj
     [(''version'', JNum (Fin 1)),
      (''identities'', JArr
        [JObj [(''name'', JStr ''a''), (''label'', JStr ''A''), (''configDir'', JStr ''/c/a''),
               (''aliases'', JArr [JStr ''x''])],
         JObj [(''name'', JStr ''b''), (''label'', JStr ''B''), (''configDir'', JStr ''/c/b'')],
         JObj [(''name'', JStr ''p''), (''label'', JStr ''P''), (''configDir'', JStr ''/c/p''),
               (''swapPool'', JObj [(''accounts'', JArr [JStr ''a'', JStr ''b'']),
                                    (''active'', JStr ''a'')])]])]"

lemma local_path_local:
  assumes "homes_ok h"
  shows "is_absolute (local_path h p) \<and> (under_home (defaultLocalHome h) (local_path h p) \<or>
    \<not> under_home (hostHomeOf (he_env h) (defaultLocalHome h)) (local_path h p))"
proof -
  let ?l = "defaultLocalHome h" and ?e = "he_env h" and ?p = "expandPath h p"
  have abs: "is_absolute ?p" by simp
  show ?thesis
  proof (cases "hostHomeOf ?e ?l = ?l \<or> hostHomeOf ?e ?l = '''' \<or> \<not> under_home (hostHomeOf ?e ?l) ?p")
    case True
    then have "local_path h p = ?p"
      unfolding local_path_def using translate_trivial translateHostPath_outside by blast
    with True abs assms show ?thesis
      by (auto simp: homes_ok_def is_absolute_def starts_with_def)
  next
    case False
    then obtain r where "?p = hostHomeOf ?e ?l @ r" "r = '''' \<or> starts_with r ''/''"
      by (auto simp: under_home_iff)
    with False have "local_path h p = ?l @ r" by (simp add: local_path_def translateHostPath_under)
    with assms \<open>r = '''' \<or> starts_with r ''/''\<close> show ?thesis
      by (auto simp: homes_ok_def under_home_iff is_absolute_def starts_with_iff)
  qed
qed

lemma loaded_registry_ok:
  assumes "homes_ok h" "loadIdentitiesFile h disk = Inr f"
  shows "registry_ok h f"
proof (cases disk)
  case Absent
  with assms show ?thesis by (auto simp: loadIdentitiesFile_def registry_ok_def registry_wf_def)
next
  case Unparsable
  with assms show ?thesis by (simp add: loadIdentitiesFile_def)
next
  case (Parsed raw)
  with assms(2) obtain p where p: "parseIdentitiesFile h raw = Inr p"
    and f: "f = p\<lparr> f_identities := map (\<lambda>i. i\<lparr> i_configDir := local_path h (i_configDir i) \<rparr>) (f_identities p) \<rparr>"
    by (auto simp: loadIdentitiesFile_def map_r_Inr_iff)
  have keys: "keys_of (i\<lparr> i_configDir := d \<rparr>) = keys_of i" for i d by (simp add: keys_of_def)
  have loc: "local_path h d \<noteq> ''''" for d
    using local_path_local[OF assms(1), of d] by (auto simp: is_absolute_def starts_with_def)
  from parsed_registry_wf[OF p] have "registry_wf h f"
    by (auto simp: f registry_wf_def identity_wf_def identity_context_def keys loc comp_def)
  then show ?thesis using local_path_local[OF assms(1)] by (auto simp: registry_ok_def f)
qed

text \<open>A registry file that is accepted is well formed: every name and alias of every identity is
  different from all the others, every directory pattern parses, every swap pool names
  distinct members other than itself, an active member and disallowed members from that list,
  and a threshold between 1 and 100; and every config directory is an absolute path of this
  machine, never one inside the host's home when the process runs in a container.\<close>

theorem loadIdentitiesFile_wf:
  assumes "homes_ok h" "loadIdentitiesFile h disk = Inr f"
  shows "distinct (concat (map keys_of (f_identities f))) \<and>
    (\<forall>i \<in> set (f_identities f).
       identity_wf h i \<and> is_absolute (i_configDir i) \<and>
       (hostHomeOf (he_env h) (defaultLocalHome h) \<noteq> defaultLocalHome h \<longrightarrow>
          under_home (hostHomeOf (he_env h) (defaultLocalHome h)) (i_configDir i) \<longrightarrow>
          under_home (defaultLocalHome h) (i_configDir i)))"
  using loaded_registry_ok[OF assms] by (auto simp: registry_ok_def registry_wf_def)

theorem loadIdentitiesFile_wf_witness:
  "\<exists>f. loadIdentitiesFile example_env (Parsed example_registry_json) = Inr f \<and>
     distinct (concat (map keys_of (f_identities f)))"
proof -
  have "is_ok (loadIdentitiesFile example_env (Parsed example_registry_json))" by code_simp
  then obtain f where "loadIdentitiesFile example_env (Parsed example_registry_json) = Inr f"
    by (auto simp: is_ok_iff)
  moreover have "homes_ok example_env" by code_simp
  ultimately show ?thesis using loadIdentitiesFile_wf by blast
qed

section \<open>Keys are unambiguous\<close>

lemma keys_of_unique:
  assumes "distinct (concat (map keys_of ids))" "i \<in> set ids" "j \<in> set ids"
    and "key \<in> set (keys_of i)" "key \<in> set (keys_of j)"
  shows "i = j"
  using assms
proof (induction ids)
  case (Cons x ids)
  then show ?case by auto
qed simp

lemma findIdentityByNameOrAlias_Some:
  "findIdentityByNameOrAlias ids key = Some i \<Longrightarrow> i \<in> set ids \<and> key \<in> set (keys_of i)"
  by (auto simp: findIdentityByNameOrAlias_def keys_of_def dest!: find_Some_set)

lemma findIdentityByNameOrAlias_None:
  "findIdentityByNameOrAlias ids key = None \<longleftrightarrow> (\<forall>i \<in> set ids. key \<notin> set (keys_of i))"
  by (auto simp: findIdentityByNameOrAlias_def keys_of_def find_None_iff)

lemma findIdentityByNameOrAlias_eq:
  assumes "distinct (concat (map keys_of ids))" "i \<in> set ids" "key \<in> set (keys_of i)"
  shows "findIdentityByNameOrAlias ids key = Some i"
  unfolding findIdentityByNameOrAlias_def
proof (rule find_unique)
  show "y = i" if "y \<in> set ids" "i_name y = key \<or> key \<in> set (default [] (i_aliases y))" for y
    using keys_of_unique[OF assms(1) that(1) assms(2)] that assms(3) by (auto simp: keys_of_def)
qed (use assms in \<open>auto simp: keys_of_def\<close>)

lemma keys_distinct_names:
  "distinct (concat (map keys_of ids)) \<Longrightarrow> distinct (map i_name ids)"
  by (induction ids) (auto simp: keys_of_def)

lemma find_name:
  assumes "distinct (map i_name ids)" "i \<in> set ids"
  shows "find (\<lambda>j. i_name j = i_name i) ids = Some i"
  by (rule find_unique) (use assms in \<open>auto simp: distinct_map dest: inj_onD\<close>)

section \<open>Saving and loading\<close>

lemma map_of_field [simp]:
  "map_of (field k f v) q = (if q = k then map_option f v else None)"
  by (auto simp: field_def split: option.splits)

lemma map_of_field_append [simp]:
  "map_of (field k f v @ rest) q =
     (if q = k \<and> v \<noteq> None then map_option f v else map_of rest q)"
  by (auto simp: field_def split: option.splits)

lemma decode_views [simp]:
  "Option.bind (map_option JStr v) as_string = v"
  "Option.bind (map_option JBool b) as_bool = b"
  "Option.bind (map_option (\<lambda>q. JNum (Fin q)) t) as_finite = t"
  "map_option strings_of (Option.bind (map_option encode_strings vs) as_array) = vs"
  by (cases v; cases b; cases t; cases vs; simp add: encode_strings_def)+

lemma js_get_JObj [simp]: "js_get (JObj kvs) k = map_of kvs k"
  by simp

lemma if_None_map_option [simp]: "(if v \<noteq> None then map_option f v else None) = map_option f v"
  by (cases v) simp_all

lemma js_get_encode_pool:
  "js_get (encode_pool p) ''accounts'' = Some (encode_strings (sp_accounts p))"
  "js_get (encode_pool p) ''active'' = map_option JStr (sp_active p)"
  "js_get (encode_pool p) ''disallowed'' = map_option encode_strings (sp_disallowed p)"
  "js_get (encode_pool p) ''auto'' = map_option JBool (sp_auto p)"
  "js_get (encode_pool p) ''thresholdPercent'' =
     map_option (\<lambda>q. JNum (Fin q)) (sp_thresholdPercent p)"
  by (auto simp: encode_pool_def simp del: map_of_append)

lemma decode_encode_pool [simp]: "decode_pool (encode_pool p) = p"
proof -
  have "opt_strings (encode_pool p) ''accounts'' = Some (sp_accounts p)"
    by (simp only: opt_strings_def js_get_encode_pool encode_strings_def option.map bind.bind_lunit
        as_array.simps strings_of_JStr)
  moreover have "opt_strings (encode_pool p) ''disallowed'' = sp_disallowed p"
    "opt_string (encode_pool p) ''active'' = sp_active p"
    by (simp_all only: opt_strings_def opt_string_def js_get_encode_pool decode_views)
  ultimately show ?thesis
    by (intro swap_pool.equality) (simp_all add: decode_pool_def js_get_encode_pool)
qed

lemma js_get_encode_identity:
  "js_get (encode_identity i) ''name'' = Some (JStr (i_name i))"
  "js_get (encode_identity i) ''label'' = Some (JStr (i_label i))"
  "js_get (encode_identity i) ''description'' = map_option JStr (i_description i)"
  "js_get (encode_identity i) ''configDir'' = Some (JStr (i_configDir i))"
  "js_get (encode_identity i) ''directories'' = map_option encode_strings (i_directories i)"
  "js_get (encode_identity i) ''aliases'' = map_option encode_strings (i_aliases i)"
  "js_get (encode_identity i) ''colour'' = map_option JStr (i_colour i)"
  "js_get (encode_identity i) ''env'' = map_option encode_env (i_env i)"
  "js_get (encode_identity i) ''retired'' = map_option JBool (i_retired i)"
  "js_get (encode_identity i) ''retiredAt'' = map_option JStr (i_retiredAt i)"
  "js_get (encode_identity i) ''unretiredAt'' = map_option JStr (i_unretiredAt i)"
  "js_get (encode_identity i) ''swapPool'' = map_option encode_pool (i_swapPool i)"
  by (auto simp: encode_identity_def simp del: map_of_append)

lemma decode_encode_env [simp]: "decode_env (encode_env kvs) = kvs"
  by (induction kvs) (auto simp: decode_env_def encode_env_def map_filter_simps)

lemma map_option_decode [simp]:
  "map_option decode_env (map_option encode_env e) = e"
  "map_option decode_pool (map_option encode_pool p) = p"
  by (cases e; simp) (cases p; simp)

lemma decode_encode_identity [simp]: "decode_identity (encode_identity i) = i"
  by (intro identity.equality)
    (simp_all add: decode_identity_def name_of_def opt_string_def opt_strings_def
      js_get_encode_identity del: option.map_comp)

text \<open>Validation accepts what a well-formed record is written as.\<close>

lemma validate_encode_pool:
  assumes "pool_wf owner p"
  shows "validateSwapPool (encode_pool p) owner = Inr ()"
proof -
  have obj: "as_object (encode_pool p) \<noteq> None" by (simp add: encode_pool_def)
  have acc: "pool_names owner (encode_pool p) ''accounts'' = Inr (Some (sp_accounts p))"
    using assms by (simp add: pool_names_def js_get_encode_pool encode_strings_def pool_wf_def)
  have "'''' \<notin> set (default [] (sp_disallowed p))"
    using assms by (auto simp: pool_wf_def)
  then have dis: "pool_names owner (encode_pool p) ''disallowed'' = Inr (sp_disallowed p)"
    by (cases "sp_disallowed p") (auto simp: pool_names_def js_get_encode_pool encode_strings_def)
  show ?thesis
    using assms unfolding validateSwapPool_def bind_unit_Inr acc dis bind_r_simps option.case
      js_get_encode_pool require_r_Inr
    by (auto simp: pool_wf_def list_all_iff threshold_ok_def obj split: option.splits)
qed

lemma validate_encode_identity:
  assumes "identity_wf h i"
  shows "validateIdentity h (encode_identity i) k = Inr ()"
proof -
  have name: "name_of (encode_identity i) = i_name i"
    by (simp add: name_of_def js_get_encode_identity)
  have obj: "is_objectlike (encode_identity i)" by (simp add: encode_identity_def)
  have dirs: "validate_directories h (i_name i) (map_option encode_strings (i_directories i)) = Inr ()"
    using assms by (cases "i_directories i")
      (auto simp: validate_directories_def encode_strings_def identity_wf_def name_context_identity map_r_unit)
  have aka: "optional_ok (\<lambda>j. case as_array j of None \<Rightarrow> False | Some xs \<Rightarrow> is_names xs)
      (map_option encode_strings (i_aliases i))"
    using assms by (cases "i_aliases i") (auto simp: optional_ok_def encode_strings_def identity_wf_def)
  have pool: "(case map_option encode_pool (i_swapPool i) of None \<Rightarrow> Inr ()
      | Some p \<Rightarrow> validateSwapPool p (i_name i)) = Inr ()"
    using assms by (cases "i_swapPool i") (auto simp: identity_wf_def validate_encode_pool)
  have env: "optional_ok env_ok (map_option encode_env (i_env i))"
    by (cases "i_env i") (auto simp: optional_ok_def env_ok_def encode_env_def list_all_iff)
  have opt: "optional_ok (\<lambda>j. as_string j \<noteq> None) (map_option JStr v)"
    "optional_ok (\<lambda>j. as_bool j \<noteq> None) (map_option JBool b)" for v b
    by (cases v; cases b; simp add: optional_ok_def)+
  have dates: "optional_ok (date_ok h) (map_option JStr (i_retiredAt i))"
    "optional_ok (date_ok h) (map_option JStr (i_unretiredAt i))"
    using assms by (auto simp: optional_ok_def date_ok_def identity_wf_def split: option.splits)
  have colour: "optional_ok (\<lambda>j. case as_string j of None \<Rightarrow> False | Some s \<Rightarrow> isValidIdentityColour s)
      (map_option JStr (i_colour i))"
    using assms by (auto simp: optional_ok_def identity_wf_def split: option.splits)
  show ?thesis
    unfolding validateIdentity_def Let_def bind_unit_Inr require_r_Inr js_get_encode_identity name
    using obj dirs aka pool env opt dates colour assms
    by (simp add: nonempty_string_def identity_wf_def)
qed

lemma decode_encode_override [simp]: "decode_override (encode_override ov) = ov"
proof -
  have "js_get (encode_override ov) ''directories'' = Some (encode_strings (co_directories ov))"
    "js_get (encode_override ov) ''targetIdentity'' = Some (JStr (co_targetIdentity ov))"
    "js_get (encode_override ov) ''label'' = map_option JStr (co_label ov)"
    by (auto simp: encode_override_def simp del: map_of_append)
  then show ?thesis
    by (intro chrome_override.equality)
      (simp_all add: decode_override_def opt_string_def opt_strings_def encode_strings_def)
qed

lemma validate_encode_override:
  assumes "override_wf h ov"
  shows "validateChromeProfileOverride h (encode_override ov) k = Inr ()"
proof -
  have get: "js_get (encode_override ov) ''directories'' = Some (encode_strings (co_directories ov))"
    "js_get (encode_override ov) ''targetIdentity'' = Some (JStr (co_targetIdentity ov))"
    "js_get (encode_override ov) ''label'' = map_option JStr (co_label ov)"
    "is_objectlike (encode_override ov)"
    by (auto simp: encode_override_def simp del: map_of_append)
  show ?thesis
    using assms unfolding validateChromeProfileOverride_def bind_unit_Inr require_r_Inr get
    by (auto simp: override_wf_def encode_strings_def nonempty_string_def optional_ok_def
        map_r_unit bind_unit_Inr get split: option.splits)
qed

text \<open>The registry as it is written, before the paths are translated.\<close>

lemma parse_saved:
  assumes "registry_wf h f"
  shows "\<exists>raw. saveIdentitiesFile h f = Parsed raw \<and> parseIdentitiesFile h raw =
    Inr (f\<lparr> f_identities := map (\<lambda>i. i\<lparr> i_configDir :=
      untranslateHostPath (i_configDir i) (he_env h) (defaultLocalHome h) \<rparr>) (f_identities f) \<rparr>)"
proof -
  let ?u = "\<lambda>i. i\<lparr> i_configDir := untranslateHostPath (i_configDir i) (he_env h) (defaultLocalHome h) \<rparr>"
  let ?ids = "map (\<lambda>i. encode_identity (?u i)) (f_identities f)"
  let ?ov = "field ''chromeProfileOverrides'' (\<lambda>ovs. JArr (map encode_override ovs))
    (f_chromeProfileOverrides f)"
  let ?raw = "JObj ([(''version'', JNum (Fin 1)), (''identities'', JArr ?ids)] @ ?ov)"
  have nonempty: "untranslateHostPath p (he_env h) l \<noteq> ''''" if "p \<noteq> ''''" for p l
    using that by (auto simp: untranslateHostPath_def Let_def)
  have wf: "identity_wf h (?u i)" if "i \<in> set (f_identities f)" for i
    using assms that nonempty by (auto simp: registry_wf_def identity_wf_def identity_context_def)
  have entries: "loop_r (parse_entry h) (enumerate k (map (\<lambda>i. encode_identity (?u i)) us)) seen
      = Inr (seen \<union> set (concat (map keys_of us)))"
    if "\<forall>i \<in> set us. identity_wf h (?u i)" "distinct (concat (map keys_of us))"
      "set (concat (map keys_of us)) \<inter> seen = {}" for us k seen
    using that
  proof (induction us arbitrary: k seen)
    case (Cons i us)
    have keys: "keys_of (?u i) = keys_of i" by (simp add: keys_of_def)
    from Cons.prems have "loop_r claim_key (keys_of i) seen = Inr (seen \<union> set (keys_of i))"
      by (auto simp: claim_keys)
    then have "parse_entry h (k, encode_identity (?u i)) seen = Inr (seen \<union> set (keys_of i))"
      using Cons.prems(1) keys by (simp add: parse_entry_def validate_encode_identity)
    moreover have "loop_r (parse_entry h) (enumerate (Suc k) (map (\<lambda>i. encode_identity (?u i)) us))
        (seen \<union> set (keys_of i)) =
      Inr ((seen \<union> set (keys_of i)) \<union> set (concat (map keys_of us)))"
      using Cons.prems by (intro Cons.IH) auto
    ultimately show ?case by (simp add: Un_assoc)
  qed simp
  have all: "loop_r (parse_entry h) (enumerate 0 ?ids) {} =
      Inr ({} \<union> set (concat (map keys_of (f_identities f))))"
    using assms wf by (intro entries) (auto simp: registry_wf_def)
  have overrides: "each_r (\<lambda>(k, j). validateChromeProfileOverride h j k)
      (enumerate 0 (map encode_override ovs)) = Inr ()"
    if "f_chromeProfileOverrides f = Some ovs" for ovs
    unfolding each_r_enumerate using assms that
    by (simp add: registry_wf_def validate_encode_override)
  have get: "js_get ?raw ''version'' = Some (JNum (Fin 1))"
    "js_get ?raw ''identities'' = Some (JArr ?ids)"
    "js_get ?raw ''chromeProfileOverrides'' =
       map_option (\<lambda>ovs. JArr (map encode_override ovs)) (f_chromeProfileOverrides f)"
    "is_objectlike ?raw"
    by (auto simp del: map_of_append)
  have "parseIdentitiesFile h ?raw = Inr (f\<lparr> f_identities := map ?u (f_identities f) \<rparr>)"
    unfolding parseIdentitiesFile_def get
    using all overrides
    by (cases "f_chromeProfileOverrides f")
      (simp_all add: comp_def del: each_r_Inr concat.simps)
  then show ?thesis by (simp add: saveIdentitiesFile_def)
qed

lemma local_path_saved:
  assumes "is_absolute p" "is_absolute (hostHomeOf (he_env h) (defaultLocalHome h))"
    and "under_home (defaultLocalHome h) p \<or>
      \<not> under_home (hostHomeOf (he_env h) (defaultLocalHome h)) p"
  shows "local_path h (untranslateHostPath p (he_env h) (defaultLocalHome h)) = p"
proof -
  have abs: "is_absolute (untranslateHostPath p (he_env h) (defaultLocalHome h))"
    using assms(1,2) by (auto simp: untranslateHostPath_def Let_def is_absolute_def starts_with_iff)
  show ?thesis
    unfolding local_path_def expandPath_absolute[OF abs] by (rule translate_untranslate[OF assms(3)])
qed

lemma load_saved:
  assumes "homes_ok h" "registry_ok h f"
  shows "loadIdentitiesFile h (saveIdentitiesFile h f) = Inr f"
proof -
  obtain raw where save: "saveIdentitiesFile h f = Parsed raw"
    and parse: "parseIdentitiesFile h raw = Inr (f\<lparr> f_identities := map (\<lambda>i. i\<lparr> i_configDir :=
      untranslateHostPath (i_configDir i) (he_env h) (defaultLocalHome h) \<rparr>) (f_identities f) \<rparr>)"
    using parse_saved assms(2) unfolding registry_ok_def by blast
  have "map (\<lambda>i. i\<lparr> i_configDir := local_path h
      (untranslateHostPath (i_configDir i) (he_env h) (defaultLocalHome h)) \<rparr>) (f_identities f) =
    f_identities f"
    using assms by (intro map_idI) (simp add: local_path_saved homes_ok_def registry_ok_def)
  then show ?thesis by (simp add: loadIdentitiesFile_def save parse comp_def)
qed

text \<open>Property C20.
  Reading and writing the registry lose nothing: a registry that was loaded, wherever its file
  came from, is what the next load returns once it has been saved, in a container (where
  the paths are translated to the host's on save and back on load) as on the host, and saving
  what was just loaded again writes the same file.\<close>

theorem load_save_identities:
  assumes "homes_ok h" "loadIdentitiesFile h disk = Inr f"
  shows "loadIdentitiesFile h (saveIdentitiesFile h f) = Inr f \<and>
    map_r (saveIdentitiesFile h) (loadIdentitiesFile h (saveIdentitiesFile h f)) = Inr (saveIdentitiesFile h f)"
  using load_saved[OF assms(1) loaded_registry_ok[OF assms]] by simp

definition container_env :: host_env where
  "container_env = \<lparr> he_home = ''/home/c'', he_cwd = ''/'',
     he_env = [''AIS_HOST_HOME'' \<mapsto> ''/Users/u''],
     he_realpath = (\<lambda>_. None), he_date_parse = (\<lambda>_. None) \<rparr>"

definition container_registry :: json where
  "container_registry = JObj [(''version'', JNum (Fin 1)), (''identities'', JArr
     [JObj [(''name'', JStr ''a''), (''label'', JStr ''A''), (''configDir'', JStr ''/Users/u/.claude/a'')]])]"

theorem load_save_identities_witness:
  "\<exists>f. loadIdentitiesFile container_env (Parsed container_registry) = Inr f \<and>
     map i_configDir (f_identities f) = [''/home/c/.claude/a''] \<and>
     loadIdentitiesFile container_env (saveIdentitiesFile container_env f) = Inr f"
proof -
  have ok: "homes_ok container_env" by code_simp
  have "map_r (\<lambda>f. map i_configDir (f_identities f))
      (loadIdentitiesFile container_env (Parsed container_registry)) = Inr [''/home/c/.claude/a'']"
    by code_simp
  then obtain f where f: "loadIdentitiesFile container_env (Parsed container_registry) = Inr f"
    "map i_configDir (f_identities f) = [''/home/c/.claude/a'']"
    unfolding map_r_Inr_iff by metis
  from f load_save_identities[OF ok f(1)] show ?thesis by (intro exI[of _ f] conjI) simp_all
qed

end
