(* ===== verification/Swap_Pool.thy ===== *)
theory Swap_Pool
  imports Registry_Laws
begin

text \<open>
  Swap pools (\<open>src/identities/pool/swap-pool.ts\<close>): which identities are pools, the canonical
  record of pools that share a config directory, look-up by name or alias, and validation of a
  member list.
\<close>

definition DEFAULT_SWAP_THRESHOLD_PERCENT :: rat where
  "DEFAULT_SWAP_THRESHOLD_PERCENT = 95"

fun tool_string :: "tool_name \<Rightarrow> string" where
  "tool_string Claude = ''claude''"
| "tool_string Codex = ''codex''"
| "tool_string Grok = ''grok''"
| "tool_string Kimi = ''kimi''"
| "tool_string Zai = ''zai''"
| "tool_string Ali = ''ali''"
| "tool_string Pi = ''pi''"
| "tool_string Opencode = ''opencode''"

definition swapCommandName :: "string \<Rightarrow> string" where
  "swapCommandName tool = (if tool = ''claude'' then ''ais claude-swap'' else ''ais swap '' @ tool)"

text \<open>The pool adapters that \<open>registry.ts\<close> registers.\<close>

definition adapter_tools :: "tool_name list" where
  "adapter_tools = [Claude, Codex, Kimi, Pi]"

definition has_adapter :: "tool_name \<Rightarrow> bool" where
  "has_adapter t \<longleftrightarrow> t \<in> set adapter_tools"

definition isSwapPool :: "identity \<Rightarrow> bool" where
  "isSwapPool i \<longleftrightarrow> i_swapPool i \<noteq> None"

text \<open>\<open>pool.swapPool\<close> of a pool identity (\<open>PoolIdentity\<close> makes the property present).\<close>

definition pool_config :: "identity \<Rightarrow> swap_pool" where
  "pool_config i = (case i_swapPool i of
     Some p \<Rightarrow> p
   | None \<Rightarrow> \<lparr> sp_accounts = [], sp_active = None, sp_disallowed = None, sp_auto = None,
               sp_thresholdPercent = None \<rparr>)"

definition poolThreshold :: "identity \<Rightarrow> rat" where
  "poolThreshold pool =
     default DEFAULT_SWAP_THRESHOLD_PERCENT (sp_thresholdPercent (pool_config pool))"

definition isAllowed :: "identity \<Rightarrow> string \<Rightarrow> bool" where
  "isAllowed pool account \<longleftrightarrow>
     account \<in> set (sp_accounts (pool_config pool)) \<and>
     account \<notin> set (default [] (sp_disallowed (pool_config pool)))"

definition allowedAccounts :: "identity \<Rightarrow> string list" where
  "allowedAccounts pool = filter (isAllowed pool) (sp_accounts (pool_config pool))"

definition poolDirKey :: "host_env \<Rightarrow> identity \<Rightarrow> string" where
  "poolDirKey h pool = path_resolve h (expandPath h (i_configDir pool))"

fun pools_loop :: "host_env \<Rightarrow> string list \<Rightarrow> identity list \<Rightarrow> identity list" where
  "pools_loop h seen [] = []"
| "pools_loop h seen (i # ids) =
     (if \<not> isSwapPool i \<or> isRetired i then pools_loop h seen ids
      else if poolDirKey h i \<in> set seen then pools_loop h seen ids
      else i # pools_loop h (poolDirKey h i # seen) ids)"

definition poolsOf :: "host_env \<Rightarrow> identities_file \<Rightarrow> identity list" where
  "poolsOf h file = pools_loop h [] (f_identities file)"

definition canonicalPool :: "host_env \<Rightarrow> identities_file \<Rightarrow> identity \<Rightarrow> identity" where
  "canonicalPool h file pool =
     default pool (find (\<lambda>c. poolDirKey h c = poolDirKey h pool) (poolsOf h file))"

definition findPool :: "host_env \<Rightarrow> identities_file \<Rightarrow> string \<Rightarrow> identity option" where
  "findPool h file key =
     (case findIdentityByNameOrAlias (f_identities file) key of
        None \<Rightarrow> None
      | Some found \<Rightarrow>
          if \<not> isSwapPool found \<or> isRetired found then None else Some (canonicalPool h file found))"

definition poolsHoldingMember :: "host_env \<Rightarrow> identities_file \<Rightarrow> string \<Rightarrow> identity list" where
  "poolsHoldingMember h file member =
     filter (\<lambda>p. sp_active (pool_config p) = Some member) (poolsOf h file)"

definition requirePool :: "host_env \<Rightarrow> identities_file \<Rightarrow> string option \<Rightarrow> string \<Rightarrow> error + identity" where
  "requirePool h file key tool =
     (case key of
        Some k \<Rightarrow>
          (case findIdentityByNameOrAlias (f_identities file) k of
             None \<Rightarrow> Inl (SwapPoolError (''No identity named '' @ k))
           | Some found \<Rightarrow>
               if \<not> isSwapPool found then Inl (SwapPoolError (i_name found @ '' is not a swap pool''))
               else if isRetired found then Inl (SwapPoolError (i_name found @ '' is retired''))
               else Inr (canonicalPool h file found))
      | None \<Rightarrow>
          (case poolsOf h file of
             [pool] \<Rightarrow> Inr pool
           | [] \<Rightarrow> Inl (SwapPoolError (''No swap pool exists yet: '' @ swapCommandName tool))
           | _ \<Rightarrow> Inl (SwapPoolError ''More than one swap pool exists'')))"

definition memberIdentity :: "identities_file \<Rightarrow> identity \<Rightarrow> string \<Rightarrow> error + identity" where
  "memberIdentity file pool key =
     (case findIdentityByNameOrAlias (f_identities file) key of
        None \<Rightarrow> Inl (SwapPoolError (key @ '' is not a member''))
      | Some found \<Rightarrow>
          if i_name found \<notin> set (sp_accounts (pool_config pool))
          then Inl (SwapPoolError (key @ '' is not a member'')) else Inr found)"

text \<open>Why a candidate cannot be a member.\<close>

datatype member_problem =
    Not_An_Identity string | Contains_Itself | Member_Retired string | Member_Is_Pool string
  | Provider_Problem string | Listed_Twice string

definition memberProblem :: "identities_file \<Rightarrow> string \<Rightarrow> string \<Rightarrow> (identity \<Rightarrow> string option) \<Rightarrow>
    member_problem option" where
  "memberProblem file poolName name extra =
     (case findIdentityByNameOrAlias (f_identities file) name of
        None \<Rightarrow> Some (Not_An_Identity name)
      | Some found \<Rightarrow>
          if i_name found = poolName then Some Contains_Itself
          else if isRetired found then Some (Member_Retired (i_name found))
          else if isSwapPool found then Some (Member_Is_Pool (i_name found))
          else map_option Provider_Problem (extra found))"

fun validate_loop :: "identities_file \<Rightarrow> string \<Rightarrow> (identity \<Rightarrow> string option) \<Rightarrow>
    string list \<Rightarrow> string list \<Rightarrow> member_problem list \<Rightarrow> string list \<times> member_problem list" where
  "validate_loop file poolName extra [] names problems = (names, problems)"
| "validate_loop file poolName extra (key # keys) names problems =
     (case memberProblem file poolName key extra of
        Some problem \<Rightarrow> validate_loop file poolName extra keys names (problems @ [problem])
      | None \<Rightarrow>
          (case findIdentityByNameOrAlias (f_identities file) key of
             None \<Rightarrow> validate_loop file poolName extra keys names problems
           | Some found \<Rightarrow>
               if i_name found \<in> set names
               then validate_loop file poolName extra keys names (problems @ [Listed_Twice (i_name found)])
               else validate_loop file poolName extra keys (names @ [i_name found]) problems))"

datatype members_error = Too_Few_Accounts | Invalid_Accounts "member_problem list"

definition validateMembers :: "identities_file \<Rightarrow> string \<Rightarrow> string list \<Rightarrow> (identity \<Rightarrow> string option) \<Rightarrow>
    members_error + string list" where
  "validateMembers file poolName requested extra =
     (if length requested < 2 then Inl Too_Few_Accounts
      else case validate_loop file poolName extra requested [] [] of
        (names, problems) \<Rightarrow>
          if problems \<noteq> [] then Inl (Invalid_Accounts problems) else Inr names)"

section \<open>Canonical pools\<close>

lemma pools_loop_set:
  "p \<in> set (pools_loop h seen ids) \<Longrightarrow>
     p \<in> set ids \<and> isSwapPool p \<and> \<not> isRetired p \<and> poolDirKey h p \<notin> set seen"
  by (induction h seen ids rule: pools_loop.induct) (auto split: if_splits)

lemma pools_loop_distinct: "distinct (map (poolDirKey h) (pools_loop h seen ids))"
  by (induction h seen ids rule: pools_loop.induct) (auto dest: pools_loop_set)

lemma pools_loop_covers:
  "i \<in> set ids \<Longrightarrow> isSwapPool i \<Longrightarrow> \<not> isRetired i \<Longrightarrow>
     poolDirKey h i \<in> set seen \<or> (\<exists>p \<in> set (pools_loop h seen ids). poolDirKey h p = poolDirKey h i)"
  by (induction h seen ids rule: pools_loop.induct) auto

text \<open>The kept record is the first one of its directory.\<close>

lemma pools_loop_first:
  "p \<in> set (pools_loop h seen ids) \<Longrightarrow>
     find (\<lambda>i. isSwapPool i \<and> \<not> isRetired i \<and> poolDirKey h i = poolDirKey h p) ids = Some p"
proof (induction h seen ids rule: pools_loop.induct)
  case (2 h seen i ids)
  then show ?case
    by (auto split: if_splits dest: pools_loop_set)
qed simp

lemma poolsOf_mem: "p \<in> set (poolsOf h f) \<Longrightarrow> p \<in> set (f_identities f) \<and> isSwapPool p \<and> \<not> isRetired p"
  unfolding poolsOf_def by (auto dest: pools_loop_set)

lemma canonicalPool_in:
  assumes "p \<in> set (f_identities f)" "isSwapPool p" "\<not> isRetired p"
  shows "canonicalPool h f p \<in> set (poolsOf h f) \<and> poolDirKey h (canonicalPool h f p) = poolDirKey h p"
proof -
  obtain q where "q \<in> set (poolsOf h f)" "poolDirKey h q = poolDirKey h p"
    using pools_loop_covers[OF assms, of h "[]"] by (auto simp: poolsOf_def)
  then obtain c where "find (\<lambda>c. poolDirKey h c = poolDirKey h p) (poolsOf h f) = Some c"
    by (cases "find (\<lambda>c. poolDirKey h c = poolDirKey h p) (poolsOf h f)") (auto simp: find_None_iff)
  with find_Some_set[OF this] show ?thesis by (simp add: canonicalPool_def)
qed

lemma findPool_Some:
  assumes "findPool h f key = Some p"
  shows "p \<in> set (poolsOf h f) \<and>
    (\<exists>i. findIdentityByNameOrAlias (f_identities f) key = Some i \<and> poolDirKey h p = poolDirKey h i)"
proof -
  obtain i where i: "findIdentityByNameOrAlias (f_identities f) key = Some i" "isSwapPool i" "\<not> isRetired i"
    "p = canonicalPool h f i"
    using assms by (auto simp: findPool_def split: option.splits if_splits)
  with canonicalPool_in[of i f h] findIdentityByNameOrAlias_Some[OF i(1)] show ?thesis by auto
qed

lemma requirePool_Inr:
  assumes "requirePool h f key tool = Inr p"
  shows "p \<in> set (poolsOf h f)"
proof (cases key)
  case None
  with assms show ?thesis by (auto simp: requirePool_def split: list.splits)
next
  case (Some k)
  with assms obtain i where "findIdentityByNameOrAlias (f_identities f) k = Some i"
    "isSwapPool i" "\<not> isRetired i" "p = canonicalPool h f i"
    by (auto simp: requirePool_def split: option.splits if_splits)
  with canonicalPool_in[of i f h] findIdentityByNameOrAlias_Some show ?thesis by blast
qed

lemma requirePool_pool:
  "requirePool h f key tool = Inr p \<Longrightarrow> p \<in> set (f_identities f) \<and> isSwapPool p \<and> \<not> isRetired p"
  using requirePool_Inr poolsOf_mem by blast

text \<open>Duplicate pool records never take effect: the active pools have pairwise different config
  directories, each is the first registry record of its directory, every active pool record
  shares its directory with exactly one of them, and a look-up by the name of any record of a
  directory answers with that one.\<close>

theorem poolsOf_canonical:
  "distinct (map (poolDirKey h) (poolsOf h f)) \<and>
   (\<forall>p \<in> set (poolsOf h f).
      find (\<lambda>i. isSwapPool i \<and> \<not> isRetired i \<and> poolDirKey h i = poolDirKey h p) (f_identities f) = Some p) \<and>
   (\<forall>i \<in> set (f_identities f). isSwapPool i \<and> \<not> isRetired i \<longrightarrow>
      (\<exists>!p. p \<in> set (poolsOf h f) \<and> poolDirKey h p = poolDirKey h i)) \<and>
   (\<forall>key p. findPool h f key = Some p \<longrightarrow> p \<in> set (poolsOf h f))"
proof (intro conjI ballI allI impI)
  show distinct: "distinct (map (poolDirKey h) (poolsOf h f))"
    by (simp add: poolsOf_def pools_loop_distinct)
  show "find (\<lambda>i. isSwapPool i \<and> \<not> isRetired i \<and> poolDirKey h i = poolDirKey h p) (f_identities f) = Some p"
    if "p \<in> set (poolsOf h f)" for p
    using that by (simp add: poolsOf_def pools_loop_first)
  show "\<exists>!p. p \<in> set (poolsOf h f) \<and> poolDirKey h p = poolDirKey h i"
    if "i \<in> set (f_identities f)" "isSwapPool i \<and> \<not> isRetired i" for i
  proof -
    have "\<exists>p. p \<in> set (poolsOf h f) \<and> poolDirKey h p = poolDirKey h i"
      using canonicalPool_in[of i f h] that by blast
    moreover have "inj_on (poolDirKey h) (set (poolsOf h f))"
      using distinct by (simp add: distinct_map)
    ultimately show ?thesis unfolding inj_on_def by metis
  qed
  show "p \<in> set (poolsOf h f)" if "findPool h f key = Some p" for key p
    using findPool_Some[OF that] by blast
qed

definition example_pool :: "string \<Rightarrow> identity" where
  "example_pool n = (example_identity n [])\<lparr> i_configDir := ''/p'',
     i_swapPool := Some \<lparr> sp_accounts = [''a'', ''b''], sp_active = Some ''a'', sp_disallowed = None,
       sp_auto = Some True, sp_thresholdPercent = None \<rparr> \<rparr>"

theorem poolsOf_canonical_witness:
  "\<exists>!p. p \<in> set (poolsOf example_env \<lparr> f_identities = [example_pool ''p'', example_pool ''q''],
       f_chromeProfileOverrides = None \<rparr>) \<and> poolDirKey example_env p = poolDirKey example_env (example_pool ''q'')"
proof -
  let ?f = "\<lparr> f_identities = [example_pool ''p'', example_pool ''q''], f_chromeProfileOverrides = None \<rparr>"
  have "example_pool ''q'' \<in> set (f_identities ?f)" "isSwapPool (example_pool ''q'')"
    "\<not> isRetired (example_pool ''q'')"
    by (simp, code_simp, code_simp)
  with poolsOf_canonical[of example_env ?f] show ?thesis by blast
qed

section \<open>Member lists\<close>

lemma memberProblem_None:
  "memberProblem f poolName key extra = None \<longleftrightarrow>
     (\<exists>i. findIdentityByNameOrAlias (f_identities f) key = Some i \<and> i_name i \<noteq> poolName \<and>
        \<not> isRetired i \<and> \<not> isSwapPool i \<and> extra i = None)"
  by (auto simp: memberProblem_def split: option.splits)

lemma validate_loop_mono:
  "snd (validate_loop f pn extra keys names problems) = [] \<Longrightarrow> problems = []"
proof (induction f pn extra keys names problems rule: validate_loop.induct)
  case (2 f pn extra key keys names problems)
  then show ?case by (auto split: option.splits if_splits)
qed simp

lemma validate_loop_ok:
  assumes "validate_loop f pn extra keys names [] = (names', [])"
    and "distinct names"
  shows "\<exists>ids. names' = names @ map i_name ids \<and> length ids = length keys \<and> distinct names' \<and>
    (\<forall>k < length keys. findIdentityByNameOrAlias (f_identities f) (keys ! k) = Some (ids ! k) \<and>
       i_name (ids ! k) \<noteq> pn \<and> \<not> isRetired (ids ! k) \<and> \<not> isSwapPool (ids ! k) \<and> extra (ids ! k) = None)"
  using assms
proof (induction keys arbitrary: names)
  case (Cons key keys)
  have no_problem: "memberProblem f pn key extra = None"
    using Cons.prems(1) validate_loop_mono[of f pn extra keys names]
    by (cases "memberProblem f pn key extra") (auto simp: prod_eq_iff)
  then obtain i where i: "findIdentityByNameOrAlias (f_identities f) key = Some i" "i_name i \<noteq> pn"
    "\<not> isRetired i" "\<not> isSwapPool i" "extra i = None"
    by (auto simp: memberProblem_None)
  have new: "i_name i \<notin> set names"
    using Cons.prems(1) validate_loop_mono[of f pn extra keys names "[Listed_Twice (i_name i)]"] no_problem i
    by (auto simp: prod_eq_iff)
  have "validate_loop f pn extra keys (names @ [i_name i]) [] = (names', [])"
    using Cons.prems(1) no_problem i new by simp
  from Cons.IH[OF this] Cons.prems(2) new obtain ids where ids:
    "names' = (names @ [i_name i]) @ map i_name ids" "length ids = length keys" "distinct names'"
    "\<forall>k < length keys. findIdentityByNameOrAlias (f_identities f) (keys ! k) = Some (ids ! k) \<and>
       i_name (ids ! k) \<noteq> pn \<and> \<not> isRetired (ids ! k) \<and> \<not> isSwapPool (ids ! k) \<and> extra (ids ! k) = None"
    by auto
  show ?case
  proof (intro exI[of _ "i # ids"] conjI allI impI)
    fix k assume "k < length (key # keys)"
    then show "findIdentityByNameOrAlias (f_identities f) ((key # keys) ! k) = Some ((i # ids) ! k)"
      "i_name ((i # ids) ! k) \<noteq> pn" "\<not> isRetired ((i # ids) ! k)" "\<not> isSwapPool ((i # ids) ! k)"
      "extra ((i # ids) ! k) = None"
      using ids(4) i by (cases k; simp)+
  qed (use ids in auto)
qed simp

text \<open>A member list that is accepted has at least two accounts, and is the list of the canonical
  names of different identities, none of them the pool itself, retired, a pool, or refused by
  the provider; such a list satisfies the structural rules the registry checks on load.\<close>

theorem validateMembers_sound:
  assumes "validateMembers f poolName requested extra = Inr names"
  shows "2 \<le> length names \<and> distinct names \<and> poolName \<notin> set names \<and> length names = length requested \<and>
    (\<forall>n \<in> set names. \<exists>i \<in> set (f_identities f). i_name i = n \<and> \<not> isRetired i \<and> \<not> isSwapPool i \<and> extra i = None)"
proof -
  from assms have "2 \<le> length requested"
    and loop: "validate_loop f poolName extra requested [] [] = (names, [])"
    by (auto simp: validateMembers_def split: if_splits prod.splits)
  from validate_loop_ok[OF loop] obtain ids where ids: "names = map i_name ids"
    "length ids = length requested" "distinct names"
    "\<forall>k < length requested. findIdentityByNameOrAlias (f_identities f) (requested ! k) = Some (ids ! k) \<and>
       i_name (ids ! k) \<noteq> poolName \<and> \<not> isRetired (ids ! k) \<and> \<not> isSwapPool (ids ! k) \<and> extra (ids ! k) = None"
    by auto
  have mem: "i \<in> set (f_identities f) \<and> i_name i \<noteq> poolName \<and> \<not> isRetired i \<and> \<not> isSwapPool i \<and> extra i = None"
    if "i \<in> set ids" for i
  proof -
    from that obtain k where "k < length requested" "i = ids ! k" using ids(2) by (auto simp: in_set_conv_nth)
    with ids(4) show ?thesis by (auto dest: findIdentityByNameOrAlias_Some)
  qed
  then show ?thesis using \<open>2 \<le> length requested\<close> ids(1-3) by auto
qed

theorem validateMembers_sound_witness:
  "distinct [''a'', ''b''] \<and> ''p'' \<notin> set [''a'', ''b'']"
proof -
  have "validateMembers \<lparr> f_identities = [example_identity ''a'' [], example_identity ''b'' []],
      f_chromeProfileOverrides = None \<rparr> ''p'' [''a'', ''b''] (\<lambda>_. None) = Inr [''a'', ''b'']"
    by code_simp
  from validateMembers_sound[OF this] show ?thesis by blast
qed

end
