(* ===== verification/Resolve.thy ===== *)
theory Resolve
  imports Swap_Pool
begin

text \<open>
  Identity resolution (\<open>src/identities/resolve.ts\<close>): flag, pool flag, environment, directory,
  picker, for ordinary tools and for single-instance tools. The registry read, the terminal
  check and the picker are the dependencies the source injects (\<open>ResolveDeps\<close>).
\<close>

record resolve_deps =
  rd_load :: "error + identities_file"
  rd_interactive :: bool
  rd_prompt :: "identities_file \<Rightarrow> picker_mode option \<Rightarrow> error + (identity \<times> bool)"



definition assertEnvNotRetired :: "host_env \<Rightarrow> tool_config \<Rightarrow> string \<Rightarrow> resolve_deps \<Rightarrow> error + unit" where
  "assertEnvNotRetired h cfg envValue deps =
     (case rd_load deps of
        Inl _ \<Rightarrow> Inr ()
      | Inr file \<Rightarrow>
          (case findRetiredByConfigDir h (f_identities file) (expandPath h envValue) of
             None \<Rightarrow> Inr ()
           | Some i \<Rightarrow> Inl (RetiredIdentityError (tc_toolName cfg) (i_name i))))"

definition resolved :: "identity option \<Rightarrow> string \<Rightarrow> resolve_source \<Rightarrow> resolved_identity" where
  "resolved i dir src = \<lparr> ri_identity = i, ri_configDirValue = dir, ri_source = src \<rparr>"

text \<open>The directory a single-instance tool launches for an identity.\<close>

definition instance_dir :: "host_env \<Rightarrow> string \<Rightarrow> identity \<Rightarrow> string" where
  "instance_dir h sid i = expandPath h (if isSwapPool i then i_configDir i else sid)"

text \<open>Steps (c) and (d) of a single-instance tool when no usable directory match exists.\<close>

definition single_instance_fallback :: "host_env \<Rightarrow> tool_config \<Rightarrow> resolve_options \<Rightarrow> resolve_deps \<Rightarrow>
    identities_file \<Rightarrow> string \<Rightarrow> error + resolved_identity" where
  "single_instance_fallback h cfg opts deps file sid =
     (let hasPools = has_adapter (tc_toolName cfg) \<and>
            (\<exists>i \<in> set (f_identities file). isSwapPool i \<and> \<not> isRetired i);
          nonInteractive = ro_nonInteractiveHint opts \<or> \<not> rd_interactive deps
      in if ro_pickerMode opts \<noteq> None \<or> hasPools \<and> \<not> nonInteractive
         then if nonInteractive then Inl NonInteractiveResolutionError
              else bind_r (rd_prompt deps file (ro_pickerMode opts)) (\<lambda>(i, created).
                     Inr (resolved (Some i) (instance_dir h sid i)
                       (if created then Interactive_Created else Interactive_Existing)))
         else Inr (resolved None (expandPath h sid) Single_Instance))"

definition resolveSingleInstanceIdentity :: "host_env \<Rightarrow> tool_config \<Rightarrow> resolve_options \<Rightarrow> resolve_deps \<Rightarrow>
    error + resolved_identity" where
  "resolveSingleInstanceIdentity h cfg opts deps =
     (let sid = default '''' (tc_singleInstanceDir cfg) in
      bind_r (require_r (truthy (tc_singleInstanceDir cfg))
               (OtherError ''resolveSingleInstanceIdentity requires singleInstanceDir'')) (\<lambda>_.
      bind_r (rd_load deps) (\<lambda>file.
       if truthy (ro_explicitIdentityFlag opts) then
         (let flag = default '''' (ro_explicitIdentityFlag opts) in
          case findIdentityByNameOrAlias (f_identities file) flag of
            None \<Rightarrow> Inl (UnknownIdentityError flag (map i_name (f_identities file)))
          | Some i \<Rightarrow> if isRetired i then Inl (RetiredIdentityError (tc_toolName cfg) (i_name i))
              else Inr (resolved (Some i) (instance_dir h sid i) Flag))
       else if truthy (ro_explicitPoolFlag opts) then
         (let flag = default '''' (ro_explicitPoolFlag opts) in
          case findPool h file flag of
            None \<Rightarrow> Inl (UnknownPoolError flag (map i_name (poolsOf h file)))
          | Some pool \<Rightarrow>
              if \<not> has_adapter (tc_toolName cfg)
              then Inl (UnknownPoolError flag (map i_name (poolsOf h file)))
              else Inr (resolved (Some pool) (expandPath h (i_configDir pool)) Flag))
       else if truthy (ro_env opts (tc_envVarName cfg)) \<and> ro_pickerMode opts = None then
         (let presetEnvValue = default '''' (ro_env opts (tc_envVarName cfg)) in
          bind_r (assertEnvNotRetired h cfg presetEnvValue deps) (\<lambda>_.
            Inr (resolved None presetEnvValue Env)))
       else
         bind_r (if ro_pickerMode opts \<noteq> None then Inr No_Match
                 else matchDirectory h (ro_cwd opts) (f_identities file)) (\<lambda>found.
           case found of
             Unique i raw \<Rightarrow>
               if \<not> isRetired i then Inr (resolved (Some i) (instance_dir h sid i) Directory_Match)
               else single_instance_fallback h cfg opts deps file sid
           | No_Match \<Rightarrow> single_instance_fallback h cfg opts deps file sid
           | Ambiguous cs \<Rightarrow> single_instance_fallback h cfg opts deps file sid))))"

text \<open>A tie that mixes retired and active candidates is decided among the active identities.\<close>

definition drop_retired_tie :: "host_env \<Rightarrow> string \<Rightarrow> identity list \<Rightarrow> match_result \<Rightarrow> error + match_result" where
  "drop_retired_tie h cwd ids found =
     (case found of
        Ambiguous cs \<Rightarrow>
          if (\<exists>c \<in> set cs. isRetired c) \<and> \<not> (\<forall>c \<in> set cs. isRetired c)
          then matchDirectory h cwd (filter (\<lambda>i. \<not> isRetired i) ids)
          else Inr found
      | _ \<Rightarrow> Inr found)"

text \<open>Step (d): the picker, or an error where nobody can answer it.\<close>

definition pick_interactively :: "host_env \<Rightarrow> resolve_options \<Rightarrow> resolve_deps \<Rightarrow> identities_file \<Rightarrow>
    error + resolved_identity" where
  "pick_interactively h opts deps file =
     (if ro_nonInteractiveHint opts \<or> \<not> rd_interactive deps then Inl NonInteractiveResolutionError
      else bind_r (rd_prompt deps file (ro_pickerMode opts)) (\<lambda>(i, created).
             Inr (resolved (Some i) (expandPath h (i_configDir i))
               (if created then Interactive_Created else Interactive_Existing))))"

definition resolveIdentity :: "host_env \<Rightarrow> tool_config \<Rightarrow> resolve_options \<Rightarrow> resolve_deps \<Rightarrow>
    error + resolved_identity" where
  "resolveIdentity h cfg opts deps =
     (if truthy (tc_singleInstanceDir cfg) then resolveSingleInstanceIdentity h cfg opts deps
      else if truthy (ro_explicitIdentityFlag opts) then
        bind_r (rd_load deps) (\<lambda>file.
          let flag = default '''' (ro_explicitIdentityFlag opts) in
          case findIdentityByNameOrAlias (f_identities file) flag of
            None \<Rightarrow> Inl (UnknownIdentityError flag (map i_name (f_identities file)))
          | Some i \<Rightarrow> if isRetired i then Inl (RetiredIdentityError (tc_toolName cfg) (i_name i))
              else Inr (resolved (Some i) (expandPath h (i_configDir i)) Flag))
      else if truthy (ro_explicitPoolFlag opts) then
        bind_r (rd_load deps) (\<lambda>file.
          let flag = default '''' (ro_explicitPoolFlag opts) in
          case findPool h file flag of
            None \<Rightarrow> Inl (UnknownPoolError flag (map i_name (poolsOf h file)))
          | Some pool \<Rightarrow> Inr (resolved (Some pool) (expandPath h (i_configDir pool)) Flag))
      else if truthy (ro_env opts (tc_envVarName cfg)) \<and> ro_pickerMode opts = None then
        (let presetEnvValue = default '''' (ro_env opts (tc_envVarName cfg)) in
         bind_r (assertEnvNotRetired h cfg presetEnvValue deps) (\<lambda>_.
           Inr (resolved None presetEnvValue Env)))
      else
        bind_r (rd_load deps) (\<lambda>file.
        bind_r (if ro_pickerMode opts \<noteq> None then Inr No_Match
                else bind_r (matchDirectory h (ro_cwd opts) (f_identities file))
                       (drop_retired_tie h (ro_cwd opts) (f_identities file))) (\<lambda>found.
          case found of
            Unique i raw \<Rightarrow>
              if isRetired i then Inl (RetiredIdentityError (tc_toolName cfg) (i_name i))
              else Inr (resolved (Some i) (expandPath h (i_configDir i)) Directory_Match)
          | No_Match \<Rightarrow> pick_interactively h opts deps file
          | Ambiguous cs \<Rightarrow> pick_interactively h opts deps file)))"

lemmas resolve_defs =
  resolveIdentity_def resolveSingleInstanceIdentity_def single_instance_fallback_def
  pick_interactively_def assertEnvNotRetired_def resolved_def

section \<open>Ties with retired identities\<close>

lemma bindings_filter:
  "bindings (filter P ids) = filter (\<lambda>b. P (fst b)) (bindings ids)"
  by (induction ids) (auto simp: bindings_def filter_empty_conv filter_map comp_def)

lemma first_per_name_filter:
  assumes "\<And>b b'. b \<in> set bs \<Longrightarrow> b' \<in> set bs \<Longrightarrow> i_name (fst b) = i_name (fst b') \<Longrightarrow> fst b = fst b'"
  shows "first_per_name (filter (\<lambda>b. P (fst b)) bs) = filter (\<lambda>b. P (fst b)) (first_per_name bs)"
  using assms
proof (induction bs)
  case (Cons b bs)
  then have IH: "first_per_name (filter (\<lambda>b. P (fst b)) bs) = filter (\<lambda>b. P (fst b)) (first_per_name bs)"
    by simp
  show ?case
  proof (cases "P (fst b)")
    case True
    with IH show ?thesis by (simp add: conj_commute)
  next
    case False
    have "filter (\<lambda>b'. P (fst b')) (first_per_name bs) =
      filter (\<lambda>b'. P (fst b') \<and> i_name (fst b') \<noteq> i_name (fst b)) (first_per_name bs)"
    proof (rule filter_cong[OF refl])
      fix b' assume "b' \<in> set (first_per_name bs)"
      then have "b' \<in> set bs" using first_per_name_subset by blast
      with Cons.prems[of b b'] False
      show "P (fst b') \<longleftrightarrow> P (fst b') \<and> i_name (fst b') \<noteq> i_name (fst b)" by auto
    qed
    with False IH show ?thesis by (simp add: conj_commute)
  qed
qed simp

lemma best_hits_filter:
  assumes "b \<in> set (best_hits h c bs)" "P (fst b)"
  shows "best_hits h c (filter (\<lambda>b. P (fst b)) bs) = filter (\<lambda>b. P (fst b)) (best_hits h c bs)"
proof -
  have iff: "(\<forall>b' \<in> set (filter (binding_hit h c) (filter (\<lambda>b. P (fst b)) bs)).
        binding_score h b' \<le> binding_score h x) \<longleftrightarrow>
      (\<forall>b' \<in> set (filter (binding_hit h c) bs). binding_score h b' \<le> binding_score h x)" for x
  proof
    assume a: "\<forall>b' \<in> set (filter (binding_hit h c) (filter (\<lambda>b. P (fst b)) bs)).
        binding_score h b' \<le> binding_score h x"
    have "b \<in> set bs" "binding_hit h c b" using assms(1) unfolding best_hits_iff by blast+
    with assms(2) have "b \<in> set (filter (binding_hit h c) (filter (\<lambda>b. P (fst b)) bs))" by simp
    with a have le: "binding_score h b \<le> binding_score h x" by (rule bspec)
    show "\<forall>b' \<in> set (filter (binding_hit h c) bs). binding_score h b' \<le> binding_score h x"
    proof
      fix b' assume "b' \<in> set (filter (binding_hit h c) bs)"
      then have "binding_score h b' \<le> binding_score h b" by (intro best_hits_bound[OF assms(1)]) simp_all
      with le show "binding_score h b' \<le> binding_score h x" by simp
    qed
  qed auto
  show ?thesis
    unfolding best_hits_def Let_def iff by (simp add: conj_ac)
qed

lemma selected_match_active:
  assumes "distinct (map i_name ids)" "selected_match h cwd ids = Ambiguous cs"
    and "\<exists>c \<in> set cs. \<not> isRetired c"
  shows "selected_match h cwd (filter (\<lambda>i. \<not> isRetired i) ids) =
    match_outcome (filter (\<lambda>b. \<not> isRetired (fst b))
      (first_per_name (best_hits h (normalizePath h cwd) (bindings ids))))"
proof -
  let ?best = "best_hits h (normalizePath h cwd) (bindings ids)"
  have "cs = map fst (first_per_name ?best)"
    using assms(2) unfolding selected_match_def by (metis match_outcome_cases(3))
  with assms(3) obtain b where b: "b \<in> set (first_per_name ?best)" "\<not> isRetired (fst b)" by auto
  then have "b \<in> set ?best" using first_per_name_subset by blast
  from best_hits_filter[OF this, where P = "\<lambda>i. \<not> isRetired i"] b(2)
  have best: "best_hits h (normalizePath h cwd) (bindings (filter (\<lambda>i. \<not> isRetired i) ids)) =
      filter (\<lambda>b. \<not> isRetired (fst b)) ?best"
    by (simp add: bindings_filter)
  have same: "fst b = fst b'"
    if "b \<in> set ?best" "b' \<in> set ?best" "i_name (fst b) = i_name (fst b')" for b b'
  proof -
    have "b \<in> set (bindings ids)" "b' \<in> set (bindings ids)" using that unfolding best_hits_iff by blast+
    then have "fst b \<in> set ids" "fst b' \<in> set ids" by (auto simp: bindings_def)
    with assms(1) that(3) show ?thesis by (auto simp: distinct_map dest: inj_onD)
  qed
  show ?thesis
    unfolding selected_match_def best
    by (subst first_per_name_filter[where P = "\<lambda>i. \<not> isRetired i"]) (use same in blast, rule refl)
qed

text \<open>A retired identity that ties with active ones never blocks a launch: the second look-up, over
  the active identities, is decided by exactly the active candidates of the tie, so a single
  active candidate is the answer and the look-up never falls back to nothing.\<close>

theorem retired_tie_keeps_active:
  assumes "distinct (map i_name ids)" "matchDirectory h cwd ids = Inr (Ambiguous cs)"
    and "\<exists>c \<in> set cs. isRetired c" "\<exists>c \<in> set cs. \<not> isRetired c"
  shows "\<exists>raw. drop_retired_tie h cwd ids (Ambiguous cs) =
    Inr (case filter (\<lambda>c. \<not> isRetired c) cs of [i] \<Rightarrow> Unique i raw | as \<Rightarrow> Ambiguous as)"
proof -
  let ?best = "first_per_name (best_hits h (normalizePath h cwd) (bindings ids))"
  have sel: "selected_match h cwd ids = Ambiguous cs" using matchDirectory_Inr[OF assms(2)] by simp
  then have cs: "cs = map fst ?best" unfolding selected_match_def by (metis match_outcome_cases(3))
  have "is_ok (matchDirectory h cwd ids)" using assms(2) by (simp add: is_ok_iff)
  then have "is_ok (matchDirectory h cwd (filter (\<lambda>i. \<not> isRetired i) ids))"
    unfolding matchDirectory_ok_iff by (simp add: bindings_filter)
  then obtain r where r: "matchDirectory h cwd (filter (\<lambda>i. \<not> isRetired i) ids) = Inr r"
    unfolding is_ok_iff by blast
  with matchDirectory_Inr selected_match_active[OF assms(1) sel assms(4)]
  have "r = match_outcome (filter (\<lambda>b. \<not> isRetired (fst b)) ?best)" by metis
  moreover have act: "filter (\<lambda>c. \<not> isRetired c) cs = map fst (filter (\<lambda>b. \<not> isRetired (fst b)) ?best)"
    by (simp add: cs filter_map comp_def)
  moreover have "filter (\<lambda>b. \<not> isRetired (fst b)) ?best \<noteq> []"
    using assms(4) act by (metis (mono_tags, lifting) filter_empty_conv list.map_disc_iff)
  moreover have "drop_retired_tie h cwd ids (Ambiguous cs) = Inr r"
    using assms(3,4) r by (auto simp: drop_retired_tie_def)
  ultimately show ?thesis
    by (cases "filter (\<lambda>b. \<not> isRetired (fst b)) ?best" rule: match_outcome.cases) auto
qed

definition tie_a :: identity where
  "tie_a = (example_identity ''a'' [''/w''])\<lparr> i_retired := Some True \<rparr>"

definition tie_b :: identity where
  "tie_b = example_identity ''b'' [''/w'']"

theorem retired_tie_keeps_active_witness:
  "\<exists>raw. drop_retired_tie example_env ''/w'' [tie_a, tie_b] (Ambiguous [tie_a, tie_b]) =
     Inr (Unique tie_b raw)"
proof -
  have d: "distinct (map i_name [tie_a, tie_b])" by code_simp
  have m: "matchDirectory example_env ''/w'' [tie_a, tie_b] = Inr (Ambiguous [tie_a, tie_b])" by code_simp
  have r: "\<exists>c \<in> set [tie_a, tie_b]. isRetired c" "\<exists>c \<in> set [tie_a, tie_b]. \<not> isRetired c"
    by (simp_all add: tie_a_def tie_b_def isRetired_def example_identity_def)
  have "filter (\<lambda>c. \<not> isRetired c) [tie_a, tie_b] = [tie_b]"
    by (simp add: isRetired_def tie_a_def tie_b_def example_identity_def)
  with retired_tie_keeps_active[OF d m r] show ?thesis by simp
qed

section \<open>What resolution guarantees\<close>

lemma findPool_active: "findPool h f key = Some p \<Longrightarrow> \<not> isRetired p"
  using findPool_Some poolsOf_mem by blast

lemma single_instance_fallback_source:
  "single_instance_fallback h cfg opts deps file sid = Inr r \<Longrightarrow>
     ri_source r = Single_Instance \<and> ri_identity r = None \<or>
     ri_source r \<in> {Interactive_Existing, Interactive_Created}"
  by (auto simp: single_instance_fallback_def resolved_def Let_def bind_r_Inr_iff split: if_splits)

lemma pick_interactively_source:
  "pick_interactively h opts deps file = Inr r \<Longrightarrow>
     ri_source r \<in> {Interactive_Existing, Interactive_Created}"
  by (auto simp: pick_interactively_def resolved_def bind_r_Inr_iff split: if_splits)

text \<open>What holds of a result that no picker produced.\<close>

definition not_retired_result :: "host_env \<Rightarrow> resolve_deps \<Rightarrow> resolved_identity \<Rightarrow> bool" where
  "not_retired_result h deps r \<longleftrightarrow>
     (\<forall>i. ri_identity r = Some i \<longrightarrow> \<not> isRetired i) \<and>
     (ri_source r = Env \<longrightarrow> (\<forall>file. rd_load deps = Inr file \<longrightarrow>
        (\<forall>i \<in> set (f_identities file). isRetired i \<longrightarrow>
           normaliseDir h (i_configDir i) \<noteq> normaliseDir h (expandPath h (ri_configDirValue r)))))"

lemma assertEnvNotRetired_ok:
  "assertEnvNotRetired h cfg v deps = Inr () \<Longrightarrow> not_retired_result h deps (resolved None v Env)"
  by (auto simp: assertEnvNotRetired_def not_retired_result_def resolved_def findRetiredByConfigDir_None
      split: option.splits)

lemma resolveSingle_not_retired:
  assumes "resolveSingleInstanceIdentity h cfg opts deps = Inr r"
  shows "ri_source r \<in> {Interactive_Existing, Interactive_Created} \<or> not_retired_result h deps r"
proof -
  note def = assms[unfolded resolveSingleInstanceIdentity_def Let_def bind_unit_Inr require_r_Inr]
  obtain reg where reg: "rd_load deps = Inr reg" using def by (auto simp: bind_r_Inr_iff)
  let ?fb = "single_instance_fallback h cfg opts deps reg (default '''' (tc_singleInstanceDir cfg))"
  have fb: ?thesis if "?fb = Inr r"
    using single_instance_fallback_source[OF that] by (auto simp: not_retired_result_def)
  show ?thesis
  proof (cases "truthy (ro_explicitIdentityFlag opts)")
    case True
    with def reg show ?thesis
      by (auto simp: not_retired_result_def resolved_def split: option.splits if_splits)
  next
    case noflag: False
    show ?thesis
    proof (cases "truthy (ro_explicitPoolFlag opts)")
      case True
      with def reg noflag show ?thesis
        by (auto simp: not_retired_result_def resolved_def findPool_active split: option.splits if_splits)
    next
      case nopool: False
      show ?thesis
      proof (cases "truthy (ro_env opts (tc_envVarName cfg)) \<and> ro_pickerMode opts = None")
        case True
        with def reg noflag nopool show ?thesis
          by (auto simp: bind_unit_Inr dest: assertEnvNotRetired_ok)
      next
        case False
        with def reg noflag nopool obtain found where
          "(case found of
             Unique i raw \<Rightarrow>
               if \<not> isRetired i then Inr (resolved (Some i)
                 (instance_dir h (default '''' (tc_singleInstanceDir cfg)) i) Directory_Match) else ?fb
           | No_Match \<Rightarrow> ?fb | Ambiguous cs \<Rightarrow> ?fb) = Inr r"
          by (auto simp: bind_r_Inr_iff)
        then show ?thesis
          using fb by (cases found) (auto simp: not_retired_result_def resolved_def split: if_splits)
      qed
    qed
  qed
qed

text \<open>Property C7.
  A retired identity is never launched: not through its name or alias, not as a pool, not
  through a directory, and not through a preset environment variable that points at its config
  directory in any spelling.\<close>

theorem resolve_never_retired:
  assumes "resolveIdentity h cfg opts deps = Inr r"
    and "ri_source r \<notin> {Interactive_Existing, Interactive_Created}"
  shows "not_retired_result h deps r"
proof (cases "truthy (tc_singleInstanceDir cfg)")
  case True
  with assms show ?thesis using resolveSingle_not_retired[of h cfg opts deps r] by (auto simp: resolveIdentity_def)
next
  case multi: False
  show ?thesis
  proof (cases "truthy (ro_explicitIdentityFlag opts) \<or> truthy (ro_explicitPoolFlag opts)")
    case True
    with assms multi show ?thesis
      by (auto simp: resolveIdentity_def not_retired_result_def resolved_def findPool_active
          bind_r_Inr_iff Let_def split: option.splits if_splits)
  next
    case noflag: False
    show ?thesis
    proof (cases "truthy (ro_env opts (tc_envVarName cfg)) \<and> ro_pickerMode opts = None")
      case True
      with assms multi noflag show ?thesis
        by (auto simp: resolveIdentity_def Let_def bind_unit_Inr dest: assertEnvNotRetired_ok)
    next
      case False
      with assms(1) multi noflag obtain reg found where
        "(if ro_pickerMode opts \<noteq> None then Inr No_Match
                else bind_r (matchDirectory h (ro_cwd opts) (f_identities reg))
                       (drop_retired_tie h (ro_cwd opts) (f_identities reg))) = Inr found"
        "(case found of
            Unique i raw \<Rightarrow> if isRetired i then Inl (RetiredIdentityError (tc_toolName cfg) (i_name i))
              else Inr (resolved (Some i) (expandPath h (i_configDir i)) Directory_Match)
          | No_Match \<Rightarrow> pick_interactively h opts deps reg
          | Ambiguous cs \<Rightarrow> pick_interactively h opts deps reg) = Inr r"
        by (auto simp: resolveIdentity_def bind_r_Inr_iff)
      then show ?thesis
        using assms(2) by (cases found)
          (auto simp: not_retired_result_def resolved_def split: if_splits dest: pick_interactively_source)
    qed
  qed
qed

definition example_options :: resolve_options where
  "example_options = \<lparr> ro_explicitIdentityFlag = None, ro_explicitPoolFlag = None,
     ro_pickerMode = None, ro_cwd = ''/w'', ro_env = (\<lambda>_. None), ro_nonInteractiveHint = True \<rparr>"

definition example_deps :: "identity list \<Rightarrow> resolve_deps" where
  "example_deps ids = \<lparr> rd_load = Inr \<lparr> f_identities = ids, f_chromeProfileOverrides = None \<rparr>,
     rd_interactive = False, rd_prompt = (\<lambda>_ _. Inl NonInteractiveResolutionError) \<rparr>"

lemma example_resolution:
  "resolveIdentity example_env (CLAUDE_CONFIG ''/h'') example_options (example_deps [tie_a, tie_b]) =
     Inr \<lparr> ri_identity = Some tie_b, ri_configDirValue = ''/c/b'', ri_source = Directory_Match \<rparr>"
  by code_simp

theorem resolve_never_retired_witness: "\<not> isRetired tie_b"
  using resolve_never_retired[OF example_resolution] by (simp add: not_retired_result_def)

lemma case_match_Inr:
  "(case found of No_Match \<Rightarrow> a | Unique i raw \<Rightarrow> f i raw | Ambiguous cs \<Rightarrow> g cs) = Inr r \<longleftrightarrow>
     found = No_Match \<and> a = Inr r \<or> (\<exists>i raw. found = Unique i raw \<and> f i raw = Inr r) \<or>
     (\<exists>cs. found = Ambiguous cs \<and> g cs = Inr r)"
  by (cases found) auto

text \<open>Where nobody can answer (a piped run, a headless flag, no terminal) the picker is never
  opened: the result does not depend on it, and it is a resolution from the flag, the
  environment, the directory or the shared instance, or an error.\<close>

theorem resolve_headless_never_prompts:
  assumes "ro_nonInteractiveHint opts \<or> \<not> rd_interactive deps"
  shows "resolveIdentity h cfg opts (deps\<lparr> rd_prompt := prompt \<rparr>) = resolveIdentity h cfg opts deps \<and>
    (\<forall>r. resolveIdentity h cfg opts deps = Inr r \<longrightarrow>
       ri_source r \<in> {Flag, Env, Directory_Match, Single_Instance})"
proof
  have pick: "pick_interactively h opts deps' reg = Inl NonInteractiveResolutionError"
    if "rd_interactive deps' = rd_interactive deps" for deps' reg
    using assms that by (auto simp: pick_interactively_def)
  have fb: "single_instance_fallback h cfg opts deps' reg sid =
      (if ro_pickerMode opts \<noteq> None then Inl NonInteractiveResolutionError
       else Inr (resolved None (expandPath h sid) Single_Instance))"
    if "rd_interactive deps' = rd_interactive deps" for deps' reg sid
    using assms that by (auto simp: single_instance_fallback_def Let_def)
  have eqs: "single_instance_fallback h cfg opts (deps\<lparr> rd_prompt := prompt \<rparr>) =
      single_instance_fallback h cfg opts deps"
    "pick_interactively h opts (deps\<lparr> rd_prompt := prompt \<rparr>) = pick_interactively h opts deps"
    "assertEnvNotRetired h cfg v (deps\<lparr> rd_prompt := prompt \<rparr>) = assertEnvNotRetired h cfg v deps"
    "rd_load (deps\<lparr> rd_prompt := prompt \<rparr>) = rd_load deps" for v
    by (auto simp: fb pick assertEnvNotRetired_def fun_eq_iff)
  show "resolveIdentity h cfg opts (deps\<lparr> rd_prompt := prompt \<rparr>) = resolveIdentity h cfg opts deps"
    unfolding resolveIdentity_def resolveSingleInstanceIdentity_def eqs ..
  have fb_src: "ri_source r = Single_Instance" if "single_instance_fallback h cfg opts deps reg sid = Inr r"
    for reg sid r
    using that by (auto simp: fb resolved_def split: if_splits)
  show "\<forall>r. resolveIdentity h cfg opts deps = Inr r \<longrightarrow>
       ri_source r \<in> {Flag, Env, Directory_Match, Single_Instance}"
    by (auto simp: resolveIdentity_def resolveSingleInstanceIdentity_def Let_def bind_r_Inr_iff pick
        resolved_def case_match_Inr dest!: fb_src split: if_splits option.splits)
qed

theorem resolve_headless_never_prompts_witness:
  "resolveIdentity example_env (CLAUDE_CONFIG ''/h'') example_options
     ((example_deps [tie_a, tie_b])\<lparr> rd_prompt := (\<lambda>_ _. Inr (tie_a, False)) \<rparr>) =
   Inr \<lparr> ri_identity = Some tie_b, ri_configDirValue = ''/c/b'', ri_source = Directory_Match \<rparr>"
  using resolve_headless_never_prompts[of example_options "example_deps [tie_a, tie_b]"] example_resolution
  by (simp add: example_options_def)



end
