(* ===== verification/Swap_Ledger.thy ===== *)
theory Swap_Ledger
  imports Swap_Pool "HOL-Library.Multiset"
begin

text \<open>
  The per-tool swap ledger (\<open>src/identities/pool/ledger.ts\<close>): an append-only file of one JSON
  event per line. A line is \<open>None\<close> when \<open>JSON.parse\<close> throws on it or it is blank (a torn or
  foreign line), and the parsed value otherwise.
\<close>

datatype swap_reason = Manual | Auto | Launch | Foreign_Reason json

record swap_event =
  se_ts :: string
  se_pool :: string
  se_from :: "string option"
  se_to :: string
  se_reason :: swap_reason
  se_hardLimitUntilMs :: "rat option"

type_synonym ledger_file = "json option list"

fun encode_reason :: "swap_reason \<Rightarrow> json" where
  "encode_reason Manual = JStr ''manual''"
| "encode_reason Auto = JStr ''auto''"
| "encode_reason Launch = JStr ''launch''"
| "encode_reason (Foreign_Reason j) = j"

text \<open>\<open>(e.reason ?? "manual") as SwapReason\<close>: the cast checks nothing.\<close>

definition decode_reason :: "json option \<Rightarrow> swap_reason" where
  "decode_reason r =
     (if r = None \<or> r = Some JNull \<or> r = Some (JStr ''manual'') then Manual
      else if r = Some (JStr ''auto'') then Auto
      else if r = Some (JStr ''launch'') then Launch
      else Foreign_Reason (the r))"

definition encode_event :: "swap_event \<Rightarrow> json" where
  "encode_event e = JObj
     ([(''ts'', JStr (se_ts e)), (''pool'', JStr (se_pool e)),
       (''from'', case se_from e of None \<Rightarrow> JNull | Some s \<Rightarrow> JStr s),
       (''to'', JStr (se_to e)), (''reason'', encode_reason (se_reason e))] @
      field ''hardLimitUntilMs'' (\<lambda>q. JNum (Fin q)) (se_hardLimitUntilMs e))"

definition appendSwapEvent :: "swap_event \<Rightarrow> ledger_file \<Rightarrow> ledger_file" where
  "appendSwapEvent event ledger = ledger @ [Some (encode_event event)]"

definition event_time :: "host_env \<Rightarrow> swap_event \<Rightarrow> int" where
  "event_time h e = default 0 (he_date_parse h (se_ts e))"

definition decode_event :: "host_env \<Rightarrow> json \<Rightarrow> swap_event option" where
  "decode_event h e =
     (case (Option.bind (js_get e ''ts'') as_string, Option.bind (js_get e ''pool'') as_string,
            Option.bind (js_get e ''to'') as_string) of
        (Some ts, Some pool, Some to) \<Rightarrow>
          if he_date_parse h ts = None then None
          else Some \<lparr> se_ts = ts, se_pool = pool,
                 se_from = Option.bind (js_get e ''from'') as_string, se_to = to,
                 se_reason = decode_reason (js_get e ''reason''),
                 se_hardLimitUntilMs = Option.bind (js_get e ''hardLimitUntilMs'') as_finite \<rparr>
      | _ \<Rightarrow> None)"

definition readSwapEvents :: "host_env \<Rightarrow> ledger_file \<Rightarrow> swap_event list" where
  "readSwapEvents h ledger =
     sort_key (event_time h) (List.map_filter (\<lambda>line. Option.bind line (decode_event h)) ledger)"

text \<open>The loop of \<open>activeMemberAt\<close>, with its \<open>continue\<close> and its \<open>break\<close>.\<close>

fun active_loop :: "host_env \<Rightarrow> swap_event list \<Rightarrow> string \<Rightarrow> int \<Rightarrow> string option \<Rightarrow> string option" where
  "active_loop h [] pool atMs active = active"
| "active_loop h (e # events) pool atMs active =
     (if se_pool e \<noteq> pool then active_loop h events pool atMs active
      else if (\<exists>t \<in> set_option (he_date_parse h (se_ts e)). t > atMs) then active
      else active_loop h events pool atMs (Some (se_to e)))"

definition activeMemberAt :: "host_env \<Rightarrow> swap_event list \<Rightarrow> string \<Rightarrow> int \<Rightarrow> string option" where
  "activeMemberAt h events pool atMs = active_loop h events pool atMs None"

definition eventsForPool :: "swap_event list \<Rightarrow> identity \<Rightarrow> swap_event list" where
  "eventsForPool events pool =
     (let names = [i_name pool, path_basename (i_configDir pool)] @ default [] (i_aliases pool) in
      map (\<lambda>e. e\<lparr> se_pool := i_name pool \<rparr>) (filter (\<lambda>e. se_pool e \<in> set names) events))"

section \<open>Laws of the ledger\<close>

text \<open>An event that this code writes: its instant parses and its reason is one of the three.\<close>

definition event_ok :: "host_env \<Rightarrow> swap_event \<Rightarrow> bool" where
  "event_ok h e \<longleftrightarrow> he_date_parse h (se_ts e) \<noteq> None \<and> se_reason e \<in> {Manual, Auto, Launch}"

lemma decode_encode_reason: "r \<in> {Manual, Auto, Launch} \<Longrightarrow> decode_reason (Some (encode_reason r)) = r"
  by (auto simp: decode_reason_def)

lemma decode_encode_event:
  assumes "event_ok h e"
  shows "decode_event h (encode_event e) = Some e"
proof -
  have "js_get (encode_event e) ''from'' = Some (case se_from e of None \<Rightarrow> JNull | Some s \<Rightarrow> JStr s)"
    "js_get (encode_event e) ''hardLimitUntilMs'' = map_option (\<lambda>q. JNum (Fin q)) (se_hardLimitUntilMs e)"
    "js_get (encode_event e) ''reason'' = Some (encode_reason (se_reason e))"
    by (simp_all add: encode_event_def field_def split: option.split)
  moreover have "js_get (encode_event e) ''ts'' = Some (JStr (se_ts e))"
    "js_get (encode_event e) ''pool'' = Some (JStr (se_pool e))"
    "js_get (encode_event e) ''to'' = Some (JStr (se_to e))"
    by (simp_all add: encode_event_def)
  moreover have "Option.bind (Some (case se_from e of None \<Rightarrow> JNull | Some s \<Rightarrow> JStr s)) as_string = se_from e"
    by (cases "se_from e") auto
  moreover have "Option.bind (map_option (\<lambda>q. JNum (Fin q)) l) as_finite = l" for l
    by (cases l) auto
  ultimately show ?thesis
    using assms by (auto simp: decode_event_def event_ok_def decode_encode_reason)
qed

lemma decode_event_ts:
  assumes "decode_event h j = Some e"
  shows "he_date_parse h (se_ts e) \<noteq> None"
proof (cases "Option.bind (js_get j ''ts'') as_string")
  case (Some ts)
  with assms show ?thesis
    by (cases "Option.bind (js_get j ''pool'') as_string"; cases "Option.bind (js_get j ''to'') as_string")
      (auto simp: decode_event_def split: if_splits)
qed (use assms in \<open>simp add: decode_event_def\<close>)

lemma readSwapEvents_parse:
  assumes "e \<in> set (readSwapEvents h l)"
  shows "he_date_parse h (se_ts e) = Some (event_time h e)"
proof -
  obtain j where "decode_event h j = Some e"
    using assms by (auto simp: readSwapEvents_def map_filter_set bind_eq_Some_conv)
  then show ?thesis by (auto simp: event_time_def dest: decode_event_ts)
qed

lemma readSwapEvents_sorted: "sorted (map (event_time h) (readSwapEvents h l))"
  by (simp add: readSwapEvents_def)

lemma sort_key_snoc:
  fixes f :: "'a \<Rightarrow> 'k::linorder"
  shows "sort_key f (xs @ [x]) =
    filter (\<lambda>y. f y \<le> f x) (sort_key f xs) @ [x] @ filter (\<lambda>y. f x < f y) (sort_key f xs)"
    (is "_ = ?ys")
proof (rule properties_for_sort_key)
  have "mset (filter (\<lambda>y. f y \<le> f x) zs) + mset (filter (\<lambda>y. f x < f y) zs) = mset zs" for zs
    by (induction zs) auto
  from this[of "sort_key f xs"] show "mset ?ys = mset (xs @ [x])" by simp
  show "sorted (map f ?ys)"
    by (auto simp: sorted_append sorted_filter)
  show "filter (\<lambda>y. f k = f y) ?ys = filter (\<lambda>y. f k = f y) (xs @ [x])" for k
  proof -
    have stable: "filter (\<lambda>y. c = f y) (sort_key f xs) = filter (\<lambda>y. c = f y) xs" for c
      using sort_key_stable[of f c xs] by (simp add: eq_commute)
    have "filter (\<lambda>y. f k = f y) (filter (\<lambda>y. f y \<le> f x) zs) = (if f k \<le> f x then filter (\<lambda>y. f k = f y) zs else [])"
      "filter (\<lambda>y. f k = f y) (filter (\<lambda>y. f x < f y) zs) = (if f x < f k then filter (\<lambda>y. f k = f y) zs else [])" for zs
      by (induction zs) auto
    then show ?thesis by (auto simp: stable)
  qed
qed

text \<open>The ledger is an append-only log that keeps its order: an appended event is read back as it
  was written, after every event that is not later than it and before every event that is
  later, whatever torn or foreign lines the file holds, and no other event is gained or lost.\<close>

theorem readSwapEvents_append:
  assumes "event_ok h e"
  shows "readSwapEvents h (appendSwapEvent e l) =
    filter (\<lambda>e'. event_time h e' \<le> event_time h e) (readSwapEvents h l) @ [e] @
    filter (\<lambda>e'. event_time h e < event_time h e') (readSwapEvents h l)"
proof -
  have "List.map_filter (\<lambda>line. Option.bind line (decode_event h)) (appendSwapEvent e l) =
      List.map_filter (\<lambda>line. Option.bind line (decode_event h)) l @ [e]"
    using decode_encode_event[OF assms] by (simp add: appendSwapEvent_def map_filter_def)
  then show ?thesis by (simp add: readSwapEvents_def sort_key_snoc)
qed

definition example_ledger_env :: host_env where
  "example_ledger_env = example_env\<lparr> he_date_parse :=
     (\<lambda>s. if s = ''t1'' then Some 1 else if s = ''t2'' then Some 2 else if s = ''t3'' then Some 3 else None) \<rparr>"

definition example_event :: "string \<Rightarrow> string \<Rightarrow> swap_event" where
  "example_event ts to = \<lparr> se_ts = ts, se_pool = ''p'', se_from = None, se_to = to, se_reason = Auto,
     se_hardLimitUntilMs = None \<rparr>"

theorem readSwapEvents_append_witness:
  "readSwapEvents example_ledger_env (appendSwapEvent (example_event ''t2'' ''b'')
     [Some (encode_event (example_event ''t3'' ''c'')), None, Some (encode_event (example_event ''t1'' ''a''))]) =
   [example_event ''t1'' ''a'', example_event ''t2'' ''b'', example_event ''t3'' ''c'']"
proof -
  have ok: "event_ok example_ledger_env (example_event ''t2'' ''b'')" by code_simp
  have old: "readSwapEvents example_ledger_env
      [Some (encode_event (example_event ''t3'' ''c'')), None, Some (encode_event (example_event ''t1'' ''a''))] =
    [example_event ''t1'' ''a'', example_event ''t3'' ''c'']" by code_simp
  show ?thesis
    unfolding readSwapEvents_append[OF ok] old by code_simp
qed

section \<open>The active member over time\<close>

lemma active_loop_late:
  assumes "sorted (map (event_time h) es)" "\<forall>e \<in> set es. he_date_parse h (se_ts e) = Some (event_time h e)"
  shows "active_loop h es pool now a =
    (case filter (\<lambda>e. se_pool e = pool \<and> event_time h e \<le> now) es of
       [] \<Rightarrow> a | xs \<Rightarrow> Some (se_to (last xs)))"
  using assms
proof (induction es arbitrary: a)
  case (Cons e es)
  show ?case
  proof (cases "se_pool e = pool \<and> event_time h e > now")
    case True
    with Cons.prems(1) have "filter (\<lambda>e. se_pool e = pool \<and> event_time h e \<le> now) (e # es) = []"
      by (auto simp: filter_empty_conv)
    moreover from True Cons.prems(2) have "active_loop h (e # es) pool now a = a" by simp
    ultimately show ?thesis by simp
  next
    case False
    with Cons show ?thesis by (auto split: list.split)
  qed
qed simp

text \<open>The early \<open>break\<close> of the attribution loop is sound: over the events the reader returns, the
  member active in a pool at an instant is the target of the last swap of that pool that is not
  later than the instant, and undefined exactly when there was none.\<close>

theorem activeMemberAt_last_swap:
  "activeMemberAt h (readSwapEvents h l) pool now =
     (case filter (\<lambda>e. se_pool e = pool \<and> event_time h e \<le> now) (readSwapEvents h l) of
        [] \<Rightarrow> None | xs \<Rightarrow> Some (se_to (last xs)))"
  unfolding activeMemberAt_def
  by (rule active_loop_late) (auto simp: readSwapEvents_sorted readSwapEvents_parse)

lemma eventsForPool_set:
  "e \<in> set (eventsForPool es p) \<Longrightarrow> \<exists>e' \<in> set es. e = e'\<lparr> se_pool := i_name p \<rparr> \<and> se_ts e = se_ts e'"
  by (auto simp: eventsForPool_def Let_def)

lemma eventsForPool_append: "eventsForPool (es @ es') p = eventsForPool es p @ eventsForPool es' p"
  by (simp add: eventsForPool_def Let_def)

end
