(* ===== verification/Pool_Adapter.thy ===== *)
theory Pool_Adapter
  imports Swap_Ledger
begin

text \<open>
  The provider-neutral pool contract (\<open>src/identities/pool/adapter.ts\<close>) and the state the pool
  operations share. An adapter is a record of functions over a credential store of any type \<open>'c\<close>;
  the grant-file adapters of Kimi and Pi instantiate it. A pool world holds the registry file and
  the swap ledger of one tool and the credential store.
\<close>

datatype write_back =
    Written | No_Live_Credentials | Identical | Member_Newer | Unknown_Owner | Account_Mismatch

text \<open>\<open>Omit<SwapResult, "reason">\<close> and \<open>SwapResult\<close>.\<close>

record fs_result =
  fr_pool :: string
  fr_from :: "string option"
  fr_to :: string
  fr_noop :: bool
  fr_writeBack :: write_back
  fr_notes :: "string list"

record swap_result = fs_result +
  sr_reason :: swap_reason
  sr_runningSessions :: "nat option"

datatype usage_status = Live | Rate_Limited | Unavailable

record usage_window =
  uw_label :: string
  uw_utilization :: rat
  uw_resetsAt :: "string option"

text \<open>\<open>PoolUsage\<close>; of \<open>extraUsage\<close> the core only reads \<open>available\<close>.\<close>

record pool_usage =
  pu_status :: usage_status
  pu_maxUtilization :: "rat option"
  pu_windows :: "usage_window list option"
  pu_extraUsage :: "bool option"
  pu_error :: "string option"
  pu_retryAfterSeconds :: "rat option"
  pu_capturedAt :: string

record swap_input =
  sc_pool :: identity
  sc_members :: "identity list"
  sc_target :: identity
  sc_reason :: swap_reason

record 'c pool_adapter =
  pa_tool :: tool_name
  pa_liveSwap :: bool
  pa_memberProblem :: "'c \<Rightarrow> identity \<Rightarrow> string option"
  pa_hasCredentials :: "'c \<Rightarrow> string \<Rightarrow> bool"
  pa_swapCredentials :: "swap_input \<Rightarrow> 'c \<Rightarrow> (error + fs_result) \<times> 'c"
  pa_fetchUsage :: "'c \<Rightarrow> identity \<Rightarrow> pool_usage"
  pa_notifySwapped :: "(identity \<Rightarrow> string option \<Rightarrow> string \<Rightarrow> error + nat option) option"
  pa_heal :: "(identity \<Rightarrow> identity list \<Rightarrow> 'c \<Rightarrow> (error + string list) \<times> 'c) option"

record 'c pool_world =
  pw_registry :: disk_file
  pw_ledger :: ledger_file
  pw_creds :: 'c

text \<open>
  What other processes do while an operation waits: for the pool lock (or its timeout), and
  between the adapter's credential swap and the second registry read.
\<close>

record 'c interference =
  in_lock :: "'c pool_world \<Rightarrow> error + 'c pool_world"
  in_creds :: "'c pool_world \<Rightarrow> 'c pool_world"

text \<open>The identities of the accounts of a pool, in account order, and those not retired.\<close>

definition poolMembers :: "identities_file \<Rightarrow> identity \<Rightarrow> identity list" where
  "poolMembers file pool =
     List.map_filter (\<lambda>name. find (\<lambda>i. i_name i = name) (f_identities file))
       (sp_accounts (pool_config pool))"

definition liveMembers :: "identities_file \<Rightarrow> identity \<Rightarrow> identity list" where
  "liveMembers file pool = filter (\<lambda>i. \<not> isRetired i) (poolMembers file pool)"

lemma liveMembers_mem:
  "m \<in> set (liveMembers file pool) \<Longrightarrow>
     m \<in> set (f_identities file) \<and> \<not> isRetired m \<and> i_name m \<in> set (sp_accounts (pool_config pool))"
  by (auto simp: liveMembers_def poolMembers_def map_filter_set dest: find_Some_set)

text \<open>
  The contract of \<open>swapCredentials\<close> that the core relies on: a successful swap reports the pool,
  the member that was recorded as active and the target, leaves a usable login in the pool
  folder, and calls itself a no-op only when the target was the recorded active member.
\<close>

locale pool_adapter_contract =
  fixes ad :: "'c pool_adapter"
  assumes swap_reports: "pa_swapCredentials ad inp c = (Inr r, c') \<Longrightarrow>
      fr_pool r = i_name (sc_pool inp) \<and> fr_to r = i_name (sc_target inp) \<and>
      fr_from r = sp_active (pool_config (sc_pool inp))"
    and swap_noop: "pa_swapCredentials ad inp c = (Inr r, c') \<Longrightarrow> fr_noop r \<Longrightarrow>
      fr_from r = Some (fr_to r)"
    and swap_leaves_login: "pa_swapCredentials ad inp c = (Inr r, c') \<Longrightarrow>
      pa_hasCredentials ad c' (i_configDir (sc_pool inp))"

text \<open>\<open>healPool\<close> of \<open>heal.ts\<close>, up to its lock: the registry is read again under the lock.\<close>

definition healPool :: "host_env \<Rightarrow> 'c pool_adapter \<Rightarrow> identity \<Rightarrow> 'c interference \<Rightarrow> 'c pool_world \<Rightarrow>
    (error + string list) \<times> 'c pool_world" where
  "healPool h ad pool intf w =
     (case pa_heal ad of
        None \<Rightarrow> (Inr [], w)
      | Some heal \<Rightarrow>
     (case in_lock intf w of
        Inl e \<Rightarrow> (Inl e, w)
      | Inr w \<Rightarrow>
     (case loadIdentitiesFile h (pw_registry w) of
        Inl e \<Rightarrow> (Inl e, w)
      | Inr file \<Rightarrow>
     (case requirePool h file (Some (i_name pool)) (tool_string (pa_tool ad)) of
        Inl e \<Rightarrow> (Inl e, w)
      | Inr fresh \<Rightarrow>
          (case heal fresh (liveMembers file fresh) (pw_creds w) of
             (r, c) \<Rightarrow> (r, w\<lparr> pw_creds := c \<rparr>))))))"

end
