(* ===== verification/Lock_Order.thy ===== *)
theory Lock_Order
  imports Pool_Adapter "HOL-Library.List_Lexorder" "HOL-Library.Char_ord" "HOL-Library.Product_Lexorder"
begin

text \<open>
  The lock directories of a credential swap (\<open>src/identities/claude-swap-lock.ts\<close>, \<open>pool/lock.ts\<close> and
  \<open>withHeldLocks\<close> of \<open>pool/grant-file-adapter.ts\<close>): their paths, the one acquisition order, the
  wait loop of \<open>acquire\<close>, and why two swaps never wait for each other in a circle.
\<close>

section \<open>Paths and order\<close>

definition oauthRefreshLockPath :: "string \<Rightarrow> string" where
  "oauthRefreshLockPath configDir = path_join [configDir, ''.oauth_refresh.lock'']"

definition claudeJsonLockPath :: "string \<Rightarrow> string" where
  "claudeJsonLockPath configDir = path_join [configDir, ''.claude.json.lock'']"

definition poolLockPath :: "string \<Rightarrow> string" where
  "poolLockPath poolDir = path_join [poolDir, ''.ais-pool.lock'']"

text \<open>\<open>[...new Set(xs)]\<close>: the first occurrences.\<close>

definition unique_first :: "'a list \<Rightarrow> 'a list" where
  "unique_first xs = rev (remdups (rev xs))"

definition lockOrder :: "host_env \<Rightarrow> string list \<Rightarrow> string list" where
  "lockOrder h dirs = sort_key oauthRefreshLockPath (unique_first (map (path_resolve h) dirs))"

text \<open>The directories \<open>withHeldLocks\<close> locks, outermost first: the pool, then the members in order.\<close>

definition heldOrder :: "host_env \<Rightarrow> string \<Rightarrow> string list \<Rightarrow> string list" where
  "heldOrder h poolDir held =
     (let poolKey = path_resolve h (expandPath h poolDir)
      in poolKey # filter (\<lambda>d. d \<noteq> poolKey) (lockOrder h held))"

text \<open>Each directory carries its own refresh lock and the tool's lock; a swap takes the pool's lock first.\<close>

datatype lock_kind = Pool_Lock | Oauth_Lock | Tool_Lock

type_synonym lock_id = "lock_kind \<times> string"

definition swap_locks :: "host_env \<Rightarrow> string \<Rightarrow> string list \<Rightarrow> lock_id list" where
  "swap_locks h poolDir held =
     (Pool_Lock, path_resolve h (expandPath h poolDir)) #
     concat (map (\<lambda>d. [(Oauth_Lock, d), (Tool_Lock, d)]) (heldOrder h poolDir held))"

lemma unique_first_set [simp]: "set (unique_first xs) = set xs"
  by (simp add: unique_first_def)

lemma unique_first_distinct [simp]: "distinct (unique_first xs)"
  by (simp add: unique_first_def)

lemma lockOrder_set [simp]: "set (lockOrder h dirs) = path_resolve h ` set dirs"
  by (simp add: lockOrder_def)

lemma lockOrder_distinct [simp]: "distinct (lockOrder h dirs)"
  by (simp add: lockOrder_def)

lemma lockOrder_sorted: "sorted (map oauthRefreshLockPath (lockOrder h dirs))"
  by (simp add: lockOrder_def)

text \<open>The lock path of an absolute directory spells out its segments, so it identifies it.\<close>

lemma norm_segments_append: "norm_segments acc (xs @ ys) = norm_segments (rev (norm_segments acc xs)) ys"
  by (induction acc xs rule: norm_segments.induct) auto

lemma lock_path_segments:
  assumes "is_absolute d" "good_segment f" "\<not> ends_with f ''/''"
  shows "path_join [d, f] = slash # join_with [slash] (norm_segments [] (split_on slash d) @ [f])"
proof -
  let ?p = "d @ slash # f"
  have f: "slash \<notin> set f" "f \<noteq> ''''" using assms(2) by (auto simp: good_segment_def)
  have d: "d \<noteq> ''''" using assms(1) by (auto simp: is_absolute_def starts_with_def)
  have abs: "is_absolute ?p" using assms(1) by (auto simp: is_absolute_def starts_with_iff)
  have "split_on slash ?p = split_on slash d @ [f]"
    using f(1) by (simp add: split_on_append_sep split_on_no_occurrence)
  then have segs: "norm_segments [] (split_on slash ?p) = norm_segments [] (split_on slash d) @ [f]"
    using assms(2) by (auto simp: norm_segments_append good_segment_def)
  have no_trail: "\<not> ends_with ?p ''/''"
  proof -
    have "last ?p = last f" using f(2) by simp
    moreover have "last f \<noteq> slash" using f last_in_set by metis
    moreover have "drop (length ?p - 1) ?p = [last ?p]" by (cases ?p rule: rev_cases) auto
    ultimately show ?thesis by (simp add: ends_with_def)
  qed
  have ne: "join_with [slash] (norm_segments [] (split_on slash d) @ [f]) \<noteq> ''''"
    using f(2) by (cases "norm_segments [] (split_on slash d)" rule: list.exhaust)
      (auto simp: join_with_Cons)
  show ?thesis
    using d f(2) abs no_trail ne by (simp add: path_join_def path_normalize_def Let_def segs)
qed

lemma lock_path_inj:
  assumes "is_absolute d" "is_absolute d'" "good_segment f" "\<not> ends_with f ''/''"
    and "path_join [path_resolve h d, f] = path_join [path_resolve h d', f]"
  shows "path_resolve h d = path_resolve h d'"
proof -
  let ?s = "\<lambda>d. norm_segments [] (split_on slash d)"
  have eq: "join_with [slash] (?s (path_resolve h d) @ [f]) = join_with [slash] (?s (path_resolve h d') @ [f])"
    using assms(5) lock_path_segments[OF path_resolve_is_absolute assms(3,4)] by simp
  have good: "\<forall>w \<in> set (?s p @ [f]). slash \<notin> set w" for p
    using resolve_absolute_segments[of p] assms(3) by (auto simp: good_segment_def)
  have split: "split_on slash (join_with [slash] (?s p @ [f])) = ?s p @ [f]" for p
    by (rule split_join) (use good in auto)
  have "?s (path_resolve h d) = ?s (path_resolve h d')"
    by (metis eq split append1_eq_conv)
  then have "?s d = ?s d'"
    using assms(1,2) by (simp add: path_resolve_def split_resolve_absolute)
  then show ?thesis using assms(1,2) by (simp add: path_resolve_def resolve_absolute_def)
qed

section \<open>Processes that take locks in turn\<close>

text \<open>
  A state lists for every process how many locks of its program it holds, or \<open>None\<close> once it has
  released them all.
\<close>

definition held_by :: "'l list list \<Rightarrow> nat option list \<Rightarrow> nat \<Rightarrow> 'l list" where
  "held_by progs st i = (case st ! i of None \<Rightarrow> [] | Some k \<Rightarrow> take k (progs ! i))"

inductive lock_step :: "'l list list \<Rightarrow> nat option list \<Rightarrow> nat option list \<Rightarrow> bool" for progs where
  take_lock: "i < length progs \<Longrightarrow> st ! i = Some k \<Longrightarrow> k < length (progs ! i) \<Longrightarrow>
    (\<forall>j < length progs. progs ! i ! k \<notin> set (held_by progs st j)) \<Longrightarrow>
    lock_step progs st (st[i := Some (Suc k)])"
| release_all: "i < length progs \<Longrightarrow> st ! i = Some (length (progs ! i)) \<Longrightarrow>
    lock_step progs st (st[i := None])"

inductive lock_run :: "'l list list \<Rightarrow> nat \<Rightarrow> nat option list \<Rightarrow> bool" for progs where
  begin_run: "lock_run progs 0 (replicate (length progs) (Some 0))"
| step_run: "lock_run progs n st \<Longrightarrow> lock_step progs st st' \<Longrightarrow> lock_run progs (Suc n) st'"

inductive_cases lock_stepE: "lock_step progs st st'"

definition work_left :: "'l list list \<Rightarrow> nat option list \<Rightarrow> nat" where
  "work_left progs st = (\<Sum>i < length progs. case st ! i of None \<Rightarrow> 0 | Some k \<Rightarrow> Suc (length (progs ! i)) - k)"

definition lock_inv :: "'l list list \<Rightarrow> nat option list \<Rightarrow> bool" where
  "lock_inv progs st \<longleftrightarrow> length st = length progs \<and>
     (\<forall>i < length progs. \<forall>k. st ! i = Some k \<longrightarrow> k \<le> length (progs ! i))"

lemma lock_step_inv: "lock_step progs st st' \<Longrightarrow> lock_inv progs st \<Longrightarrow> lock_inv progs st'"
  by (erule lock_stepE) (auto simp: lock_inv_def nth_list_update split: if_splits)

lemma lock_step_work:
  assumes "lock_step progs st st'" "lock_inv progs st"
  shows "work_left progs st' < work_left progs st"
proof -
  obtain i v where i: "i < length progs" "st' = st[i := v]"
    and less: "(case v of None \<Rightarrow> 0 | Some k \<Rightarrow> Suc (length (progs ! i)) - k) <
      (case st ! i of None \<Rightarrow> 0 | Some k \<Rightarrow> Suc (length (progs ! i)) - k)"
    using assms(1) by (elim lock_stepE) (auto simp: Suc_diff_le)
  have len: "length st = length progs" using assms(2) by (simp add: lock_inv_def)
  show ?thesis
    unfolding work_left_def
  proof (rule sum_strict_mono_ex1)
    show "\<forall>j \<in> {..<length progs}. (case st' ! j of None \<Rightarrow> 0 | Some k \<Rightarrow> Suc (length (progs ! j)) - k)
        \<le> (case st ! j of None \<Rightarrow> 0 | Some k \<Rightarrow> Suc (length (progs ! j)) - k)"
      using i less len by (auto simp: nth_list_update less_imp_le)
    show "\<exists>j \<in> {..<length progs}. (case st' ! j of None \<Rightarrow> 0 | Some k \<Rightarrow> Suc (length (progs ! j)) - k)
        < (case st ! j of None \<Rightarrow> 0 | Some k \<Rightarrow> Suc (length (progs ! j)) - k)"
      using i less len by (intro bexI[of _ i]) auto
  qed simp
qed

lemma lock_run_inv: "lock_run progs n st \<Longrightarrow> lock_inv progs st \<and>
    n + work_left progs st \<le> (\<Sum>p \<leftarrow> progs. Suc (length p))"
proof (induction rule: lock_run.induct)
  case begin_run
  have "work_left progs (replicate (length progs) (Some 0)) = (\<Sum>p \<leftarrow> progs. Suc (length p))"
    unfolding work_left_def by (simp add: sum_list_sum_nth atLeast0LessThan)
  then show ?case by (simp add: lock_inv_def)
next
  case (step_run n st st')
  with lock_step_inv lock_step_work show ?case by fastforce
qed

text \<open>With programs that ascend in one order, the process that waits highest can go on.\<close>

lemma ordered_locks_progress:
  fixes key :: "'l \<Rightarrow> 'k::linorder"
  assumes "lock_inv progs st" "\<forall>p \<in> set progs. sorted_wrt (\<lambda>a b. key a < key b) p"
    and "i < length progs" "st ! i \<noteq> None"
  shows "\<exists>st'. lock_step progs st st'"
proof (cases "\<exists>i < length progs. st ! i = Some (length (progs ! i))")
  case True
  then show ?thesis by (auto intro: release_all)
next
  case False
  let ?W = "{j. j < length progs \<and> st ! j \<noteq> None}"
  let ?wait = "\<lambda>j. progs ! j ! the (st ! j)"
  have waits: "\<exists>k. st ! j = Some k \<and> k < length (progs ! j)" if "j \<in> ?W" for j
    using that False assms(1) by (fastforce simp: lock_inv_def nat_less_le)
  have fin: "finite ((\<lambda>j. key (?wait j)) ` ?W)" by simp
  have ne: "(\<lambda>j. key (?wait j)) ` ?W \<noteq> {}" using assms(3,4) by blast
  obtain m where m: "m \<in> ?W" "key (?wait m) = Max ((\<lambda>j. key (?wait j)) ` ?W)"
    using Max_in[OF fin ne] unfolding image_iff by (elim bexE) (drule sym, blast)
  then have top: "key (?wait j) \<le> key (?wait m)" if "j \<in> ?W" for j
    using Max_ge[OF fin] that by auto
  from waits[OF m(1)] obtain k where k: "st ! m = Some k" "k < length (progs ! m)" by blast
  have free: "progs ! m ! k \<notin> set (held_by progs st j)" if "j < length progs" for j
  proof
    assume held: "progs ! m ! k \<in> set (held_by progs st j)"
    then have "st ! j \<noteq> None" by (cases "st ! j") (auto simp: held_by_def)
    with that have jW: "j \<in> ?W" by simp
    from waits[OF jW] obtain n where n: "st ! j = Some n" "n < length (progs ! j)" by blast
    with held obtain a where a: "a < n" "progs ! j ! a = progs ! m ! k"
      by (auto simp: held_by_def in_set_conv_nth)
    have "sorted_wrt (\<lambda>a b. key a < key b) (progs ! j)" using assms(2) that by simp
    from sorted_wrt_nth_less[OF this a(1) n(2)] have "key (progs ! j ! a) < key (progs ! j ! n)" .
    with top[OF jW] a(2) n(1) k(1) show False by simp
  qed
  with k m(1) show ?thesis by (auto intro: take_lock)
qed

section \<open>Swaps never deadlock\<close>

definition lock_key :: "string set \<Rightarrow> lock_id \<Rightarrow> nat \<times> string \<times> nat" where
  "lock_key pools l =
     (if fst l = Pool_Lock then 0 else if snd l \<in> pools then 1 else 2,
      oauthRefreshLockPath (snd l), if fst l = Oauth_Lock then 0 else 1)"

lemma oauth_path_inj: "inj_on oauthRefreshLockPath (range (path_resolve h))"
proof (rule inj_onI)
  fix a b assume "a \<in> range (path_resolve h)" "b \<in> range (path_resolve h)"
    and eq: "oauthRefreshLockPath a = oauthRefreshLockPath b"
  then obtain p q where ab: "a = path_resolve h p" "b = path_resolve h q" by auto
  have "path_resolve h (path_resolve h p) = path_resolve h (path_resolve h q)"
  proof (rule lock_path_inj)
    show "good_segment ''.oauth_refresh.lock''" by (simp add: good_segment_def)
    show "\<not> ends_with ''.oauth_refresh.lock'' ''/''" by (simp add: ends_with_def)
    show "path_join [path_resolve h (path_resolve h p), ''.oauth_refresh.lock''] =
        path_join [path_resolve h (path_resolve h q), ''.oauth_refresh.lock'']"
      using eq by (simp add: ab path_resolve_idem oauthRefreshLockPath_def)
  qed simp_all
  then show "a = b" by (simp add: ab path_resolve_idem)
qed

lemma lockOrder_strict: "sorted_wrt (\<lambda>a b. oauthRefreshLockPath a < oauthRefreshLockPath b) (lockOrder h dirs)"
proof -
  have "inj_on oauthRefreshLockPath (set (lockOrder h dirs))"
    by (rule inj_on_subset[OF oauth_path_inj[of h]]) auto
  then have "distinct (map oauthRefreshLockPath (lockOrder h dirs))" by (simp add: distinct_map)
  then have "sorted_wrt (<) (map oauthRefreshLockPath (lockOrder h dirs))"
    using lockOrder_sorted by (simp add: strict_sorted_iff)
  then show ?thesis by (simp add: sorted_wrt_map)
qed

lemma sorted_wrt_pairs:
  assumes "sorted_wrt R ds" "\<And>d. d \<in> set ds \<Longrightarrow> Q (f d) (g d)"
    and "\<And>d e. d \<in> set ds \<Longrightarrow> e \<in> set ds \<Longrightarrow> R d e \<Longrightarrow> Q (f d) (f e) \<and> Q (f d) (g e) \<and> Q (g d) (f e) \<and> Q (g d) (g e)"
  shows "sorted_wrt Q (concat (map (\<lambda>d. [f d, g d]) ds))"
  using assms by (induction ds) auto

lemma swap_locks_ascend:
  assumes "path_resolve h (expandPath h poolDir) \<in> pools"
    and "\<forall>d \<in> set held. path_resolve h d \<in> pools \<longrightarrow> path_resolve h d = path_resolve h (expandPath h poolDir)"
  shows "sorted_wrt (\<lambda>a b. lock_key pools a < lock_key pools b) (swap_locks h poolDir held)"
proof -
  let ?p = "path_resolve h (expandPath h poolDir)"
  let ?ms = "filter (\<lambda>d. d \<noteq> ?p) (lockOrder h held)"
  have ms: "d \<notin> pools" if "d \<in> set ?ms" for d
    using that assms(2) by auto
  let ?top = "[(Pool_Lock, ?p), (Oauth_Lock, ?p), (Tool_Lock, ?p)]"
  let ?rest = "concat (map (\<lambda>d. [(Oauth_Lock, d), (Tool_Lock, d)]) ?ms)"
  have eq: "swap_locks h poolDir held = ?top @ ?rest"
    by (simp add: swap_locks_def heldOrder_def Let_def)
  have rest: "sorted_wrt (\<lambda>a b. lock_key pools a < lock_key pools b) ?rest"
  proof (rule sorted_wrt_pairs)
    show "sorted_wrt (\<lambda>a b. oauthRefreshLockPath a < oauthRefreshLockPath b) ?ms"
      using lockOrder_strict by (rule sorted_wrt_filter)
  qed (use ms in \<open>auto simp: lock_key_def less_prod_def\<close>)
  have cross: "\<forall>a \<in> set ?top. \<forall>b \<in> set ?rest. lock_key pools a < lock_key pools b"
    using ms assms(1) by (auto simp: lock_key_def less_prod_def)
  have top: "sorted_wrt (\<lambda>a b. lock_key pools a < lock_key pools b) ?top"
    using assms(1) by (simp add: lock_key_def less_prod_def)
  show ?thesis unfolding eq sorted_wrt_append using top rest cross by blast
qed

text \<open>Property C6.
  Swaps never deadlock, and they all finish. Any number of processes that swap or heal, each
  taking its pool's lock, the locks of the pool directory and those of its set of members in
  the common order, can always go on until every one of them has released its locks, as long as
  no pool directory is another pool's member; and they are done after as many steps as there
  are locks to take and processes to finish, whatever their order and however the member sets
  overlap.\<close>

theorem swaps_never_deadlock:
  assumes "lock_run (map (\<lambda>(p, held). swap_locks h p held) swaps) n st"
    and "\<forall>(p, held) \<in> set swaps. \<forall>(p', held') \<in> set swaps. \<forall>d \<in> set held'.
      path_resolve h d = path_resolve h (expandPath h p) \<longrightarrow>
      path_resolve h d = path_resolve h (expandPath h p')"
  shows "((\<forall>i < length swaps. st ! i = None) \<or>
      (\<exists>st'. lock_step (map (\<lambda>(p, held). swap_locks h p held) swaps) st st')) \<and>
    n \<le> (\<Sum>(p, held) \<leftarrow> swaps. Suc (length (swap_locks h p held)))"
proof
  let ?progs = "map (\<lambda>(p, held). swap_locks h p held) swaps"
  let ?pools = "(\<lambda>(p, held). path_resolve h (expandPath h p)) ` set swaps"
  from lock_run_inv[OF assms(1)] have inv: "lock_inv ?progs st"
    and bound: "n \<le> (\<Sum>p \<leftarrow> ?progs. Suc (length p))" by auto
  have "(\<Sum>p \<leftarrow> ?progs. Suc (length p)) = (\<Sum>(p, held) \<leftarrow> swaps. Suc (length (swap_locks h p held)))"
    by (simp add: comp_def case_prod_unfold)
  with bound show "n \<le> (\<Sum>(p, held) \<leftarrow> swaps. Suc (length (swap_locks h p held)))" by simp
  have "sorted_wrt (\<lambda>a b. lock_key ?pools a < lock_key ?pools b) q" if "q \<in> set ?progs" for q
  proof -
    from that obtain p held where q: "(p, held) \<in> set swaps" "q = swap_locks h p held" by auto
    show ?thesis
      unfolding q(2)
    proof (rule swap_locks_ascend)
      show "path_resolve h (expandPath h p) \<in> ?pools" using q(1) by force
      show "\<forall>d \<in> set held. path_resolve h d \<in> ?pools \<longrightarrow> path_resolve h d = path_resolve h (expandPath h p)"
        using assms(2) q(1) by fastforce
    qed
  qed
  then have asc: "\<forall>q \<in> set ?progs. sorted_wrt (\<lambda>a b. lock_key ?pools a < lock_key ?pools b) q" by blast
  show "(\<forall>i < length swaps. st ! i = None) \<or> (\<exists>st'. lock_step ?progs st st')"
  proof (cases "\<forall>i < length swaps. st ! i = None")
    case False
    then obtain i where "i < length ?progs" "st ! i \<noteq> None" by auto
    from ordered_locks_progress[OF inv asc this] show ?thesis by simp
  qed simp
qed

theorem swaps_never_deadlock_witness:
  "\<exists>st'. lock_step (map (\<lambda>(p, held). swap_locks example_env p held)
     [(''/p'', [''/a'', ''/b'']), (''/q'', [''/b'', ''/a''])]) [Some 0, Some 0] st'"
proof -
  let ?swaps = "[(''/p'', [''/a'', ''/b'']), (''/q'', [''/b'', ''/a''])]"
  have run: "lock_run (map (\<lambda>(p, held). swap_locks example_env p held) ?swaps) 0 [Some 0, Some 0]"
    using lock_run.begin_run[of "map (\<lambda>(p, held). swap_locks example_env p held) ?swaps"]
    by (simp add: numeral_2_eq_2)
  have "list_all (\<lambda>(p, held). list_all (\<lambda>(p', held'). list_all (\<lambda>d.
      path_resolve example_env d = path_resolve example_env (expandPath example_env p) \<longrightarrow>
      path_resolve example_env d = path_resolve example_env (expandPath example_env p')) held') ?swaps) ?swaps"
    by code_simp
  then have apart: "\<forall>(p, held) \<in> set ?swaps. \<forall>(p', held') \<in> set ?swaps. \<forall>d \<in> set held'.
      path_resolve example_env d = path_resolve example_env (expandPath example_env p) \<longrightarrow>
      path_resolve example_env d = path_resolve example_env (expandPath example_env p')"
    unfolding list_all_iff .
  have "\<not> (\<forall>i < length ?swaps. [Some 0, Some 0 :: nat option] ! i = None)"
    by (auto intro: exI[of _ 0])
  with swaps_never_deadlock[OF run apart] show ?thesis by blast
qed

section \<open>Waiting for one lock\<close>

text \<open>
  One round of \<open>acquire\<close> as the file system answers it: the directory was created, creating it
  failed for another reason, it vanished before it could be inspected, or it is held with an
  age; the clock is read when a held lock is not stale.
\<close>

datatype lock_answer = Created | Mkdir_Failed string | Vanished | Held_Since int

datatype acquire_result = Acquired | Lock_Failed string | Lock_Timeout

record lock_options =
  lk_timeoutMs :: "int option"
  lk_staleMs :: "int option"

definition stale_ms :: "lock_options \<Rightarrow> string \<Rightarrow> int" where
  "stale_ms opts lockPath =
     default (if ends_with lockPath ''.oauth_refresh.lock'' then 60000 else 10000) (lk_staleMs opts)"

text \<open>The loop over the answers and the clock readings; \<open>None\<close> while it still polls.\<close>

fun acquire_loop :: "int \<Rightarrow> int \<Rightarrow> (lock_answer \<times> int) list \<Rightarrow> acquire_result option" where
  "acquire_loop staleMs deadline [] = None"
| "acquire_loop staleMs deadline ((answer, now) # rest) =
     (case answer of
        Created \<Rightarrow> Some Acquired
      | Mkdir_Failed m \<Rightarrow> Some (Lock_Failed m)
      | Vanished \<Rightarrow> acquire_loop staleMs deadline rest
      | Held_Since age \<Rightarrow>
          if age > staleMs then acquire_loop staleMs deadline rest
          else if now \<ge> deadline then Some Lock_Timeout
          else acquire_loop staleMs deadline rest)"

definition acquire :: "lock_options \<Rightarrow> string \<Rightarrow> int \<Rightarrow> (lock_answer \<times> int) list \<Rightarrow> acquire_result option" where
  "acquire opts lockPath start answers =
     acquire_loop (stale_ms opts lockPath) (start + default 5000 (lk_timeoutMs opts)) answers"

text \<open>
  The loop gives up only on a holder that is not stale, and it has decided by the first answer
  past the deadline that finds such a holder: a waiting swap is bounded.
\<close>

lemma acquire_timeout:
  "acquire opts lockPath start answers = Some Lock_Timeout \<Longrightarrow>
     \<exists>age now. (Held_Since age, now) \<in> set answers \<and> age \<le> stale_ms opts lockPath \<and>
       start + default 5000 (lk_timeoutMs opts) \<le> now"
  unfolding acquire_def
  by (induction "stale_ms opts lockPath" "start + default 5000 (lk_timeoutMs opts)" answers rule: acquire_loop.induct)
    (force split: lock_answer.splits if_splits)+

lemma acquire_decides:
  "(Held_Since age, now) \<in> set answers \<Longrightarrow> age \<le> stale_ms opts lockPath \<Longrightarrow>
     start + default 5000 (lk_timeoutMs opts) \<le> now \<Longrightarrow> acquire opts lockPath start answers \<noteq> None"
  unfolding acquire_def
  by (induction "stale_ms opts lockPath" "start + default 5000 (lk_timeoutMs opts)" answers rule: acquire_loop.induct)
    (auto split: lock_answer.splits if_splits)

section \<open>Keeping and releasing a lock directory\<close>

text \<open>
  \<open>own\<close>: the holder remembers inode and mtime of the directory it made, touches it at every
  tick, and removes it on release only while it is still the same. Each of the three file
  system calls of a tick may fail; a tick that touched the directory but could not read the new
  mtime only compares the inode until the next one.
\<close>

record dir_stat =
  ds_ino :: nat
  ds_mtime :: int

record lease =
  ls_mine :: dir_stat
  ls_lost :: bool
  ls_resync :: bool

datatype tick_fault = No_Fault | Stat_Fails | Touch_Fails | Read_Back_Fails

definition lease_same :: "lease \<Rightarrow> dir_stat \<Rightarrow> bool" where
  "lease_same l s \<longleftrightarrow> ds_ino s = ds_ino (ls_mine l) \<and> (ls_resync l \<or> ds_mtime s = ds_mtime (ls_mine l))"

text \<open>A tick on the directory as it is (\<open>None\<close>: gone), at a time, with a fault.\<close>

definition lease_tick :: "int \<Rightarrow> tick_fault \<Rightarrow> lease \<Rightarrow> dir_stat option \<Rightarrow> lease \<times> dir_stat option" where
  "lease_tick now fault l dir =
     (if ls_lost l then (l, dir)
      else case dir of
        None \<Rightarrow> (l\<lparr> ls_lost := True \<rparr>, None)
      | Some seen \<Rightarrow>
          if fault = Stat_Fails then (l, dir)
          else if \<not> lease_same l seen then (l\<lparr> ls_lost := True \<rparr>, dir)
          else
            let l = (if ls_resync l then l\<lparr> ls_mine := seen, ls_resync := False \<rparr> else l);
                touched = seen\<lparr> ds_mtime := now \<rparr>
            in if fault = Touch_Fails then (l, dir)
               else if fault = Read_Back_Fails then (l\<lparr> ls_resync := True \<rparr>, Some touched)
               else (l\<lparr> ls_mine := touched, ls_resync := False \<rparr>, Some touched))"

definition lease_release :: "lease \<Rightarrow> dir_stat option \<Rightarrow> dir_stat option" where
  "lease_release l dir =
     (if ls_lost l then dir
      else case dir of None \<Rightarrow> None | Some s \<Rightarrow> if lease_same l s then None else dir)"

text \<open>
  Histories of a held lock: its own ticks, and others who remove the directory or replace it by
  one with another inode (an inode number is not reused while the lock is held).
\<close>

inductive lease_history :: "nat \<Rightarrow> lease \<Rightarrow> dir_stat option \<Rightarrow> bool" for ino where
  lease_start: "lease_history ino \<lparr> ls_mine = \<lparr> ds_ino = ino, ds_mtime = t \<rparr>, ls_lost = False, ls_resync = False \<rparr>
     (Some \<lparr> ds_ino = ino, ds_mtime = t \<rparr>)"
| lease_tick: "lease_history ino l dir \<Longrightarrow> lease_history ino (fst (lease_tick now fault l dir)) (snd (lease_tick now fault l dir))"
| lease_broken: "lease_history ino l dir \<Longrightarrow> lease_history ino l None"
| lease_retaken: "lease_history ino l dir \<Longrightarrow> n \<noteq> ino \<Longrightarrow> lease_history ino l (Some \<lparr> ds_ino = n, ds_mtime = t \<rparr>)"

lemma lease_history_ino: "lease_history ino l dir \<Longrightarrow> ds_ino (ls_mine l) = ino"
proof (induction rule: lease_history.induct)
  case (lease_tick l dir now fault)
  then show ?case
    by (cases dir; cases fault) (auto simp: lease_tick_def lease_same_def Let_def)
qed auto

text \<open>
  A holder never takes another holder's lock away: after any history of heartbeats, failed file
  system calls, stale-lock breaks and take-overs, the release removes the lock directory only if
  it is the one this holder created.
\<close>

lemma release_only_own_lock:
  assumes "lease_history ino l dir"
  shows "(\<forall>s. dir = Some s \<and> ds_ino s \<noteq> ino \<longrightarrow> lease_release l dir = dir) \<and>
    (lease_release l dir \<noteq> dir \<longrightarrow> lease_release l dir = None \<and> (\<exists>s. dir = Some s \<and> ds_ino s = ino))"
  using lease_history_ino[OF assms] by (auto simp: lease_release_def lease_same_def split: option.splits if_splits)

end
