(* ===== verification/Token_Account.thy ===== *)
theory Token_Account
  imports Lock_Order
begin

text \<open>
  Objects parsed from credential files, and the account an OAuth pair belongs to
  (\<open>src/identities/pool/token-account.ts\<close>, \<open>decodeJwtPayload\<close> of \<open>oauth-reconcile.ts\<close>). Decoding one
  base64url segment and parsing its JSON is a parameter.
\<close>

type_synonym grant = "(string \<times> json) list"

text \<open>\<open>{...o, [k]: v}\<close>, \<open>{...o, ...p}\<close> and \<open>Object.fromEntries\<close>, with the key order of JavaScript.\<close>

fun obj_put :: "string \<Rightarrow> json \<Rightarrow> grant \<Rightarrow> grant" where
  "obj_put k v [] = [(k, v)]"
| "obj_put k v ((k', v') # o') = (if k = k' then (k, v) # o' else (k', v') # obj_put k v o')"

definition obj_merge :: "grant \<Rightarrow> grant \<Rightarrow> grant" where
  "obj_merge o1 o2 = fold (\<lambda>(k, v). obj_put k v) o2 o1"

definition from_entries :: "(string \<times> json) list \<Rightarrow> grant" where
  "from_entries kvs = obj_merge [] kvs"

lemma map_of_obj_put: "map_of (obj_put k v o1) = (map_of o1)(k \<mapsto> v)"
  by (induction k v o1 rule: obj_put.induct) (auto simp: fun_eq_iff)

lemma map_of_obj_merge: "distinct (map fst o2) \<Longrightarrow> map_of (obj_merge o1 o2) k =
    (case map_of o2 k of Some v \<Rightarrow> Some v | None \<Rightarrow> map_of o1 k)"
proof (induction o2 arbitrary: o1)
  case (Cons kv o2)
  obtain k' v' where kv: "kv = (k', v')" by (cases kv)
  have "map_of o2 k' = None" using Cons.prems kv by (simp add: map_of_eq_None_iff)
  then show ?case
    using Cons.IH[of "obj_put k' v' o1"] Cons.prems kv
    by (auto simp: obj_merge_def map_of_obj_put split: option.split)
qed (simp add: obj_merge_def)

lemma obj_merge_last:
  "map_of (obj_merge o1 o2) k = (case map_of (rev o2) k of Some v \<Rightarrow> Some v | None \<Rightarrow> map_of o1 k)"
  by (induction o2 arbitrary: o1)
    (auto simp: obj_merge_def map_of_obj_put map_add_def split: option.split)

text \<open>\<open>JSON.parse\<close> returns objects whose keys are distinct, at every depth.\<close>

fun json_ok :: "json \<Rightarrow> bool" where
  "json_ok (JObj kvs) = (distinct (map fst kvs) \<and> (\<forall>v \<in> set (map snd kvs). json_ok v))"
| "json_ok (JArr xs) = (\<forall>x \<in> set xs. json_ok x)"
| "json_ok _ = True"

lemma json_ok_get: "json_ok (JObj kvs) \<Longrightarrow> map_of kvs k = Some v \<Longrightarrow> json_ok v"
  by (force dest: map_of_SomeD)

text \<open>\<open>===\<close> on parsed values: two parsed objects are never the same object.\<close>

fun js_strict_eq :: "json option \<Rightarrow> json option \<Rightarrow> bool" where
  "js_strict_eq None None = True"
| "js_strict_eq (Some JNull) (Some JNull) = True"
| "js_strict_eq (Some (JBool a)) (Some (JBool b)) = (a = b)"
| "js_strict_eq (Some (JNum a)) (Some (JNum b)) = (a = b)"
| "js_strict_eq (Some (JStr a)) (Some (JStr b)) = (a = b)"
| "js_strict_eq _ _ = False"

lemma js_strict_eq_eq: "js_strict_eq a b \<Longrightarrow> a = b"
  by (induction a b rule: js_strict_eq.induct) auto

text \<open>\<open>String(v)\<close>; how a number is printed is a parameter.\<close>

fun js_string :: "(js_num \<Rightarrow> string) \<Rightarrow> json \<Rightarrow> string" where
  "js_string num (JStr s) = s"
| "js_string num JNull = ''null''"
| "js_string num (JBool b) = (if b then ''true'' else ''false'')"
| "js_string num (JNum n) = num n"
| "js_string num (JObj kvs) = ''[object Object]''"
| "js_string num (JArr xs) = join_with '','' (map (\<lambda>x. case x of JNull \<Rightarrow> '''' | _ \<Rightarrow> js_string num x) xs)"

definition js_string_opt :: "(js_num \<Rightarrow> string) \<Rightarrow> json option \<Rightarrow> string" where
  "js_string_opt num v = (case v of None \<Rightarrow> ''undefined'' | Some j \<Rightarrow> js_string num j)"

text \<open>Numbers, as \<open>typeof v === "number"\<close> and \<open><\<close> see them.\<close>

fun as_number :: "json option \<Rightarrow> js_num option" where
  "as_number (Some (JNum n)) = Some n"
| "as_number _ = None"

fun num_less :: "js_num \<Rightarrow> js_num \<Rightarrow> bool" where
  "num_less (Fin a) (Fin b) = (a < b)"
| "num_less NegInf NegInf = False"
| "num_less NegInf _ = True"
| "num_less _ NegInf = False"
| "num_less PosInf _ = False"
| "num_less (Fin _) PosInf = True"

lemma num_less_irrefl [simp]: "\<not> num_less a a"
  by (cases a) auto

lemma num_less_asym: "num_less a b \<Longrightarrow> \<not> num_less b a"
  by (cases a; cases b) auto

lemma num_less_total: "num_less a b \<or> a = b \<or> num_less b a"
  by (cases a; cases b) auto

definition nonEmpty :: "json option \<Rightarrow> bool" where
  "nonEmpty v = (case v of Some (JStr s) \<Rightarrow> s \<noteq> '''' | _ \<Rightarrow> False)"

definition decodeJwtPayload :: "(string \<Rightarrow> json option) \<Rightarrow> string \<Rightarrow> grant option" where
  "decodeJwtPayload decode token =
     (case split_on (CHR ''.'') token of
        _ # segment # _ \<Rightarrow>
          (if segment = '''' then None
           else case decode segment of Some (JObj claims) \<Rightarrow> Some claims | _ \<Rightarrow> None)
      | _ \<Rightarrow> None)"

record grant_identity =
  gi_id :: "string option"
  gi_hybrid :: bool

definition claim_of :: "grant \<Rightarrow> string \<Rightarrow> (string \<times> string) option" where
  "claim_of claims key =
     (case map_of claims key of
        Some (JStr v) \<Rightarrow> (if js_trim v = '''' then None else Some (key, v))
      | _ \<Rightarrow> None)"

definition tokenAccount :: "(string \<Rightarrow> json option) \<Rightarrow> json option \<Rightarrow> (string \<times> string) option" where
  "tokenAccount decode token =
     (case token of
        Some (JStr t) \<Rightarrow>
          (case decodeJwtPayload decode t of
             None \<Rightarrow> None
           | Some claims \<Rightarrow>
               (case List.map_filter (claim_of claims) [''user_id'', ''sub'', ''uid''] of
                  [] \<Rightarrow> None | kv # _ \<Rightarrow> Some kv))
      | _ \<Rightarrow> None)"

definition pairIdentity :: "(string \<Rightarrow> json option) \<Rightarrow> json option \<Rightarrow> json option \<Rightarrow> grant_identity" where
  "pairIdentity decode access refresh =
     (let a = tokenAccount decode access; r = tokenAccount decode refresh;
          hybrid = (a \<noteq> None \<and> r \<noteq> None \<and> fst (the a) = fst (the r) \<and> snd (the a) \<noteq> snd (the r))
      in \<lparr> gi_id = (if hybrid then None else map_option snd (case a of Some _ \<Rightarrow> a | None \<Rightarrow> r)),
           gi_hybrid = hybrid \<rparr>)"



end
