(* ===== verification/Grant_File.thy ===== *)
theory Grant_File
  imports Token_Account
begin

text \<open>
  The pool adapter of tools whose credentials are one JSON file with rotating OAuth tokens
  (\<open>src/identities/pool/grant-file-adapter.ts\<close>): the credential files and their backups, write-back
  of the pool's grant to the member that owns it, the credential swap, and the repair of a
  damaged pool file. What differs per tool is a record of functions, the \<open>GrantFileSpec\<close>.
\<close>

text \<open>The text of a credential file: JSON, or something \<open>JSON.parse\<close> rejects.\<close>

datatype file_text = Garbage string | Doc json

fun parseGrantFile :: "file_text option \<Rightarrow> grant option" where
  "parseGrantFile (Some (Doc (JObj kvs))) = Some kvs"
| "parseGrantFile _ = None"

fun is_blank :: "file_text \<Rightarrow> bool" where
  "is_blank (Garbage s) = (js_trim s = '''')"
| "is_blank (Doc _) = False"

datatype write_back_mode = Same | Capture
datatype backup_kind = Swap_Backup | Heal_Backup | Merge_Backup

record grant_merge =
  gm_next :: "grant option"
  gm_backup :: "grant option"

record grant_spec =
  gp_tool :: tool_name
  gp_liveSwap :: bool
  gp_relPath :: "string list"
  gp_usable :: "grant option \<Rightarrow> bool"
  gp_identity :: "grant option \<Rightarrow> grant_identity"
  gp_complete :: "grant option \<Rightarrow> bool"
  gp_fingerprint :: "grant \<Rightarrow> json"
  gp_newerInto :: "grant option \<Rightarrow> grant \<Rightarrow> write_back_mode \<Rightarrow> grant list \<Rightarrow> grant_merge option"
  gp_hasPoolOnlyContent :: "(grant \<Rightarrow> grant option \<Rightarrow> bool) option"
  gp_fetchUsage :: "identity \<Rightarrow> error + pool_usage"

section \<open>Files and backups\<close>

record grant_store =
  gs_files :: "string \<rightharpoonup> file_text"
  gs_backups :: "(string \<times> backup_kind \<times> file_text) list"

definition fileOf :: "host_env \<Rightarrow> grant_spec \<Rightarrow> string \<Rightarrow> string" where
  "fileOf h spec dir = path_join (expandPath h dir # gp_relPath spec)"

definition readText :: "host_env \<Rightarrow> grant_spec \<Rightarrow> grant_store \<Rightarrow> string \<Rightarrow> file_text option" where
  "readText h spec st dir = gs_files st (fileOf h spec dir)"

definition writeText :: "host_env \<Rightarrow> grant_spec \<Rightarrow> string \<Rightarrow> file_text \<Rightarrow> grant_store \<Rightarrow> grant_store" where
  "writeText h spec dir text st = st\<lparr> gs_files := (gs_files st)(fileOf h spec dir \<mapsto> text) \<rparr>"

definition BACKUPS_KEPT :: nat where
  "BACKUPS_KEPT = 10"

text \<open>
  A backup of one file and kind joins the newest ones: of the older ones with the same file and
  kind all but nine are removed. The list holds them oldest first.
\<close>

fun drop_matching :: "nat \<Rightarrow> ('a \<Rightarrow> bool) \<Rightarrow> 'a list \<Rightarrow> 'a list" where
  "drop_matching n P [] = []"
| "drop_matching n P (x # xs) =
     (if P x \<and> 0 < n then drop_matching (n - 1) P xs else x # drop_matching n P xs)"

definition writeBackup :: "string \<Rightarrow> backup_kind \<Rightarrow> file_text \<Rightarrow> grant_store \<Rightarrow> grant_store" where
  "writeBackup path kind text st =
     (let own = (\<lambda>(p, k, _). p = path \<and> k = kind);
          old = filter own (gs_backups st)
      in st\<lparr> gs_backups :=
            drop_matching (length old - (BACKUPS_KEPT - 1)) own (gs_backups st) @ [(path, kind, text)] \<rparr>)"

record loaded =
  ld_text :: "file_text option"
  ld_grant :: "grant option"
  ld_who :: grant_identity

definition load_grant :: "host_env \<Rightarrow> grant_spec \<Rightarrow> grant_store \<Rightarrow> string \<Rightarrow> loaded" where
  "load_grant h spec st dir =
     (let text = readText h spec st dir; grant = parseGrantFile text
      in \<lparr> ld_text = text, ld_grant = grant, ld_who = gp_identity spec grant \<rparr>)"

definition dir_key :: "host_env \<Rightarrow> string \<Rightarrow> string" where
  "dir_key h dir = path_resolve h (expandPath h dir)"

section \<open>Owners\<close>

definition active_first :: "identity list \<Rightarrow> string option \<Rightarrow> identity list" where
  "active_first members activeName = sort_key (\<lambda>m. if Some (i_name m) = activeName then 0 else (1::nat)) members"

definition ownerByAccount :: "host_env \<Rightarrow> grant_spec \<Rightarrow> grant_store \<Rightarrow> identity list \<Rightarrow> string \<Rightarrow>
    string option \<Rightarrow> identity option" where
  "ownerByAccount h spec st members accountId activeName =
     find (\<lambda>m. gi_id (ld_who (load_grant h spec st (i_configDir m))) = Some accountId)
       (active_first members activeName)"

text \<open>The keys of a merge backup without their \<open>replaced:\<close> or \<open>skipped:\<close> prefix.\<close>

definition strip_backup_key :: "string \<Rightarrow> string" where
  "strip_backup_key k =
     (if starts_with k ''replaced:'' then drop (length ''replaced:'') k
      else if starts_with k ''skipped:'' then drop (length ''skipped:'') k else k)"

definition merge_backups :: "grant_store \<Rightarrow> string \<Rightarrow> grant list" where
  "merge_backups st path =
     List.map_filter (\<lambda>(p, k, text).
       if p = path \<and> k = Merge_Backup
       then map_option (\<lambda>b. from_entries (map (\<lambda>(k, v). (strip_backup_key k, v)) b)) (parseGrantFile (Some text))
       else None) (gs_backups st)"

definition otherGrants :: "host_env \<Rightarrow> grant_spec \<Rightarrow> grant_store \<Rightarrow> identity \<Rightarrow> identity list \<Rightarrow> grant list" where
  "otherGrants h spec st owner members =
     concat (map (\<lambda>m.
         (case ld_grant (load_grant h spec st (i_configDir m)) of None \<Rightarrow> [] | Some g \<Rightarrow> [g]) @
         merge_backups st (fileOf h spec (i_configDir m)))
       (filter (\<lambda>m. dir_key h (i_configDir m) \<noteq> dir_key h (i_configDir owner)) members))"

definition writeBackToOwner :: "host_env \<Rightarrow> grant_spec \<Rightarrow> identity \<Rightarrow> grant \<Rightarrow> write_back_mode \<Rightarrow>
    identity list \<Rightarrow> grant_store \<Rightarrow> write_back \<times> grant_store" where
  "writeBackToOwner h spec owner poolGrant mode members st =
     (let poolId = gi_id (gp_identity spec (Some poolGrant));
          l = load_grant h spec st (i_configDir owner);
          usable = gp_usable spec (ld_grant l)
      in if usable \<and> gi_id (ld_who l) \<noteq> poolId then (Account_Mismatch, st)
         else if usable \<and> gp_fingerprint spec (default [] (ld_grant l)) = gp_fingerprint spec poolGrant
         then (Identical, st)
         else
           let merge = gp_newerInto spec (if usable then ld_grant l else None) poolGrant mode
                 (otherGrants h spec st owner members);
               st' = (case Option.bind merge gm_backup of
                 None \<Rightarrow> st
               | Some b \<Rightarrow> writeBackup (fileOf h spec (i_configDir owner)) Merge_Backup (Doc (JObj b)) st)
           in (case Option.bind merge gm_next of
                 None \<Rightarrow> (Member_Newer, st')
               | Some next \<Rightarrow> (Written, writeText h spec (i_configDir owner) (Doc (JObj next)) st')))"

section \<open>The swap\<close>

text \<open>A round under the held locks ends with a result, an error, or a directory to lock as well.\<close>

datatype 'a round = Finished 'a | Failed_Round error | Need_Lock string

text \<open>What becomes of the grant the pool folder holds, before it is replaced.\<close>

definition save_live :: "host_env \<Rightarrow> grant_spec \<Rightarrow> swap_input \<Rightarrow> string set \<Rightarrow> loaded \<Rightarrow> grant_store \<Rightarrow>
    string + (write_back \<times> string list \<times> grant_store)" where
  "save_live h spec inp held live st =
     (let activeName = sp_active (pool_config (sc_pool inp)) in
      if \<not> gp_usable spec (ld_grant live) then Inr (No_Live_Credentials, [], st)
      else if gi_hybrid (ld_who live) then Inr (Account_Mismatch, [], st)
      else
        (case Option.bind (gi_id (ld_who live)) (\<lambda>acc. ownerByAccount h spec st (sc_members inp) acc activeName) of
           None \<Rightarrow> Inr (Unknown_Owner, [], st)
         | Some owner \<Rightarrow>
             if dir_key h (i_configDir owner) \<notin> held then Inl (i_configDir owner)
             else (case writeBackToOwner h spec owner (default [] (ld_grant live))
                      (if Some (i_name owner) = activeName then Same else Capture) (sc_members inp) st of
               (outcome, st') \<Rightarrow> Inr (outcome,
                 (if activeName \<noteq> None \<and> Some (i_name owner) \<noteq> activeName
                  then [''pool held an account that is not the recorded active one; wrote it back to '' @ i_name owner]
                  else []), st'))))"

text \<open>Pool-only content, judged against the vault of the active member (or of the target).\<close>

definition pool_only :: "host_env \<Rightarrow> grant_spec \<Rightarrow> swap_input \<Rightarrow> loaded \<Rightarrow> grant_store \<Rightarrow> bool" where
  "pool_only h spec inp live st =
     (case (gp_hasPoolOnlyContent spec, ld_grant live) of
        (Some hasPoolOnly, Some g) \<Rightarrow>
          if gi_id (ld_who live) \<noteq> None \<and> \<not> gi_hybrid (ld_who live) then
            (let name = default (i_name (sc_target inp)) (sp_active (pool_config (sc_pool inp)));
                 vault = Option.bind (find (\<lambda>m. i_name m = name) (sc_members inp))
                   (\<lambda>m. ld_grant (load_grant h spec st (i_configDir m)))
             in hasPoolOnly g vault)
          else False
      | _ \<Rightarrow> False)"

definition swapHeld :: "host_env \<Rightarrow> grant_spec \<Rightarrow> swap_input \<Rightarrow> string set \<Rightarrow> grant_store \<Rightarrow>
    fs_result round \<times> grant_store" where
  "swapHeld h spec inp held st =
     (let pool = sc_pool inp; target = sc_target inp; poolDir = i_configDir pool;
          t = load_grant h spec st (i_configDir target);
          activeName = sp_active (pool_config pool);
          live = load_grant h spec st poolDir
      in
      if ld_text t = None \<or> \<not> gp_usable spec (ld_grant t)
      then (Failed_Round (SwapPoolError (i_name target @ '' has no usable login'')), st)
      else if gi_id (ld_who t) = None
      then (Failed_Round (SwapPoolError (i_name target @ '' has an inconsistent or unattributable account id'')), st)
      else if activeName = Some (i_name target) \<and> gi_id (ld_who live) = gi_id (ld_who t) \<and>
              gp_usable spec (ld_grant live) \<and>
              gp_fingerprint spec (default [] (ld_grant live)) = gp_fingerprint spec (default [] (ld_grant t))
      then (Finished \<lparr> fr_pool = i_name pool, fr_from = activeName, fr_to = i_name target, fr_noop = True,
              fr_writeBack = Identical, fr_notes = [] \<rparr>, st)
      else
       (case save_live h spec inp held live st of
          Inl dir \<Rightarrow> (Need_Lock dir, st)
        | Inr (writeBack, notes, st1) \<Rightarrow>
            let poolOnly = pool_only h spec inp live st1;
                keep = (poolOnly \<or> writeBack \<in> {Unknown_Owner, Account_Mismatch}) \<and> ld_text live \<noteq> None;
                st2 = (if keep then writeBackup (fileOf h spec poolDir) Swap_Backup (the (ld_text live)) st1 else st1);
                notes2 = (if keep then notes @ [if poolOnly
                    then ''live pool credentials hold entries the member lacks; kept a 0600 copy''
                    else ''live pool credentials could not be attributed to a member; kept a 0600 copy''] else notes);
                refreshed = load_grant h spec st2 (i_configDir target);
                t2 = (if writeBack = Written \<and> ld_text refreshed \<noteq> None \<and> gp_usable spec (ld_grant refreshed) \<and>
                         gi_id (ld_who refreshed) = gi_id (ld_who t) then refreshed else t);
                st3 = writeText h spec poolDir (the (ld_text t2)) st2
            in if gi_id (ld_who (load_grant h spec st3 poolDir)) \<noteq> gi_id (ld_who t2)
               then (Failed_Round (SwapPoolError ''could not verify the pool file after the swap''),
                     case ld_text live of None \<Rightarrow> st3 | Some text \<Rightarrow> writeText h spec poolDir text st3)
               else (Finished \<lparr> fr_pool = i_name pool, fr_from = activeName, fr_to = i_name target,
                       fr_noop = False, fr_writeBack = writeBack, fr_notes = notes2 \<rparr>, st3)))"

text \<open>
  The \<open>for (;;)\<close> loop: a round that needs another lock releases, widens the set and goes again.
  The locks are free between rounds, so other processes may change the files there (\<open>env\<close>).
  One round more than there are members is enough.
\<close>

fun lock_rounds :: "nat \<Rightarrow> (string set \<Rightarrow> grant_store \<Rightarrow> 'a round \<times> grant_store) \<Rightarrow> (grant_store \<Rightarrow> grant_store) \<Rightarrow>
    host_env \<Rightarrow> string \<Rightarrow> string list \<Rightarrow> grant_store \<Rightarrow> ((error + 'a) \<times> grant_store) option" where
  "lock_rounds 0 body env h poolDir wanted st = None"
| "lock_rounds (Suc n) body env h poolDir wanted st =
     (case body (set (lockOrder h (poolDir # wanted))) st of
        (Finished r, st') \<Rightarrow> Some (Inr r, st')
      | (Failed_Round e, st') \<Rightarrow> Some (Inl e, st')
      | (Need_Lock dir, st') \<Rightarrow> lock_rounds n body env h poolDir (wanted @ [dir]) (env st'))"

definition swap_wanted :: "swap_input \<Rightarrow> string list" where
  "swap_wanted inp = i_configDir (sc_target inp) #
     (case find (\<lambda>m. Some (i_name m) = sp_active (pool_config (sc_pool inp))) (sc_members inp) of
        None \<Rightarrow> [] | Some m \<Rightarrow> [i_configDir m])"

definition swapCredentials :: "host_env \<Rightarrow> grant_spec \<Rightarrow> (grant_store \<Rightarrow> grant_store) \<Rightarrow> swap_input \<Rightarrow>
    grant_store \<Rightarrow> (error + fs_result) \<times> grant_store" where
  "swapCredentials h spec env inp st =
     (case lock_rounds (Suc (length (sc_members inp))) (swapHeld h spec inp) env h
             (i_configDir (sc_pool inp)) (swap_wanted inp) st of
        Some r \<Rightarrow> r
      | None \<Rightarrow> (Inl (OtherError ''unreachable''), st))"

section \<open>The repair\<close>

datatype pool_kind = Damaged | Hybrid | Foreign | Pool_Newer | Behind | Ok

definition classify :: "host_env \<Rightarrow> grant_spec \<Rightarrow> identity \<Rightarrow> identity \<Rightarrow> identity list \<Rightarrow> loaded \<Rightarrow>
    grant_store \<Rightarrow> pool_kind" where
  "classify h spec pool active members vault st =
     (let cur = load_grant h spec st (i_configDir pool);
          vaultGrant = default [] (ld_grant vault)
      in case ld_grant cur of
           None \<Rightarrow> Damaged
         | Some g \<Rightarrow>
             if \<not> (gp_usable spec (Some g) \<and> gp_complete spec (Some g)) then Damaged
             else if gi_hybrid (ld_who cur) then Hybrid
             else if gi_id (ld_who cur) = None then Damaged
             else if gi_id (ld_who cur) \<noteq> gi_id (ld_who vault) then Foreign
             else if gp_fingerprint spec g = gp_fingerprint spec vaultGrant then Ok
             else if Option.bind (gp_newerInto spec (Some vaultGrant) g Same
                       (otherGrants h spec st active members)) gm_next \<noteq> None then Pool_Newer
             else if Option.bind (gp_newerInto spec (Some g) vaultGrant Same []) gm_next \<noteq> None then Behind
             else Ok)"

text \<open>The vault must carry a usable, attributable and complete login; otherwise nothing is restored.\<close>

definition vault_problem :: "grant_spec \<Rightarrow> identity \<Rightarrow> identity \<Rightarrow> loaded \<Rightarrow> string option" where
  "vault_problem spec pool active vault =
     (if ld_text vault = None \<or> \<not> gp_usable spec (ld_grant vault) \<or> gi_id (ld_who vault) = None
      then Some (''cannot heal '' @ i_name pool @ '': no usable login in the vault of '' @ i_name active)
      else if \<not> gp_complete spec (ld_grant vault)
      then Some (''cannot heal '' @ i_name pool @ '': incomplete login in the vault of '' @ i_name active)
      else None)"

text \<open>What a kind of damage asks for before the restore: notes, and the backup or capture taken.\<close>

definition before_restore :: "host_env \<Rightarrow> grant_spec \<Rightarrow> identity \<Rightarrow> identity \<Rightarrow> identity list \<Rightarrow>
    string set \<Rightarrow> pool_kind \<Rightarrow> loaded \<Rightarrow> grant_store \<Rightarrow> string + (string list \<times> bool \<times> grant_store)" where
  "before_restore h spec pool active members held kind cur st =
     (let keep = (\<lambda>note. Inr ([note], True,
            writeBackup (fileOf h spec (i_configDir pool)) Heal_Backup (default (Garbage '''') (ld_text cur)) st))
      in case kind of
        Foreign \<Rightarrow>
          (case ownerByAccount h spec st members (default '''' (gi_id (ld_who cur))) (Some (i_name active)) of
             None \<Rightarrow> keep ''held an account that is not a member; kept a 0600 copy''
           | Some owner \<Rightarrow>
               if dir_key h (i_configDir owner) \<notin> held then Inl (i_configDir owner)
               else (case writeBackToOwner h spec owner (default [] (ld_grant cur)) Capture members st of
                  (outcome, st') \<Rightarrow> Inr ([''held the account of '' @ i_name owner @
                    (if outcome = Written then ''; captured it'' else ''; left it as it was'')], False, st')))
      | Hybrid \<Rightarrow> keep ''credentials were hybrid; kept a 0600 copy''
      | Behind \<Rightarrow> Inr ([''was behind the vault''], False, st)
      | _ \<Rightarrow> Inr ([''credentials were empty or partial''], False, st))"

definition drops_content :: "grant_spec \<Rightarrow> pool_kind \<Rightarrow> loaded \<Rightarrow> loaded \<Rightarrow> bool" where
  "drops_content spec kind cur vault =
     (if kind = Damaged then (case ld_text cur of None \<Rightarrow> False | Some t \<Rightarrow> \<not> is_blank t)
      else (case (ld_grant cur, gp_hasPoolOnlyContent spec) of
              (Some g, Some hasPoolOnly) \<Rightarrow> hasPoolOnly g (ld_grant vault)
            | _ \<Rightarrow> False))"

definition restore :: "host_env \<Rightarrow> grant_spec \<Rightarrow> identity \<Rightarrow> identity \<Rightarrow> pool_kind \<Rightarrow> loaded \<Rightarrow> loaded \<Rightarrow>
    string list \<times> bool \<times> grant_store \<Rightarrow> string list \<times> grant_store" where
  "restore h spec pool active kind cur vault before =
     (case before of (notes, backedUp, st) \<Rightarrow>
       let keep = (\<not> backedUp \<and> drops_content spec kind cur vault);
           st1 = (if keep then writeBackup (fileOf h spec (i_configDir pool)) Heal_Backup (the (ld_text cur)) st else st);
           notes1 = (if keep then notes @ [''held content the vault lacks; kept a 0600 copy''] else notes);
           text = (case readText h spec st1 (i_configDir active) of Some t \<Rightarrow> t | None \<Rightarrow> the (ld_text vault))
       in (notes1 @ [''restored '' @ i_name active], writeText h spec (i_configDir pool) text st1))"

definition healHeld :: "host_env \<Rightarrow> grant_spec \<Rightarrow> (grant_store \<Rightarrow> grant_store) \<Rightarrow> identity \<Rightarrow> identity \<Rightarrow>
    identity list \<Rightarrow> string set \<Rightarrow> grant_store \<Rightarrow> string list round \<times> grant_store" where
  "healHeld h spec settle pool active members held st0 =
     (let vault = load_grant h spec st0 (i_configDir active) in
      case vault_problem spec pool active vault of
        Some m \<Rightarrow> (Finished [m], st0)
      | None \<Rightarrow>
          let st = (if classify h spec pool active members vault st0 = Damaged then settle st0 else st0);
              kind = classify h spec pool active members vault st;
              cur = load_grant h spec st (i_configDir pool)
          in if kind = Ok then (Finished [], st)
             else if kind = Pool_Newer
             then (case writeBackToOwner h spec active (default [] (ld_grant cur)) Same members st of
                     (outcome, st') \<Rightarrow> (Finished [''held newer tokens; vault write-back''], st'))
             else (case before_restore h spec pool active members held kind cur st of
                     Inl dir \<Rightarrow> (Need_Lock dir, st)
                   | Inr before \<Rightarrow>
                       (case restore h spec pool active kind cur vault before of
                          (notes, st') \<Rightarrow> (Finished notes, st'))))"

definition heal :: "host_env \<Rightarrow> grant_spec \<Rightarrow> (grant_store \<Rightarrow> grant_store) \<Rightarrow> (grant_store \<Rightarrow> grant_store) \<Rightarrow>
    identity \<Rightarrow> identity list \<Rightarrow> grant_store \<Rightarrow> (error + string list) \<times> grant_store" where
  "heal h spec settle env pool members st =
     (case (if truthy (sp_active (pool_config pool))
            then find (\<lambda>m. Some (i_name m) = sp_active (pool_config pool)) members else None) of
        None \<Rightarrow> (Inr [], st)
      | Some active \<Rightarrow>
          let vault = load_grant h spec st (i_configDir active) in
          (case vault_problem spec pool active vault of
             Some m \<Rightarrow> (Inr [m], st)
           | None \<Rightarrow>
               let st1 = (if classify h spec pool active members vault st \<noteq> Ok then settle st else st)
               in if classify h spec pool active members vault st1 = Ok then (Inr [], st1)
                  else (case lock_rounds (Suc (length members)) (healHeld h spec settle pool active members) env h
                               (i_configDir pool) [i_configDir active] (env st1) of
                          Some r \<Rightarrow> r
                        | None \<Rightarrow> (Inl (OtherError ''unreachable''), st1))))"

section \<open>The adapter\<close>

definition unavailable :: "error \<Rightarrow> pool_usage" where
  "unavailable e = \<lparr> pu_status = Unavailable, pu_maxUtilization = None, pu_windows = None,
     pu_extraUsage = None, pu_error = Some (case e of SwapPoolError m \<Rightarrow> m | OtherError m \<Rightarrow> m
       | _ \<Rightarrow> default '''' (error_code e)),
     pu_retryAfterSeconds = None, pu_capturedAt = '''' \<rparr>"

definition createGrantFileAdapter :: "host_env \<Rightarrow> grant_spec \<Rightarrow> (grant_store \<Rightarrow> grant_store) \<Rightarrow>
    (grant_store \<Rightarrow> grant_store) \<Rightarrow> grant_store pool_adapter" where
  "createGrantFileAdapter h spec settle env =
     \<lparr> pa_tool = gp_tool spec,
       pa_liveSwap = gp_liveSwap spec,
       pa_memberProblem = (\<lambda>st m.
         let grant = ld_grant (load_grant h spec st (i_configDir m)) in
         if \<not> gp_usable spec grant then Some (i_name m @ '' has no OAuth login'')
         else if gi_id (gp_identity spec grant) = None
         then Some (i_name m @ '' has an inconsistent or unattributable account id'')
         else None),
       pa_hasCredentials = (\<lambda>st dir. gp_usable spec (ld_grant (load_grant h spec st dir))),
       pa_swapCredentials = swapCredentials h spec env,
       pa_fetchUsage = (\<lambda>_ m. case gp_fetchUsage spec m of Inl e \<Rightarrow> unavailable e | Inr u \<Rightarrow> u),
       pa_notifySwapped = None,
       pa_heal = Some (heal h spec settle env) \<rparr>"

end
