(* ===== verification/Grant_Adapters.thy ===== *)
theory Grant_Adapters
  imports Grant_File
begin

text \<open>
  The Kimi and Pi adapters (\<open>kimi-adapter.ts\<close>, \<open>pi-adapter.ts\<close>): two instances of the grant-file
  specification, and the mapping of limit windows onto a pool usage reading. The base64url and
  JSON decoding of a token segment and the printing of a number are parameters.
\<close>

section \<open>Usage from limit windows\<close>

record limit_window =
  lw_label :: string
  lw_usedPercent :: rat
  lw_resetsAtMs :: "int option"

record limit_result =
  lr_unavailable :: bool
  lr_windows :: "limit_window list"
  lr_error :: "string option"

definition usageFromLimits :: "(int \<Rightarrow> string) \<Rightarrow> string \<Rightarrow> limit_result list \<Rightarrow> string option \<Rightarrow> pool_usage" where
  "usageFromLimits toISO capturedAt results err =
     (let live = filter (\<lambda>r. \<not> lr_unavailable r) results;
          windows = concat (map lr_windows live)
      in if windows = [] then
           \<lparr> pu_status = Unavailable, pu_maxUtilization = None, pu_windows = None, pu_extraUsage = None,
             pu_error = (case err of Some e \<Rightarrow> Some e
               | None \<Rightarrow> Option.bind (find (\<lambda>r. truthy (lr_error r)) results) lr_error),
             pu_retryAfterSeconds = None, pu_capturedAt = capturedAt \<rparr>
         else
           let maxUtilization = list_max (map lw_usedPercent windows) in
           \<lparr> pu_status = (if maxUtilization \<ge> 100 then Rate_Limited else Live),
             pu_maxUtilization = Some maxUtilization,
             pu_windows = Some (map (\<lambda>x. \<lparr> uw_label = lw_label x, uw_utilization = lw_usedPercent x,
               uw_resetsAt = map_option toISO (lw_resetsAtMs x) \<rparr>) windows),
             pu_extraUsage = None, pu_error = None, pu_retryAfterSeconds = None,
             pu_capturedAt = capturedAt \<rparr>)"

section \<open>Kimi\<close>

definition gfield :: "grant option \<Rightarrow> string \<Rightarrow> json option" where
  "gfield g k = (case g of None \<Rightarrow> None | Some kvs \<Rightarrow> map_of kvs k)"

definition kimi_expiry :: "grant \<Rightarrow> js_num" where
  "kimi_expiry g = default (Fin (-1)) (as_number (gfield (Some g) ''expires_at''))"

definition kimi_newerInto :: "grant option \<Rightarrow> grant \<Rightarrow> write_back_mode \<Rightarrow> grant list \<Rightarrow> grant_merge option" where
  "kimi_newerInto owner pool mode others =
     (case owner of
        None \<Rightarrow> Some \<lparr> gm_next = Some pool, gm_backup = None \<rparr>
      | Some ow \<Rightarrow>
          let identical = js_strict_eq (gfield (Some ow) ''access_token'') (gfield (Some pool) ''access_token'') \<and>
                js_strict_eq (gfield (Some ow) ''refresh_token'') (gfield (Some pool) ''refresh_token'')
          in if \<not> identical \<and> num_less (kimi_expiry ow) (kimi_expiry pool)
             then Some \<lparr> gm_next = Some (obj_merge ow pool), gm_backup = None \<rparr> else None)"

definition kimi_fingerprint :: "(js_num \<Rightarrow> string) \<Rightarrow> grant \<Rightarrow> json" where
  "kimi_fingerprint num g = JStr (js_string_opt num (gfield (Some g) ''access_token'') @ ''|'' @
     js_string_opt num (gfield (Some g) ''refresh_token''))"

definition kimiSpec :: "(string \<Rightarrow> json option) \<Rightarrow> (js_num \<Rightarrow> string) \<Rightarrow> (identity \<Rightarrow> error + pool_usage) \<Rightarrow>
    grant_spec" where
  "kimiSpec decode num fetch =
     \<lparr> gp_tool = Kimi, gp_liveSwap = True, gp_relPath = [''credentials'', ''kimi-code.json''],
       gp_usable = (\<lambda>g. nonEmpty (gfield g ''access_token'')),
       gp_identity = (\<lambda>g. pairIdentity decode (gfield g ''access_token'') (gfield g ''refresh_token'')),
       gp_complete = (\<lambda>g. nonEmpty (gfield g ''access_token'') \<and> nonEmpty (gfield g ''refresh_token'') \<and>
         as_number (gfield g ''expires_at'') \<noteq> None),
       gp_fingerprint = kimi_fingerprint num,
       gp_newerInto = kimi_newerInto,
       gp_hasPoolOnlyContent = None,
       gp_fetchUsage = fetch \<rparr>"

section \<open>Pi\<close>

abbreviation KIMI_ENTRY :: string where "KIMI_ENTRY \<equiv> ''kimi-coding''"

text \<open>The entries of an auth file whose value is an object.\<close>

definition entries :: "grant \<Rightarrow> (string \<times> grant) list" where
  "entries g = List.map_filter (\<lambda>(k, v). map_option (Pair k) (as_object v)) g"

definition isOauth :: "grant \<Rightarrow> bool" where
  "isOauth e \<longleftrightarrow> map_of e ''type'' = Some (JStr ''oauth'')"

definition kimiEntry :: "grant option \<Rightarrow> grant option" where
  "kimiEntry g = (case gfield g KIMI_ENTRY of
     Some (JObj e) \<Rightarrow> (if isOauth e then Some e else None) | _ \<Rightarrow> None)"

fun is_finite_num :: "json option \<Rightarrow> bool" where
  "is_finite_num (Some (JNum (Fin _))) = True"
| "is_finite_num _ = False"

fun is_str :: "json option \<Rightarrow> bool" where
  "is_str (Some (JStr _)) = True"
| "is_str _ = False"

definition validEntry :: "grant \<Rightarrow> bool" where
  "validEntry e =
     (if map_of e ''type'' = Some (JStr ''api_key'')
      then map_of e ''key'' = None \<or> is_str (map_of e ''key'')
      else isOauth e \<and> is_str (map_of e ''access'') \<and> is_str (map_of e ''refresh'') \<and>
           is_finite_num (map_of e ''expires''))"

definition pi_complete :: "grant option \<Rightarrow> bool" where
  "pi_complete g = (case g of None \<Rightarrow> False
     | Some kvs \<Rightarrow> \<forall>v \<in> snd ` set kvs. \<exists>e \<in> set_option (as_object v). validEntry e)"

definition null_if_missing :: "json option \<Rightarrow> json" where
  "null_if_missing v = default JNull v"

definition pi_fingerprint :: "(js_num \<Rightarrow> string) \<Rightarrow> grant \<Rightarrow> json" where
  "pi_fingerprint num g = JArr (sort_key (js_string num)
     (map (\<lambda>(k, e). JArr [JStr k, null_if_missing (map_of e ''access''), null_if_missing (map_of e ''refresh'')])
       (filter (\<lambda>(k, e). isOauth e) (entries g))))"

text \<open>\<open>typeof p.expires === "number" && p.expires > (typeof o.expires === "number" ? o.expires : -1)\<close>.\<close>

definition newer_entry :: "grant \<Rightarrow> grant \<Rightarrow> bool" where
  "newer_entry p ow = (case as_number (map_of p ''expires'') of None \<Rightarrow> False
     | Some n \<Rightarrow> num_less (default (Fin (-1)) (as_number (map_of ow ''expires''))) n)"

definition same_tokens :: "grant \<Rightarrow> grant \<Rightarrow> bool" where
  "same_tokens p ow \<longleftrightarrow> js_strict_eq (map_of p ''access'') (map_of ow ''access'') \<and>
     js_strict_eq (map_of p ''refresh'') (map_of ow ''refresh'')"

definition first_account :: "(string \<Rightarrow> json option) \<Rightarrow> grant \<Rightarrow> (string \<times> string) option" where
  "first_account decode e =
     (case tokenAccount decode (map_of e ''access'') of Some a \<Rightarrow> Some a
      | None \<Rightarrow> tokenAccount decode (map_of e ''refresh''))"

text \<open>A key another member's grant holds, as an OAuth entry, with one of these tokens.\<close>

definition shared_chain :: "string \<Rightarrow> grant \<Rightarrow> grant list \<Rightarrow> bool" where
  "shared_chain key p others \<longleftrightarrow> (\<exists>g \<in> set others.
     case map_of g key of
       Some (JObj e) \<Rightarrow> isOauth e \<and>
         (js_strict_eq (map_of e ''access'') (map_of p ''access'') \<or> js_strict_eq (map_of e ''refresh'') (map_of p ''refresh'') \<or>
          js_strict_eq (map_of e ''access'') (map_of p ''refresh'') \<or> js_strict_eq (map_of e ''refresh'') (map_of p ''access''))
     | _ \<Rightarrow> False)"

text \<open>One round of the loop: the new content, the backup, and whether the content changed.\<close>

definition pi_merge_step :: "(string \<Rightarrow> json option) \<Rightarrow> grant \<Rightarrow> write_back_mode \<Rightarrow> grant list \<Rightarrow>
    string \<times> grant \<Rightarrow> grant \<times> grant \<times> bool \<Rightarrow> grant \<times> grant \<times> bool" where
  "pi_merge_step decode owner mode others entry acc =
     (case (entry, acc) of ((key, p), (next, backup, changed)) \<Rightarrow>
        if mode = Capture \<and> key \<noteq> KIMI_ENTRY then acc
        else (case map_of owner key of
          Some (JObj ow) \<Rightarrow>
            if \<not> isOauth ow \<or> \<not> isOauth p then acc
            else if \<not> newer_entry p ow \<or> same_tokens p ow then acc
            else if key = KIMI_ENTRY then (obj_put key (JObj (obj_merge ow p)) next, backup, True)
            else
              let mine = first_account decode ow; theirs = first_account decode p;
                  foreignClaim = (theirs \<noteq> None \<and> theirs \<noteq> mine)
              in if foreignClaim \<or> shared_chain key p others
                 then (next, obj_put (''skipped:'' @ key) (JObj p) backup, changed)
                 else (obj_put key (JObj (obj_merge ow p)) next,
                       obj_put (''replaced:'' @ key) (JObj ow) backup, True)
        | _ \<Rightarrow> acc))"

definition pi_newerInto :: "(string \<Rightarrow> json option) \<Rightarrow> grant option \<Rightarrow> grant \<Rightarrow> write_back_mode \<Rightarrow>
    grant list \<Rightarrow> grant_merge option" where
  "pi_newerInto decode owner pool mode others =
     (case owner of
        None \<Rightarrow> Some \<lparr> gm_next = Some pool, gm_backup = None \<rparr>
      | Some ow \<Rightarrow>
          (case fold (pi_merge_step decode ow mode others) (entries pool) (ow, [], False) of
             (next, backup, changed) \<Rightarrow>
               if \<not> changed \<and> backup = [] then None
               else Some \<lparr> gm_next = (if changed then Some next else None),
                           gm_backup = (if backup \<noteq> [] then Some backup else None) \<rparr>))"

definition pi_poolOnly :: "grant \<Rightarrow> grant option \<Rightarrow> bool" where
  "pi_poolOnly pool vault =
     (\<exists>(key, e) \<in> set (entries pool).
        case gfield vault key of
          None \<Rightarrow> True
        | Some v \<Rightarrow>
            if \<not> isOauth e then v \<noteq> JObj e
            else key \<noteq> KIMI_ENTRY \<and> (\<exists>ow \<in> set_option (as_object v).
                   isOauth ow \<and> newer_entry e ow \<and> \<not> same_tokens e ow))"

definition piSpec :: "(string \<Rightarrow> json option) \<Rightarrow> (js_num \<Rightarrow> string) \<Rightarrow> (identity \<Rightarrow> error + pool_usage) \<Rightarrow>
    grant_spec" where
  "piSpec decode num fetch =
     \<lparr> gp_tool = Pi, gp_liveSwap = True, gp_relPath = [''auth.json''],
       gp_usable = (\<lambda>g. nonEmpty (gfield (kimiEntry g) ''access'')),
       gp_identity = (\<lambda>g. pairIdentity decode (gfield (kimiEntry g) ''access'') (gfield (kimiEntry g) ''refresh'')),
       gp_complete = pi_complete,
       gp_fingerprint = pi_fingerprint num,
       gp_newerInto = pi_newerInto decode,
       gp_hasPoolOnlyContent = Some pi_poolOnly,
       gp_fetchUsage = fetch \<rparr>"

end
