(* ===== verification/Pool_Swap.thy ===== *)
theory Pool_Swap
  imports Pool_Adapter
begin

text \<open>
  A full pool swap (\<open>src/identities/pool/swap.ts\<close>): validate under the pool lock, move the
  credentials through the adapter, persist \<open>swapPool.active\<close> in a registry that is read again,
  append the ledger event, notify. An operation returns its result or what it threw, with the
  world it leaves behind.
\<close>

text \<open>What a swap can throw: an error, or \<open>SwapSkipped\<close> with the outcome of the guard.\<close>

datatype 'o swap_exn = Failed error | SwapSkipped 'o

record ('o, 'c) swap_options =
  so_pool :: "string option"
  so_target :: string
  so_reason :: swap_reason
  so_force :: bool
  so_ts :: string
  so_hardLimitUntilMs :: "rat option"
  so_guard :: "identity \<Rightarrow> 'c pool_world \<Rightarrow> 'o option"

text \<open>\<open>freshPool.swapPool.active = target.name\<close> on the first identity of that name.\<close>

fun set_active :: "string \<Rightarrow> string \<Rightarrow> identity list \<Rightarrow> identity list" where
  "set_active name target [] = []"
| "set_active name target (i # ids) =
     (if i_name i = name
      then i\<lparr> i_swapPool := map_option (\<lambda>p. p\<lparr> sp_active := Some target \<rparr>) (i_swapPool i) \<rparr> # ids
      else i # set_active name target ids)"

text \<open>The registry update after the credentials moved.\<close>

definition persist_active :: "host_env \<Rightarrow> string \<Rightarrow> string \<Rightarrow> identities_file \<Rightarrow> disk_file \<Rightarrow> disk_file" where
  "persist_active h name target fresh disk =
     (case find (\<lambda>i. i_name i = name) (f_identities fresh) of
        None \<Rightarrow> disk
      | Some freshPool \<Rightarrow>
          if i_swapPool freshPool \<noteq> None \<and> sp_active (pool_config freshPool) \<noteq> Some target
          then saveIdentitiesFile h
                 (fresh\<lparr> f_identities := set_active name target (f_identities fresh) \<rparr>)
          else disk)"

definition swap_event_of :: "('o, 'c) swap_options \<Rightarrow> identity \<Rightarrow> fs_result \<Rightarrow> identity \<Rightarrow> swap_event" where
  "swap_event_of opts pool r target =
     \<lparr> se_ts = so_ts opts, se_pool = i_name pool, se_from = fr_from r, se_to = i_name target,
       se_reason = so_reason opts, se_hardLimitUntilMs = so_hardLimitUntilMs opts \<rparr>"

definition running_sessions :: "'c pool_adapter \<Rightarrow> identity \<Rightarrow> fs_result \<Rightarrow> identity \<Rightarrow> nat option" where
  "running_sessions ad pool r target =
     (case pa_notifySwapped ad of
        None \<Rightarrow> None
      | Some notify \<Rightarrow>
          if fr_noop r then None
          else (case notify (pool\<lparr> i_swapPool := Some ((pool_config pool)\<lparr> sp_active := Some (i_name target) \<rparr>) \<rparr>)
                       (fr_from r) (i_name target) of
                  Inl _ \<Rightarrow> None
                | Inr sessions \<Rightarrow> sessions))"

text \<open>What follows a successful credential swap.\<close>

definition finish_swap :: "host_env \<Rightarrow> 'c pool_adapter \<Rightarrow> ('o, 'c) swap_options \<Rightarrow> identity \<Rightarrow> identity \<Rightarrow>
    fs_result \<Rightarrow> 'c pool_world \<Rightarrow> ('o swap_exn + swap_result) \<times> 'c pool_world" where
  "finish_swap h ad opts pool target r w =
     (case loadIdentitiesFile h (pw_registry w) of
        Inl e \<Rightarrow> (Inl (Failed e), w)
      | Inr fresh \<Rightarrow>
          (Inr (fs_result.extend r \<lparr> sr_reason = so_reason opts,
                  sr_runningSessions = running_sessions ad pool r target \<rparr>),
           w\<lparr> pw_registry := persist_active h (i_name pool) (i_name target) fresh (pw_registry w),
              pw_ledger := (if fr_noop r then pw_ledger w
                            else appendSwapEvent (swap_event_of opts pool r target) (pw_ledger w)) \<rparr>))"

text \<open>The checks of \<open>swapLocked\<close> before any credential is touched.\<close>

definition swap_checks :: "host_env \<Rightarrow> 'c pool_adapter \<Rightarrow> ('o, 'c) swap_options \<Rightarrow> 'c pool_world \<Rightarrow>
    'o swap_exn + (identities_file \<times> identity \<times> identity)" where
  "swap_checks h ad opts w =
     (case loadIdentitiesFile h (pw_registry w) of
        Inl e \<Rightarrow> Inl (Failed e)
      | Inr file \<Rightarrow>
     (case requirePool h file (so_pool opts) (tool_string (pa_tool ad)) of
        Inl e \<Rightarrow> Inl (Failed e)
      | Inr pool \<Rightarrow>
     (case so_guard opts pool w of
        Some outcome \<Rightarrow> Inl (SwapSkipped outcome)
      | None \<Rightarrow>
     (case memberIdentity file pool (so_target opts) of
        Inl e \<Rightarrow> Inl (Failed e)
      | Inr target \<Rightarrow>
          if isRetired target then Inl (Failed (SwapPoolError (i_name target @ '' is retired'')))
          else if \<not> so_force opts \<and> \<not> isAllowed pool (i_name target)
          then Inl (Failed (SwapPoolError (i_name target @ '' is not allowed'')))
          else Inr (file, pool, target)))))"

definition swapLocked :: "host_env \<Rightarrow> 'c pool_adapter \<Rightarrow> ('o, 'c) swap_options \<Rightarrow> 'c interference \<Rightarrow>
    'c pool_world \<Rightarrow> ('o swap_exn + swap_result) \<times> 'c pool_world" where
  "swapLocked h ad opts intf w =
     (case swap_checks h ad opts w of
        Inl x \<Rightarrow> (Inl x, w)
      | Inr (file, pool, target) \<Rightarrow>
          (case pa_swapCredentials ad
                  \<lparr> sc_pool = pool, sc_members = liveMembers file pool, sc_target = target,
                    sc_reason = so_reason opts \<rparr> (pw_creds w) of
             (Inl e, c) \<Rightarrow> (Inl (Failed e), w\<lparr> pw_creds := c \<rparr>)
           | (Inr r, c) \<Rightarrow> finish_swap h ad opts pool target r (in_creds intf (w\<lparr> pw_creds := c \<rparr>))))"

definition performPoolSwap :: "host_env \<Rightarrow> 'c pool_adapter \<Rightarrow> ('o, 'c) swap_options \<Rightarrow> 'c interference \<Rightarrow>
    'c pool_world \<Rightarrow> ('o swap_exn + swap_result) \<times> 'c pool_world" where
  "performPoolSwap h ad opts intf w =
     (case loadIdentitiesFile h (pw_registry w) of
        Inl e \<Rightarrow> (Inl (Failed e), w)
      | Inr file \<Rightarrow>
     (case requirePool h file (so_pool opts) (tool_string (pa_tool ad)) of
        Inl e \<Rightarrow> (Inl (Failed e), w)
      | Inr _ \<Rightarrow>
     (case in_lock intf w of
        Inl e \<Rightarrow> (Inl (Failed e), w)
      | Inr w' \<Rightarrow> swapLocked h ad opts intf w')))"

section \<open>The registry update\<close>

lemma set_active_keys [simp]:
  "map keys_of (set_active name target ids) = map keys_of ids"
  "map i_name (set_active name target ids) = map i_name ids"
  "map i_configDir (set_active name target ids) = map i_configDir ids"
  by (induction ids) (auto simp: keys_of_def)

lemma set_active_mem:
  "x \<in> set (set_active name target ids) \<Longrightarrow>
     x \<in> set ids \<or> (\<exists>i. find (\<lambda>i. i_name i = name) ids = Some i \<and>
       x = i\<lparr> i_swapPool := map_option (\<lambda>p. p\<lparr> sp_active := Some target \<rparr>) (i_swapPool i) \<rparr>)"
  by (induction ids) (auto split: if_splits)

lemma set_active_found:
  "find (\<lambda>i. i_name i = name) ids = Some i \<Longrightarrow>
     i\<lparr> i_swapPool := map_option (\<lambda>p. p\<lparr> sp_active := Some target \<rparr>) (i_swapPool i) \<rparr>
       \<in> set (set_active name target ids)"
  by (induction ids) (auto split: if_splits)

lemma set_active_same:
  assumes "\<And>i. find (\<lambda>i. i_name i = name) ids = Some i \<Longrightarrow>
    i_swapPool i = None \<or> sp_active (pool_config i) = Some target"
  shows "set_active name target ids = ids"
  using assms
proof (induction ids)
  case (Cons i ids)
  show ?case
  proof (cases "i_name i = name")
    case True
    with Cons.prems have "i_swapPool i = None \<or> sp_active (pool_config i) = Some target" by simp
    then have "map_option (\<lambda>p. p\<lparr> sp_active := Some target \<rparr>) (i_swapPool i) = i_swapPool i"
      by (cases "i_swapPool i") (auto simp: pool_config_def)
    with True show ?thesis by simp
  qed (use Cons in simp)
qed simp

text \<open>The target of a swap is still an account of the pool in a registry.\<close>

definition still_account :: "string \<Rightarrow> string \<Rightarrow> identities_file \<Rightarrow> bool" where
  "still_account name target fresh \<longleftrightarrow>
     (case find (\<lambda>i. i_name i = name) (f_identities fresh) of
        None \<Rightarrow> True
      | Some i \<Rightarrow> i_swapPool i = None \<or> target \<in> set (sp_accounts (pool_config i)))"

lemma registry_ok_set_active:
  assumes "registry_ok h f" "still_account name target f"
  shows "registry_ok h (f\<lparr> f_identities := set_active name target (f_identities f) \<rparr>)"
proof -
  have "identity_wf h x \<and> is_absolute (i_configDir x) \<and> (under_home (defaultLocalHome h) (i_configDir x) \<or>
      \<not> under_home (hostHomeOf (he_env h) (defaultLocalHome h)) (i_configDir x))"
    if x: "x \<in> set (set_active name target (f_identities f))" for x
  proof (cases "x \<in> set (f_identities f)")
    case True
    with assms(1) show ?thesis by (auto simp: registry_ok_def registry_wf_def)
  next
    case False
    with set_active_mem[OF x] obtain i where i: "find (\<lambda>i. i_name i = name) (f_identities f) = Some i"
      "x = i\<lparr> i_swapPool := map_option (\<lambda>p. p\<lparr> sp_active := Some target \<rparr>) (i_swapPool i) \<rparr>" by blast
    with assms(1) find_Some_set[OF i(1)] have "identity_wf h i" "is_absolute (i_configDir i)"
      "under_home (defaultLocalHome h) (i_configDir i) \<or>
       \<not> under_home (hostHomeOf (he_env h) (defaultLocalHome h)) (i_configDir i)"
      by (auto simp: registry_ok_def registry_wf_def)
    moreover have "i_swapPool i = None \<or> target \<in> set (sp_accounts (pool_config i))"
      using assms(2) i(1) by (simp add: still_account_def)
    ultimately show ?thesis
      by (auto simp: i(2) identity_wf_def identity_context_def pool_wf_def pool_config_def)
  qed
  with assms(1) show ?thesis by (auto simp: registry_ok_def registry_wf_def)
qed

text \<open>A saved registry that loads was written from well-formed pools.\<close>

lemma saved_pools_wf:
  assumes "loadIdentitiesFile h (saveIdentitiesFile h f) = Inr g" "i \<in> set (f_identities f)"
    and "i_swapPool i = Some p"
  shows "pool_wf (i_name i) p"
proof -
  let ?u = "\<lambda>i. i\<lparr> i_configDir := untranslateHostPath (i_configDir i) (he_env h) (defaultLocalHome h) \<rparr>"
  obtain raw q where raw: "saveIdentitiesFile h f = Parsed raw" "parseIdentitiesFile h raw = Inr q"
    using assms(1) by (auto simp: loadIdentitiesFile_def map_r_Inr_iff saveIdentitiesFile_def)
  have "js_get raw ''identities'' = Some (JArr (map (\<lambda>i. encode_identity (?u i)) (f_identities f)))"
    using raw(1) by (auto simp: saveIdentitiesFile_def)
  with raw(2) have "f_identities q = map decode_identity (map (\<lambda>i. encode_identity (?u i)) (f_identities f))"
    by (auto simp: parseIdentitiesFile_def bind_r_Inr_iff)
  then have "?u i \<in> set (f_identities q)" using assms(2) by (simp add: comp_def)
  then have "identity_wf h (?u i)" using parsed_registry_wf[OF raw(2)] by (auto simp: registry_wf_def)
  with assms(3) show ?thesis by (auto simp: identity_wf_def)
qed

lemma persist_active_load:
  assumes "homes_ok h" "loadIdentitiesFile h disk = Inr fresh" "still_account name target fresh"
  shows "loadIdentitiesFile h (persist_active h name target fresh disk) =
    Inr (fresh\<lparr> f_identities := set_active name target (f_identities fresh) \<rparr>)"
proof -
  note saved = load_saved[OF assms(1) registry_ok_set_active[OF loaded_registry_ok[OF assms(1,2)] assms(3)]]
  show ?thesis
  proof (cases "\<exists>i. find (\<lambda>i. i_name i = name) (f_identities fresh) = Some i \<and>
      i_swapPool i \<noteq> None \<and> sp_active (pool_config i) \<noteq> Some target")
    case True
    with saved show ?thesis by (auto simp: persist_active_def)
  next
    case False
    then have same: "set_active name target (f_identities fresh) = f_identities fresh"
      by (intro set_active_same) auto
    from False have "persist_active h name target fresh disk = disk"
      by (auto simp: persist_active_def split: option.split)
    with assms(2) same show ?thesis by simp
  qed
qed

lemma persist_active_unreadable:
  assumes "loadIdentitiesFile h disk = Inr fresh" "homes_ok h" "\<not> still_account name target fresh"
  shows "\<not> is_ok (loadIdentitiesFile h (persist_active h name target fresh disk))"
proof
  assume "is_ok (loadIdentitiesFile h (persist_active h name target fresh disk))"
  then obtain g where g: "loadIdentitiesFile h (persist_active h name target fresh disk) = Inr g"
    by (auto simp: is_ok_iff)
  from assms(3) obtain i p where i: "find (\<lambda>i. i_name i = name) (f_identities fresh) = Some i"
    "i_swapPool i = Some p" "target \<notin> set (sp_accounts p)"
    by (auto simp: still_account_def pool_config_def split: option.splits)
  then have "pool_wf (i_name i) p"
    using loaded_registry_ok[OF assms(2,1)] find_Some_set[OF i(1)]
    by (auto simp: registry_ok_def registry_wf_def identity_wf_def)
  with i(3) have "sp_active p \<noteq> Some target" by (auto simp: pool_wf_def)
  with i have "persist_active h name target fresh disk =
      saveIdentitiesFile h (fresh\<lparr> f_identities := set_active name target (f_identities fresh) \<rparr>)"
    by (simp add: persist_active_def pool_config_def)
  with g have saved: "loadIdentitiesFile h (saveIdentitiesFile h
      (fresh\<lparr> f_identities := set_active name target (f_identities fresh) \<rparr>)) = Inr g" by simp
  have "pool_wf (i_name i) (p\<lparr> sp_active := Some target \<rparr>)"
    using saved_pools_wf[OF saved, of "i\<lparr> i_swapPool := Some (p\<lparr> sp_active := Some target \<rparr>) \<rparr>"]
      set_active_found[OF i(1), of target] i(2) by simp
  with i(3) show False by (simp add: pool_wf_def)
qed

section \<open>The whole swap\<close>

lemma performPoolSwap_locked:
  assumes "performPoolSwap h ad opts intf w = (res, w')" "in_lock intf w = Inr w1"
  shows "(\<exists>e. res = Inl e) \<and> w' = w \<or> swapLocked h ad opts intf w1 = (res, w')"
  using assms by (auto simp: performPoolSwap_def split: sum.splits)

lemma swap_checks_Inr:
  assumes "swap_checks h ad opts w = Inr (file, pool, target)"
  shows "loadIdentitiesFile h (pw_registry w) = Inr file" "pool \<in> set (poolsOf h file)"
    "so_guard opts pool w = None" "target \<in> set (f_identities file)" "\<not> isRetired target"
    "i_name target \<in> set (sp_accounts (pool_config pool))"
    "so_force opts \<or> isAllowed pool (i_name target)"
proof -
  from assms show "loadIdentitiesFile h (pw_registry w) = Inr file" "so_guard opts pool w = None"
    "\<not> isRetired target" "so_force opts \<or> isAllowed pool (i_name target)"
    by (auto simp: swap_checks_def split: sum.splits option.splits if_splits)
  from assms have pool: "requirePool h file (so_pool opts) (tool_string (pa_tool ad)) = Inr pool"
    and mem: "memberIdentity file pool (so_target opts) = Inr target"
    by (auto simp: swap_checks_def split: sum.splits option.splits if_splits)
  from pool show "pool \<in> set (poolsOf h file)" by (rule requirePool_Inr)
  from mem show "target \<in> set (f_identities file)" "i_name target \<in> set (sp_accounts (pool_config pool))"
    by (auto simp: memberIdentity_def dest: findIdentityByNameOrAlias_Some split: option.splits if_splits)
qed

definition swap_input_of :: "('o, 'c) swap_options \<Rightarrow> identities_file \<Rightarrow> identity \<Rightarrow> identity \<Rightarrow> swap_input" where
  "swap_input_of opts file pool target =
     \<lparr> sc_pool = pool, sc_members = liveMembers file pool, sc_target = target, sc_reason = so_reason opts \<rparr>"

lemma swapLocked_Inr:
  assumes "swapLocked h ad opts intf w = (Inr r, w')"
  shows "\<exists>file pool target c fs fresh.
    swap_checks h ad opts w = Inr (file, pool, target) \<and>
    pa_swapCredentials ad (swap_input_of opts file pool target) (pw_creds w) = (Inr fs, c) \<and>
    (let w2 = in_creds intf (w\<lparr> pw_creds := c \<rparr>) in
       loadIdentitiesFile h (pw_registry w2) = Inr fresh \<and>
       r = fs_result.extend fs \<lparr> sr_reason = so_reason opts,
             sr_runningSessions = running_sessions ad pool fs target \<rparr> \<and>
       w' = w2\<lparr> pw_registry := persist_active h (i_name pool) (i_name target) fresh (pw_registry w2),
              pw_ledger := (if fr_noop fs then pw_ledger w2
                            else appendSwapEvent (swap_event_of opts pool fs target) (pw_ledger w2)) \<rparr>)"
proof -
  from assms obtain reg pool target where chk: "swap_checks h ad opts w = Inr (reg, pool, target)"
    by (auto simp: swapLocked_def split: sum.splits)
  with assms obtain fs c where sw: "pa_swapCredentials ad (swap_input_of opts reg pool target) (pw_creds w) = (Inr fs, c)"
    and fin: "finish_swap h ad opts pool target fs (in_creds intf (w\<lparr> pw_creds := c \<rparr>)) = (Inr r, w')"
    by (auto simp: swapLocked_def swap_input_of_def split: sum.splits prod.splits)
  from fin obtain fresh where "loadIdentitiesFile h (pw_registry (in_creds intf (w\<lparr> pw_creds := c \<rparr>))) = Inr fresh"
    by (auto simp: finish_swap_def split: sum.splits)
  with chk sw fin show ?thesis
    by (intro exI[of _ reg] exI[of _ pool] exI[of _ target] exI[of _ c] exI[of _ fs] exI[of _ fresh])
      (auto simp: finish_swap_def Let_def)
qed


text \<open>Property C3.
  A successful swap loses no registry edit made while it waited for the credential locks: the
  registry it leaves is the one it read again, with the pool's active member replaced and
  nothing else, and the ledger gains one event exactly when the swap was not a no-op. That
  registry can be read exactly when the target is still an account of the pool in it: the
  second read does not check the membership again, so a member that is removed while the swap
  is under way is written back as the active one and makes the file invalid for every later
  command.\<close>

theorem swap_persists_active:
  assumes "homes_ok h" "in_lock intf w = Inr w1" "performPoolSwap h ad opts intf w = (Inr r, w')"
  shows "\<exists>file pool target c fs fresh.
    swap_checks h ad opts w1 = Inr (file, pool, target) \<and>
    pa_swapCredentials ad (swap_input_of opts file pool target) (pw_creds w1) = (Inr fs, c) \<and>
    loadIdentitiesFile h (pw_registry (in_creds intf (w1\<lparr> pw_creds := c \<rparr>))) = Inr fresh \<and>
    pw_creds w' = pw_creds (in_creds intf (w1\<lparr> pw_creds := c \<rparr>)) \<and>
    pw_ledger w' = pw_ledger (in_creds intf (w1\<lparr> pw_creds := c \<rparr>)) @
      (if fr_noop fs then [] else [Some (encode_event (swap_event_of opts pool fs target))]) \<and>
    (is_ok (loadIdentitiesFile h (pw_registry w')) \<longleftrightarrow> still_account (i_name pool) (i_name target) fresh) \<and>
    (still_account (i_name pool) (i_name target) fresh \<longrightarrow>
       loadIdentitiesFile h (pw_registry w') = Inr (fresh\<lparr> f_identities :=
         set_active (i_name pool) (i_name target) (f_identities fresh) \<rparr>))"
proof -
  from performPoolSwap_locked[OF assms(3,2)] have "swapLocked h ad opts intf w1 = (Inr r, w')" by auto
  from swapLocked_Inr[OF this] obtain reg pool target c fs fresh where
    chk: "swap_checks h ad opts w1 = Inr (reg, pool, target)"
    and sw: "pa_swapCredentials ad (swap_input_of opts reg pool target) (pw_creds w1) = (Inr fs, c)"
    and load: "loadIdentitiesFile h (pw_registry (in_creds intf (w1\<lparr> pw_creds := c \<rparr>))) = Inr fresh"
    and w': "w' = (in_creds intf (w1\<lparr> pw_creds := c \<rparr>))\<lparr>
      pw_registry := persist_active h (i_name pool) (i_name target) fresh
        (pw_registry (in_creds intf (w1\<lparr> pw_creds := c \<rparr>))),
      pw_ledger := (if fr_noop fs then pw_ledger (in_creds intf (w1\<lparr> pw_creds := c \<rparr>))
        else appendSwapEvent (swap_event_of opts pool fs target)
          (pw_ledger (in_creds intf (w1\<lparr> pw_creds := c \<rparr>)))) \<rparr>"
    unfolding Let_def by blast
  have iff: "is_ok (loadIdentitiesFile h (pw_registry w')) \<longleftrightarrow> still_account (i_name pool) (i_name target) fresh"
    using persist_active_load[OF assms(1) load] persist_active_unreadable[OF load assms(1)]
    by (cases "still_account (i_name pool) (i_name target) fresh") (auto simp: w')
  show ?thesis
    using chk sw load iff persist_active_load[OF assms(1) load]
    by (intro exI[of _ reg] exI[of _ pool] exI[of _ target] exI[of _ c] exI[of _ fs] exI[of _ fresh])
      (auto simp: w' appendSwapEvent_def)
qed

section \<open>A concrete swap\<close>

text \<open>
  A small credential store: the name of the member whose credentials the pool folder holds.
\<close>

definition copy_adapter :: "string pool_adapter" where
  "copy_adapter = \<lparr> pa_tool = Claude, pa_liveSwap = True, pa_memberProblem = (\<lambda>_ _. None),
     pa_hasCredentials = (\<lambda>c _. c \<noteq> ''''),
     pa_swapCredentials = (\<lambda>inp c.
       (Inr \<lparr> fr_pool = i_name (sc_pool inp), fr_from = sp_active (pool_config (sc_pool inp)),
              fr_to = i_name (sc_target inp),
              fr_noop = (sp_active (pool_config (sc_pool inp)) = Some (i_name (sc_target inp)) \<and>
                         c = i_name (sc_target inp)),
              fr_writeBack = Identical, fr_notes = [] \<rparr>, i_name (sc_target inp))),
     pa_fetchUsage = (\<lambda>_ _. \<lparr> pu_status = Unavailable, pu_maxUtilization = None, pu_windows = None,
       pu_extraUsage = None, pu_error = None, pu_retryAfterSeconds = None, pu_capturedAt = '''' \<rparr>),
     pa_notifySwapped = None, pa_heal = None \<rparr>"

definition example_world :: "string pool_world" where
  "example_world = \<lparr> pw_registry = Parsed example_registry_json, pw_ledger = [], pw_creds = ''a'' \<rparr>"

definition quiet :: "'c interference" where
  "quiet = \<lparr> in_lock = Inr, in_creds = (\<lambda>w. w) \<rparr>"

definition swap_to_b :: "(unit, string) swap_options" where
  "swap_to_b = \<lparr> so_pool = None, so_target = ''b'', so_reason = Manual, so_force = False,
     so_ts = ''t'', so_hardLimitUntilMs = None, so_guard = (\<lambda>_ _. None) \<rparr>"

text \<open>Another process takes \<open>b\<close> out of the pool between the credential swap and the second read.\<close>

definition drop_b :: "string interference" where
  "drop_b = \<lparr> in_lock = Inr, in_creds = (\<lambda>w. w\<lparr> pw_registry := Parsed (JObj
     [(''version'', JNum (Fin 1)),
      (''identities'', JArr
        [JObj [(''name'', JStr ''a''), (''label'', JStr ''A''), (''configDir'', JStr ''/c/a'')],
         JObj [(''name'', JStr ''p''), (''label'', JStr ''P''), (''configDir'', JStr ''/c/p''),
               (''swapPool'', JObj [(''accounts'', JArr [JStr ''a'']),
                                    (''active'', JStr ''a'')])]])]) \<rparr>) \<rparr>"


theorem swap_persists_active_witness:
  "\<exists>name target fresh. is_ok (loadIdentitiesFile example_env (pw_registry
     (snd (performPoolSwap example_env copy_adapter swap_to_b drop_b example_world)))) \<longleftrightarrow>
   still_account name target fresh"
proof -
  let ?run = "performPoolSwap example_env copy_adapter swap_to_b drop_b example_world"
  have "is_ok (fst ?run)" by code_simp
  then obtain r where r: "?run = (Inr r, snd ?run)" by (metis is_ok_iff prod.collapse)
  have ok: "homes_ok example_env" by code_simp
  have lock: "in_lock drop_b example_world = Inr example_world" by (simp add: drop_b_def)
  from swap_persists_active[OF ok lock r] show ?thesis by blast
qed

text \<open>The race makes the registry unreadable; without it the registry stays readable.\<close>

lemma swap_race:
  "\<not> is_ok (loadIdentitiesFile example_env (pw_registry
     (snd (performPoolSwap example_env copy_adapter swap_to_b drop_b example_world))))"
  "is_ok (loadIdentitiesFile example_env (pw_registry
     (snd (performPoolSwap example_env copy_adapter swap_to_b quiet example_world))))"
  by (code_simp, code_simp)

end
