(* ===== verification/Pool_Ops.thy ===== *)
theory Pool_Ops
  imports Pool_Swap "HOL-Library.Product_Lexorder"
begin

text \<open>
  Selection and orchestration on top of an adapter (\<open>src/identities/pool/ops.ts\<close>): who has
  headroom, whether a limited active member is swapped out, and when the next account is known
  to be usable again. Instants and durations are rationals here, because a ledger can hold any
  JSON number.
\<close>

definition SWAP_COOLDOWN_MS :: rat where
  "SWAP_COOLDOWN_MS = 600000"

section \<open>chooseBest\<close>

definition live_util :: "pool_usage option \<Rightarrow> rat option" where
  "live_util u = (case u of None \<Rightarrow> None
     | Some v \<Rightarrow> if pu_status v = Live then pu_maxUtilization v else None)"

definition extra_available :: "pool_usage option \<Rightarrow> bool" where
  "extra_available u = (case u of None \<Rightarrow> False | Some v \<Rightarrow> pu_extraUsage v = Some True)"

record choose_options =
  ch_exclude :: "string option"
  ch_belowPercent :: "rat option"
  ch_requireKnown :: bool

definition eligible :: "choose_options \<Rightarrow> string \<times> pool_usage option \<Rightarrow> bool" where
  "eligible opts r \<longleftrightarrow> Some (fst r) \<noteq> ch_exclude opts \<and>
     (ch_requireKnown opts \<longrightarrow> live_util (snd r) \<noteq> None) \<and>
     (\<forall>b \<in> set_option (ch_belowPercent opts). \<exists>u \<in> set_option (live_util (snd r)). u < b)"

text \<open>The comparison of \<open>sort\<close>: utilisation, unknown last, then paid capacity first.\<close>

definition rank :: "string \<times> pool_usage option \<Rightarrow> rat \<times> nat" where
  "rank r = (default 1000 (live_util (snd r)), if extra_available (snd r) then 0 else 1)"

definition chooseBest :: "(string \<times> pool_usage option) list \<Rightarrow> choose_options \<Rightarrow> string option" where
  "chooseBest rows opts =
     (case sort_key rank (filter (eligible opts) rows) of [] \<Rightarrow> None | r # _ \<Rightarrow> Some (fst r))"

abbreviation below :: "rat \<Rightarrow> choose_options" where
  "below p \<equiv> \<lparr> ch_exclude = None, ch_belowPercent = Some p, ch_requireKnown = True \<rparr>"

abbreviation anyone :: choose_options where
  "anyone \<equiv> \<lparr> ch_exclude = None, ch_belowPercent = None, ch_requireKnown = False \<rparr>"

section \<open>Loading and status\<close>

record 'c pool_deps =
  pd_now :: rat
  pd_iso :: "rat \<Rightarrow> string"
  pd_fetchUsage :: "('c \<Rightarrow> identity \<Rightarrow> pool_usage) option"

definition usageOf :: "'c pool_adapter \<Rightarrow> 'c pool_deps \<Rightarrow> 'c pool_world \<Rightarrow> identity \<Rightarrow> pool_usage" where
  "usageOf ad deps w =
     (case pd_fetchUsage deps of None \<Rightarrow> pa_fetchUsage ad | Some f \<Rightarrow> f) (pw_creds w)"

definition load :: "host_env \<Rightarrow> 'c pool_adapter \<Rightarrow> 'c pool_world \<Rightarrow> string option \<Rightarrow>
    error + (identities_file \<times> identity \<times> identity list)" where
  "load h ad w poolKey =
     bind_r (loadIdentitiesFile h (pw_registry w)) (\<lambda>file.
     bind_r (requirePool h file poolKey (tool_string (pa_tool ad))) (\<lambda>pool.
       Inr (file, pool, poolMembers file pool)))"

record member_row =
  mr_name :: string
  mr_active :: bool
  mr_allowed :: bool
  mr_usage :: "pool_usage option"

definition member_usage :: "'c pool_adapter \<Rightarrow> 'c pool_deps \<Rightarrow> 'c pool_world \<Rightarrow> identity list \<Rightarrow> string \<Rightarrow>
    pool_usage option" where
  "member_usage ad deps w members name =
     (case find (\<lambda>m. i_name m = name) members of
        None \<Rightarrow> None
      | Some m \<Rightarrow> if isRetired m then None else Some (usageOf ad deps w m))"

definition poolStatus :: "host_env \<Rightarrow> 'c pool_adapter \<Rightarrow> 'c pool_deps \<Rightarrow> string option \<Rightarrow> bool \<Rightarrow>
    'c pool_world \<Rightarrow> error + (identity \<times> rat \<times> member_row list)" where
  "poolStatus h ad deps poolKey withUsage w =
     bind_r (load h ad w poolKey) (\<lambda>(file, pool, members).
       Inr (pool, poolThreshold pool,
         map (\<lambda>name. \<lparr> mr_name = name, mr_active = (sp_active (pool_config pool) = Some name),
                mr_allowed = isAllowed pool name,
                mr_usage = (if withUsage then member_usage ad deps w members name else None) \<rparr>)
           (sp_accounts (pool_config pool))))"

datatype limited_outcome =
    Not_Limited "rat option"
  | Cooldown rat
  | No_Candidate "rat option" "rat option" "rat option"
  | Swapped swap_result "rat option"
  | Skipped string

definition plain_swap :: "'c pool_deps \<Rightarrow> identity \<Rightarrow> string \<Rightarrow> swap_reason \<Rightarrow> (limited_outcome, 'c) swap_options" where
  "plain_swap deps pool target reason =
     \<lparr> so_pool = Some (i_name pool), so_target = target, so_reason = reason, so_force = False,
       so_ts = pd_iso deps (pd_now deps), so_hardLimitUntilMs = None, so_guard = (\<lambda>_ _. None) \<rparr>"

text \<open>The rows \<open>swapToNext\<close> chooses from.\<close>

definition next_candidates :: "member_row list \<Rightarrow> (string \<times> pool_usage option) list" where
  "next_candidates rows =
     map (\<lambda>r. (mr_name r, mr_usage r))
       (filter (\<lambda>r. mr_allowed r \<and> \<not> mr_active r \<and>
          \<not> (\<exists>u \<in> set_option (mr_usage r). pu_status u = Live \<and> default 0 (pu_maxUtilization u) \<ge> 100)) rows)"

definition swapToNext :: "host_env \<Rightarrow> 'c pool_adapter \<Rightarrow> 'c pool_deps \<Rightarrow> string option \<Rightarrow> swap_reason \<Rightarrow>
    bool \<Rightarrow> 'c interference \<Rightarrow> 'c pool_world \<Rightarrow>
    (limited_outcome swap_exn + swap_result option) \<times> 'c pool_world" where
  "swapToNext h ad deps poolKey reason requireBelowThreshold intf w =
     (case poolStatus h ad deps poolKey True w of
        Inl e \<Rightarrow> (Inl (Failed e), w)
      | Inr (pool, threshold, rows) \<Rightarrow>
          (case chooseBest (next_candidates rows) (if requireBelowThreshold then below threshold else anyone) of
             None \<Rightarrow> (Inr None, w)
           | Some target \<Rightarrow>
               (case performPoolSwap h ad (plain_swap deps pool target reason) intf w of
                  (Inl x, w') \<Rightarrow> (Inl x, w')
                | (Inr r, w') \<Rightarrow> (Inr (Some r), w'))))"

section \<open>Reset times\<close>

definition window_reset :: "host_env \<Rightarrow> usage_window \<Rightarrow> rat option" where
  "window_reset h u = map_option rat_of_int (Option.bind (uw_resetsAt u) (he_date_parse h))"

text \<open>The loop of \<open>earliestPoolReset\<close> over the windows of one member.\<close>

fun reset_loop :: "host_env \<Rightarrow> rat \<Rightarrow> rat \<Rightarrow> bool \<Rightarrow> usage_window list \<Rightarrow> rat option" where
  "reset_loop h now latestReset exhausted [] = (if exhausted then Some latestReset else None)"
| "reset_loop h now latestReset exhausted (u # us) =
     (if uw_utilization u < 100 then reset_loop h now latestReset exhausted us
      else case window_reset h u of
             None \<Rightarrow> None
           | Some r \<Rightarrow> if r \<le> now then None else reset_loop h now (max latestReset r) True us)"

record reset_row =
  rr_name :: string
  rr_usage :: "pool_usage option"
  rr_blockedUntil :: "rat option"

definition member_reset :: "host_env \<Rightarrow> identity list \<Rightarrow> reset_row list \<Rightarrow> rat \<Rightarrow> string \<Rightarrow> rat option" where
  "member_reset h members rows now name =
     (let row = find (\<lambda>r. rr_name r = name) rows;
          blockedUntil = Option.bind row rr_blockedUntil;
          usage = Option.bind row rr_usage
      in if (\<exists>b \<in> set_option blockedUntil. b > now) then blockedUntil
         else if \<not> (\<exists>m \<in> set members. i_name m = name) then None
         else (case usage of
            None \<Rightarrow> None
          | Some u \<Rightarrow>
              if pu_status u \<noteq> Live \<or> default [] (pu_windows u) = [] then None
              else reset_loop h now now False (default [] (pu_windows u))))"

definition earliestPoolReset :: "host_env \<Rightarrow> string list \<Rightarrow> identity list \<Rightarrow> reset_row list \<Rightarrow> rat \<Rightarrow> rat option" where
  "earliestPoolReset h allowed members rows now =
     (let memberResets = map (member_reset h members rows now) allowed;
          validResets = List.map_filter (\<lambda>r. r) memberResets
      in if validResets = [] then None
         else if None \<in> set memberResets then Some (min (list_min validResets) (now + 30000))
         else Some (list_min validResets))"

definition exhausted_windows :: "pool_usage \<Rightarrow> usage_window list" where
  "exhausted_windows u = filter (\<lambda>x. uw_utilization x \<ge> 100) (default [] (pu_windows u))"

definition knownResetOrCooldown :: "host_env \<Rightarrow> pool_usage \<Rightarrow> rat \<Rightarrow> rat \<Rightarrow> rat" where
  "knownResetOrCooldown h u now cooldownMs =
     (let resets = filter (\<lambda>r. r > now) (List.map_filter (window_reset h) (exhausted_windows u))
      in if resets \<noteq> [] then list_max resets else now + cooldownMs)"

definition exhaustedResetAt :: "host_env \<Rightarrow> pool_usage \<Rightarrow> rat \<Rightarrow> rat option" where
  "exhaustedResetAt h u now =
     (let resets = map (window_reset h) (exhausted_windows u)
      in if resets = [] then None
         else if \<exists>r \<in> set resets. (case r of None \<Rightarrow> True | Some v \<Rightarrow> v \<le> now) then None
         else Some (list_max (List.map_filter (\<lambda>r. r) resets)))"

section \<open>swapIfLimited\<close>

record limit_options =
  lo_assumeLimited :: bool
  lo_trustLimitEvidence :: bool
  lo_cooldownMs :: "rat option"
  lo_expectedActive :: "string option"
  lo_failureAtMs :: "rat option"

text \<open>The options of a call that passes none.\<close>

definition plain_limit :: limit_options where
  "plain_limit = \<lparr> lo_assumeLimited = False, lo_trustLimitEvidence = False, lo_cooldownMs = None,
     lo_expectedActive = None, lo_failureAtMs = None \<rparr>"

definition failure_at :: "'c pool_deps \<Rightarrow> limit_options \<Rightarrow> rat option" where
  "failure_at deps opts =
     (case lo_failureAtMs opts of
        Some t \<Rightarrow> Some t
      | None \<Rightarrow> if lo_assumeLimited opts then Some (pd_now deps) else None)"

definition cooldown_ms :: "limit_options \<Rightarrow> rat" where
  "cooldown_ms opts = default SWAP_COOLDOWN_MS (lo_cooldownMs opts)"

definition recentEvents :: "host_env \<Rightarrow> 'c pool_world \<Rightarrow> identity \<Rightarrow> swap_event list" where
  "recentEvents h w pool = eventsForPool (readSwapEvents h (pw_ledger w)) pool"

definition event_ms :: "host_env \<Rightarrow> swap_event \<Rightarrow> rat" where
  "event_ms h e = rat_of_int (event_time h e)"

definition handled_since :: "host_env \<Rightarrow> rat option \<Rightarrow> swap_event list \<Rightarrow> bool" where
  "handled_since h failureAt events \<longleftrightarrow>
     (\<exists>t \<in> set_option failureAt. \<exists>e \<in> set_option (last_opt events). event_ms h e \<ge> t)"

abbreviation already_handled_note :: limited_outcome where
  "already_handled_note \<equiv> Skipped ''limit failure was already handled by a pool swap''"

definition cooldown :: "host_env \<Rightarrow> 'c pool_deps \<Rightarrow> limit_options \<Rightarrow> 'c pool_world \<Rightarrow> identity \<Rightarrow>
    limited_outcome option" where
  "cooldown h deps opts w pool =
     (let events = filter (\<lambda>e. se_reason e \<noteq> Manual) (recentEvents h w pool)
      in if handled_since h (failure_at deps opts) events then Some already_handled_note
         else (case last_opt events of
            None \<Rightarrow> None
          | Some e \<Rightarrow>
              if pd_now deps - event_ms h e < cooldown_ms opts
              then Some (Cooldown (cooldown_ms opts - (pd_now deps - event_ms h e))) else None))"

text \<open>A reading that shows headroom and was not taken before the failure.\<close>

definition shows_headroom :: "host_env \<Rightarrow> 'c pool_deps \<Rightarrow> limit_options \<Rightarrow> pool_usage \<Rightarrow> bool" where
  "shows_headroom h deps opts u \<longleftrightarrow>
     \<not> lo_trustLimitEvidence opts \<and> pu_status u = Live \<and>
     (\<exists>m \<in> set_option (pu_maxUtilization u). m < 100) \<and>
     \<not> (\<exists>t \<in> set_option (failure_at deps opts). \<exists>c \<in> set_option (he_date_parse h (pu_capturedAt u)).
           rat_of_int c < t)"

definition at_limit :: "pool_usage \<Rightarrow> rat \<Rightarrow> bool" where
  "at_limit u threshold \<longleftrightarrow> pu_status u = Rate_Limited \<or>
     (pu_status u = Live \<and> default 0 (pu_maxUtilization u) \<ge> threshold)"

definition block :: "rat \<Rightarrow> swap_event \<Rightarrow> (string \<rightharpoonup> rat) \<Rightarrow> (string \<rightharpoonup> rat)" where
  "block now e m =
     (if truthy (se_from e) then
        (case se_hardLimitUntilMs e of
           Some l \<Rightarrow>
             if l \<noteq> 0 \<and> l > now
             then m(the (se_from e) \<mapsto> max (default 0 (m (the (se_from e)))) l) else m
         | None \<Rightarrow> m)
      else m)"

definition blocked_until :: "swap_event list \<Rightarrow> rat \<Rightarrow> (string \<rightharpoonup> rat)" where
  "blocked_until events now = fold (block now) events Map.empty"

definition member_rows :: "'c pool_adapter \<Rightarrow> 'c pool_deps \<Rightarrow> 'c pool_world \<Rightarrow> identity list \<Rightarrow>
    (string \<rightharpoonup> rat) \<Rightarrow> string list \<Rightarrow> reset_row list" where
  "member_rows ad deps w members blocked names =
     map (\<lambda>n. \<lparr> rr_name = n, rr_usage = member_usage ad deps w members n, rr_blockedUntil = blocked n \<rparr>) names"

definition active_util :: "pool_usage \<Rightarrow> rat" where
  "active_util u = (if pu_status u = Live then default 100 (pu_maxUtilization u) else 100)"

definition ranked :: "reset_row list \<Rightarrow> (string \<times> pool_usage option) list" where
  "ranked rows = map (\<lambda>r. (rr_name r, rr_usage r)) rows"

text \<open>The member to move to, in the order of the rules of the code.\<close>

definition pick_target :: "bool \<Rightarrow> rat \<Rightarrow> pool_usage \<Rightarrow> reset_row list \<Rightarrow> string option" where
  "pick_target assumeLimited threshold usage rows =
     (let usableRows = filter (\<lambda>r. rr_blockedUntil r = None) rows;
          fallback = chooseBest (ranked usableRows) (below 100);
          fallbackUtil = Option.bind fallback (\<lambda>n.
            Option.bind (Option.bind (find (\<lambda>r. rr_name r = n) rows) rr_usage) pu_maxUtilization);
          target = (case chooseBest (ranked usableRows) (below threshold) of
              Some t \<Rightarrow> Some t
            | None \<Rightarrow> if (\<exists>f \<in> set_option fallbackUtil. assumeLimited \<or> f < active_util usage)
                      then fallback else None);
          unknownTarget = map_option rr_name (find (\<lambda>r.
            \<exists>u \<in> set_option (rr_usage r). pu_status u \<noteq> Live) usableRows)
      in if target \<noteq> None then target
         else if assumeLimited then unknownTarget
         else if active_util usage < 100 \<or> pu_extraUsage usage = Some True then None
         else chooseBest (ranked (filter (\<lambda>r. extra_available (rr_usage r)) usableRows)) anyone)"

definition no_candidate :: "host_env \<Rightarrow> identity \<Rightarrow> identity list \<Rightarrow> string \<Rightarrow> pool_usage \<Rightarrow>
    reset_row list \<Rightarrow> rat option \<Rightarrow> rat \<Rightarrow> limited_outcome" where
  "no_candidate h pool members active usage rows activeBlocked now =
     (let resetRows = rows @ [\<lparr> rr_name = active, rr_usage = Some usage, rr_blockedUntil = activeBlocked \<rparr>];
          resetAccounts = filter (\<lambda>n. n \<noteq> active \<or> at_limit usage 100) (allowedAccounts pool)
      in No_Candidate (pu_maxUtilization usage) (earliestPoolReset h resetAccounts members resetRows now)
           (exhaustedResetAt h usage now))"

text \<open>The re-check under the pool lock.\<close>

definition limit_guard :: "host_env \<Rightarrow> 'c pool_adapter \<Rightarrow> 'c pool_deps \<Rightarrow> limit_options \<Rightarrow> string \<Rightarrow>
    identity \<Rightarrow> identity \<Rightarrow> 'c pool_world \<Rightarrow> limited_outcome option" where
  "limit_guard h ad deps opts active activeMember current w =
     (let cur = sp_active (pool_config current) in
      if cur \<noteq> Some active
      then Some (Skipped (''pool changed to '' @ default ''undefined'' cur @ '' while deciding''))
      else if lo_expectedActive opts \<noteq> None \<and> cur \<noteq> lo_expectedActive opts
      then Some (Skipped (''pool changed to '' @ default ''undefined'' cur @ '' before limit recovery''))
      else if lo_assumeLimited opts \<and> handled_since h (failure_at deps opts) (recentEvents h w current)
      then Some already_handled_note
      else if lo_assumeLimited opts \<and> shows_headroom h deps opts (usageOf ad deps w activeMember)
      then Some (Not_Limited (pu_maxUtilization (usageOf ad deps w activeMember)))
      else if lo_assumeLimited opts then None
      else cooldown h deps opts w current)"

definition limit_swap :: "host_env \<Rightarrow> 'c pool_adapter \<Rightarrow> 'c pool_deps \<Rightarrow> limit_options \<Rightarrow> identity \<Rightarrow> string \<Rightarrow>
    identity \<Rightarrow> pool_usage \<Rightarrow> string \<Rightarrow> swap_reason \<Rightarrow> (limited_outcome, 'c) swap_options" where
  "limit_swap h ad deps opts pool active activeMember usage target reason =
     \<lparr> so_pool = Some (i_name pool), so_target = target, so_reason = reason, so_force = False,
       so_ts = pd_iso deps (pd_now deps),
       so_hardLimitUntilMs = (if lo_assumeLimited opts
         then Some (knownResetOrCooldown h usage (pd_now deps) (cooldown_ms opts)) else None),
       so_guard = limit_guard h ad deps opts active activeMember \<rparr>"

text \<open>Everything before the swap: an outcome that needs none, or the swap to perform.\<close>

record decision =
  dc_pool :: identity
  dc_active :: string
  dc_member :: identity
  dc_usage :: pool_usage
  dc_target :: string

definition decide_limited :: "host_env \<Rightarrow> 'c pool_adapter \<Rightarrow> 'c pool_deps \<Rightarrow> limit_options \<Rightarrow>
    identity \<times> identity list \<Rightarrow> string \<Rightarrow> 'c pool_world \<Rightarrow> limited_outcome + decision" where
  "decide_limited h ad deps opts pm active w =
     (let pool = fst pm; members = snd pm; now = pd_now deps in
      if lo_expectedActive opts \<noteq> None \<and> Some active \<noteq> lo_expectedActive opts
      then Inl (Skipped (''pool changed to '' @ active @ '' before limit recovery''))
      else if lo_assumeLimited opts \<and> handled_since h (failure_at deps opts) (recentEvents h w pool)
      then Inl already_handled_note
      else (case (if lo_assumeLimited opts then None else cooldown h deps opts w pool) of
        Some cooling \<Rightarrow> Inl cooling
      | None \<Rightarrow>
      (case find (\<lambda>m. i_name m = active) members of
        None \<Rightarrow> Inl (Skipped (''active account '' @ active @ '' is not an identity''))
      | Some activeMember \<Rightarrow>
      (let usage = usageOf ad deps w activeMember; threshold = poolThreshold pool in
       if lo_assumeLimited opts \<and> shows_headroom h deps opts usage
       then Inl (Not_Limited (pu_maxUtilization usage))
       else if \<not> (lo_assumeLimited opts \<or> at_limit usage threshold)
       then Inl (Not_Limited (pu_maxUtilization usage))
       else
         let others = filter (\<lambda>n. n \<noteq> active) (allowedAccounts pool);
             blocked = blocked_until (recentEvents h w pool) now;
             rows = member_rows ad deps w members blocked others
         in (case pick_target (lo_assumeLimited opts) threshold usage rows of
               None \<Rightarrow> Inl (no_candidate h pool members active usage rows (blocked active) now)
             | Some target \<Rightarrow> Inr \<lparr> dc_pool = pool, dc_active = active, dc_member = activeMember,
                 dc_usage = usage, dc_target = target \<rparr>)))))"

definition swapIfLimited :: "host_env \<Rightarrow> 'c pool_adapter \<Rightarrow> 'c pool_deps \<Rightarrow> string option \<Rightarrow> swap_reason \<Rightarrow>
    limit_options \<Rightarrow> 'c interference \<Rightarrow> 'c pool_world \<Rightarrow> (error + limited_outcome) \<times> 'c pool_world" where
  "swapIfLimited h ad deps poolKey reason opts intf w =
     (case load h ad w poolKey of
        Inl e \<Rightarrow> (Inl e, w)
      | Inr (file, pool, members) \<Rightarrow>
     (case sp_active (pool_config pool) of
        None \<Rightarrow> (Inr (Skipped ''pool has no active account yet''), w)
      | Some active \<Rightarrow>
     (case decide_limited h ad deps opts (pool, members) active w of
        Inl outcome \<Rightarrow> (Inr outcome, w)
      | Inr d \<Rightarrow>
     (case performPoolSwap h ad (limit_swap h ad deps opts pool active (dc_member d) (dc_usage d)
             (dc_target d) reason) intf w of
        (Inl (SwapSkipped outcome), w') \<Rightarrow> (Inr outcome, w')
      | (Inl (Failed e), w') \<Rightarrow> (Inl e, w')
      | (Inr result, w') \<Rightarrow> (Inr (Swapped result (pu_maxUtilization (dc_usage d))), w')))))"

end
