(* ===== verification/Pool_Ops_Laws.thy ===== *)
theory Pool_Ops_Laws
  imports Pool_Ops
begin

text \<open>
  What the pool operations guarantee: the choice of a member is optimal, a swap always improves
  on the active member, two automatic swaps keep their distance, an outcome other than a swap
  changes nothing, and reset times are never promised too early.
\<close>

section \<open>Choosing a member\<close>

lemma chooseBest_Some:
  assumes "chooseBest rows opts = Some n"
  shows "\<exists>r \<in> set rows. fst r = n \<and> eligible opts r \<and>
    (\<forall>r' \<in> set rows. eligible opts r' \<longrightarrow> rank r \<le> rank r')"
proof -
  from assms obtain r rs where sorted: "sort_key rank (filter (eligible opts) rows) = r # rs" "fst r = n"
    by (auto simp: chooseBest_def split: list.splits)
  from sort_key_hd_least[OF sorted(1)] sorted(2) show ?thesis by (intro bexI[of _ r]) auto
qed

lemma chooseBest_None: "chooseBest rows opts = None \<longleftrightarrow> (\<forall>r \<in> set rows. \<not> eligible opts r)"
proof -
  have "sort_key rank (filter (eligible opts) rows) = [] \<longleftrightarrow> filter (eligible opts) rows = []"
    by (metis set_empty set_sort)
  then show ?thesis by (auto simp: chooseBest_def filter_empty_conv split: list.split)
qed

text \<open>The member with the most headroom is chosen: the choice satisfies every condition asked for,
  no other candidate has a lower known utilisation, a candidate without a live reading is only
  chosen when none below a thousand percent is known, equal utilisation prefers available paid
  capacity, and there is no choice exactly when no candidate qualifies.\<close>

theorem chooseBest_optimal:
  "(chooseBest rows opts = None \<longleftrightarrow> (\<forall>r \<in> set rows. \<not> eligible opts r)) \<and>
   (\<forall>n. chooseBest rows opts = Some n \<longrightarrow>
      (\<exists>r \<in> set rows. fst r = n \<and> eligible opts r \<and>
        (\<forall>r' \<in> set rows. eligible opts r' \<longrightarrow>
           default 1000 (live_util (snd r)) < default 1000 (live_util (snd r')) \<or>
           default 1000 (live_util (snd r)) = default 1000 (live_util (snd r')) \<and>
             (extra_available (snd r') \<longrightarrow> extra_available (snd r)))))"
proof (intro conjI allI impI)
  fix n assume "chooseBest rows opts = Some n"
  from chooseBest_Some[OF this] obtain r where r: "r \<in> set rows" "fst r = n" "eligible opts r"
    "\<forall>r' \<in> set rows. eligible opts r' \<longrightarrow> rank r \<le> rank r'" by blast
  show "\<exists>r \<in> set rows. fst r = n \<and> eligible opts r \<and>
        (\<forall>r' \<in> set rows. eligible opts r' \<longrightarrow>
           default 1000 (live_util (snd r)) < default 1000 (live_util (snd r')) \<or>
           default 1000 (live_util (snd r)) = default 1000 (live_util (snd r')) \<and>
             (extra_available (snd r') \<longrightarrow> extra_available (snd r)))"
  proof (intro bexI[of _ r] conjI ballI impI r)
    fix r' assume "r' \<in> set rows" "eligible opts r'"
    with r(4) have "rank r \<le> rank r'" by blast
    then show "default 1000 (live_util (snd r)) < default 1000 (live_util (snd r')) \<or>
           default 1000 (live_util (snd r)) = default 1000 (live_util (snd r')) \<and>
             (extra_available (snd r') \<longrightarrow> extra_available (snd r))"
      by (auto simp: rank_def less_eq_prod_def split: if_splits)
  qed
qed (rule chooseBest_None)

definition usage_at :: "rat \<Rightarrow> pool_usage" where
  "usage_at p = \<lparr> pu_status = Live, pu_maxUtilization = Some p, pu_windows = None, pu_extraUsage = None,
     pu_error = None, pu_retryAfterSeconds = None, pu_capturedAt = '''' \<rparr>"

theorem chooseBest_optimal_witness:
  "chooseBest [(''a'', None), (''b'', Some (usage_at 40)), (''c'', Some (usage_at 20))] anyone = Some ''c'' \<and>
   (\<exists>r \<in> set [(''a'', None), (''b'', Some (usage_at 40)), (''c'', Some (usage_at 20))].
      fst r = ''c'' \<and> eligible anyone r)"
proof -
  have run: "chooseBest [(''a'', None), (''b'', Some (usage_at 40)), (''c'', Some (usage_at 20))] anyone = Some ''c''"
    by code_simp
  with chooseBest_optimal[of "[(''a'', None), (''b'', Some (usage_at 40)), (''c'', Some (usage_at 20))]" anyone]
  show ?thesis by blast
qed

section \<open>The decision to swap\<close>

lemma ranked_mem: "r \<in> set (ranked rows) \<Longrightarrow> \<exists>x \<in> set rows. r = (rr_name x, rr_usage x)"
  by (auto simp: ranked_def)

lemma chooseBest_ranked:
  assumes "chooseBest (ranked rows) opts = Some n"
  shows "\<exists>x \<in> set rows. rr_name x = n \<and> eligible opts (n, rr_usage x)"
  using chooseBest_Some[OF assms] by (auto dest!: ranked_mem)

lemma eligible_below: "eligible (below p) r \<longleftrightarrow> (\<exists>u. live_util (snd r) = Some u \<and> u < p)"
  by (auto simp: eligible_def)

text \<open>Why a member is a better place than the active one.\<close>

definition better_than :: "bool \<Rightarrow> rat \<Rightarrow> pool_usage \<Rightarrow> pool_usage option \<Rightarrow> bool" where
  "better_than assumeLimited threshold usage tu \<longleftrightarrow>
     (\<exists>x. live_util tu = Some x \<and> x < threshold) \<or>
     (\<exists>x. live_util tu = Some x \<and> x < 100 \<and> (assumeLimited \<or> x < active_util usage)) \<or>
     (assumeLimited \<and> (\<exists>v. tu = Some v \<and> pu_status v \<noteq> Live)) \<or>
     (\<not> assumeLimited \<and> active_util usage \<ge> 100 \<and> pu_extraUsage usage \<noteq> Some True \<and> extra_available tu)"

lemma pick_target_better:
  assumes "pick_target assume threshold usage (member_rows ad deps w members blocked names) = Some t"
  shows "t \<in> set names \<and> blocked t = None \<and>
    better_than assume threshold usage (member_usage ad deps w members t)"
proof -
  let ?rows = "member_rows ad deps w members blocked names"
  let ?usable = "filter (\<lambda>r. rr_blockedUntil r = None) ?rows"
  have row: "rr_name x \<in> set names \<and> rr_usage x = member_usage ad deps w members (rr_name x) \<and>
      rr_blockedUntil x = blocked (rr_name x)" if "x \<in> set ?rows" for x
    using that by (auto simp: member_rows_def)
  have chosen: "n \<in> set names \<and> blocked n = None \<and> eligible opts (n, member_usage ad deps w members n)"
    if "chooseBest (ranked (filter Q ?usable)) opts = Some n" for n opts Q
    using chooseBest_ranked[OF that] row by fastforce
  have chosen1: "n \<in> set names \<and> blocked n = None \<and> eligible opts (n, member_usage ad deps w members n)"
    if "chooseBest (ranked ?usable) opts = Some n" for n opts
    using chosen[of "\<lambda>_. True" opts n] that by simp
  let ?fb = "chooseBest (ranked ?usable) (below 100)"
  let ?fbu = "Option.bind ?fb (\<lambda>n.
     Option.bind (Option.bind (find (\<lambda>r. rr_name r = n) ?rows) rr_usage) pu_maxUtilization)"
  have fallback: "t \<in> set names \<and> blocked t = None \<and>
      better_than assume threshold usage (member_usage ad deps w members t)"
    if t: "?fb = Some t" and f: "\<exists>f \<in> set_option ?fbu. assume \<or> f < active_util usage"
  proof -
    from chosen1[of "below 100" t] t obtain x where x: "t \<in> set names" "blocked t = None"
      "live_util (member_usage ad deps w members t) = Some x" "x < 100" by (auto simp: eligible_below)
    then obtain v where v: "member_usage ad deps w members t = Some v" "pu_maxUtilization v = Some x"
      by (auto simp: live_util_def split: option.splits if_splits)
    from f t obtain r where r: "find (\<lambda>r. rr_name r = t) ?rows = Some r" "\<exists>u. rr_usage r = Some u \<and>
        (\<exists>f. pu_maxUtilization u = Some f \<and> (assume \<or> f < active_util usage))"
      by (auto simp: bind_eq_Some_conv)
    from find_Some_set[OF r(1)] row have "rr_usage r = member_usage ad deps w members t" by auto
    with r(2) v x show ?thesis by (auto simp: better_than_def)
  qed
  have unknown: "t \<in> set names \<and> blocked t = None \<and>
      better_than assume threshold usage (member_usage ad deps w members t)"
    if "assume" "map_option rr_name (find (\<lambda>r. \<exists>u \<in> set_option (rr_usage r). pu_status u \<noteq> Live) ?usable) = Some t"
  proof -
    from that(2) obtain r where "r \<in> set ?usable" "rr_name r = t" "\<exists>u. rr_usage r = Some u \<and> pu_status u \<noteq> Live"
      by (auto dest: find_Some_set)
    with row[of r] that(1) show ?thesis by (auto simp: better_than_def)
  qed
  have paid: "t \<in> set names \<and> blocked t = None \<and>
      better_than assume threshold usage (member_usage ad deps w members t)"
    if "\<not> assume" "active_util usage \<ge> 100" "pu_extraUsage usage \<noteq> Some True"
      "chooseBest (ranked (filter (\<lambda>r. extra_available (rr_usage r)) ?usable)) anyone = Some t"
  proof -
    from chooseBest_ranked[OF that(4)] obtain x where "x \<in> set ?rows" "rr_blockedUntil x = None"
      "rr_name x = t" "extra_available (rr_usage x)" by auto
    with row[of x] that(1-3) show ?thesis by (auto simp: better_than_def)
  qed
  have first: "t \<in> set names \<and> blocked t = None \<and>
      better_than assume threshold usage (member_usage ad deps w members t)"
    if "chooseBest (ranked ?usable) (below threshold) = Some t"
    using chosen1[OF that] by (auto simp: eligible_below better_than_def)
  show ?thesis
    using assms first fallback unknown paid
    unfolding pick_target_def Let_def
    by (auto split: option.splits if_splits)
qed

lemma decide_limited_Inr:
  assumes "decide_limited h ad deps opts (pool, members) active w = Inr d"
  shows "dc_usage d = usageOf ad deps w (dc_member d)"
    and "find (\<lambda>m. i_name m = active) members = Some (dc_member d)"
    and "lo_assumeLimited opts \<or> at_limit (dc_usage d) (poolThreshold pool)"
    and "lo_assumeLimited opts \<or> cooldown h deps opts w pool = None"
    and "pick_target (lo_assumeLimited opts) (poolThreshold pool) (dc_usage d)
      (member_rows ad deps w members (blocked_until (recentEvents h w pool) (pd_now deps))
        (filter (\<lambda>n. n \<noteq> active) (allowedAccounts pool))) = Some (dc_target d)"
  using assms by (auto simp: decide_limited_def Let_def split: if_splits option.splits)

lemma swapIfLimited_Inr:
  assumes "swapIfLimited h ad deps poolKey reason opts intf w = (Inr out, w')"
  shows "w' = w \<and> (\<forall>r u. out \<noteq> Swapped r u) \<or>
    (\<exists>reg pool members active d w1. load h ad w poolKey = Inr (reg, pool, members) \<and>
       sp_active (pool_config pool) = Some active \<and>
       decide_limited h ad deps opts (pool, members) active w = Inr d \<and>
       in_lock intf w = Inr w1 \<and>
       ((\<exists>r. out = Swapped r (pu_maxUtilization (dc_usage d)) \<and>
          swapLocked h ad (limit_swap h ad deps opts pool active (dc_member d) (dc_usage d) (dc_target d) reason)
            intf w1 = (Inr r, w')) \<or>
        swapLocked h ad (limit_swap h ad deps opts pool active (dc_member d) (dc_usage d) (dc_target d) reason)
            intf w1 = (Inl (SwapSkipped out), w')))"
proof -
  have no_swap: "decide_limited h ad deps opts pm active w = Inl out \<Longrightarrow> out \<noteq> Swapped r u" for pm active r u
    by (auto simp: decide_limited_def Let_def no_candidate_def cooldown_def split: if_splits option.splits)
  show ?thesis
  proof (cases "load h ad w poolKey")
    case (Inl e)
    with assms show ?thesis by (simp add: swapIfLimited_def)
  next
    case (Inr t)
    then obtain reg pool members where load: "load h ad w poolKey = Inr (reg, pool, members)" by (cases t) auto
    show ?thesis
    proof (cases "sp_active (pool_config pool)")
      case None
      with assms load show ?thesis by (auto simp: swapIfLimited_def)
    next
      case (Some active)
      show ?thesis
      proof (cases "decide_limited h ad deps opts (pool, members) active w")
        case (Inl o')
        with assms load Some no_swap show ?thesis by (auto simp: swapIfLimited_def)
      next
        case (Inr d)
        let ?opts = "limit_swap h ad deps opts pool active (dc_member d) (dc_usage d) (dc_target d) reason"
        obtain res w2 where run: "performPoolSwap h ad ?opts intf w = (res, w2)"
          by (cases "performPoolSwap h ad ?opts intf w")
        have w2: "w2 = w'" using assms load Some Inr run
          by (auto simp: swapIfLimited_def split: sum.splits swap_exn.splits)
        have res: "res = Inl (SwapSkipped out) \<or> (\<exists>r. res = Inr r \<and> out = Swapped r (pu_maxUtilization (dc_usage d)))"
          using assms load Some Inr run
          by (auto simp: swapIfLimited_def split: sum.splits swap_exn.splits)
        have "\<exists>w1. in_lock intf w = Inr w1 \<and> swapLocked h ad ?opts intf w1 = (res, w2)"
          using run res by (auto simp: performPoolSwap_def split: sum.splits)
        with load Some Inr res w2 show ?thesis by blast
      qed
    qed
  qed
qed

lemma swapLocked_skipped: "swapLocked h ad o' intf w = (Inl (SwapSkipped out), w') \<Longrightarrow> w' = w"
  by (auto simp: swapLocked_def finish_swap_def split: sum.splits prod.splits)

lemma limit_guard_not_swapped: "limit_guard h ad deps opts active m p w \<noteq> Some (Swapped r u)"
  by (auto simp: limit_guard_def Let_def cooldown_def split: option.splits)

lemma swapLocked_guard:
  "swapLocked h ad opts intf w = (Inl (SwapSkipped out), w') \<Longrightarrow> \<exists>p. so_guard opts p w = Some out"
  by (auto simp: swapLocked_def swap_checks_def finish_swap_def
      split: sum.splits prod.splits option.splits if_splits)

lemma swapIfLimited_Swapped:
  assumes "swapIfLimited h ad deps poolKey reason opts intf w = (Inr (Swapped r u), w')"
  shows "\<exists>reg pool members active d w1. load h ad w poolKey = Inr (reg, pool, members) \<and>
       sp_active (pool_config pool) = Some active \<and>
       decide_limited h ad deps opts (pool, members) active w = Inr d \<and>
       in_lock intf w = Inr w1 \<and>
       swapLocked h ad (limit_swap h ad deps opts pool active (dc_member d) (dc_usage d) (dc_target d) reason)
            intf w1 = (Inr r, w')"
  using swapIfLimited_Inr[OF assms]
proof (elim disjE exE conjE)
  fix reg pool members active d w1 r'
  assume "Swapped r u = Swapped r' (pu_maxUtilization (dc_usage d))"
    and a: "load h ad w poolKey = Inr (reg, pool, members)" "sp_active (pool_config pool) = Some active"
      "decide_limited h ad deps opts (pool, members) active w = Inr d" "in_lock intf w = Inr w1"
      "swapLocked h ad (limit_swap h ad deps opts pool active (dc_member d) (dc_usage d) (dc_target d) reason)
        intf w1 = (Inr r', w')"
  then show ?thesis by (intro exI[of _ reg] exI[of _ pool] exI[of _ members] exI[of _ active] exI[of _ d] exI[of _ w1]) simp
next
  fix reg pool members active d w1
  assume "swapLocked h ad (limit_swap h ad deps opts pool active (dc_member d) (dc_usage d) (dc_target d) reason)
      intf w1 = (Inl (SwapSkipped (Swapped r u)), w')"
  from swapLocked_guard[OF this] show ?thesis by (auto simp: limit_swap_def limit_guard_not_swapped)
qed simp

lemma block_grows: "m n \<noteq> None \<Longrightarrow> block now e m n \<noteq> None"
  by (auto simp: block_def split: option.splits)

lemma block_hard:
  "se_from e = Some n \<Longrightarrow> n \<noteq> '''' \<Longrightarrow> se_hardLimitUntilMs e = Some l \<Longrightarrow> l \<noteq> 0 \<Longrightarrow> now < l \<Longrightarrow>
     block now e m n \<noteq> None"
  by (simp add: block_def truthy_def)

lemma blocked_until_None:
  assumes "fold (block now) es m n = None" "e \<in> set es" "se_from e = Some n" "n \<noteq> ''''"
    and "se_hardLimitUntilMs e = Some l"
  shows "l = 0 \<or> l \<le> now"
  using assms
proof (induction es arbitrary: m)
  case (Cons e' es)
  have grows: "m n \<noteq> None \<Longrightarrow> fold (block now) es m n \<noteq> None" for m
    by (induction es arbitrary: m) (auto simp: block_grows simp del: not_None_eq)
  show ?case
  proof (cases "e \<in> set es")
    case True
    with Cons.IH Cons.prems show ?thesis by simp
  next
    case False
    with Cons.prems have e: "e' = e" by simp
    show ?thesis
    proof (rule ccontr)
      assume "\<not> (l = 0 \<or> l \<le> now)"
      then have "block now e m n \<noteq> None" using Cons.prems(3-5) by (intro block_hard) auto
      with grows have "fold (block now) es (block now e m) n \<noteq> None" .
      with Cons.prems(1) e show False by simp
    qed
  qed
qed simp


text \<open>Every other outcome is free of effects: when the pool is not limited, cooling down, without a
  candidate, or when the re-check under the lock gives up, the registry, the ledger and the
  credentials are exactly those found (or those another process left while the lock was awaited).\<close>

theorem swapIfLimited_else_unchanged:
  assumes "swapIfLimited h ad deps poolKey reason opts intf w = (Inr out, w')"
    and "\<forall>r u. out \<noteq> Swapped r u"
  shows "w' = w \<or> in_lock intf w = Inr w'"
  using swapIfLimited_Inr[OF assms(1)]
proof (elim disjE exE conjE)
  fix reg pool members active d w1 r
  assume "out = Swapped r (pu_maxUtilization (dc_usage d))"
  with assms(2) show ?thesis by simp
next
  fix reg pool members active d w1
  assume "in_lock intf w = Inr w1"
    and "swapLocked h ad (limit_swap h ad deps opts pool active (dc_member d) (dc_usage d) (dc_target d) reason)
      intf w1 = (Inl (SwapSkipped out), w')"
  then show ?thesis using swapLocked_skipped by metis
qed simp

section \<open>Hysteresis\<close>

lemma event_time_pool [simp]: "event_time h (e\<lparr> se_pool := p \<rparr>) = event_time h e"
  by (simp add: event_time_def)

lemma recentEvents_sorted: "sorted (map (event_time h) (recentEvents h w pool))"
  by (auto simp: recentEvents_def eventsForPool_def Let_def comp_def readSwapEvents_def intro!: sorted_filter)

lemma sorted_le_last: "sorted (map f xs) \<Longrightarrow> x \<in> set xs \<Longrightarrow> f x \<le> f (last xs)"
  by (induction xs) (auto simp: last_in_set)

lemma cooldown_None:
  assumes "cooldown h deps opts w pool = None" "e \<in> set (recentEvents h w pool)" "se_reason e \<noteq> Manual"
  shows "cooldown_ms opts \<le> pd_now deps - event_ms h e"
proof -
  let ?es = "filter (\<lambda>e. se_reason e \<noteq> Manual) (recentEvents h w pool)"
  have e: "e \<in> set ?es" using assms(2,3) by simp
  then have last: "last_opt ?es = Some (last ?es)" unfolding last_opt_def by (metis empty_iff empty_set)
  have "sorted (map (event_time h) ?es)" using recentEvents_sorted by (rule sorted_filter)
  from sorted_le_last[OF this e] have "event_ms h e \<le> event_ms h (last ?es)" by (simp add: event_ms_def)
  moreover have "\<not> pd_now deps - event_ms h (last ?es) < cooldown_ms opts"
    using assms(1) last by (auto simp: cooldown_def Let_def split: if_splits)
  ultimately show ?thesis by simp
qed

text \<open>Property C5.
  Hysteresis holds across processes. A swap decided without an observed limit only happens when,
  in the state read under the pool lock, the pool still has the active member the decision was
  made for, and every automatic or launch swap of the pool that the ledger holds by then is at
  least the cooldown old: two processes that decide at the same time cannot both swap.\<close>

theorem swapIfLimited_hysteresis:
  assumes "swapIfLimited h ad deps poolKey reason opts intf w = (Inr (Swapped r u), w')"
    and "\<not> lo_assumeLimited opts"
  shows "\<exists>reg pool members w1 reg1 pool1.
    load h ad w poolKey = Inr (reg, pool, members) \<and> in_lock intf w = Inr w1 \<and>
    loadIdentitiesFile h (pw_registry w1) = Inr reg1 \<and>
    requirePool h reg1 (Some (i_name pool)) (tool_string (pa_tool ad)) = Inr pool1 \<and>
    sp_active (pool_config pool1) = sp_active (pool_config pool) \<and>
    (\<forall>e \<in> set (recentEvents h w1 pool1). se_reason e \<noteq> Manual \<longrightarrow>
       event_ms h e + cooldown_ms opts \<le> pd_now deps)"
proof -
  from swapIfLimited_Swapped[OF assms(1)] obtain reg pool members active d w1 where
    load: "load h ad w poolKey = Inr (reg, pool, members)" "sp_active (pool_config pool) = Some active"
    and dec: "decide_limited h ad deps opts (pool, members) active w = Inr d"
    and lock: "in_lock intf w = Inr w1"
    and sw: "swapLocked h ad (limit_swap h ad deps opts pool active (dc_member d) (dc_usage d) (dc_target d) reason)
      intf w1 = (Inr r, w')" by blast
  from swapLocked_Inr[OF sw] obtain reg1 pool1 target where
    chk: "swap_checks h ad (limit_swap h ad deps opts pool active (dc_member d) (dc_usage d) (dc_target d) reason)
      w1 = Inr (reg1, pool1, target)" by blast
  have req: "requirePool h reg1 (Some (i_name pool)) (tool_string (pa_tool ad)) = Inr pool1"
    using chk by (auto simp: swap_checks_def limit_swap_def split: sum.splits option.splits if_splits)
  from swap_checks_Inr(3)[OF chk]
  have guard: "limit_guard h ad deps opts active (dc_member d) pool1 w1 = None" by (simp add: limit_swap_def)
  then have "sp_active (pool_config pool1) = Some active" "cooldown h deps opts w1 pool1 = None"
    using assms(2) by (auto simp: limit_guard_def Let_def split: if_splits)
  moreover from this(2) have "event_ms h e + cooldown_ms opts \<le> pd_now deps"
    if "e \<in> set (recentEvents h w1 pool1)" "se_reason e \<noteq> Manual" for e
    using cooldown_None[OF _ that, of deps opts] by simp
  ultimately show ?thesis
    using load lock req swap_checks_Inr(1)[OF chk]
    by (intro exI[of _ reg] exI[of _ pool] exI[of _ members] exI[of _ w1] exI[of _ reg1] exI[of _ pool1]) simp
qed

section \<open>Reset times\<close>

text \<open>At an instant, every window that a reading shows as exhausted has been reset.\<close>

definition all_reset_by :: "host_env \<Rightarrow> usage_window list \<Rightarrow> rat \<Rightarrow> bool" where
  "all_reset_by h us t \<longleftrightarrow> (\<forall>x \<in> set us. uw_utilization x \<ge> 100 \<longrightarrow> (\<exists>r. window_reset h x = Some r \<and> r \<le> t))"

lemma reset_loop_Some:
  assumes "reset_loop h now l ex us = Some t" "now \<le> l" "ex \<longrightarrow> now < l"
  shows "now < t \<and> l \<le> t \<and> all_reset_by h us t"
  using assms
proof (induction h now l ex us rule: reset_loop.induct)
  case (2 h now l ex u us)
  show ?case
  proof (cases "uw_utilization u < 100")
    case True
    with 2 show ?thesis by (auto simp: all_reset_by_def)
  next
    case False
    with "2.prems"(1) obtain r where r: "window_reset h u = Some r" "\<not> r \<le> now"
      "reset_loop h now (max l r) True us = Some t" by (auto split: option.splits if_splits)
    with 2(2)[OF False r(1)] "2.prems"(2) have "now < t" "max l r \<le> t" "all_reset_by h us t" by auto
    with r(1) show ?thesis by (auto simp: all_reset_by_def)
  qed
qed (auto simp: all_reset_by_def split: if_splits)

text \<open>What a promised reset of a member means.\<close>

definition usable_by :: "host_env \<Rightarrow> reset_row list \<Rightarrow> rat \<Rightarrow> string \<Rightarrow> rat \<Rightarrow> bool" where
  "usable_by h rows now n t \<longleftrightarrow> now < t \<and>
     (\<exists>row. find (\<lambda>r. rr_name r = n) rows = Some row \<and>
        (rr_blockedUntil row = Some t \<or>
         (\<exists>u. rr_usage row = Some u \<and> pu_status u = Live \<and> all_reset_by h (default [] (pu_windows u)) t)))"

lemma member_reset_usable:
  assumes "member_reset h members rows now n = Some t"
  shows "usable_by h rows now n t"
proof -
  from assms obtain row where row: "find (\<lambda>r. rr_name r = n) rows = Some row"
    by (cases "find (\<lambda>r. rr_name r = n) rows") (auto simp: member_reset_def Let_def split: if_splits)
  show ?thesis
  proof (cases "\<exists>b. rr_blockedUntil row = Some b \<and> b > now")
    case True
    with assms row show ?thesis by (auto simp: member_reset_def Let_def usable_by_def)
  next
    case False
    with assms row obtain u where u: "rr_usage row = Some u" "pu_status u = Live"
      "reset_loop h now now False (default [] (pu_windows u)) = Some t"
      by (auto simp: member_reset_def Let_def split: if_splits option.splits)
    from reset_loop_Some[OF u(3)] u row show ?thesis by (auto simp: usable_by_def)
  qed
qed

text \<open>A retry time is never promised too early or for nobody: it lies in the future; when the
  resets of all members are known, it is the least of them, and by then one of the allowed
  members has every exhausted window reset or its hard limit expired; when any reset is
  unknown, the retry is at most thirty seconds away.\<close>

theorem earliestPoolReset_sound:
  assumes "earliestPoolReset h allowed members rows now = Some t"
  shows "now < t \<and>
    (\<forall>n \<in> set allowed. \<forall>r. member_reset h members rows now n = Some r \<longrightarrow> t \<le> r) \<and>
    (if \<exists>n \<in> set allowed. member_reset h members rows now n = None then t \<le> now + 30000
     else \<exists>n \<in> set allowed. usable_by h rows now n t)"
proof -
  let ?resets = "map (member_reset h members rows now) allowed"
  let ?valid = "List.map_filter (\<lambda>r. r) ?resets"
  have valid: "x \<in> set ?valid \<longleftrightarrow> (\<exists>n \<in> set allowed. member_reset h members rows now n = Some x)" for x
    unfolding map_filter_set by force
  have ne: "?valid \<noteq> []" and t: "t = (if None \<in> set ?resets then min (list_min ?valid) (now + 30000) else list_min ?valid)"
    using assms by (auto simp: earliestPoolReset_def Let_def split: if_splits)
  from list_min_in[OF ne] valid obtain n where n: "n \<in> set allowed"
    "member_reset h members rows now n = Some (list_min ?valid)" by blast
  from member_reset_usable[OF n(2)] have use: "usable_by h rows now n (list_min ?valid)" .
  then have future: "now < list_min ?valid" by (simp add: usable_by_def)
  have le: "t \<le> list_min ?valid" by (auto simp: t)
  have "t \<le> r" if "n \<in> set allowed" "member_reset h members rows now n = Some r" for n r
  proof -
    from that valid[of r] have "r \<in> set ?valid" by blast
    from list_min_le[OF this] le show ?thesis by simp
  qed
  moreover have "now < t" using future by (auto simp: t)
  moreover have "if \<exists>n \<in> set allowed. member_reset h members rows now n = None then t \<le> now + 30000
     else \<exists>n \<in> set allowed. usable_by h rows now n t"
  proof (cases "None \<in> set ?resets")
    case True
    then show ?thesis by (auto simp: t image_iff)
  next
    case False
    then have "t = list_min ?valid" by (simp add: t)
    with use n(1) have "\<exists>n \<in> set allowed. usable_by h rows now n t" by blast
    moreover from False have no: "\<not> (\<exists>n \<in> set allowed. member_reset h members rows now n = None)"
      by (metis image_eqI list.set_map)
    ultimately show ?thesis unfolding if_not_P[OF no] by blast
  qed
  ultimately show ?thesis by blast
qed

section \<open>Concrete runs\<close>

text \<open>The active member \<open>a\<close> is at 99 percent, \<open>b\<close> at 10 percent.\<close>

definition example_deps_at :: "rat \<Rightarrow> string pool_deps" where
  "example_deps_at now = \<lparr> pd_now = now, pd_iso = (\<lambda>_. ''t3''),
     pd_fetchUsage = Some (\<lambda>_ m. if i_name m = ''a'' then usage_at 99 else usage_at 10) \<rparr>"



fun swapped_result :: "(error + limited_outcome) \<times> 'c \<Rightarrow> bool" where
  "swapped_result (Inr (Swapped r u), w) = True"
| "swapped_result _ = False"

lemma swapped_result_iff: "swapped_result x \<longleftrightarrow> (\<exists>r u. x = (Inr (Swapped r u), snd x))"
  by (cases x rule: swapped_result.cases) auto

abbreviation example_auto where
  "example_auto now w \<equiv> swapIfLimited example_ledger_env copy_adapter (example_deps_at now) None Auto plain_limit quiet w"

lemma example_auto_swaps: "swapped_result (example_auto 1000000 example_world)"
  by code_simp


theorem swapIfLimited_hysteresis_witness:
  "\<exists>reg pool members w1. load example_ledger_env copy_adapter example_world None = Inr (reg, pool, members) \<and>
     in_lock quiet example_world = Inr w1 \<and>
     (\<exists>pool1. \<forall>e \<in> set (recentEvents example_ledger_env w1 pool1). se_reason e \<noteq> Manual \<longrightarrow>
        event_ms example_ledger_env e + cooldown_ms plain_limit \<le> 1000000)"
proof -
  from example_auto_swaps obtain r u where run:
    "example_auto 1000000 example_world = (Inr (Swapped r u), snd (example_auto 1000000 example_world))"
    unfolding swapped_result_iff by blast
  have "\<not> lo_assumeLimited plain_limit" "pd_now (example_deps_at 1000000) = 1000000"
    by (simp_all add: plain_limit_def example_deps_at_def)
  with swapIfLimited_hysteresis[OF run] show ?thesis by metis
qed

text \<open>A second pass right after the swap is held back by the cooldown.\<close>

lemma example_auto_again:
  "fst (example_auto 10 (snd (example_auto 1000000 example_world))) = Inr (Cooldown 599993)"
  by code_simp

theorem swapIfLimited_else_unchanged_witness:
  "\<exists>w'. example_auto 10 (snd (example_auto 1000000 example_world)) = (Inr (Cooldown 599993), w') \<and>
     (w' = snd (example_auto 1000000 example_world) \<or>
      in_lock quiet (snd (example_auto 1000000 example_world)) = Inr w')"
proof -
  let ?w = "snd (example_auto 1000000 example_world)"
  have "example_auto 10 ?w = (Inr (Cooldown 599993), snd (example_auto 10 ?w))"
    using example_auto_again by (metis prod.collapse)
  from this swapIfLimited_else_unchanged[OF this] show ?thesis by blast
qed

theorem earliestPoolReset_sound_witness:
  "\<exists>t. earliestPoolReset example_ledger_env [''a''] [example_identity ''a'' []]
     [\<lparr> rr_name = ''a'', rr_usage = Some ((usage_at 100)\<lparr> pu_windows :=
         Some [\<lparr> uw_label = ''w'', uw_utilization = 100, uw_resetsAt = Some ''t3'' \<rparr>] \<rparr>),
        rr_blockedUntil = None \<rparr>] 1 = Some t \<and> 1 < t"
proof -
  have "earliestPoolReset example_ledger_env [''a''] [example_identity ''a'' []]
     [\<lparr> rr_name = ''a'', rr_usage = Some ((usage_at 100)\<lparr> pu_windows :=
         Some [\<lparr> uw_label = ''w'', uw_utilization = 100, uw_resetsAt = Some ''t3'' \<rparr>] \<rparr>),
        rr_blockedUntil = None \<rparr>] 1 = Some 3"
    by code_simp
  from this earliestPoolReset_sound[OF this] show ?thesis by blast
qed

end
