(* ===== verification/Pool_Scheduler.thy ===== *)
theory Pool_Scheduler
  imports Pool_Ops_Laws
begin

text \<open>
  The daemon loop (\<open>src/identities/pool/scheduler.ts\<close>): for every pool of every adapter, heal the
  pool folder, and when the pool is on automatic and due, check it and compute when it is due
  again. \<open>Math.random\<close> is a sequence of draws in [0, 1) with a counter in the state. Log lines
  are left out.
\<close>

definition MIN_POLL_MS :: rat where "MIN_POLL_MS = 60000"
definition MAX_POLL_MS :: rat where "MAX_POLL_MS = 120000"
definition MAX_BACKOFF_MS :: rat where "MAX_BACKOFF_MS = 600000"

text \<open>\<open>Math.round\<close>.\<close>

definition js_round :: "rat \<Rightarrow> rat" where
  "js_round x = of_int \<lfloor>x + 1 / 2\<rfloor>"

definition jitteredDelayMs :: "rat \<Rightarrow> rat" where
  "jitteredDelayMs draw = js_round (MIN_POLL_MS + draw * (MAX_POLL_MS - MIN_POLL_MS))"

record pool_state =
  ps_lastCheckAt :: rat
  ps_nextAt :: rat
  ps_backoffMs :: rat
  ps_lastOutcome :: "string option"

record scheduler =
  sd_stopped :: bool
  sd_state :: "string \<rightharpoonup> pool_state"
  sd_draws :: nat

text \<open>An adapter with the dependencies and the interference of its calls.\<close>

type_synonym 'c served = "'c pool_adapter \<times> 'c pool_deps \<times> 'c interference"
type_synonym 'c worlds = "tool_name \<Rightarrow> 'c pool_world"

definition fresh_state :: pool_state where
  "fresh_state = \<lparr> ps_lastCheckAt = 0, ps_nextAt = 0, ps_backoffMs = 0, ps_lastOutcome = None \<rparr>"

fun outcome_text :: "limited_outcome \<Rightarrow> string" where
  "outcome_text (Not_Limited _) = ''not-limited''"
| "outcome_text (Cooldown _) = ''cooldown''"
| "outcome_text (No_Candidate _ _ _) = ''no-candidate''"
| "outcome_text (Swapped _ _) = ''swapped''"
| "outcome_text (Skipped why) = ''skipped: '' @ why"

fun error_message :: "error \<Rightarrow> string" where
  "error_message (SwapPoolError m) = m"
| "error_message (OtherError m) = m"
| "error_message e = default '''' (error_code e)"

definition next_backoff :: "rat \<Rightarrow> rat \<Rightarrow> limited_outcome \<Rightarrow> rat \<Rightarrow> rat" where
  "next_backoff nowMs base outcome backoff =
     (case outcome of
        No_Candidate _ retryAt _ \<Rightarrow>
          (if \<exists>r \<in> set_option retryAt. r > nowMs then max base (default 0 retryAt - nowMs)
           else min MAX_BACKOFF_MS (max base (backoff * 2)))
      | _ \<Rightarrow> 0)"

definition after_check :: "rat \<Rightarrow> rat \<Rightarrow> limited_outcome \<Rightarrow> pool_state \<Rightarrow> pool_state" where
  "after_check nowMs base outcome st =
     (let backoff = next_backoff nowMs base outcome (ps_backoffMs st) in
      \<lparr> ps_lastCheckAt = nowMs,
        ps_nextAt = nowMs + max (max base backoff) (case outcome of Cooldown r \<Rightarrow> r | _ \<Rightarrow> 0),
        ps_backoffMs = backoff,
        ps_lastOutcome = Some (outcome_text outcome) \<rparr>)"

definition state_key :: "tool_name \<Rightarrow> string \<Rightarrow> string" where
  "state_key tool pool = tool_string tool @ '':'' @ pool"

text \<open>The check of one pool; a thrown error is recorded as a skipped outcome.\<close>

definition check_pool :: "host_env \<Rightarrow> 'c served \<Rightarrow> rat \<Rightarrow> identity \<Rightarrow> 'c pool_world \<Rightarrow>
    limited_outcome \<times> 'c pool_world" where
  "check_pool h served nowMs pool w =
     (case served of (ad, deps, intf) \<Rightarrow>
       (case swapIfLimited h ad (deps\<lparr> pd_now := nowMs \<rparr>) (Some (i_name pool)) Auto plain_limit intf w of
          (Inl e, w') \<Rightarrow> (Skipped (error_message e), w')
        | (Inr outcome, w') \<Rightarrow> (outcome, w')))"

definition tick_pool :: "host_env \<Rightarrow> (nat \<Rightarrow> rat) \<Rightarrow> rat \<Rightarrow> 'c served \<Rightarrow> identity \<Rightarrow>
    scheduler \<times> 'c worlds \<Rightarrow> scheduler \<times> 'c worlds" where
  "tick_pool h random nowMs served pool sw =
     (let s = fst sw; ws = snd sw; tool = pa_tool (fst served); key = state_key tool (i_name pool) in
      if sd_stopped s then (s, ws)
      else
        let healed = snd (healPool h (fst served) pool (snd (snd served)) (ws tool));
            ws = ws(tool := healed);
            st = default fresh_state (sd_state s key)
        in if sp_auto (pool_config pool) \<noteq> Some True then (s, ws)
           else if nowMs < ps_nextAt st then (s, ws)
           else (case check_pool h served nowMs pool healed of
                   (outcome, w') \<Rightarrow>
                     (s\<lparr> sd_state := (sd_state s)(key \<mapsto>
                           after_check nowMs (jitteredDelayMs (random (sd_draws s))) outcome st),
                        sd_draws := Suc (sd_draws s) \<rparr>,
                      ws(tool := w'))))"

definition tick_adapter :: "host_env \<Rightarrow> (nat \<Rightarrow> rat) \<Rightarrow> rat \<Rightarrow> 'c served \<Rightarrow>
    scheduler \<times> 'c worlds \<Rightarrow> scheduler \<times> 'c worlds" where
  "tick_adapter h random nowMs served sw =
     (case loadIdentitiesFile h (pw_registry (snd sw (pa_tool (fst served)))) of
        Inl _ \<Rightarrow> sw
      | Inr file \<Rightarrow> fold (tick_pool h random nowMs served) (poolsOf h file) sw)"

definition tick :: "host_env \<Rightarrow> (nat \<Rightarrow> rat) \<Rightarrow> 'c served list \<Rightarrow> rat \<Rightarrow>
    scheduler \<times> 'c worlds \<Rightarrow> scheduler \<times> 'c worlds" where
  "tick h random adapters nowMs sw = fold (tick_adapter h random nowMs) adapters sw"

definition stop :: "scheduler \<Rightarrow> scheduler" where
  "stop s = s\<lparr> sd_stopped := True \<rparr>"

text \<open>The delay to the next heartbeat in \<open>start\<close>.\<close>

definition dispatch_wait :: "pool_state list \<Rightarrow> rat \<Rightarrow> rat" where
  "dispatch_wait states now =
     (let due = filter (\<lambda>t. t > now) (map ps_nextAt states)
      in if due = [] then MIN_POLL_MS / 2 else min (MIN_POLL_MS / 2) (list_min due - now))"

record status_row =
  sr_tool :: tool_name
  sr_pool :: string
  sr_auto :: bool
  sr_lastCheckAt :: "rat option"
  sr_lastOutcome :: "string option"
  sr_backoffMs :: rat

definition status_row_of :: "scheduler \<Rightarrow> tool_name \<Rightarrow> identity \<Rightarrow> status_row" where
  "status_row_of s tool p =
     (let st = sd_state s (state_key tool (i_name p)) in
      \<lparr> sr_tool = tool, sr_pool = i_name p, sr_auto = (sp_auto (pool_config p) = Some True),
        sr_lastCheckAt = (case st of None \<Rightarrow> None
          | Some x \<Rightarrow> if ps_lastCheckAt x = 0 then None else Some (ps_lastCheckAt x)),
        sr_lastOutcome = Option.bind st ps_lastOutcome,
        sr_backoffMs = (case st of None \<Rightarrow> 0 | Some x \<Rightarrow> ps_backoffMs x) \<rparr>)"

definition status :: "host_env \<Rightarrow> 'c pool_adapter list \<Rightarrow> scheduler \<times> 'c worlds \<Rightarrow> status_row list" where
  "status h adapters sw =
     concat (map (\<lambda>ad. case loadIdentitiesFile h (pw_registry (snd sw (pa_tool ad))) of
         Inl _ \<Rightarrow> []
       | Inr file \<Rightarrow> map (status_row_of (fst sw) (pa_tool ad)) (poolsOf h file)) adapters)"

section \<open>The scheduler as a transition system\<close>

text \<open>
  The scheduler starts empty; then it ticks at times that never go back, other processes change
  the worlds between ticks, and it may be stopped.
\<close>

inductive reachable :: "host_env \<Rightarrow> (nat \<Rightarrow> rat) \<Rightarrow> 'c served list \<Rightarrow> rat \<Rightarrow> scheduler \<times> 'c worlds \<Rightarrow> bool"
  for h random adapters where
  start: "reachable h random adapters 0 (\<lparr> sd_stopped = False, sd_state = Map.empty, sd_draws = 0 \<rparr>, ws)"
| tick: "reachable h random adapters t sw \<Longrightarrow> t \<le> nowMs \<Longrightarrow>
    reachable h random adapters nowMs (tick h random adapters nowMs sw)"
| other: "reachable h random adapters t (s, ws) \<Longrightarrow> reachable h random adapters t (s, ws')"
| stop: "reachable h random adapters t (s, ws) \<Longrightarrow> reachable h random adapters t (stop s, ws)"

definition draws_ok :: "(nat \<Rightarrow> rat) \<Rightarrow> bool" where
  "draws_ok random \<longleftrightarrow> (\<forall>n. 0 \<le> random n \<and> random n < 1)"

lemma jitter_bounds:
  assumes "0 \<le> r" "r < 1"
  shows "MIN_POLL_MS \<le> jitteredDelayMs r \<and> jitteredDelayMs r \<le> MAX_POLL_MS"
proof -
  let ?x = "60000 + r * 60000 + 1 / 2 :: rat"
  have "60000 \<le> \<lfloor>?x\<rfloor>" using assms(1) by (simp add: le_floor_iff)
  moreover have "?x < 120001" using assms(2) by simp
  then have "\<lfloor>?x\<rfloor> \<le> 120000" by (simp add: floor_less_iff flip: zle_add1_eq_le)
  ultimately have "(60000::rat) \<le> of_int \<lfloor>?x\<rfloor>" "(of_int \<lfloor>?x\<rfloor> :: rat) \<le> 120000"
    by linarith+
  then show ?thesis
    by (simp add: jitteredDelayMs_def js_round_def MIN_POLL_MS_def MAX_POLL_MS_def)
qed

section \<open>Spacing of the checks\<close>

definition state_ok :: "rat \<Rightarrow> pool_state \<Rightarrow> bool" where
  "state_ok t st \<longleftrightarrow> ps_lastCheckAt st \<le> t \<and> ps_lastCheckAt st + MIN_POLL_MS \<le> ps_nextAt st \<and>
     0 \<le> ps_backoffMs st \<and> ps_lastCheckAt st + ps_backoffMs st \<le> ps_nextAt st"

definition states_ok :: "rat \<Rightarrow> scheduler \<Rightarrow> bool" where
  "states_ok t s \<longleftrightarrow> (\<forall>st \<in> ran (sd_state s). state_ok t st)"

text \<open>The change of one entry in a pass at a time: none, or a check that was due.\<close>

definition spaced :: "rat \<Rightarrow> scheduler \<Rightarrow> scheduler \<Rightarrow> bool" where
  "spaced nowMs s s' \<longleftrightarrow> (\<forall>key. sd_state s' key = sd_state s key \<or>
     (\<exists>st'. sd_state s' key = Some st' \<and> ps_lastCheckAt st' = nowMs \<and>
        (\<forall>st. sd_state s key = Some st \<longrightarrow> ps_nextAt st \<le> nowMs)))"

lemma spaced_refl: "spaced t s s"
  by (simp add: spaced_def)

lemma next_backoff_nonneg: "0 \<le> base \<Longrightarrow> 0 \<le> next_backoff nowMs base outcome backoff"
  by (auto simp: next_backoff_def MAX_BACKOFF_MS_def split: limited_outcome.split)

lemma after_check_ok:
  assumes "MIN_POLL_MS \<le> base"
  shows "state_ok nowMs (after_check nowMs base outcome st)"
proof -
  have "0 \<le> base" using assms by (simp add: MIN_POLL_MS_def)
  from next_backoff_nonneg[OF this] assms show ?thesis
    by (auto simp: state_ok_def after_check_def Let_def le_max_iff_disj)
qed

lemma tick_pool_step:
  assumes "draws_ok random" "states_ok nowMs (fst sw)"
  shows "states_ok nowMs (fst (tick_pool h random nowMs served pool sw)) \<and>
    spaced nowMs (fst sw) (fst (tick_pool h random nowMs served pool sw))"
proof -
  let ?s = "fst sw"
  let ?key = "state_key (pa_tool (fst served)) (i_name pool)"
  obtain out w' where chk: "check_pool h served nowMs pool
      (snd (healPool h (fst served) pool (snd (snd served)) (snd sw (pa_tool (fst served))))) = (out, w')"
    by fastforce
  have base: "MIN_POLL_MS \<le> jitteredDelayMs (random n)" for n
    using assms(1) jitter_bounds by (auto simp: draws_ok_def)
  let ?st = "default fresh_state (sd_state ?s ?key)"
  let ?new = "after_check nowMs (jitteredDelayMs (random (sd_draws ?s))) out ?st"
  have cases: "fst (tick_pool h random nowMs served pool sw) = ?s \<or>
    (\<not> nowMs < ps_nextAt ?st \<and> sd_state (fst (tick_pool h random nowMs served pool sw)) = (sd_state ?s)(?key \<mapsto> ?new))"
    using chk by (auto simp: tick_pool_def Let_def)
  then show ?thesis
  proof
    assume "fst (tick_pool h random nowMs served pool sw) = ?s"
    with assms(2) show ?thesis by (simp add: spaced_refl)
  next
    assume c: "\<not> nowMs < ps_nextAt ?st \<and> sd_state (fst (tick_pool h random nowMs served pool sw)) =
      (sd_state ?s)(?key \<mapsto> ?new)"
    have "state_ok nowMs ?new" using base by (rule after_check_ok)
    with c assms(2) have "states_ok nowMs (fst (tick_pool h random nowMs served pool sw))"
      by (auto simp: states_ok_def ran_def)
    moreover have "ps_lastCheckAt ?new = nowMs" by (simp add: after_check_def Let_def)
    with c have "spaced nowMs ?s (fst (tick_pool h random nowMs served pool sw))"
      by (auto simp: spaced_def not_less)
    ultimately show ?thesis ..
  qed
qed

lemma spaced_trans:
  assumes "spaced t s s'" "spaced t s' s''" "states_ok t s'"
  shows "spaced t s s''"
  unfolding spaced_def
proof
  fix key
  from assms(1) have 1: "sd_state s' key = sd_state s key \<or>
     (\<exists>st'. sd_state s' key = Some st' \<and> ps_lastCheckAt st' = t \<and>
        (\<forall>st. sd_state s key = Some st \<longrightarrow> ps_nextAt st \<le> t))" by (simp add: spaced_def)
  from assms(2) have 2: "sd_state s'' key = sd_state s' key \<or>
     (\<exists>st'. sd_state s'' key = Some st' \<and> ps_lastCheckAt st' = t \<and>
        (\<forall>st. sd_state s' key = Some st \<longrightarrow> ps_nextAt st \<le> t))" by (simp add: spaced_def)
  have late: "t < ps_nextAt st" if "sd_state s' key = Some st" "ps_lastCheckAt st = t" for st
    using assms(3) that by (auto simp: states_ok_def ran_def state_ok_def MIN_POLL_MS_def)
  from 1 2 late show "sd_state s'' key = sd_state s key \<or>
     (\<exists>st'. sd_state s'' key = Some st' \<and> ps_lastCheckAt st' = t \<and>
        (\<forall>st. sd_state s key = Some st \<longrightarrow> ps_nextAt st \<le> t))" by (metis linorder_not_less)
qed

text \<open>A fold of steps that keep the invariant and space the checks does both.\<close>

lemma fold_spaced:
  assumes "\<And>x sw. states_ok t (fst sw) \<Longrightarrow> states_ok t (fst (f x sw)) \<and> spaced t (fst sw) (fst (f x sw))"
    and "states_ok t (fst sw)"
  shows "states_ok t (fst (fold f xs sw)) \<and> spaced t (fst sw) (fst (fold f xs sw))"
  using assms(2)
proof (induction xs arbitrary: sw)
  case (Cons x xs)
  from assms(1)[OF Cons.prems] have 1: "states_ok t (fst (f x sw))" "spaced t (fst sw) (fst (f x sw))" by auto
  from Cons.IH[OF 1(1)] have "states_ok t (fst (fold f xs (f x sw)))"
    "spaced t (fst (f x sw)) (fst (fold f xs (f x sw)))" by auto
  with 1 spaced_trans show ?case by (metis fold_simps(2))
qed (simp add: spaced_refl)

lemma tick_step:
  assumes "draws_ok random" "states_ok nowMs (fst sw)"
  shows "states_ok nowMs (fst (tick h random adapters nowMs sw)) \<and>
    spaced nowMs (fst sw) (fst (tick h random adapters nowMs sw))"
  unfolding tick_def
proof (rule fold_spaced)
  fix served sw assume a: "states_ok nowMs (fst (sw :: scheduler \<times> 'a worlds))"
  show "states_ok nowMs (fst (tick_adapter h random nowMs served sw)) \<and>
    spaced nowMs (fst sw) (fst (tick_adapter h random nowMs served sw))"
    using fold_spaced[where f = "tick_pool h random nowMs served", OF tick_pool_step[OF assms(1)] a] a
    by (auto simp: tick_adapter_def spaced_refl split: sum.split)
qed (rule assms(2))

lemma reachable_ok:
  assumes "reachable h random adapters t sw" "draws_ok random"
  shows "states_ok t (fst sw)"
  using assms
proof (induction rule: reachable.induct)
  case (tick t sw nowMs)
  then have "states_ok nowMs (fst sw)" by (auto simp: states_ok_def state_ok_def)
  with tick_step tick.prems show ?case by blast
qed (auto simp: states_ok_def stop_def)


definition example_served :: "string served" where
  "example_served = (copy_adapter, example_deps_at 0, quiet)"

definition auto_world :: "string worlds" where
  "auto_world = (\<lambda>_. \<lparr> pw_registry = Parsed (JObj
     [(''version'', JNum (Fin 1)),
      (''identities'', JArr
        [JObj [(''name'', JStr ''a''), (''label'', JStr ''A''), (''configDir'', JStr ''/c/a'')],
         JObj [(''name'', JStr ''b''), (''label'', JStr ''B''), (''configDir'', JStr ''/c/b'')],
         JObj [(''name'', JStr ''p''), (''label'', JStr ''P''), (''configDir'', JStr ''/c/p''),
               (''swapPool'', JObj [(''accounts'', JArr [JStr ''a'', JStr ''b'']),
                                    (''active'', JStr ''a''), (''auto'', JBool True)])]])]),
     pw_ledger = [], pw_creds = ''a'' \<rparr>)"

definition empty_scheduler :: scheduler where
  "empty_scheduler = \<lparr> sd_stopped = False, sd_state = Map.empty, sd_draws = 0 \<rparr>"

definition example_tick :: "rat \<Rightarrow> scheduler \<times> string worlds \<Rightarrow> scheduler \<times> string worlds" where
  "example_tick t sw = tick example_ledger_env (\<lambda>_. 1 / 2) [example_served] t sw"

lemma example_ticks:
  "map_option (\<lambda>st. (ps_lastCheckAt st, ps_nextAt st, ps_lastOutcome st))
     (sd_state (fst (example_tick 1000000 (empty_scheduler, auto_world))) ''claude:p'') =
   Some (1000000, 1090000, Some ''swapped'')"
  "map_option (\<lambda>st. (ps_lastCheckAt st, ps_nextAt st, ps_lastOutcome st))
     (sd_state (fst (example_tick 1090000 (example_tick 1000000 (empty_scheduler, auto_world)))) ''claude:p'') =
   Some (1090000, 1180000, Some ''not-limited'')"
  by (code_simp, code_simp)


section \<open>Back-off\<close>

text \<open>The back-off after a series of checks that found no candidate and no reset time.\<close>

fun backoff_after :: "rat list \<Rightarrow> rat \<Rightarrow> rat" where
  "backoff_after [] b = b"
| "backoff_after (base # bases) b =
     backoff_after bases (next_backoff 0 base (No_Candidate None None None) b)"

lemma next_backoff_unknown:
  assumes "\<not> (\<exists>r \<in> set_option retryAt. r > nowMs)"
  shows "next_backoff nowMs base (No_Candidate u retryAt a) b = min MAX_BACKOFF_MS (max base (b * 2))"
  using assms by (auto simp: next_backoff_def)

lemma backoff_after_bounds:
  assumes "\<forall>b \<in> set bases. MIN_POLL_MS \<le> b \<and> b \<le> MAX_POLL_MS" "0 \<le> b" "b \<le> MAX_BACKOFF_MS"
  shows "min MAX_BACKOFF_MS (2 ^ length bases * b) \<le> backoff_after bases b \<and> backoff_after bases b \<le> MAX_BACKOFF_MS"
  using assms
proof (induction bases arbitrary: b)
  case (Cons base bases)
  let ?b = "min MAX_BACKOFF_MS (max base (b * 2))"
  from Cons.prems have b: "0 \<le> ?b" "?b \<le> MAX_BACKOFF_MS" "min MAX_BACKOFF_MS (2 * b) \<le> ?b"
    by (auto simp: MAX_BACKOFF_MS_def MIN_POLL_MS_def)
  have grow: "min MAX_BACKOFF_MS (2 ^ length bases * (2 * b)) \<le> min MAX_BACKOFF_MS (2 ^ length bases * ?b)"
  proof (cases "2 * b \<le> MAX_BACKOFF_MS")
    case True
    with b(3) have "2 * b \<le> ?b" by simp
    then show ?thesis by (simp add: min_le_iff_disj mult_left_mono)
  next
    case False
    then have "?b = MAX_BACKOFF_MS" by (auto simp: max_def)
    moreover have "MAX_BACKOFF_MS \<le> 2 ^ length bases * MAX_BACKOFF_MS"
      by (simp add: MAX_BACKOFF_MS_def)
    ultimately show ?thesis by simp
  qed
  have step: "backoff_after (base # bases) b = backoff_after bases ?b"
    by (simp add: next_backoff_unknown)
  have len: "2 ^ length (base # bases) * b = 2 ^ length bases * (2 * b)" by simp
  have rest: "\<forall>b \<in> set bases. MIN_POLL_MS \<le> b \<and> b \<le> MAX_POLL_MS" using Cons.prems(1) by simp
  from Cons.IH[OF rest b(1,2)] order_trans[OF grow] show ?case unfolding step len by blast
qed simp

lemma next_due_le:
  fixes base :: rat
  shows "base \<le> m \<Longrightarrow> t + max (max base k) c \<le> t + max m (max k c)"
  by (auto simp: max_def)

text \<open>The back-off of a pool without a candidate is exponential and bounded: after the first of a
  series of such checks it is at least a minute, every further one doubles it until ten
  minutes are reached, it never exceeds ten minutes unless a reset time is known, and then the
  next check waits for that reset; any other outcome clears it, and the next check is always
  between one minute and the longest of two minutes, the back-off and the cooldown away.\<close>

theorem backoff_bounded:
  assumes "MIN_POLL_MS \<le> base" "base \<le> MAX_POLL_MS"
    and "\<forall>b \<in> set bases. MIN_POLL_MS \<le> b \<and> b \<le> MAX_POLL_MS"
  shows "min MAX_BACKOFF_MS (2 ^ length bases * MIN_POLL_MS) \<le> backoff_after (base # bases) 0 \<and>
    backoff_after (base # bases) 0 \<le> MAX_BACKOFF_MS \<and>
    (\<forall>nowMs retry u a st. nowMs < retry \<longrightarrow>
       retry \<le> ps_nextAt (after_check nowMs base (No_Candidate u (Some retry) a) st)) \<and>
    (\<forall>nowMs outcome st. (\<forall>u r a. outcome \<noteq> No_Candidate u r a) \<longrightarrow>
       ps_backoffMs (after_check nowMs base outcome st) = 0) \<and>
    (\<forall>nowMs outcome st. nowMs + MIN_POLL_MS \<le> ps_nextAt (after_check nowMs base outcome st) \<and>
       ps_nextAt (after_check nowMs base outcome st) \<le> nowMs + max MAX_POLL_MS
         (max (ps_backoffMs (after_check nowMs base outcome st)) (case outcome of Cooldown r \<Rightarrow> r | _ \<Rightarrow> 0)))"
proof (intro conjI allI impI)
  let ?b = "min MAX_BACKOFF_MS (max base (0 * 2))"
  have b: "0 \<le> ?b" "?b \<le> MAX_BACKOFF_MS" "MIN_POLL_MS \<le> ?b"
    using assms(1,2) by (auto simp: MAX_BACKOFF_MS_def MIN_POLL_MS_def MAX_POLL_MS_def)
  from backoff_after_bounds[OF assms(3) b(1,2)]
  have r: "min MAX_BACKOFF_MS (2 ^ length bases * ?b) \<le> backoff_after (base # bases) 0"
    "backoff_after (base # bases) 0 \<le> MAX_BACKOFF_MS"
    by (auto simp: next_backoff_unknown)
  have "2 ^ length bases * MIN_POLL_MS \<le> 2 ^ length bases * ?b" using b(3) by (intro mult_left_mono) auto
  with r(1) show "min MAX_BACKOFF_MS (2 ^ length bases * MIN_POLL_MS) \<le> backoff_after (base # bases) 0" by linarith
  show "backoff_after (base # bases) 0 \<le> MAX_BACKOFF_MS" by (rule r(2))
next
  fix nowMs retry u a st assume "(nowMs :: rat) < retry"
  then show "retry \<le> ps_nextAt (after_check nowMs base (No_Candidate u (Some retry) a) st)"
    by (simp add: after_check_def Let_def next_backoff_def max_def)
next
  fix nowMs outcome st assume "\<forall>u r a. outcome \<noteq> No_Candidate u r a"
  then show "ps_backoffMs (after_check nowMs base outcome st) = 0"
    by (cases outcome) (auto simp: after_check_def Let_def next_backoff_def)
next
  fix nowMs outcome st
  show "nowMs + MIN_POLL_MS \<le> ps_nextAt (after_check nowMs base outcome st)"
    using assms(1) by (simp add: after_check_def Let_def le_max_iff_disj)
  show "ps_nextAt (after_check nowMs base outcome st) \<le> nowMs + max MAX_POLL_MS
      (max (ps_backoffMs (after_check nowMs base outcome st)) (case outcome of Cooldown r \<Rightarrow> r | _ \<Rightarrow> 0))"
    using next_due_le[OF assms(2)] by (simp add: after_check_def Let_def)
qed

theorem backoff_bounded_witness:
  "min MAX_BACKOFF_MS (2 ^ length [90000, 70000, 60000::rat] * MIN_POLL_MS) \<le> backoff_after (80000 # [90000, 70000, 60000]) 0"
proof -
  have "MIN_POLL_MS \<le> (80000::rat)" "(80000::rat) \<le> MAX_POLL_MS"
    "\<forall>b \<in> set [90000, 70000, 60000]. MIN_POLL_MS \<le> b \<and> b \<le> MAX_POLL_MS"
    by (simp_all add: MIN_POLL_MS_def MAX_POLL_MS_def)
  from backoff_bounded[OF this] show ?thesis by blast
qed

end
