(* ===== verification/Pool_Launch.thy ===== *)
theory Pool_Launch
  imports Pool_Scheduler
begin

text \<open>
  The pre-launch check of a tool shim (\<open>src/identities/pool/launch.ts\<close>): heal the pool folder,
  bootstrap a pool without credentials, or swap away from a limited member, inside a time
  budget. The race between the work and its timers is a parameter: the work ends within the
  first budget, within the settle time, or is cancelled, before or after its credential swap
  began. The printed line is kept as its parts.
\<close>

datatype launch_note =
    Heal_Notes "string list"
  | Heal_Failed string error
  | Activated string string
  | Switched string rat "string option" string

datatype launch_timing = In_Budget | In_Settle_Time | Cancelled bool

text \<open>The adapter the work uses: its swap throws once the check has been cancelled.\<close>

definition cancellable :: "launch_timing \<Rightarrow> 'c pool_adapter \<Rightarrow> 'c pool_adapter" where
  "cancellable timing ad =
     (if timing = Cancelled False
      then ad\<lparr> pa_swapCredentials := \<lambda>inp c.
             (Inl (OtherError ''pool launch check cancelled before swapping''), c) \<rparr>
      else ad)"

lemma cancellable_simps [simp]:
  "pa_tool (cancellable t ad) = pa_tool ad"
  "pa_heal (cancellable t ad) = pa_heal ad"
  "pa_hasCredentials (cancellable t ad) = pa_hasCredentials ad"
  by (simp_all add: cancellable_def)

definition launch_heal :: "host_env \<Rightarrow> 'c pool_adapter \<Rightarrow> identity \<Rightarrow> 'c interference \<Rightarrow> 'c pool_world \<Rightarrow>
    launch_note option \<times> 'c pool_world" where
  "launch_heal h ad pool intf w =
     (case healPool h ad pool intf w of
        (Inl e, w') \<Rightarrow> (Some (Heal_Failed (i_name pool) e), w')
      | (Inr notes, w') \<Rightarrow> (if notes = [] then None else Some (Heal_Notes notes), w'))"

definition launch_work :: "host_env \<Rightarrow> 'c pool_adapter \<Rightarrow> 'c pool_deps \<Rightarrow> identity \<Rightarrow>
    'c interference \<Rightarrow> 'c interference \<Rightarrow> 'c pool_world \<Rightarrow> (error + launch_note option) \<times> 'c pool_world" where
  "launch_work h ad deps pool healIntf swapIntf w =
     (case launch_heal h ad pool healIntf w of (healNote, w) \<Rightarrow>
      if \<not> truthy (sp_active (pool_config pool)) \<or> \<not> pa_hasCredentials ad (pw_creds w) (i_configDir pool)
      then
        (case allowedAccounts pool of
           [] \<Rightarrow> (Inr healNote, w)
         | first # _ \<Rightarrow>
             (case performPoolSwap h ad (plain_swap deps pool (default first (sp_active (pool_config pool))) Launch)
                     swapIntf w of
                (Inl (Failed e), w') \<Rightarrow> (Inl e, w')
              | (Inl (SwapSkipped _), w') \<Rightarrow> (Inl (OtherError ''swap skipped''), w')
              | (Inr r, w') \<Rightarrow> (Inr (Some (Activated (i_name pool) (fr_to r))), w')))
      else if sp_auto (pool_config pool) \<noteq> Some True then (Inr healNote, w)
      else (case swapIfLimited h ad deps (Some (i_name pool)) Launch plain_limit swapIntf w of
              (Inl e, w') \<Rightarrow> (Inl e, w')
            | (Inr (Swapped r _), w') \<Rightarrow>
                (Inr (Some (Switched (i_name pool) (poolThreshold pool) (fr_from r) (fr_to r))), w')
            | (Inr _, w') \<Rightarrow> (Inr healNote, w')))"

text \<open>An error of the work counts as no note; a cancelled check waits for the work and is silent.\<close>

definition poolLaunchCheck :: "host_env \<Rightarrow> 'c pool_adapter \<Rightarrow> identity \<Rightarrow> 'c pool_deps \<Rightarrow> launch_timing \<Rightarrow>
    'c interference \<Rightarrow> 'c interference \<Rightarrow> 'c pool_world \<Rightarrow> launch_note option \<times> 'c pool_world" where
  "poolLaunchCheck h realAdapter i deps timing healIntf swapIntf w =
     (if \<not> isSwapPool i then (None, w)
      else (case launch_work h (cancellable timing realAdapter) deps i healIntf swapIntf w of
        (r, w') \<Rightarrow>
          (case timing of
             Cancelled _ \<Rightarrow> None
           | _ \<Rightarrow> (case r of Inl _ \<Rightarrow> None | Inr note \<Rightarrow> note), w')))"

lemma swap_unreached:
  assumes "\<And>inp c. pa_swapCredentials ad inp c = (Inl e, c)"
  shows "is_ok (fst (swapLocked h ad opts intf w)) = False \<and> snd (swapLocked h ad opts intf w) = w"
  by (auto simp: swapLocked_def assms split: sum.splits prod.splits)

lemma perform_unreached:
  assumes "\<And>inp c. pa_swapCredentials ad inp c = (Inl e, c)"
  shows "\<not> is_ok (fst (performPoolSwap h ad opts intf w)) \<and>
    (snd (performPoolSwap h ad opts intf w) = w \<or> in_lock intf w = Inr (snd (performPoolSwap h ad opts intf w)))"
  using swap_unreached[of ad e h opts intf, OF assms]
  by (auto simp: performPoolSwap_def split: sum.splits)

lemma limited_unreached:
  assumes "\<And>inp c. pa_swapCredentials ad inp c = (Inl e, c)"
  shows "snd (swapIfLimited h ad deps key reason opts intf w) = w \<or>
    in_lock intf w = Inr (snd (swapIfLimited h ad deps key reason opts intf w))"
proof -
  have snd: "snd (case performPoolSwap h ad so intf w of
        (Inl (SwapSkipped outcome), w') \<Rightarrow> (Inr outcome :: error + limited_outcome, w')
      | (Inl (Failed e), w') \<Rightarrow> (Inl e, w')
      | (Inr result, w') \<Rightarrow> (Inr (Swapped result u), w')) = snd (performPoolSwap h ad so intf w)" for so u
    by (auto split: prod.split sum.split swap_exn.split)
  show ?thesis
    using perform_unreached[of ad e h _ intf w, OF assms]
    by (auto simp: swapIfLimited_def snd split: sum.split option.split)
qed

text \<open>A launch never breaks because of the check, and a cancelled check starts no swap. An identity
  that is no pool is left alone; and when the check is cancelled before its credential swap
  began, the registry, ledger and credentials it leaves are those the heal step left or those
  another process left while the pool lock was awaited.\<close>

theorem poolLaunchCheck_safe:
  "(\<not> isSwapPool i \<longrightarrow> poolLaunchCheck h ad i deps timing hi si w = (None, w)) \<and>
   (isSwapPool i \<longrightarrow>
     (let healed = snd (launch_heal h ad i hi w);
          left = snd (poolLaunchCheck h ad i deps (Cancelled False) hi si w)
      in left = healed \<or> in_lock si healed = Inr left)) \<and>
   (\<forall>b. fst (poolLaunchCheck h ad i deps (Cancelled b) hi si w) = None)"
proof (intro conjI impI allI)
  show "\<not> isSwapPool i \<Longrightarrow> poolLaunchCheck h ad i deps timing hi si w = (None, w)"
    by (simp add: poolLaunchCheck_def)
  show "fst (poolLaunchCheck h ad i deps (Cancelled b) hi si w) = None" for b
    by (simp add: poolLaunchCheck_def split: prod.split)
  assume pool: "isSwapPool i"
  let ?ad = "cancellable (Cancelled False) ad"
  have sw: "pa_swapCredentials ?ad inp c = (Inl (OtherError ''pool launch check cancelled before swapping''), c)"
    for inp c by (simp add: cancellable_def)
  have heal: "launch_heal h ?ad i hi w = launch_heal h ad i hi w"
    unfolding launch_heal_def healPool_def cancellable_simps ..
  obtain hn healed where lh: "launch_heal h ad i hi w = (hn, healed)" by fastforce
  let ?healed = healed
  have p: "snd (case performPoolSwap h ?ad so si ?healed of
                (Inl (Failed e), w') \<Rightarrow> (Inl e :: error + launch_note option, w')
              | (Inl (SwapSkipped _), w') \<Rightarrow> (Inl (OtherError ''swap skipped''), w')
              | (Inr r, w') \<Rightarrow> (Inr (Some (Activated (i_name i) (fr_to r))), w')) =
      snd (performPoolSwap h ?ad so si ?healed)" for so
    by (auto split: prod.split sum.split swap_exn.split)
  have l: "snd (case swapIfLimited h ?ad deps key Launch plain_limit si ?healed of
              (Inl e, w') \<Rightarrow> (Inl e :: error + launch_note option, w')
            | (Inr (Swapped r _), w') \<Rightarrow>
                (Inr (Some (Switched (i_name i) (poolThreshold i) (fr_from r) (fr_to r))), w')
            | (Inr _, w') \<Rightarrow> (Inr nt, w')) =
      snd (swapIfLimited h ?ad deps key Launch plain_limit si ?healed)" for key nt
    by (auto split: prod.split sum.split limited_outcome.split)
  have "snd (launch_work h ?ad deps i hi si w) = ?healed \<or> in_lock si ?healed = Inr (snd (launch_work h ?ad deps i hi si w))"
    using perform_unreached[OF sw, where w = ?healed and intf = si] limited_unreached[OF sw, where w = ?healed and intf = si]
    by (auto simp: launch_work_def heal lh p l split: list.split)
  then show "let healed = snd (launch_heal h ad i hi w);
          left = snd (poolLaunchCheck h ad i deps (Cancelled False) hi si w)
      in left = healed \<or> in_lock si healed = Inr left"
    using pool by (simp add: poolLaunchCheck_def case_prod_unfold Let_def lh)
qed

text \<open>The same launch switches the account when it is in budget and leaves it when cancelled.\<close>

definition example_launch :: "launch_timing \<Rightarrow> launch_note option \<times> string pool_world" where
  "example_launch timing = poolLaunchCheck example_ledger_env copy_adapter
     ((example_pool ''p'')\<lparr> i_configDir := ''/c/p'' \<rparr>) (example_deps_at 1000000) timing quiet quiet
     (auto_world Claude)"

lemma example_launches:
  "fst (example_launch In_Budget) = Some (Switched ''p'' 95 (Some ''a'') ''b'')"
  "pw_creds (snd (example_launch In_Budget)) = ''b''"
  "pw_creds (snd (example_launch (Cancelled False))) = ''a''"
  by (code_simp, code_simp, code_simp)

theorem poolLaunchCheck_safe_witness:
  "poolLaunchCheck example_ledger_env copy_adapter (example_identity ''a'' []) (example_deps_at 0) In_Budget
     quiet quiet (auto_world Claude) = (None, auto_world Claude)"
proof -
  have "\<not> isSwapPool (example_identity ''a'' [])" by code_simp
  with poolLaunchCheck_safe[of "example_identity ''a'' []" example_ledger_env copy_adapter
      "example_deps_at 0" In_Budget quiet quiet "auto_world Claude"]
  show ?thesis by blast
qed

end
