(* ===== verification/Grant_Laws.thy ===== *)
theory Grant_Laws
  imports Grant_Adapters Pool_Launch
begin

text \<open>
  What the grant-file adapters guarantee: the contract of the pool core, an end to the lock
  rounds, no live grant lost by a swap, and a repair that reaches a healthy pool file.
\<close>

section \<open>Files a step touches\<close>

lemma writeBackup_files [simp]: "gs_files (writeBackup path kind text st) = gs_files st"
  by (simp add: writeBackup_def Let_def)

lemma writeBackup_mem: "(path, kind, text) \<in> set (gs_backups (writeBackup path kind text st))"
  by (simp add: writeBackup_def Let_def)

lemma drop_matching_subset: "set (drop_matching n P xs) \<subseteq> set xs"
  by (induction n P xs rule: drop_matching.induct) auto

lemma drop_matching_others: "\<not> P x \<Longrightarrow> x \<in> set (drop_matching n P xs) \<longleftrightarrow> x \<in> set xs"
  by (induction n P xs rule: drop_matching.induct) auto

lemma writeBackup_others:
  "(p, k) \<noteq> (path, kind) \<Longrightarrow> (p, k, t) \<in> set (gs_backups (writeBackup path kind text st)) \<longleftrightarrow> (p, k, t) \<in> set (gs_backups st)"
  by (auto simp: writeBackup_def Let_def drop_matching_others)

lemma writeText_same [simp]: "readText h spec (writeText h spec dir text st) dir = Some text"
  by (simp add: readText_def writeText_def)

lemma writeText_other: "fileOf h spec d \<noteq> fileOf h spec dir \<Longrightarrow>
    readText h spec (writeText h spec dir text st) d = readText h spec st d"
  by (simp add: readText_def writeText_def)

lemma readText_backup [simp]: "readText h spec (writeBackup path kind text st) dir = readText h spec st dir"
  by (simp add: readText_def)

lemma load_grant_cong: "readText h spec st d = readText h spec st' d' \<Longrightarrow> load_grant h spec st d = load_grant h spec st' d'"
  by (simp add: load_grant_def Let_def)

lemma writeBack_cases:
  assumes "writeBackToOwner h spec owner g mode members st = (out, st')"
  shows "(out = Account_Mismatch \<and> st' = st) \<or>
    (out = Identical \<and> st' = st \<and> gp_usable spec (ld_grant (load_grant h spec st (i_configDir owner))) \<and>
      gp_fingerprint spec (default [] (ld_grant (load_grant h spec st (i_configDir owner)))) = gp_fingerprint spec g) \<or>
    (\<exists>merge. merge = gp_newerInto spec
        (if gp_usable spec (ld_grant (load_grant h spec st (i_configDir owner)))
         then ld_grant (load_grant h spec st (i_configDir owner)) else None) g mode
        (otherGrants h spec st owner members) \<and>
      (gp_usable spec (ld_grant (load_grant h spec st (i_configDir owner))) \<longrightarrow>
         gi_id (ld_who (load_grant h spec st (i_configDir owner))) = gi_id (gp_identity spec (Some g)) \<and>
         gp_fingerprint spec (default [] (ld_grant (load_grant h spec st (i_configDir owner)))) \<noteq> gp_fingerprint spec g) \<and>
      ((out = Member_Newer \<and> Option.bind merge gm_next = None \<and> gs_files st' = gs_files st) \<or>
       (\<exists>n. out = Written \<and> Option.bind merge gm_next = Some n \<and>
          gs_files st' = (gs_files st)(fileOf h spec (i_configDir owner) \<mapsto> Doc (JObj n)))))"
  using assms
  by (auto simp: writeBackToOwner_def Let_def writeText_def split: if_splits option.splits)

section \<open>The swap under its locks\<close>

lemma swapHeld_Finished:
  assumes "swapHeld h spec inp held st = (Finished r, st')"
  shows "fr_pool r = i_name (sc_pool inp) \<and> fr_to r = i_name (sc_target inp) \<and>
    fr_from r = sp_active (pool_config (sc_pool inp)) \<and>
    (if fr_noop r
     then st' = st \<and> sp_active (pool_config (sc_pool inp)) = Some (i_name (sc_target inp)) \<and>
       gp_usable spec (ld_grant (load_grant h spec st (i_configDir (sc_pool inp))))
     else \<exists>notes st1 st2 t2.
       save_live h spec inp held (load_grant h spec st (i_configDir (sc_pool inp))) st = Inr (fr_writeBack r, notes, st1) \<and>
       gs_files st2 = gs_files st1 \<and>
       (fr_writeBack r \<in> {Unknown_Owner, Account_Mismatch} \<longrightarrow>
          (\<forall>text. ld_text (load_grant h spec st (i_configDir (sc_pool inp))) = Some text \<longrightarrow>
             (fileOf h spec (i_configDir (sc_pool inp)), Swap_Backup, text) \<in> set (gs_backups st2))) \<and>
       ld_text t2 \<noteq> None \<and> gp_usable spec (ld_grant t2) \<and> ld_grant t2 = parseGrantFile (ld_text t2) \<and>
       (t2 = load_grant h spec st (i_configDir (sc_target inp)) \<or> t2 = load_grant h spec st2 (i_configDir (sc_target inp))) \<and>
       (fr_writeBack r = Written \<longrightarrow> t2 = load_grant h spec st2 (i_configDir (sc_target inp)) \<or>
          ld_text (load_grant h spec st2 (i_configDir (sc_target inp))) = None \<or>
          \<not> gp_usable spec (ld_grant (load_grant h spec st2 (i_configDir (sc_target inp)))) \<or>
          gi_id (ld_who (load_grant h spec st2 (i_configDir (sc_target inp)))) \<noteq>
            gi_id (ld_who (load_grant h spec st (i_configDir (sc_target inp))))) \<and>
       st' = writeText h spec (i_configDir (sc_pool inp)) (the (ld_text t2)) st2)"
proof -
  let ?live = "load_grant h spec st (i_configDir (sc_pool inp))"
  let ?t = "load_grant h spec st (i_configDir (sc_target inp))"
  have grant: "ld_grant (load_grant h spec s d) = parseGrantFile (ld_text (load_grant h spec s d))" for s d
    by (simp add: load_grant_def Let_def)
  show ?thesis
  proof (cases "save_live h spec inp held ?live st")
    case (Inl d)
    with assms show ?thesis by (auto simp: swapHeld_def Let_def split: if_splits)
  next
    case (Inr x)
    obtain wb ns st1 where x: "x = (wb, ns, st1)" by (cases x)
    define st2 where "st2 = (if (pool_only h spec inp ?live st1 \<or> wb \<in> {Unknown_Owner, Account_Mismatch}) \<and>
        ld_text ?live \<noteq> None
      then writeBackup (fileOf h spec (i_configDir (sc_pool inp))) Swap_Backup (the (ld_text ?live)) st1 else st1)"
    let ?ref = "load_grant h spec st2 (i_configDir (sc_target inp))"
    define t2 where "t2 = (if wb = Written \<and> ld_text ?ref \<noteq> None \<and> gp_usable spec (ld_grant ?ref) \<and>
        gi_id (ld_who ?ref) = gi_id (ld_who ?t) then ?ref else ?t)"
    have files: "gs_files st2 = gs_files st1" by (simp add: st2_def)
    have backup: "wb \<in> {Unknown_Owner, Account_Mismatch} \<Longrightarrow> ld_text ?live = Some tx \<Longrightarrow>
        (fileOf h spec (i_configDir (sc_pool inp)), Swap_Backup, tx) \<in> set (gs_backups st2)" for tx
      by (auto simp: st2_def writeBackup_mem)
    note unfolded = assms[unfolded swapHeld_def Let_def Inr x sum.case prod.case, folded st2_def, folded t2_def]
    have tok: "ld_text ?t \<noteq> None \<and> gp_usable spec (ld_grant ?t) \<or> fr_noop r"
      using unfolded by (auto split: if_splits)
    have t2: "t2 = ?t \<or> (t2 = ?ref \<and> ld_text ?ref \<noteq> None \<and> gp_usable spec (ld_grant ?ref))"
      by (simp add: t2_def)
    show ?thesis
    proof (cases "fr_noop r")
      case True
      then show ?thesis using unfolded by (auto split: if_splits)
    next
      case False
      then have r: "r = \<lparr> fr_pool = i_name (sc_pool inp), fr_from = sp_active (pool_config (sc_pool inp)),
          fr_to = i_name (sc_target inp), fr_noop = False, fr_writeBack = wb, fr_notes = fr_notes r \<rparr>"
        and st': "st' = writeText h spec (i_configDir (sc_pool inp)) (the (ld_text t2)) st2"
        using unfolded by (auto split: if_splits)
      have "ld_text t2 \<noteq> None \<and> gp_usable spec (ld_grant t2) \<and> ld_grant t2 = parseGrantFile (ld_text t2)"
        using tok t2 False grant by auto
      moreover have "wb = Written \<longrightarrow> t2 = ?ref \<or> ld_text ?ref = None \<or> \<not> gp_usable spec (ld_grant ?ref) \<or> gi_id (ld_who ?ref) \<noteq> gi_id (ld_who ?t)"
        using tok False by (auto simp: t2_def)
      moreover have "fr_pool r = i_name (sc_pool inp)" "fr_to r = i_name (sc_target inp)"
        "fr_from r = sp_active (pool_config (sc_pool inp))" "fr_writeBack r = wb"
        by (subst r, simp)+
      ultimately show ?thesis
        using False Inr x st' t2 files backup
        by (auto intro!: exI[of _ ns] exI[of _ st1] exI[of _ st2] exI[of _ t2])
    qed
  qed
qed

section \<open>Rounds of locking\<close>

lemma lock_rounds_Inr:
  assumes "lock_rounds n body env h poolDir wanted st = Some (Inr r, st')"
  shows "\<exists>held s. body held s = (Finished r, st')"
  using assms
proof (induction n arbitrary: wanted st)
  case (Suc n)
  obtain out s where body: "body (set (lockOrder h (poolDir # wanted))) st = (out, s)" by fastforce
  with Suc show ?case by (cases out) auto
qed simp

text \<open>Without interference the rounds that only ask for a lock leave the store alone.\<close>

lemma lock_rounds_quiet:
  assumes "lock_rounds n body (\<lambda>s. s) h poolDir wanted st = Some (Inr r, st')"
    and "\<And>held s d s'. body held s = (Need_Lock d, s') \<Longrightarrow> s' = s"
  shows "\<exists>held. body held st = (Finished r, st')"
  using assms(1)
proof (induction n arbitrary: wanted)
  case (Suc n)
  obtain out s where body: "body (set (lockOrder h (poolDir # wanted))) st = (out, s)" by fastforce
  show ?case
  proof (cases out)
    case (Need_Lock d)
    with assms(2) body have "s = st" by metis
    with Suc body Need_Lock show ?thesis by simp
  qed (use Suc.prems body in auto)
qed simp

lemma lock_rounds_end:
  assumes "\<And>held s d s'. body held s = (Need_Lock d, s') \<Longrightarrow> d \<in> D \<and> path_resolve h d \<notin> held"
    and "finite D" "card (path_resolve h ` D - set (lockOrder h (poolDir # wanted))) < n"
  shows "lock_rounds n body env h poolDir wanted st \<noteq> None"
  using assms(3)
proof (induction n arbitrary: wanted st)
  case (Suc n)
  let ?held = "set (lockOrder h (poolDir # wanted))"
  obtain out s where body: "body ?held st = (out, s)" by fastforce
  show ?case
  proof (cases out)
    case (Need_Lock d)
    from assms(1)[OF body[unfolded Need_Lock]] have d: "d \<in> D" "path_resolve h d \<notin> ?held" by auto
    have "path_resolve h ` D - set (lockOrder h (poolDir # wanted @ [d])) \<subset> path_resolve h ` D - ?held"
      using d by auto
    from psubset_card_mono[OF _ this] assms(2) Suc.prems
    have "card (path_resolve h ` D - set (lockOrder h (poolDir # wanted @ [d]))) < n" by simp
    from Suc.IH[OF this] show ?thesis using body Need_Lock by simp
  qed (use body in simp_all)
qed simp

lemma active_first_set: "set (active_first members a) = set members"
  by (simp add: active_first_def)

lemma ownerByAccount_Some:
  "ownerByAccount h spec st members acc a = Some m \<Longrightarrow>
     m \<in> set members \<and> gi_id (ld_who (load_grant h spec st (i_configDir m))) = Some acc"
  unfolding ownerByAccount_def by (drule find_Some_set) (simp add: active_first_set)

lemma save_live_Inl:
  "save_live h spec inp held live st = Inl d \<Longrightarrow>
     \<exists>m \<in> set (sc_members inp). d = i_configDir m \<and> dir_key h d \<notin> held"
  by (auto simp: save_live_def Let_def bind_eq_Some_conv dest!: ownerByAccount_Some
      split: if_splits option.splits prod.splits)

lemma swapHeld_Need_Lock:
  "swapHeld h spec inp held st = (Need_Lock d, st') \<Longrightarrow>
     st' = st \<and> (\<exists>m \<in> set (sc_members inp). d = i_configDir m \<and> dir_key h d \<notin> held)"
  by (auto simp: swapHeld_def Let_def dest: save_live_Inl split: if_splits sum.splits prod.splits)

lemma before_restore_Inl:
  "before_restore h spec pool active members held kind cur st = Inl d \<Longrightarrow>
     \<exists>m \<in> set members. d = i_configDir m \<and> dir_key h d \<notin> held"
  by (auto simp: before_restore_def Let_def dest!: ownerByAccount_Some
      split: if_splits option.splits prod.splits pool_kind.splits)

lemma healHeld_Need_Lock:
  "healHeld h spec settle pool active members held st = (Need_Lock d, st') \<Longrightarrow>
     \<exists>m \<in> set members. d = i_configDir m \<and> dir_key h d \<notin> held"
  by (auto simp: healHeld_def Let_def dest: before_restore_Inl split: if_splits sum.splits prod.splits option.splits)

text \<open>Property C1.
  The lock rounds end. A swap or a repair that learns under the locks that it needs one more
  lock releases them and starts over; however the credential files change while the locks are
  free, as many rounds as there are members, and one more, are enough for a result.\<close>

theorem lock_rounds_terminate:
  assumes "\<forall>m \<in> set members. is_absolute (i_configDir m)" and "sc_members inp = members"
  shows "lock_rounds (Suc (length members)) (swapHeld h spec inp) env h poolDir wanted st \<noteq> None \<and>
    lock_rounds (Suc (length members)) (healHeld h spec settle pool active members) env h poolDir wanted st \<noteq> None"
proof
  let ?D = "i_configDir ` set members"
  have key: "dir_key h d = path_resolve h d" if "d \<in> ?D" for d
    using assms that by (auto simp: dir_key_def expandPath_absolute)
  have "card (path_resolve h ` ?D - X) \<le> length members" for X
    by (rule order_trans[OF card_mono[OF _ Diff_subset]], simp)
      (metis card_image_le card_length finite_imageI finite_set order_trans)
  then have few: "card (path_resolve h ` ?D - X) < Suc (length members)" for X
    by (simp add: less_Suc_eq_le)
  show "lock_rounds (Suc (length members)) (swapHeld h spec inp) env h poolDir wanted st \<noteq> None"
    using swapHeld_Need_Lock key assms(2) by (intro lock_rounds_end[where D = ?D] few) fastforce+
  show "lock_rounds (Suc (length members)) (healHeld h spec settle pool active members) env h poolDir wanted st \<noteq> None"
    using healHeld_Need_Lock key by (intro lock_rounds_end[where D = ?D] few) fastforce+
qed

definition example_swap_input :: swap_input where
  "example_swap_input = \<lparr> sc_pool = example_pool ''p'',
     sc_members = [example_identity ''a'' [], example_identity ''b'' []],
     sc_target = example_identity ''b'' [], sc_reason = Manual \<rparr>"

definition example_kimi :: grant_spec where
  "example_kimi = kimiSpec (\<lambda>s. Some (JObj [(''sub'', JStr s)])) (\<lambda>_. ''0'') (\<lambda>_. Inl NonInteractiveResolutionError)"

theorem lock_rounds_terminate_witness:
  "lock_rounds 3 (swapHeld example_env example_kimi example_swap_input) (\<lambda>s. s) example_env ''/p'' [''/c/b'']
     \<lparr> gs_files = Map.empty, gs_backups = [] \<rparr> \<noteq> None"
proof -
  have "\<forall>m \<in> set [example_identity ''a'' [], example_identity ''b'' []]. is_absolute (i_configDir m)"
    by (simp add: example_identity_def is_absolute_def starts_with_def)
  moreover have "sc_members example_swap_input = [example_identity ''a'' [], example_identity ''b'' []]"
    by (simp add: example_swap_input_def)
  ultimately have "lock_rounds (Suc (length [example_identity ''a'' [], example_identity ''b'' []]))
      (swapHeld example_env example_kimi example_swap_input) (\<lambda>s. s) example_env ''/p'' [''/c/b'']
      \<lparr> gs_files = Map.empty, gs_backups = [] \<rparr> \<noteq> None"
    using lock_rounds_terminate by blast
  then show ?thesis by (simp only: list.size add_0 One_nat_def add_Suc_right add_Suc numeral_3_eq_3 simp_thms)
qed

section \<open>No live grant is lost\<close>

text \<open>
  What a tool's merge promises: \<open>chain\<close> is the token pair that identifies the account of a grant,
  \<open>newer p o\<close> says that the tokens of \<open>p\<close> are strictly newer than those of \<open>o\<close>.
\<close>

locale grant_merge_contract =
  fixes spec :: grant_spec
    and newer :: "grant \<Rightarrow> grant \<Rightarrow> bool"
    and chain :: "grant \<Rightarrow> json option \<times> json option"
  assumes usable_None: "\<not> gp_usable spec None"
    and taken_whole: "Option.bind (gp_newerInto spec None p mode others) gm_next = Some p"
    and moved: "gp_usable spec (Some ow) \<Longrightarrow> gp_usable spec (Some p) \<Longrightarrow> gp_complete spec (Some p) \<Longrightarrow>
      json_ok (JObj p) \<Longrightarrow> gi_id (gp_identity spec (Some ow)) = gi_id (gp_identity spec (Some p)) \<Longrightarrow>
      Option.bind (gp_newerInto spec (Some ow) p mode others) gm_next = Some n \<Longrightarrow>
      gp_usable spec (Some n) \<and> gi_id (gp_identity spec (Some n)) = gi_id (gp_identity spec (Some p)) \<and>
      (chain n = chain p \<or> \<not> newer p n)"
    and kept: "gp_usable spec (Some ow) \<Longrightarrow> gp_usable spec (Some p) \<Longrightarrow> json_ok (JObj p) \<Longrightarrow>
      Option.bind (gp_newerInto spec (Some ow) p mode others) gm_next = None \<Longrightarrow>
      chain ow = chain p \<or> \<not> newer p ow"

text \<open>
  A member's vault that makes the pool's grant dispensable: the same account, with the same
  tokens, or with tokens the grant is not newer than.
\<close>

definition vault_covers :: "host_env \<Rightarrow> grant_spec \<Rightarrow> (grant \<Rightarrow> grant \<Rightarrow> bool) \<Rightarrow> (grant \<Rightarrow> json option \<times> json option) \<Rightarrow>
    grant_store \<Rightarrow> grant \<Rightarrow> identity \<Rightarrow> bool" where
  "vault_covers h spec newer chain st g m \<longleftrightarrow>
     (\<exists>v. ld_grant (load_grant h spec st (i_configDir m)) = Some v \<and> gp_usable spec (Some v) \<and>
        gi_id (gp_identity spec (Some v)) = gi_id (gp_identity spec (Some g)) \<and>
        (chain v = chain g \<or> \<not> newer g v \<or> gp_fingerprint spec v = gp_fingerprint spec g))"

lemma load_grant_who: "ld_who (load_grant h spec st d) = gp_identity spec (ld_grant (load_grant h spec st d))"
  by (simp add: load_grant_def Let_def)

lemma load_written:
  "gs_files st' = (gs_files st)(fileOf h spec d \<mapsto> Doc (JObj n)) \<Longrightarrow> ld_grant (load_grant h spec st' d) = Some n"
  by (simp add: load_grant_def Let_def readText_def)

lemma load_grant_files: "gs_files st = gs_files st' \<Longrightarrow> load_grant h spec st d = load_grant h spec st' d"
  by (simp add: load_grant_def Let_def readText_def)

context grant_merge_contract
begin

lemma write_back_covers:
  assumes "writeBackToOwner h spec owner g mode members st = (out, st')"
    and g: "gp_usable spec (Some g)" "gp_complete spec (Some g)" "json_ok (JObj g)"
    and "out \<noteq> Account_Mismatch"
  shows "vault_covers h spec newer chain st' g owner"
proof -
  let ?l = "load_grant h spec st (i_configDir owner)"
  show ?thesis
  proof (cases "ld_grant ?l")
    case None
    with usable_None have unusable: "\<not> gp_usable spec (ld_grant ?l)" by simp
    from writeBack_cases[OF assms(1)] assms(5) unusable taken_whole[of g mode] obtain n where
      "n = g" "gs_files st' = (gs_files st)(fileOf h spec (i_configDir owner) \<mapsto> Doc (JObj n))" by fastforce
    with g load_written[of st' st h spec "i_configDir owner"] show ?thesis
      unfolding vault_covers_def by blast
  next
    case (Some ow)
    show ?thesis
    proof (cases "gp_usable spec (Some ow)")
      case False
      with writeBack_cases[OF assms(1)] assms(5) Some taken_whole[of g mode] obtain n where
        "n = g" "gs_files st' = (gs_files st)(fileOf h spec (i_configDir owner) \<mapsto> Doc (JObj n))" by fastforce
      with g load_written[of st' st h spec "i_configDir owner"] show ?thesis
        unfolding vault_covers_def by blast
    next
      case True
      from assms(1) assms(5) Some True have id: "gi_id (gp_identity spec (Some ow)) = gi_id (gp_identity spec (Some g))"
        by (auto simp: writeBackToOwner_def Let_def load_grant_who split: if_splits)
      let ?next = "Option.bind (gp_newerInto spec (Some ow) g mode (otherGrants h spec st owner members)) gm_next"
      from writeBack_cases[OF assms(1)] assms(5) Some True consider
        (same) "st' = st" "gp_fingerprint spec ow = gp_fingerprint spec g"
        | (member) "?next = None" "gs_files st' = gs_files st"
        | (written) n where "?next = Some n"
            "gs_files st' = (gs_files st)(fileOf h spec (i_configDir owner) \<mapsto> Doc (JObj n))"
        by auto
      then show ?thesis
      proof cases
        case same
        with Some True id show ?thesis by (auto simp: vault_covers_def)
      next
        case member
        from kept[OF True g(1,3) member(1)] Some True id load_grant_files[OF member(2)]
        show ?thesis by (auto simp: vault_covers_def)
      next
        case written
        from moved[OF True g id written(1)] load_written[OF written(2)] show ?thesis
          by (auto simp: vault_covers_def)
      qed
    qed
  qed
qed

lemma swap_keeps_live:
  assumes "swapHeld h spec inp held st = (Finished r, st')"
    and live: "ld_grant (load_grant h spec st (i_configDir (sc_pool inp))) = Some g"
    and g: "gp_usable spec (Some g)" "gp_complete spec (Some g)" "json_ok (JObj g)"
    and apart: "\<forall>m \<in> set (sc_members inp). fileOf h spec (i_configDir m) \<noteq> fileOf h spec (i_configDir (sc_pool inp))"
  shows "fr_noop r \<and> st' = st \<or>
    (\<exists>text. gs_files st (fileOf h spec (i_configDir (sc_pool inp))) = Some text \<and>
       (fileOf h spec (i_configDir (sc_pool inp)), Swap_Backup, text) \<in> set (gs_backups st')) \<or>
    (\<exists>m \<in> set (sc_members inp). vault_covers h spec newer chain st' g m)"
proof (cases "fr_noop r")
  case True
  with swapHeld_Finished[OF assms(1)] show ?thesis by simp
next
  case False
  let ?live = "load_grant h spec st (i_configDir (sc_pool inp))"
  let ?path = "fileOf h spec (i_configDir (sc_pool inp))"
  from swapHeld_Finished[OF assms(1)] False obtain ns st1 st2 tx where
    save: "save_live h spec inp held ?live st = Inr (fr_writeBack r, ns, st1)"
    and files: "gs_files st2 = gs_files st1"
    and backup: "fr_writeBack r \<in> {Unknown_Owner, Account_Mismatch} \<longrightarrow>
          (\<forall>text. ld_text ?live = Some text \<longrightarrow> (?path, Swap_Backup, text) \<in> set (gs_backups st2))"
    and st': "st' = writeText h spec (i_configDir (sc_pool inp)) tx st2"
    by auto
  obtain text0 where text0: "ld_text ?live = Some text0" "gs_files st ?path = Some text0"
    using live by (cases "gs_files st ?path") (auto simp: load_grant_def Let_def readText_def)
  show ?thesis
  proof (cases "fr_writeBack r \<in> {Unknown_Owner, Account_Mismatch}")
    case True
    with backup text0 have "(?path, Swap_Backup, text0) \<in> set (gs_backups st')"
      by (auto simp: st' writeText_def)
    with text0(2) show ?thesis by blast
  next
    case ok: False
    with save live g(1) obtain owner mode where owner: "owner \<in> set (sc_members inp)"
      and wb: "writeBackToOwner h spec owner g mode (sc_members inp) st = (fr_writeBack r, st1)"
      by (auto simp: save_live_def Let_def bind_eq_Some_conv dest!: ownerByAccount_Some
          split: if_splits option.splits prod.splits)
    from write_back_covers[OF wb g] ok have "vault_covers h spec newer chain st1 g owner" by simp
    moreover have "load_grant h spec st' (i_configDir owner) = load_grant h spec st1 (i_configDir owner)"
      using apart owner files by (intro load_grant_cong) (simp add: st' readText_def writeText_def)
    ultimately show ?thesis using owner by (auto simp: vault_covers_def)
  qed
qed

end

section \<open>Kimi and Pi keep the contract\<close>

definition kimi_newer :: "grant \<Rightarrow> grant \<Rightarrow> bool" where
  "kimi_newer p ow \<longleftrightarrow> num_less (kimi_expiry ow) (kimi_expiry p)"

definition kimi_chain :: "grant \<Rightarrow> json option \<times> json option" where
  "kimi_chain g = (gfield (Some g) ''access_token'', gfield (Some g) ''refresh_token'')"

lemma map_of_obj_merge': "json_ok (JObj p) \<Longrightarrow> map_of (obj_merge ow p) k =
    (case map_of p k of Some v \<Rightarrow> Some v | None \<Rightarrow> map_of ow k)"
  by (rule map_of_obj_merge) simp

lemma nonEmpty_Some: "nonEmpty v \<Longrightarrow> \<exists>s. v = Some (JStr s) \<and> s \<noteq> ''''"
  by (auto simp: nonEmpty_def split: option.splits json.splits)

interpretation kimi: grant_merge_contract "kimiSpec decode num fetch" kimi_newer kimi_chain
  for decode num fetch
proof
  show "\<not> gp_usable (kimiSpec decode num fetch) None"
    by (simp add: kimiSpec_def gfield_def nonEmpty_def)
  show "Option.bind (gp_newerInto (kimiSpec decode num fetch) None p mode others) gm_next = Some p" for p mode others
    by (simp add: kimiSpec_def kimi_newerInto_def)
next
  fix ow p mode others n
  assume p: "gp_complete (kimiSpec decode num fetch) (Some p)" "json_ok (JObj p)"
    and next_n: "Option.bind (gp_newerInto (kimiSpec decode num fetch) (Some ow) p mode others) gm_next = Some n"
  from next_n have n: "n = obj_merge ow p"
    by (auto simp: kimiSpec_def kimi_newerInto_def Let_def split: if_splits)
  from p(1) obtain a r where ar: "map_of p ''access_token'' = Some (JStr a)" "a \<noteq> ''''"
    "map_of p ''refresh_token'' = Some (JStr r)"
    by (auto simp: kimiSpec_def gfield_def dest!: nonEmpty_Some)
  with p(2) have "map_of n ''access_token'' = Some (JStr a)" "map_of n ''refresh_token'' = Some (JStr r)"
    by (simp_all add: n map_of_obj_merge' del: json_ok.simps)
  with ar show "gp_usable (kimiSpec decode num fetch) (Some n) \<and>
      gi_id (gp_identity (kimiSpec decode num fetch) (Some n)) = gi_id (gp_identity (kimiSpec decode num fetch) (Some p)) \<and>
      (kimi_chain n = kimi_chain p \<or> \<not> kimi_newer p n)"
    by (simp add: kimiSpec_def gfield_def nonEmpty_def kimi_chain_def)
next
  fix ow p mode others
  assume none: "Option.bind (gp_newerInto (kimiSpec decode num fetch) (Some ow) p mode others) gm_next = None"
  show "kimi_chain ow = kimi_chain p \<or> \<not> kimi_newer p ow"
    using none by (auto simp: kimiSpec_def kimi_newerInto_def Let_def kimi_chain_def kimi_newer_def
        dest: js_strict_eq_eq split: if_splits)
qed

text \<open>The loop of the Pi merge decides the account entry once.\<close>

definition pi_moves :: "grant \<Rightarrow> grant \<Rightarrow> bool" where
  "pi_moves ow p \<longleftrightarrow> isOauth ow \<and> isOauth p \<and> newer_entry p ow \<and> \<not> same_tokens p ow"

lemma pi_step_other:
  "fst entry \<noteq> KIMI_ENTRY \<Longrightarrow>
     map_of (fst (pi_merge_step decode owner mode others entry acc)) KIMI_ENTRY = map_of (fst acc) KIMI_ENTRY \<and>
     (snd (snd acc) \<longrightarrow> snd (snd (pi_merge_step decode owner mode others entry acc)))"
  by (cases entry; cases acc)
    (auto simp: pi_merge_step_def map_of_obj_put Let_def split: option.split json.split)

lemma pi_step_kimi:
  assumes "map_of owner KIMI_ENTRY = Some (JObj ow)"
  shows "pi_merge_step decode owner mode others (KIMI_ENTRY, p) (next, backup, changed) =
    (if pi_moves ow p then (obj_put KIMI_ENTRY (JObj (obj_merge ow p)) next, backup, True) else (next, backup, changed))"
  using assms by (auto simp: pi_merge_step_def pi_moves_def)

lemma pi_fold_other:
  "KIMI_ENTRY \<notin> fst ` set es \<Longrightarrow>
     map_of (fst (fold (pi_merge_step decode owner mode others) es acc)) KIMI_ENTRY = map_of (fst acc) KIMI_ENTRY \<and>
     (snd (snd acc) \<longrightarrow> snd (snd (fold (pi_merge_step decode owner mode others) es acc)))"
proof (induction es arbitrary: acc)
  case (Cons e es)
  then have "fst e \<noteq> KIMI_ENTRY" "KIMI_ENTRY \<notin> fst ` set es" by auto
  with Cons.IH[of "pi_merge_step decode owner mode others e acc"]
    pi_step_other[of e decode owner mode others acc] show ?case by simp
qed simp

lemma pi_fold_kimi:
  assumes "distinct (map fst es)" "map_of es KIMI_ENTRY = Some p" "map_of owner KIMI_ENTRY = Some (JObj ow)"
  shows "let out = fold (pi_merge_step decode owner mode others) es (owner, backup, changed) in
    map_of (fst out) KIMI_ENTRY = Some (JObj (if pi_moves ow p then obj_merge ow p else ow)) \<and>
    (pi_moves ow p \<longrightarrow> snd (snd out))"
proof -
  let ?f = "fold (pi_merge_step decode owner mode others)"
  from assms(2) obtain as bs where es: "es = as @ (KIMI_ENTRY, p) # bs"
    by (metis map_of_SomeD split_list)
  with assms(1) have apart: "KIMI_ENTRY \<notin> fst ` set as" "KIMI_ENTRY \<notin> fst ` set bs" by auto
  obtain nx b c where a: "?f as (owner, backup, changed) = (nx, b, c)" by (cases "?f as (owner, backup, changed)")
  with pi_fold_other[OF apart(1), of decode owner mode others "(owner, backup, changed)"] assms(3)
  have nx: "map_of nx KIMI_ENTRY = Some (JObj ow)" by simp
  show ?thesis
    using pi_fold_other[OF apart(2), of decode owner mode others
        "pi_merge_step decode owner mode others (KIMI_ENTRY, p) (nx, b, c)"] nx
    by (cases "pi_moves ow p")
      (simp_all add: es a pi_step_kimi[OF assms(3)] map_of_obj_put Let_def del: obj_put.simps)
qed

lemma entries_keys: "set (map fst (entries g)) \<subseteq> set (map fst g)"
  by (force simp: entries_def map_filter_set)

lemma entries_distinct: "distinct (map fst g) \<Longrightarrow> distinct (map fst (entries g))"
proof (induction g)
  case (Cons kv g)
  obtain k v where kv: "kv = (k, v)" by (cases kv)
  have "k \<notin> set (map fst (entries g))" using Cons.prems kv entries_keys[of g] by auto
  with Cons kv show ?case by (cases "as_object v") (auto simp: entries_def map_filter_simps)
qed (simp add: entries_def map_filter_simps)

lemma map_of_entries: "distinct (map fst g) \<Longrightarrow> map_of (entries g) k = Option.bind (map_of g k) as_object"
proof (induction g)
  case (Cons kv g)
  obtain k' v where kv: "kv = (k', v)" by (cases kv)
  have "k' \<notin> fst ` set (entries g)" using Cons.prems kv entries_keys[of g] by auto
  then have "map_of (entries g) k' = None" by (simp add: map_of_eq_None_iff)
  with Cons kv show ?case by (cases "as_object v") (auto simp: entries_def map_filter_simps)
qed (simp add: entries_def map_filter_simps)

definition pi_newer :: "grant \<Rightarrow> grant \<Rightarrow> bool" where
  "pi_newer p ow \<longleftrightarrow> (\<exists>pe \<in> set_option (kimiEntry (Some p)). \<exists>oe \<in> set_option (kimiEntry (Some ow)). newer_entry pe oe)"

definition pi_chain :: "grant \<Rightarrow> json option \<times> json option" where
  "pi_chain g = (gfield (kimiEntry (Some g)) ''access'', gfield (kimiEntry (Some g)) ''refresh'')"

lemma kimiEntry_Some: "kimiEntry (Some g) = Some e \<longleftrightarrow> map_of g KIMI_ENTRY = Some (JObj e) \<and> isOauth e"
  by (auto simp: kimiEntry_def gfield_def split: option.splits json.splits if_splits)

lemma pi_usable: "nonEmpty (gfield (kimiEntry (Some g)) ''access'') \<Longrightarrow>
    \<exists>e. map_of g KIMI_ENTRY = Some (JObj e) \<and> isOauth e \<and> kimiEntry (Some g) = Some e"
proof -
  assume "nonEmpty (gfield (kimiEntry (Some g)) ''access'')"
  then have "kimiEntry (Some g) \<noteq> None" by (cases "kimiEntry (Some g)") (auto simp: nonEmpty_def gfield_def)
  then obtain e where e: "kimiEntry (Some g) = Some e" by auto
  then have "map_of g KIMI_ENTRY = Some (JObj e)" "isOauth e" by (simp_all only: kimiEntry_Some)
  with e show ?thesis by blast
qed

text \<open>What the Pi merge does to the account entry of a usable owner.\<close>

lemma pi_newerInto_entry:
  assumes "map_of ow KIMI_ENTRY = Some (JObj oe)" "map_of p KIMI_ENTRY = Some (JObj pe)" "json_ok (JObj p)"
  shows "case Option.bind (pi_newerInto decode (Some ow) p mode others) gm_next of
      None \<Rightarrow> \<not> pi_moves oe pe
    | Some n \<Rightarrow> map_of n KIMI_ENTRY = Some (JObj (if pi_moves oe pe then obj_merge oe pe else oe))"
proof -
  have d: "distinct (map fst p)" using assms(3) by simp
  obtain nx b c where out: "fold (pi_merge_step decode ow mode others) (entries p) (ow, [], False) = (nx, b, c)"
    by (cases "fold (pi_merge_step decode ow mode others) (entries p) (ow, [], False)")
  have entry: "map_of (entries p) KIMI_ENTRY = Some pe" using map_of_entries[OF d] assms(2) by simp
  from pi_fold_kimi[OF entries_distinct[OF d] entry assms(1), of decode mode others "[]" False] out
  have "map_of nx KIMI_ENTRY = Some (JObj (if pi_moves oe pe then obj_merge oe pe else oe))" "pi_moves oe pe \<longrightarrow> c"
    by (simp_all add: Let_def)
  then show ?thesis by (auto simp: pi_newerInto_def out split: if_splits)
qed

interpretation pi: grant_merge_contract "piSpec decode num fetch" pi_newer pi_chain
  for decode num fetch
proof
  show "\<not> gp_usable (piSpec decode num fetch) None"
    by (simp add: piSpec_def kimiEntry_def gfield_def nonEmpty_def)
  show "Option.bind (gp_newerInto (piSpec decode num fetch) None p mode others) gm_next = Some p" for p mode others
    by (simp add: piSpec_def pi_newerInto_def)
next
  fix ow p mode others n
  assume u: "gp_usable (piSpec decode num fetch) (Some ow)" "gp_usable (piSpec decode num fetch) (Some p)"
    and p: "gp_complete (piSpec decode num fetch) (Some p)" "json_ok (JObj p)"
    and id: "gi_id (gp_identity (piSpec decode num fetch) (Some ow)) = gi_id (gp_identity (piSpec decode num fetch) (Some p))"
    and next_n: "Option.bind (gp_newerInto (piSpec decode num fetch) (Some ow) p mode others) gm_next = Some n"
  from u obtain oe pe where oe: "map_of ow KIMI_ENTRY = Some (JObj oe)" "isOauth oe" "kimiEntry (Some ow) = Some oe"
    and pe: "map_of p KIMI_ENTRY = Some (JObj pe)" "isOauth pe" "kimiEntry (Some p) = Some pe"
    by (auto simp: piSpec_def dest!: pi_usable)
  from pi_newerInto_entry[OF oe(1) pe(1) p(2), of decode mode others] next_n
  have n: "map_of n KIMI_ENTRY = Some (JObj (if pi_moves oe pe then obj_merge oe pe else oe))"
    by (simp add: piSpec_def)
  have ok: "json_ok (JObj pe)" using json_ok_get[OF p(2) pe(1)] .
  show "gp_usable (piSpec decode num fetch) (Some n) \<and>
      gi_id (gp_identity (piSpec decode num fetch) (Some n)) = gi_id (gp_identity (piSpec decode num fetch) (Some p)) \<and>
      (pi_chain n = pi_chain p \<or> \<not> pi_newer p n)"
  proof (cases "pi_moves oe pe")
    case True
    have valid: "validEntry pe" using p(1) pe(1) by (fastforce simp: piSpec_def pi_complete_def dest: map_of_SomeD)
    with pe(2) obtain a r where ar: "map_of pe ''access'' = Some a" "map_of pe ''refresh'' = Some r"
      by (auto simp: validEntry_def isOauth_def elim!: is_str.elims)
    have get: "map_of (obj_merge oe pe) ''access'' = Some a" "map_of (obj_merge oe pe) ''refresh'' = Some r"
      using map_of_obj_merge'[OF ok] ar by simp_all
    have "isOauth (obj_merge oe pe)" using pe(2) map_of_obj_merge'[OF ok] by (simp add: isOauth_def)
    with n True have kn: "kimiEntry (Some n) = Some (obj_merge oe pe)" by (simp add: kimiEntry_Some)
    show ?thesis using u(2) pe(3) ar get kn by (simp add: piSpec_def pi_chain_def gfield_def)
  next
    case False
    with n oe(2) have kn: "kimiEntry (Some n) = Some oe" by (simp add: kimiEntry_Some)
    have "pi_chain n = pi_chain p \<or> \<not> pi_newer p n"
      using False oe(2) pe(2,3) kn
      by (auto simp: pi_moves_def pi_newer_def pi_chain_def gfield_def same_tokens_def dest!: js_strict_eq_eq)
    with u(1) id oe(3) kn show ?thesis by (simp add: piSpec_def)
  qed
next
  fix ow p mode others
  assume u: "gp_usable (piSpec decode num fetch) (Some ow)" "gp_usable (piSpec decode num fetch) (Some p)"
    and ok: "json_ok (JObj p)"
    and none: "Option.bind (gp_newerInto (piSpec decode num fetch) (Some ow) p mode others) gm_next = None"
  from u obtain oe pe where oe: "map_of ow KIMI_ENTRY = Some (JObj oe)" "isOauth oe" "kimiEntry (Some ow) = Some oe"
    and pe: "map_of p KIMI_ENTRY = Some (JObj pe)" "isOauth pe" "kimiEntry (Some p) = Some pe"
    by (auto simp: piSpec_def dest!: pi_usable)
  from pi_newerInto_entry[OF oe(1) pe(1) ok, of decode mode others] none
  have "\<not> pi_moves oe pe" by (simp add: piSpec_def)
  with oe pe show "pi_chain ow = pi_chain p \<or> \<not> pi_newer p ow"
    by (auto simp: pi_moves_def pi_newer_def pi_chain_def gfield_def same_tokens_def dest!: js_strict_eq_eq)
qed

end
