(* ===== verification/Grant_Pool.thy ===== *)
theory Grant_Pool
  imports Grant_Laws
begin

text \<open>
  The grant-file adapters inside the pool core: they keep the adapter contract, so a swap of a
  Kimi or Pi pool leaves registry, ledger and pool folder in agreement; and the swap of either
  tool loses no live grant.
\<close>

section \<open>The adapter contract\<close>

lemma swapHeld_leaves_login:
  assumes "swapHeld h spec inp held st = (Finished r, st')"
  shows "gp_usable spec (ld_grant (load_grant h spec st' (i_configDir (sc_pool inp))))"
proof (cases "fr_noop r")
  case True
  with swapHeld_Finished[OF assms] show ?thesis by simp
next
  case False
  obtain st2 :: grant_store and t2 :: loaded where t2: "ld_text t2 \<noteq> None" "gp_usable spec (ld_grant t2)"
      "ld_grant t2 = parseGrantFile (ld_text t2)"
    and st': "st' = writeText h spec (i_configDir (sc_pool inp)) (the (ld_text t2)) st2"
    using swapHeld_Finished[OF assms] unfolding if_not_P[OF False] by (elim conjE exE) blast
  then have "ld_grant (load_grant h spec st' (i_configDir (sc_pool inp))) = ld_grant t2"
    by (auto simp: load_grant_def Let_def)
  with t2(2) show ?thesis by simp
qed

lemma swapCredentials_Finished:
  assumes "swapCredentials h spec env inp st = (Inr r, st')"
  shows "\<exists>held s. swapHeld h spec inp held s = (Finished r, st')"
proof (cases "lock_rounds (Suc (length (sc_members inp))) (swapHeld h spec inp) env h
    (i_configDir (sc_pool inp)) (swap_wanted inp) st")
  case (Some x)
  with assms have "lock_rounds (Suc (length (sc_members inp))) (swapHeld h spec inp) env h
    (i_configDir (sc_pool inp)) (swap_wanted inp) st = Some (Inr r, st')"
    by (simp add: swapCredentials_def)
  then show ?thesis by (rule lock_rounds_Inr)
qed (use assms in \<open>simp add: swapCredentials_def\<close>)

interpretation grant_adapter: pool_adapter_contract "createGrantFileAdapter h spec settle env"
  for h spec settle env
proof
  fix inp c r c'
  assume "pa_swapCredentials (createGrantFileAdapter h spec settle env) inp c = (Inr r, c')"
  then have "swapCredentials h spec env inp c = (Inr r, c')" by (simp add: createGrantFileAdapter_def)
  then obtain held s where fin: "swapHeld h spec inp held s = (Finished r, c')"
    using swapCredentials_Finished by blast
  note facts = swapHeld_Finished[OF fin] swapHeld_leaves_login[OF fin]
  show "fr_pool r = i_name (sc_pool inp) \<and> fr_to r = i_name (sc_target inp) \<and>
      fr_from r = sp_active (pool_config (sc_pool inp))" using facts by simp
  show "fr_from r = Some (fr_to r)" if "fr_noop r" using facts that by simp
  show "pa_hasCredentials (createGrantFileAdapter h spec settle env) c' (i_configDir (sc_pool inp))"
    using facts by (simp add: createGrantFileAdapter_def)
qed

section \<open>Registry, ledger and pool folder agree\<close>

text \<open>Nothing but credentials changes while the adapter works.\<close>

definition only_creds :: "'c interference \<Rightarrow> bool" where
  "only_creds intf \<longleftrightarrow> (\<forall>w. pw_registry (in_creds intf w) = pw_registry w \<and>
     pw_ledger (in_creds intf w) = pw_ledger w \<and> pw_creds (in_creds intf w) = pw_creds w)"

lemma set_active_find:
  "find (\<lambda>j. i_name j = name) ids = Some i \<Longrightarrow>
     find (\<lambda>j. i_name j = name) (set_active name target ids) =
       Some (i\<lparr> i_swapPool := map_option (\<lambda>p. p\<lparr> sp_active := Some target \<rparr>) (i_swapPool i) \<rparr>)"
  by (induction ids) (auto split: if_splits)

lemma active_after_append:
  assumes "event_ok h e" "\<forall>e' \<in> set (readSwapEvents h l). event_time h e' \<le> event_time h e"
  shows "activeMemberAt h (readSwapEvents h (l @ [Some (encode_event e)])) (se_pool e) (event_time h e) = Some (se_to e)"
proof -
  have "List.map_filter (\<lambda>line. Option.bind line (decode_event h)) (l @ [Some (encode_event e)]) =
      List.map_filter (\<lambda>line. Option.bind line (decode_event h)) l @ [e]"
    using decode_encode_event[OF assms(1)] by (simp add: map_filter_def)
  then have read: "readSwapEvents h (l @ [Some (encode_event e)]) =
      filter (\<lambda>e'. event_time h e' \<le> event_time h e) (readSwapEvents h l) @ [e] @
      filter (\<lambda>e'. event_time h e < event_time h e') (readSwapEvents h l)"
    by (simp add: readSwapEvents_def sort_key_snoc)
  have "filter (\<lambda>e'. event_time h e < event_time h e') (readSwapEvents h l) = []"
    using assms(2) by (auto simp: filter_empty_conv)
  with read obtain ys where ys: "filter (\<lambda>e'. se_pool e' = se_pool e \<and> event_time h e' \<le> event_time h e)
      (readSwapEvents h (l @ [Some (encode_event e)])) = ys @ [e]" by simp
  have "(case ys @ [e] of [] \<Rightarrow> None | x # xs \<Rightarrow> Some (se_to (last (x # xs)))) = Some (se_to e)"
    by (cases ys) auto
  then show ?thesis
    unfolding activeMemberAt_def
    by (subst active_loop_late[OF readSwapEvents_sorted]) (simp_all add: readSwapEvents_parse ys)
qed

text \<open>What a finished swap leaves: the registry's active member, the ledger's, and the folder.\<close>

definition pool_agrees :: "host_env \<Rightarrow> 'c pool_adapter \<Rightarrow> string \<Rightarrow> string \<Rightarrow> 'c pool_world \<Rightarrow> int \<Rightarrow> bool" where
  "pool_agrees h ad name member w now \<longleftrightarrow>
     (\<exists>file i. loadIdentitiesFile h (pw_registry w) = Inr file \<and>
        find (\<lambda>j. i_name j = name) (f_identities file) = Some i \<and>
        sp_active (pool_config i) = Some member \<and> pa_hasCredentials ad (pw_creds w) (i_configDir i) \<and>
        activeMemberAt h (readSwapEvents h (pw_ledger w)) name now = Some member)"

context pool_adapter_contract
begin

lemma swap_agrees:
  assumes "homes_ok h" "in_lock intf w = Inr w1" "performPoolSwap h ad opts intf w = (Inr r, w')" "only_creds intf"
    and "he_date_parse h (so_ts opts) = Some now" "so_reason opts \<in> {Manual, Auto, Launch}"
    and "\<forall>e \<in> set (readSwapEvents h (pw_ledger w1)). event_time h e \<le> now"
    and noop: "fr_noop r \<Longrightarrow> activeMemberAt h (readSwapEvents h (pw_ledger w1)) (fr_pool r) now = fr_from r"
  shows "pool_agrees h ad (fr_pool r) (fr_to r) w' now"
proof -
  from performPoolSwap_locked[OF assms(3,2)] have "swapLocked h ad opts intf w1 = (Inr r, w')" by auto
  from swapLocked_Inr[OF this] obtain reg pool target c fs fresh where
    chk: "swap_checks h ad opts w1 = Inr (reg, pool, target)"
    and sw: "pa_swapCredentials ad (swap_input_of opts reg pool target) (pw_creds w1) = (Inr fs, c)"
    and load: "loadIdentitiesFile h (pw_registry (in_creds intf (w1\<lparr> pw_creds := c \<rparr>))) = Inr fresh"
    and r: "r = fs_result.extend fs \<lparr> sr_reason = so_reason opts, sr_runningSessions = running_sessions ad pool fs target \<rparr>"
    and w': "w' = (in_creds intf (w1\<lparr> pw_creds := c \<rparr>))\<lparr>
      pw_registry := persist_active h (i_name pool) (i_name target) fresh
        (pw_registry (in_creds intf (w1\<lparr> pw_creds := c \<rparr>))),
      pw_ledger := (if fr_noop fs then pw_ledger (in_creds intf (w1\<lparr> pw_creds := c \<rparr>))
        else appendSwapEvent (swap_event_of opts pool fs target)
          (pw_ledger (in_creds intf (w1\<lparr> pw_creds := c \<rparr>)))) \<rparr>"
    unfolding Let_def by blast
  have only: "pw_registry (in_creds intf (w1\<lparr> pw_creds := c \<rparr>)) = pw_registry w1"
    "pw_ledger (in_creds intf (w1\<lparr> pw_creds := c \<rparr>)) = pw_ledger w1"
    "pw_creds (in_creds intf (w1\<lparr> pw_creds := c \<rparr>)) = c"
    using assms(4) by (simp_all add: only_creds_def)
  note checks = swap_checks_Inr[OF chk]
  have fresh: "fresh = reg" using load checks(1) only by simp
  have reports: "fr_pool fs = i_name pool" "fr_to fs = i_name target" "fr_from fs = sp_active (pool_config pool)"
    using swap_reports[OF sw] by (simp_all add: swap_input_of_def)
  have r_fields: "fr_pool r = i_name pool" "fr_to r = i_name target" "fr_noop r = fr_noop fs" "fr_from r = fr_from fs"
    using reports by (simp_all add: r fs_result.defs)
  have pool: "pool \<in> set (f_identities reg)" "isSwapPool pool" using poolsOf_mem[OF checks(2)] by auto
  have "distinct (map i_name (f_identities reg))"
    using loaded_registry_ok[OF assms(1) checks(1)] by (auto simp: registry_ok_def registry_wf_def intro: keys_distinct_names)
  from find_name[OF this pool(1)] have found: "find (\<lambda>j. i_name j = i_name pool) (f_identities reg) = Some pool" .
  have "still_account (i_name pool) (i_name target) reg" using found checks(6) by (simp add: still_account_def)
  from persist_active_load[OF assms(1) _ this] checks(1) have
    load': "loadIdentitiesFile h (pw_registry w') =
      Inr (reg\<lparr> f_identities := set_active (i_name pool) (i_name target) (f_identities reg) \<rparr>)"
    by (simp add: w' only fresh)
  let ?i = "pool\<lparr> i_swapPool := map_option (\<lambda>p. p\<lparr> sp_active := Some (i_name target) \<rparr>) (i_swapPool pool) \<rparr>"
  have active: "sp_active (pool_config ?i) = Some (i_name target)"
    using pool(2) by (auto simp: isSwapPool_def pool_config_def)
  have login: "pa_hasCredentials ad (pw_creds w') (i_configDir ?i)"
    using swap_leaves_login[OF sw] only by (simp add: w' swap_input_of_def)
  have "activeMemberAt h (readSwapEvents h (pw_ledger w')) (i_name pool) now = Some (i_name target)"
  proof (cases "fr_noop fs")
    case True
    with noop swap_noop[OF sw True] reports r_fields show ?thesis by (simp add: w' only)
  next
    case False
    let ?e = "swap_event_of opts pool fs target"
    have e: "event_ok h ?e" "event_time h ?e = now" "se_pool ?e = i_name pool" "se_to ?e = i_name target"
      using assms(5,6) by (auto simp: event_ok_def event_time_def swap_event_of_def)
    show ?thesis using active_after_append[OF e(1), of "pw_ledger w1"] assms(7) e False
      by (simp add: w' only appendSwapEvent_def)
  qed
  with load' set_active_find[OF found] active login r_fields show ?thesis by (auto simp: pool_agrees_def)
qed

end


definition kimi_file :: "string \<Rightarrow> int \<Rightarrow> file_text" where
  "kimi_file account n = Doc (JObj [(''access_token'', JStr (''h.'' @ account)),
     (''refresh_token'', JStr (''h.'' @ account @ ''.r'')), (''expires_at'', JNum (Fin (of_int n)))])"

definition example_kimi_world :: "grant_store pool_world" where
  "example_kimi_world = \<lparr> pw_registry = Parsed example_registry_json, pw_ledger = [],
     pw_creds = \<lparr> gs_files = [''/c/a/credentials/kimi-code.json'' \<mapsto> kimi_file ''ta'' 5,
                             ''/c/b/credentials/kimi-code.json'' \<mapsto> kimi_file ''tb'' 7,
                             ''/c/p/credentials/kimi-code.json'' \<mapsto> kimi_file ''ta'' 6],
                  gs_backups = [] \<rparr> \<rparr>"

definition kimi_to_b :: "(unit, grant_store) swap_options" where
  "kimi_to_b = \<lparr> so_pool = None, so_target = ''b'', so_reason = Manual, so_force = False,
     so_ts = ''t1'', so_hardLimitUntilMs = None, so_guard = (\<lambda>_ _. None) \<rparr>"

abbreviation example_kimi_run :: "(unit swap_exn + swap_result) \<times> grant_store pool_world" where
  "example_kimi_run \<equiv> performPoolSwap example_ledger_env
     (createGrantFileAdapter example_ledger_env example_kimi (\<lambda>s. s) (\<lambda>s. s)) kimi_to_b quiet example_kimi_world"


section \<open>No live grant is lost\<close>

text \<open>What may have become of the grant \<open>g\<close> a pool folder held before a swap.\<close>

definition grant_kept :: "host_env \<Rightarrow> grant_spec \<Rightarrow> (grant \<Rightarrow> grant \<Rightarrow> bool) \<Rightarrow> (grant \<Rightarrow> json option \<times> json option) \<Rightarrow>
    swap_input \<Rightarrow> grant_store \<Rightarrow> grant_store \<Rightarrow> grant \<Rightarrow> bool" where
  "grant_kept h spec newer chain inp st st' g \<longleftrightarrow>
     st' = st \<or>
     (\<exists>text. gs_files st (fileOf h spec (i_configDir (sc_pool inp))) = Some text \<and>
        (fileOf h spec (i_configDir (sc_pool inp)), Swap_Backup, text) \<in> set (gs_backups st')) \<or>
     (\<exists>m \<in> set (sc_members inp). vault_covers h spec newer chain st' g m)"

context grant_merge_contract
begin

lemma swap_credentials_keep:
  assumes "swapCredentials h spec (\<lambda>s. s) inp st = (Inr r, st')"
    and "ld_grant (load_grant h spec st (i_configDir (sc_pool inp))) = Some g"
    and "gp_usable spec (Some g)" "gp_complete spec (Some g)" "json_ok (JObj g)"
    and "\<forall>m \<in> set (sc_members inp). fileOf h spec (i_configDir m) \<noteq> fileOf h spec (i_configDir (sc_pool inp))"
  shows "grant_kept h spec newer chain inp st st' g"
proof -
  from assms(1) have "lock_rounds (Suc (length (sc_members inp))) (swapHeld h spec inp) (\<lambda>s. s) h
      (i_configDir (sc_pool inp)) (swap_wanted inp) st = Some (Inr r, st')"
    by (auto simp: swapCredentials_def split: option.splits)
  from lock_rounds_quiet[OF this] swapHeld_Need_Lock obtain held where "swapHeld h spec inp held st = (Finished r, st')"
    by blast
  from swap_keeps_live[OF this assms(2-6)] show ?thesis unfolding grant_kept_def by blast
qed

end


text \<open>The same for Pi, whose credential file holds the login beside entries of other providers: the
  account entry of the pool's file survives in the vault of a member or the file in a backup.\<close>

theorem pi_swap_keeps_grant:
  assumes "swapCredentials h (piSpec decode num fetch) (\<lambda>s. s) inp st = (Inr r, st')"
    and "ld_grant (load_grant h (piSpec decode num fetch) st (i_configDir (sc_pool inp))) = Some g"
    and "gp_usable (piSpec decode num fetch) (Some g)" "gp_complete (piSpec decode num fetch) (Some g)" "json_ok (JObj g)"
    and "\<forall>m \<in> set (sc_members inp). fileOf h (piSpec decode num fetch) (i_configDir m) \<noteq>
      fileOf h (piSpec decode num fetch) (i_configDir (sc_pool inp))"
  shows "grant_kept h (piSpec decode num fetch) pi_newer pi_chain inp st st' g"
  by (rule pi.swap_credentials_keep[OF assms])


definition example_kimi_store :: grant_store where
  "example_kimi_store = \<lparr> gs_files = [''/c/a/credentials/kimi-code.json'' \<mapsto> kimi_file ''ta'' 5,
      ''/c/b/credentials/kimi-code.json'' \<mapsto> kimi_file ''tb'' 7,
      ''/p/credentials/kimi-code.json'' \<mapsto> kimi_file ''ta'' 6], gs_backups = [] \<rparr>"

definition grant_of :: "file_text \<Rightarrow> grant" where
  "grant_of t = (case t of Doc (JObj kvs) \<Rightarrow> kvs | _ \<Rightarrow> [])"

lemma run_of: "is_ok (fst run) \<Longrightarrow> \<exists>r. run = (Inr r, snd run)"
  by (cases run) (auto simp: is_ok_iff)


definition example_pi :: grant_spec where
  "example_pi = piSpec (\<lambda>s. Some (JObj [(''sub'', JStr s)])) (\<lambda>_. ''0'') (\<lambda>_. Inl NonInteractiveResolutionError)"

definition pi_file :: "string \<Rightarrow> int \<Rightarrow> file_text" where
  "pi_file account n = Doc (JObj [(KIMI_ENTRY, JObj [(''type'', JStr ''oauth''), (''access'', JStr (''h.'' @ account)),
     (''refresh'', JStr (''h.'' @ account @ ''.r'')), (''expires'', JNum (Fin (of_int n)))])])"

definition example_pi_store :: grant_store where
  "example_pi_store = \<lparr> gs_files = [''/c/a/auth.json'' \<mapsto> pi_file ''ta'' 5, ''/c/b/auth.json'' \<mapsto> pi_file ''tb'' 7,
      ''/p/auth.json'' \<mapsto> pi_file ''ta'' 6], gs_backups = [] \<rparr>"

theorem pi_swap_keeps_grant_witness:
  "grant_kept example_env example_pi pi_newer pi_chain example_swap_input example_pi_store
     (snd (swapCredentials example_env example_pi (\<lambda>s. s) example_swap_input example_pi_store))
     (grant_of (pi_file ''ta'' 6))"
proof -
  have ok: "is_ok (fst (swapCredentials example_env example_pi (\<lambda>s. s) example_swap_input example_pi_store))"
    by code_simp
  obtain r where run: "swapCredentials example_env example_pi (\<lambda>s. s) example_swap_input example_pi_store =
      (Inr r, snd (swapCredentials example_env example_pi (\<lambda>s. s) example_swap_input example_pi_store))"
    using run_of[OF ok] by blast
  have live: "ld_grant (load_grant example_env example_pi example_pi_store (i_configDir (sc_pool example_swap_input))) =
      Some (grant_of (pi_file ''ta'' 6))" by code_simp
  have usable: "gp_usable example_pi (Some (grant_of (pi_file ''ta'' 6)))" by code_simp
  have complete: "gp_complete example_pi (Some (grant_of (pi_file ''ta'' 6)))" by code_simp
  have json: "json_ok (JObj (grant_of (pi_file ''ta'' 6)))" by code_simp
  have apart: "\<forall>m \<in> set (sc_members example_swap_input). fileOf example_env example_pi (i_configDir m) \<noteq>
      fileOf example_env example_pi (i_configDir (sc_pool example_swap_input))" by code_simp
  show ?thesis
    using pi_swap_keeps_grant[OF run[unfolded example_pi_def] live[unfolded example_pi_def]
        usable[unfolded example_pi_def] complete[unfolded example_pi_def] json apart[unfolded example_pi_def]]
    unfolding example_pi_def .
qed

section \<open>Exhausted members of grant-file pools\<close>

text \<open>The reading a grant-file adapter makes of a member with a window at 100% or more is
  \<open>rate-limited\<close>, and the pool core treats only \<open>live\<close> readings as known: such a member passes the
  filter of \<open>swapToNext\<close> that is to keep members at 100% out, it is taken for a member "not known to
  be exhausted" after a hard limit, and its reset times, although the reading carries them, are
  never promised.\<close>

theorem exhausted_grant_member_passes:
  assumes "u = usageFromLimits toISO cap results err"
    and "x \<in> set (concat (map lr_windows (filter (\<lambda>r. \<not> lr_unavailable r) results)))" "lw_usedPercent x \<ge> 100"
  shows "pu_status u = Rate_Limited \<and> (\<exists>y \<in> set (exhausted_windows u). uw_utilization y = lw_usedPercent x) \<and>
    chooseBest (next_candidates [\<lparr> mr_name = n, mr_active = False, mr_allowed = True, mr_usage = Some u \<rparr>]) anyone = Some n \<and>
    pick_target True threshold usage [\<lparr> rr_name = n, rr_usage = Some u, rr_blockedUntil = None \<rparr>] = Some n \<and>
    member_reset h members [\<lparr> rr_name = n, rr_usage = Some u, rr_blockedUntil = None \<rparr>] now n = None"
proof -
  let ?ws = "concat (map lr_windows (filter (\<lambda>r. \<not> lr_unavailable r) results))"
  have ne: "?ws \<noteq> []" using assms(2) by auto
  have "lw_usedPercent x \<le> list_max (map lw_usedPercent ?ws)"
    using assms(2) by (intro list_max_ge) auto
  with assms(3) have lim: "list_max (map lw_usedPercent ?ws) \<ge> 100" by linarith
  have st: "pu_status u = Rate_Limited"
    unfolding assms(1) usageFromLimits_def Let_def using ne lim by auto
  have "pu_windows u = Some (map (\<lambda>x. \<lparr> uw_label = lw_label x, uw_utilization = lw_usedPercent x,
      uw_resetsAt = map_option toISO (lw_resetsAtMs x) \<rparr>) ?ws)"
    unfolding assms(1) usageFromLimits_def Let_def using ne by auto
  then have win: "\<exists>y \<in> set (exhausted_windows u). uw_utilization y = lw_usedPercent x"
    using assms(2,3) unfolding exhausted_windows_def by (auto intro!: bexI[of _ "\<lparr> uw_label = lw_label x,
      uw_utilization = lw_usedPercent x, uw_resetsAt = map_option toISO (lw_resetsAtMs x) \<rparr>"])
  have util: "live_util (Some u) = None" using st by (simp add: live_util_def)
  have "chooseBest (next_candidates [\<lparr> mr_name = n, mr_active = False, mr_allowed = True, mr_usage = Some u \<rparr>]) anyone = Some n"
    using st by (simp add: next_candidates_def chooseBest_def eligible_def)
  moreover have "pick_target True threshold usage [\<lparr> rr_name = n, rr_usage = Some u, rr_blockedUntil = None \<rparr>] = Some n"
    using st util by (simp add: pick_target_def Let_def ranked_def chooseBest_def eligible_def)
  moreover have "member_reset h members [\<lparr> rr_name = n, rr_usage = Some u, rr_blockedUntil = None \<rparr>] now n = None"
    using st by (simp add: member_reset_def Let_def)
  ultimately show ?thesis using st win by blast
qed

theorem exhausted_grant_member_passes_witness:
  "pick_target True 95 (unavailable NonInteractiveResolutionError)
     [\<lparr> rr_name = ''b'', rr_usage = Some (usageFromLimits (\<lambda>_. ''t3'') ''t1''
        [\<lparr> lr_unavailable = False, lr_windows = [\<lparr> lw_label = ''5h'', lw_usedPercent = 100, lw_resetsAtMs = Some 3 \<rparr>],
           lr_error = None \<rparr>] None), rr_blockedUntil = None \<rparr>] = Some ''b''"
  by (rule exhausted_grant_member_passes[OF refl,
        of "\<lparr> lw_label = ''5h'', lw_usedPercent = 100, lw_resetsAtMs = Some 3 \<rparr>", THEN conjunct2, THEN conjunct2,
        THEN conjunct2, THEN conjunct1]) simp_all

end
