(* ===== verification/Grant_Heal.thy ===== *)
theory Grant_Heal
  imports Grant_Pool
begin

text \<open>
  The repair of a grant-file pool: a repair that restores the active member's login leaves a pool
  file that the next repair finds healthy, and what it replaced is backed up or captured.
\<close>

locale grant_heal_contract = grant_merge_contract +
  assumes hybrid_unattributed: "gi_hybrid (gp_identity spec g) \<Longrightarrow> gi_id (gp_identity spec g) = None"

lemma pairIdentity_hybrid: "gi_hybrid (pairIdentity decode a r) \<Longrightarrow> gi_id (pairIdentity decode a r) = None"
  by (simp add: pairIdentity_def Let_def)

interpretation kimi_heal: grant_heal_contract "kimiSpec decode num fetch" kimi_newer kimi_chain
  for decode num fetch
  by unfold_locales (simp add: kimiSpec_def pairIdentity_hybrid)

interpretation pi_heal: grant_heal_contract "piSpec decode num fetch" pi_newer pi_chain
  for decode num fetch
  by unfold_locales (simp add: piSpec_def pairIdentity_hybrid)

section \<open>The active member's vault survives\<close>

lemma writeBack_other_file:
  assumes "writeBackToOwner h spec owner g mode members st = (out, st')"
    and "fileOf h spec d \<noteq> fileOf h spec (i_configDir owner)"
  shows "readText h spec st' d = readText h spec st d"
  using writeBack_cases[OF assms(1)] assms(2) by (auto simp: readText_def)

lemma load_file_cong:
  "fileOf h spec d = fileOf h spec d' \<Longrightarrow> load_grant h spec st d = load_grant h spec st d'"
  by (simp add: load_grant_def readText_def Let_def)

lemma before_restore_active:
  assumes "before_restore h spec pool active members held kind (load_grant h spec st (i_configDir pool)) st = Inr (notes, b, st1)"
    and "kind = classify h spec pool active members (load_grant h spec st (i_configDir active)) st"
  shows "readText h spec st1 (i_configDir active) = readText h spec st (i_configDir active)"
proof (cases "kind = Foreign")
  case True
  let ?cur = "load_grant h spec st (i_configDir pool)"
  have foreign: "gi_id (ld_who ?cur) \<noteq> None" "gi_id (ld_who ?cur) \<noteq> gi_id (ld_who (load_grant h spec st (i_configDir active)))"
    using assms(2) True by (auto simp: classify_def Let_def split: option.splits if_splits)
  show ?thesis
  proof (cases "ownerByAccount h spec st members (default '''' (gi_id (ld_who ?cur))) (Some (i_name active))")
    case None
    with assms(1) True show ?thesis by (auto simp: before_restore_def Let_def)
  next
    case (Some owner)
    from ownerByAccount_Some[OF this] foreign(1)
    have "gi_id (ld_who (load_grant h spec st (i_configDir owner))) = gi_id (ld_who ?cur)" by auto
    with foreign(2) have apart: "fileOf h spec (i_configDir active) \<noteq> fileOf h spec (i_configDir owner)"
      using load_file_cong by metis
    obtain out s where wb: "writeBackToOwner h spec owner (default [] (ld_grant ?cur)) Capture members st = (out, s)"
      by fastforce
    with assms(1) True Some have "s = st1" by (auto simp: before_restore_def Let_def split: if_splits)
    with writeBack_other_file[OF wb apart] show ?thesis by simp
  qed
qed (use assms(1) in \<open>auto simp: before_restore_def Let_def split: pool_kind.splits\<close>)

lemma restore_text:
  assumes "restore h spec pool active kind cur vault (notes, b, st1) = (notes', st')"
  shows "readText h spec st' (i_configDir pool) =
      Some (case readText h spec st1 (i_configDir active) of Some t \<Rightarrow> t | None \<Rightarrow> the (ld_text vault))"
    "fileOf h spec d \<noteq> fileOf h spec (i_configDir pool) \<Longrightarrow> readText h spec st' d = readText h spec st1 d"
  using assms by (auto simp: restore_def Let_def writeText_other split: option.splits if_splits)

text \<open>The rounds of a repair without interference finish on the store it started with.\<close>

lemma healHeld_Need_Lock_same:
  assumes "healHeld h spec (\<lambda>s. s) pool active members held st = (Need_Lock d, st')"
  shows "st' = st"
  using assms by (auto simp: healHeld_def Let_def split: if_splits sum.splits prod.splits option.splits)

lemma heal_restored:
  assumes "healHeld h spec (\<lambda>s. s) pool active members held st = (Finished notes, st')"
    and "vault_problem spec pool active (load_grant h spec st (i_configDir active)) = None"
    and "classify h spec pool active members (load_grant h spec st (i_configDir active)) st \<notin> {Ok, Pool_Newer}"
    and "fileOf h spec (i_configDir active) \<noteq> fileOf h spec (i_configDir pool)"
  shows "readText h spec st' (i_configDir pool) = readText h spec st (i_configDir active) \<and>
    readText h spec st' (i_configDir active) = readText h spec st (i_configDir active)"
proof -
  let ?vault = "load_grant h spec st (i_configDir active)"
  let ?kind = "classify h spec pool active members ?vault st"
  let ?cur = "load_grant h spec st (i_configDir pool)"
  from assms(1-3) obtain notes0 b st1 where
    before: "before_restore h spec pool active members held ?kind ?cur st = Inr (notes0, b, st1)"
    and restore: "restore h spec pool active ?kind ?cur ?vault (notes0, b, st1) = (notes, st')"
    by (auto simp: healHeld_def Let_def split: if_splits sum.splits prod.splits)
  have present: "readText h spec st (i_configDir active) \<noteq> None"
    using assms(2) by (auto simp: vault_problem_def load_grant_def Let_def split: if_splits)
  from restore_text[OF restore] before_restore_active[OF before refl] present assms(4) show ?thesis
    by (auto split: option.splits)
qed

context grant_heal_contract
begin

lemma restored_is_ok:
  assumes "readText h spec st (i_configDir pool) = readText h spec st (i_configDir active)"
    and "vault_problem spec pool active (load_grant h spec st (i_configDir active)) = None"
  shows "classify h spec pool active members (load_grant h spec st (i_configDir active)) st = Ok"
proof -
  have same: "load_grant h spec st (i_configDir pool) = load_grant h spec st (i_configDir active)"
    by (rule load_grant_cong[OF assms(1)])
  have vault: "gp_usable spec (ld_grant (load_grant h spec st (i_configDir active)))"
    "gp_complete spec (ld_grant (load_grant h spec st (i_configDir active)))"
    "gi_id (ld_who (load_grant h spec st (i_configDir active))) \<noteq> None"
    using assms(2) by (auto simp: vault_problem_def split: if_splits)
  from vault(1) usable_None obtain g where "ld_grant (load_grant h spec st (i_configDir active)) = Some g"
    by (cases "ld_grant (load_grant h spec st (i_configDir active))") auto
  with same vault hybrid_unattributed load_grant_who[of h spec st "i_configDir active"] show ?thesis
    by (auto simp: classify_def Let_def)
qed

lemma heal_repairs:
  assumes "heal h spec (\<lambda>s. s) (\<lambda>s. s) pool members st = (Inr notes, st')"
    and active: "truthy (sp_active (pool_config pool))"
      "find (\<lambda>m. Some (i_name m) = sp_active (pool_config pool)) members = Some active"
    and vault: "vault_problem spec pool active (load_grant h spec st (i_configDir active)) = None"
    and kind: "classify h spec pool active members (load_grant h spec st (i_configDir active)) st \<noteq> Pool_Newer"
    and apart: "fileOf h spec (i_configDir active) \<noteq> fileOf h spec (i_configDir pool)"
  shows "heal h spec (\<lambda>s. s) (\<lambda>s. s) pool members st' = (Inr [], st')"
    "st' \<noteq> st \<Longrightarrow> readText h spec st' (i_configDir pool) = readText h spec st (i_configDir active)"
proof -
  let ?kind = "classify h spec pool active members (load_grant h spec st (i_configDir active)) st"
  have again: "heal h spec (\<lambda>s. s) (\<lambda>s. s) pool members s = (Inr [], s)"
    if "vault_problem spec pool active (load_grant h spec s (i_configDir active)) = None"
      "classify h spec pool active members (load_grant h spec s (i_configDir active)) s = Ok" for s
    using that active by (simp add: heal_def Let_def)
  have "heal h spec (\<lambda>s. s) (\<lambda>s. s) pool members st' = (Inr [], st') \<and>
    (st' \<noteq> st \<longrightarrow> readText h spec st' (i_configDir pool) = readText h spec st (i_configDir active))"
  proof (cases "?kind = Ok")
    case True
    from again[OF vault True] assms(1) show ?thesis by simp
  next
    case False
    let ?rounds = "lock_rounds (Suc (length members)) (healHeld h spec (\<lambda>s. s) pool active members) (\<lambda>s. s) h
      (i_configDir pool) [i_configDir active] st"
    have "?rounds = Some (Inr notes, st')"
      using assms(1) active vault False by (cases ?rounds) (auto simp: heal_def Let_def)
    from lock_rounds_quiet[OF this] healHeld_Need_Lock_same obtain held where
      held: "healHeld h spec (\<lambda>s. s) pool active members held st = (Finished notes, st')" by blast
    from False kind have "?kind \<notin> {Ok, Pool_Newer}" by simp
    from heal_restored[OF held vault this apart] have
      texts: "readText h spec st' (i_configDir pool) = readText h spec st (i_configDir active)"
      "readText h spec st' (i_configDir active) = readText h spec st (i_configDir active)" by auto
    have vault': "vault_problem spec pool active (load_grant h spec st' (i_configDir active)) = None"
      using vault load_grant_cong[OF texts(2)] by simp
    with again[OF vault' restored_is_ok[OF _ vault']] texts show ?thesis by simp
  qed
  then show "heal h spec (\<lambda>s. s) (\<lambda>s. s) pool members st' = (Inr [], st')"
    "st' \<noteq> st \<Longrightarrow> readText h spec st' (i_configDir pool) = readText h spec st (i_configDir active)" by auto
qed

end

section \<open>Nothing is destroyed\<close>

lemma classify_grant:
  assumes "classify h spec pool active members vault st = kind" "kind \<noteq> Damaged"
  shows "\<exists>g. ld_grant (load_grant h spec st (i_configDir pool)) = Some g \<and> gp_usable spec (Some g) \<and> gp_complete spec (Some g)"
  using assms by (auto simp: classify_def Let_def split: option.splits if_splits)

lemma restore_backup:
  assumes "restore h spec pool active kind cur vault (notes, b, st1) = (notes', st')"
  shows "\<not> b \<Longrightarrow> drops_content spec kind cur vault \<Longrightarrow>
      (fileOf h spec (i_configDir pool), Heal_Backup, the (ld_text cur)) \<in> set (gs_backups st')"
    "b \<Longrightarrow> gs_backups st' = gs_backups st1"
  using assms by (auto simp: restore_def Let_def writeText_def writeBackup_mem split: option.splits)

context grant_heal_contract
begin

lemma heal_keeps:
  assumes "healHeld h spec (\<lambda>s. s) pool active members held st = (Finished notes, st')"
    and "vault_problem spec pool active (load_grant h spec st (i_configDir active)) = None"
    and kind: "kind = classify h spec pool active members (load_grant h spec st (i_configDir active)) st" "kind \<notin> {Ok, Pool_Newer}"
    and pooltext: "readText h spec st (i_configDir pool) = Some txt"
    and apart: "\<forall>m \<in> set members. fileOf h spec (i_configDir m) \<noteq> fileOf h spec (i_configDir pool)"
    and json: "\<forall>g. parseGrantFile (Some txt) = Some g \<longrightarrow> json_ok (JObj g)"
  shows "(fileOf h spec (i_configDir pool), Heal_Backup, txt) \<in> set (gs_backups st') \<or>
    (kind = Damaged \<and> is_blank txt) \<or> kind = Behind \<or>
    (\<exists>m \<in> set members. \<exists>g. parseGrantFile (Some txt) = Some g \<and> vault_covers h spec newer chain st' g m)"
proof -
  let ?vault = "load_grant h spec st (i_configDir active)"
  let ?cur = "load_grant h spec st (i_configDir pool)"
  from assms(1,2) kind obtain notes0 b st1 where
    before: "before_restore h spec pool active members held kind ?cur st = Inr (notes0, b, st1)"
    and restore: "restore h spec pool active kind ?cur ?vault (notes0, b, st1) = (notes, st')"
    by (auto simp: healHeld_def Let_def split: if_splits sum.splits prod.splits)
  have cur: "ld_text ?cur = Some txt" "ld_grant ?cur = parseGrantFile (Some txt)"
    using pooltext by (simp_all add: load_grant_def Let_def)
  have backed: ?thesis if "b" "(fileOf h spec (i_configDir pool), Heal_Backup, txt) \<in> set (gs_backups st1)"
    using restore_backup(2)[OF restore] that by simp
  show ?thesis
  proof (cases kind)
    case Damaged
    with before have "\<not> b" by (auto simp: before_restore_def Let_def)
    with restore_backup(1)[OF restore] Damaged cur show ?thesis by (auto simp: drops_content_def)
  next
    case Hybrid
    with before have "b" "(fileOf h spec (i_configDir pool), Heal_Backup, txt) \<in> set (gs_backups st1)"
      using cur by (auto simp: before_restore_def Let_def writeBackup_mem)
    then show ?thesis by (rule backed)
  next
    case Foreign
    then obtain g where g: "parseGrantFile (Some txt) = Some g" "gp_usable spec (Some g)" "gp_complete spec (Some g)"
      using classify_grant[OF kind(1)[symmetric]] cur by auto
    show ?thesis
    proof (cases "ownerByAccount h spec st members (default '''' (gi_id (ld_who ?cur))) (Some (i_name active))")
      case None
      with before Foreign have "b" "(fileOf h spec (i_configDir pool), Heal_Backup, txt) \<in> set (gs_backups st1)"
        using cur by (auto simp: before_restore_def Let_def writeBackup_mem)
      then show ?thesis by (rule backed)
    next
      case (Some owner)
      have who: "gi_id (ld_who ?cur) \<noteq> None"
        using kind(1) Foreign by (auto simp: classify_def Let_def split: option.splits if_splits)
      from ownerByAccount_Some[OF Some] who have owner: "owner \<in> set members"
        "gi_id (ld_who (load_grant h spec st (i_configDir owner))) = gi_id (gp_identity spec (Some g))"
        using g(1) cur load_grant_who[of h spec st "i_configDir pool"] by auto
      obtain out s where wb: "writeBackToOwner h spec owner g Capture members st = (out, s)"
        by fastforce
      with before Foreign Some cur g have s: "s = st1" by (auto simp: before_restore_def Let_def split: if_splits)
      have "out \<noteq> Account_Mismatch"
        using wb owner(2) by (auto simp: writeBackToOwner_def Let_def split: if_splits option.splits)
      from write_back_covers[OF wb g(2,3) _ this] json g(1) have cov: "vault_covers h spec newer chain st1 g owner"
        by (simp add: s)
      have "load_grant h spec st' (i_configDir owner) = load_grant h spec st1 (i_configDir owner)"
        using restore_text(2)[OF restore] apart owner(1) by (intro load_grant_cong) blast
      with cov g(1) owner(1) show ?thesis by (auto simp: vault_covers_def)
    qed
  qed (use kind(2) in auto)
qed

end


definition example_damaged_store :: grant_store where
  "example_damaged_store = \<lparr> gs_files = [''/c/a/credentials/kimi-code.json'' \<mapsto> kimi_file ''ta'' 5,
      ''/p/credentials/kimi-code.json'' \<mapsto> Garbage ''{''], gs_backups = [] \<rparr>"

abbreviation example_members :: "identity list" where
  "example_members \<equiv> [example_identity ''a'' [], example_identity ''b'' []]"





end
