(* ===== verification/Body_Budget.thy ===== *)
theory Body_Budget
  imports Prelude
begin

text \<open>
  The gateway's memory budget for request bodies (\<open>src/gateway/body-budget.ts\<close>). A reservation
  that does not fit waits in a queue; the closure \<open>release\<close> gives the bytes back once. The state
  holds what the class and its closures hold: the bytes in use, the queue, the reservations whose
  release has not run, and the number last handed to \<open>onWaiting\<close>. Each event of the program
  (a call of \<open>reserve\<close>, a release, an abort of a waiting request) runs to completion, as in the
  single thread of the source.
\<close>

record budget =
  bb_limit :: int
  bb_used :: int
  bb_waiters :: "(nat \<times> int) list"
  bb_held :: "(nat \<times> int) list"
  bb_shown :: nat

definition new_budget :: "int \<Rightarrow> budget" where
  "new_budget limit = \<lparr> bb_limit = limit, bb_used = 0, bb_waiters = [], bb_held = [], bb_shown = 0 \<rparr>"

definition inUse :: "budget \<Rightarrow> int" where
  "inUse b = bb_used b"

definition waiting :: "budget \<Rightarrow> nat" where
  "waiting b = length (bb_waiters b)"

definition want :: "budget \<Rightarrow> int \<Rightarrow> int" where
  "want b bytes = min (max 0 bytes) (bb_limit b)"

definition take_bytes :: "nat \<Rightarrow> int \<Rightarrow> budget \<Rightarrow> budget" where
  "take_bytes req n b = b\<lparr> bb_used := bb_used b + n, bb_held := bb_held b @ [(req, n)] \<rparr>"

text \<open>The loop of \<open>pump\<close>: grants from the head of the queue while the head fits.\<close>

function pump :: "budget \<Rightarrow> budget" where
  "pump b =
     (case bb_waiters b of
        [] \<Rightarrow> b
      | (req, n) # ws \<Rightarrow>
          if bb_used b + n > bb_limit b then b
          else pump (take_bytes req n (b\<lparr> bb_waiters := ws, bb_shown := length ws \<rparr>)))"
  by pat_completeness auto
termination by (relation "measure (\<lambda>b. length (bb_waiters b))") (auto simp: take_bytes_def)

declare pump.simps [simp del]

datatype reservation = Aborted | Granted | Queued

definition reserve :: "nat \<Rightarrow> int \<Rightarrow> bool \<Rightarrow> budget \<Rightarrow> reservation \<times> budget" where
  "reserve req bytes aborted b =
     (let n = want b bytes in
      if aborted then (Aborted, b)
      else if bb_waiters b = [] \<and> bb_used b + n \<le> bb_limit b then (Granted, take_bytes req n b)
      else (Queued, b\<lparr> bb_waiters := bb_waiters b @ [(req, n)], bb_shown := length (bb_waiters b) + 1 \<rparr>))"

definition release :: "nat \<Rightarrow> budget \<Rightarrow> budget" where
  "release req b =
     (case find (\<lambda>(r, _). r = req) (bb_held b) of
        None \<Rightarrow> b
      | Some (_, n) \<Rightarrow>
          pump (b\<lparr> bb_used := bb_used b - n, bb_held := filter (\<lambda>(r, _). r \<noteq> req) (bb_held b) \<rparr>))"

text \<open>The abort listener of a queued request; it is removed when the request is granted.\<close>

definition abort_waiter :: "nat \<Rightarrow> budget \<Rightarrow> budget" where
  "abort_waiter req b =
     (if req \<in> fst ` set (bb_waiters b)
      then (let ws = filter (\<lambda>(r, _). r \<noteq> req) (bb_waiters b)
            in pump (b\<lparr> bb_waiters := ws, bb_shown := length ws \<rparr>))
      else b)"

text \<open>The states the gateway can reach; every request has an id of its own.\<close>

inductive budget_reachable :: "int \<Rightarrow> budget \<Rightarrow> bool" for limit where
  start: "budget_reachable limit (new_budget limit)"
| reserves: "budget_reachable limit b \<Longrightarrow> req \<notin> fst ` (set (bb_held b) \<union> set (bb_waiters b)) \<Longrightarrow>
    budget_reachable limit (snd (reserve req bytes aborted b))"
| releases: "budget_reachable limit b \<Longrightarrow> budget_reachable limit (release req b)"
| aborts: "budget_reachable limit b \<Longrightarrow> budget_reachable limit (abort_waiter req b)"

section \<open>What the pump does\<close>

definition total_bytes :: "(nat \<times> int) list \<Rightarrow> int" where
  "total_bytes xs = sum_list (map snd xs)"

lemma total_bytes_simps [simp]:
  "total_bytes [] = 0" "total_bytes (x # xs) = snd x + total_bytes xs" "total_bytes (xs @ ys) = total_bytes xs + total_bytes ys"
  by (simp_all add: total_bytes_def)

text \<open>It hands the first waiters over to the holders, in order, and stops at the first that does not fit.\<close>

lemma pump_prefix:
  "\<exists>k. pump b = b\<lparr> bb_used := bb_used b + total_bytes (take k (bb_waiters b)), bb_waiters := drop k (bb_waiters b),
      bb_held := bb_held b @ take k (bb_waiters b),
      bb_shown := (if k = 0 then bb_shown b else length (drop k (bb_waiters b))) \<rparr> \<and>
    k \<le> length (bb_waiters b) \<and>
    (bb_used b \<le> bb_limit b \<longrightarrow> bb_used (pump b) \<le> bb_limit b) \<and>
    (\<forall>w ws. bb_waiters (pump b) = w # ws \<longrightarrow> bb_limit b < bb_used (pump b) + snd w)"
proof (induction b rule: pump.induct)
  case (1 b)
  show ?case
  proof (cases "bb_waiters b")
    case Nil
    then show ?thesis by (intro exI[of _ 0]) (simp add: pump.simps[of b])
  next
    case (Cons w ws)
    obtain req n where w: "w = (req, n)" by (cases w)
    show ?thesis
    proof (cases "bb_used b + n > bb_limit b")
      case True
      with Cons w show ?thesis by (intro exI[of _ 0]) (simp add: pump.simps[of b])
    next
      case False
      let ?b = "take_bytes req n (b\<lparr> bb_waiters := ws, bb_shown := length ws \<rparr>)"
      from "1.IH"[OF Cons w[symmetric] False] obtain k where
        k: "pump ?b = ?b\<lparr> bb_used := bb_used ?b + total_bytes (take k (bb_waiters ?b)), bb_waiters := drop k (bb_waiters ?b),
            bb_held := bb_held ?b @ take k (bb_waiters ?b),
            bb_shown := (if k = 0 then bb_shown ?b else length (drop k (bb_waiters ?b))) \<rparr>"
          "k \<le> length (bb_waiters ?b)"
          "bb_used ?b \<le> bb_limit ?b \<longrightarrow> bb_used (pump ?b) \<le> bb_limit ?b"
          "\<forall>w ws. bb_waiters (pump ?b) = w # ws \<longrightarrow> bb_limit ?b < bb_used (pump ?b) + snd w" by blast
      have step: "pump b = pump ?b" using Cons w False by (simp add: pump.simps[of b])
      show ?thesis
        unfolding step using k Cons w False
        by (intro exI[of _ "Suc k"]) (auto simp: take_bytes_def)
    qed
  qed
qed

definition budget_ok :: "budget \<Rightarrow> bool" where
  "budget_ok b \<longleftrightarrow> bb_used b = total_bytes (bb_held b) \<and> bb_used b \<le> bb_limit b \<and>
     (\<forall>w \<in> set (bb_held b) \<union> set (bb_waiters b). 0 \<le> snd w \<and> snd w \<le> bb_limit b) \<and>
     (\<forall>w ws. bb_waiters b = w # ws \<longrightarrow> bb_limit b < bb_used b + snd w) \<and>
     bb_shown b = length (bb_waiters b) \<and> distinct (map fst (bb_held b @ bb_waiters b))"

text \<open>What the pump needs: everything but the head of the queue is already in order.\<close>

definition pump_ready :: "budget \<Rightarrow> bool" where
  "pump_ready b \<longleftrightarrow> bb_used b = total_bytes (bb_held b) \<and> bb_used b \<le> bb_limit b \<and>
     (\<forall>w \<in> set (bb_held b) \<union> set (bb_waiters b). 0 \<le> snd w \<and> snd w \<le> bb_limit b) \<and>
     bb_shown b = length (bb_waiters b) \<and> distinct (map fst (bb_held b @ bb_waiters b))"

lemma pump_ok:
  assumes "pump_ready b"
  shows "budget_ok (pump b)" "bb_limit (pump b) = bb_limit b"
proof -
  obtain k where k: "pump b = b\<lparr> bb_used := bb_used b + total_bytes (take k (bb_waiters b)),
      bb_waiters := drop k (bb_waiters b), bb_held := bb_held b @ take k (bb_waiters b),
      bb_shown := (if k = 0 then bb_shown b else length (drop k (bb_waiters b))) \<rparr>"
    and used: "bb_used (pump b) \<le> bb_limit b"
    and head: "\<forall>w ws. bb_waiters (pump b) = w # ws \<longrightarrow> bb_limit b < bb_used (pump b) + snd w"
    using pump_prefix[of b] assms unfolding pump_ready_def by blast
  show "bb_limit (pump b) = bb_limit b" by (simp add: k)
  have "map fst (bb_held (pump b) @ bb_waiters (pump b)) = map fst (bb_held b @ bb_waiters b)"
    by (simp add: k flip: map_append)
  moreover have "set (bb_held (pump b)) \<union> set (bb_waiters (pump b)) = set (bb_held b) \<union> set (bb_waiters b)"
    by (simp add: k Un_assoc flip: set_append)
  moreover have "bb_used (pump b) = total_bytes (bb_held (pump b))" "bb_shown (pump b) = length (bb_waiters (pump b))"
    using assms by (auto simp: k pump_ready_def)
  ultimately show "budget_ok (pump b)"
    using assms used head \<open>bb_limit (pump b) = bb_limit b\<close>
    unfolding budget_ok_def pump_ready_def by presburger
qed

lemma total_bytes_remove:
  "distinct (map fst xs) \<Longrightarrow> (req, n) \<in> set xs \<Longrightarrow> total_bytes (filter (\<lambda>(r, _). r \<noteq> req) xs) = total_bytes xs - n"
proof (induction xs)
  case (Cons x xs)
  show ?case
  proof (cases "x = (req, n)")
    case True
    with Cons.prems have "filter (\<lambda>(r, _). r \<noteq> req) xs = xs" by (force simp: filter_id_conv)
    with True show ?thesis by simp
  next
    case False
    with Cons show ?thesis by (force split: prod.splits)
  qed
qed simp

lemma reserve_ok:
  assumes "budget_ok b" "0 \<le> bb_limit b" "req \<notin> fst ` (set (bb_held b) \<union> set (bb_waiters b))"
  shows "budget_ok (snd (reserve req bytes aborted b))"
  using assms unfolding reserve_def Let_def want_def
  by (cases "bb_waiters b") (auto simp: budget_ok_def take_bytes_def)

lemma release_ok:
  assumes "budget_ok b"
  shows "budget_ok (release req b)" "bb_limit (release req b) = bb_limit b"
proof -
  have "budget_ok (release req b) \<and> bb_limit (release req b) = bb_limit b"
  proof (cases "find (\<lambda>(r, _). r = req) (bb_held b)")
    case None
    then show ?thesis using assms by (simp add: release_def)
  next
    case (Some x)
    then obtain n where x: "x = (req, n)" "(req, n) \<in> set (bb_held b)"
      by (cases x) (auto dest: find_Some_set)
    let ?b = "b\<lparr> bb_used := bb_used b - n, bb_held := filter (\<lambda>(r, _). r \<noteq> req) (bb_held b) \<rparr>"
    have "total_bytes (bb_held ?b) = bb_used b - n"
      using assms x(2) by (simp add: budget_ok_def total_bytes_remove)
    moreover have "\<forall>w \<in> set (bb_held b). 0 \<le> snd w" using assms by (simp add: budget_ok_def)
    from bspec[OF this x(2)] have "0 \<le> n" by simp
    moreover have "distinct (map fst (bb_held ?b @ bb_waiters ?b))"
      using assms by (auto simp: budget_ok_def distinct_map_filter)
    ultimately have "pump_ready ?b" using assms by (auto simp: budget_ok_def pump_ready_def)
    from pump_ok[OF this] show ?thesis using Some x(1) by (simp add: release_def)
  qed
  then show "budget_ok (release req b)" "bb_limit (release req b) = bb_limit b" by auto
qed

lemma abort_ok:
  assumes "budget_ok b"
  shows "budget_ok (abort_waiter req b)" "bb_limit (abort_waiter req b) = bb_limit b"
proof -
  let ?ws = "filter (\<lambda>(r, _). r \<noteq> req) (bb_waiters b)"
  have "distinct (map fst (bb_held b @ ?ws))"
    using assms by (auto simp: budget_ok_def distinct_map_filter)
  then have "pump_ready (b\<lparr> bb_waiters := ?ws, bb_shown := length ?ws \<rparr>)"
    using assms by (auto simp: budget_ok_def pump_ready_def)
  from pump_ok[OF this] assms show "budget_ok (abort_waiter req b)" "bb_limit (abort_waiter req b) = bb_limit b"
    by (simp_all add: abort_waiter_def Let_def)
qed

lemma reserve_limit [simp]: "bb_limit (snd (reserve req bytes aborted b)) = bb_limit b"
  by (simp add: reserve_def Let_def take_bytes_def)

lemma budget_reachable_ok:
  assumes "budget_reachable limit b" "0 \<le> limit"
  shows "budget_ok b \<and> bb_limit b = limit"
  using assms
proof (induction rule: budget_reachable.induct)
  case start
  then show ?case by (simp add: budget_ok_def new_budget_def)
qed (simp_all add: reserve_ok release_ok abort_ok)


section \<open>Properties of the budget\<close>

text \<open>Property C27.
  In every state the gateway can reach, the bytes in use are those of the reservations that were
  not given back, never more than the limit; a request only waits when the first in the queue does
  not fit; and the number of waiting requests shown to the metrics is the length of the queue.\<close>

theorem budget_never_exceeded:
  assumes "budget_reachable limit b" "0 \<le> limit"
  shows "inUse b = total_bytes (bb_held b) \<and> inUse b \<le> limit \<and> bb_shown b = waiting b \<and>
    (\<forall>w ws. bb_waiters b = w # ws \<longrightarrow> limit < inUse b + snd w)"
  using budget_reachable_ok[OF assms] by (auto simp: budget_ok_def inUse_def waiting_def)

definition example_budget :: budget where
  "example_budget = abort_waiter 2 (snd (reserve 3 30 False (snd (reserve 2 60 False (snd (reserve 1 50 False (new_budget 100)))))))"

lemma example_budget_reachable: "budget_reachable 100 example_budget"
  unfolding example_budget_def
  by (intro budget_reachable.aborts budget_reachable.reserves budget_reachable.start; code_simp)

theorem budget_never_exceeded_witness:
  "inUse example_budget = total_bytes (bb_held example_budget) \<and> inUse example_budget \<le> 100 \<and> bb_held example_budget = [(1, 50), (3, 30)]"
proof -
  have "bb_held example_budget = [(1, 50), (3, 30)]" by code_simp
  with budget_never_exceeded[OF example_budget_reachable] show ?thesis by simp
qed

lemma pump_fifo: "\<exists>k. bb_waiters (pump b) = drop k (bb_waiters b) \<and> bb_held (pump b) = bb_held b @ take k (bb_waiters b)"
proof -
  from pump_prefix[of b] obtain k where k: "pump b = b\<lparr> bb_used := bb_used b + total_bytes (take k (bb_waiters b)),
      bb_waiters := drop k (bb_waiters b), bb_held := bb_held b @ take k (bb_waiters b),
      bb_shown := (if k = 0 then bb_shown b else length (drop k (bb_waiters b))) \<rparr>" by blast
  show ?thesis by (intro exI[of _ k]) (simp add: k)
qed

lemma release_fifo:
  "\<exists>k. bb_waiters (release req b) = drop k (bb_waiters b) \<and>
     bb_held (release req b) = filter (\<lambda>(r, _). r \<noteq> req) (bb_held b) @ take k (bb_waiters b)"
proof (cases "find (\<lambda>(r, _). r = req) (bb_held b)")
  case None
  then have "filter (\<lambda>(r, _). r \<noteq> req) (bb_held b) = bb_held b"
    by (auto simp: filter_id_conv find_None_iff)
  with None show ?thesis by (intro exI[of _ 0]) (simp add: release_def)
next
  case (Some x)
  then show ?thesis using pump_fifo[of "b\<lparr> bb_used := bb_used b - snd x, bb_held := filter (\<lambda>(r, _). r \<noteq> req) (bb_held b) \<rparr>"]
    by (cases x) (simp add: release_def)
qed

text \<open>Releasing a list of requests: who is queued stays queued or is held, and the released are gone.\<close>

lemma releases_fold:
  assumes "budget_ok b" "set rs \<inter> fst ` set (bb_waiters b) = {}"
  shows "\<exists>k. bb_waiters (fold release rs b) = drop k (bb_waiters b) \<and>
     bb_held (fold release rs b) = filter (\<lambda>(r, _). r \<notin> set rs) (bb_held b) @ take k (bb_waiters b)"
  using assms
proof (induction rs arbitrary: b)
  case Nil
  then show ?case by (intro exI[of _ 0]) simp
next
  case (Cons r rs)
  from release_fifo[of r b] obtain k where k: "bb_waiters (release r b) = drop k (bb_waiters b)"
    "bb_held (release r b) = filter (\<lambda>(q, _). q \<noteq> r) (bb_held b) @ take k (bb_waiters b)" by blast
  have "set rs \<inter> fst ` set (bb_waiters (release r b)) = {}"
    using Cons.prems(2) k(1) by (auto dest: in_set_dropD)
  from Cons.IH[OF release_ok(1)[OF Cons.prems(1)] this] obtain j where
    j: "bb_waiters (fold release rs (release r b)) = drop j (drop k (bb_waiters b))"
    "bb_held (fold release rs (release r b)) = filter (\<lambda>(q, _). q \<notin> set rs) (filter (\<lambda>(q, _). q \<noteq> r) (bb_held b) @
       take k (bb_waiters b)) @ take j (drop k (bb_waiters b))" using k by auto
  have "fst w \<notin> set rs" if "w \<in> set (bb_waiters b)" for w
    using Cons.prems(2) that by auto
  then have "filter (\<lambda>(q, _). q \<notin> set rs) (take k (bb_waiters b)) = take k (bb_waiters b)"
    by (auto simp: filter_id_conv dest!: in_set_takeD)
  with j show ?case by (intro exI[of _ "k + j"]) (auto simp: take_add[of k j] drop_drop add.commute[of j k] case_prod_unfold conj_commute intro!: filter_cong)
qed

text \<open>No request starves and none overtakes: once the requests that hold bytes have given them back,
  in whatever order, the first in the queue has been let through, and those let through are the
  first of the queue in order of arrival.\<close>

theorem budget_serves_waiters:
  assumes "budget_reachable limit b" "0 \<le> limit" "bb_waiters b = w # ws" "set rs = fst ` set (bb_held b)"
  shows "\<exists>k > 0. bb_held (fold release rs b) = take k (bb_waiters b) \<and> bb_waiters (fold release rs b) = drop k (bb_waiters b)"
proof -
  from budget_reachable_ok[OF assms(1,2)] have ok: "budget_ok b" "bb_limit b = limit" by auto
  have "set rs \<inter> fst ` set (bb_waiters b) = {}" using ok(1) assms(4) by (auto simp: budget_ok_def)
  from releases_fold[OF ok(1) this] obtain k where
    k: "bb_waiters (fold release rs b) = drop k (bb_waiters b)"
    "bb_held (fold release rs b) = filter (\<lambda>(r, _). r \<notin> set rs) (bb_held b) @ take k (bb_waiters b)" by blast
  have none: "filter (\<lambda>(r, _). r \<notin> set rs) (bb_held b) = []"
    using assms(4) by (force simp: filter_empty_conv)
  have final: "budget_ok (fold release xs c) \<and> bb_limit (fold release xs c) = bb_limit c" if "budget_ok c" for xs c
    using that by (induction xs arbitrary: c) (simp_all add: release_ok)
  have "k \<noteq> 0"
  proof
    assume "k = 0"
    with k none assms(3) have "bb_held (fold release rs b) = []" "bb_waiters (fold release rs b) = w # ws" by auto
    with final[OF ok(1), of rs] have "bb_limit b < snd w" by (auto simp: budget_ok_def)
    moreover have "snd w \<le> bb_limit b" using ok(1) assms(3) by (auto simp: budget_ok_def)
    ultimately show False by simp
  qed
  with k none show ?thesis by auto
qed

theorem budget_serves_waiters_witness:
  "\<exists>k > 0. bb_held (fold release [1] (snd (reserve 2 60 False (snd (reserve 1 50 False (new_budget 100)))))) = take k [(2, 60)]"
proof -
  let ?b = "snd (reserve 2 60 False (snd (reserve 1 50 False (new_budget 100))))"
  have r: "budget_reachable 100 ?b"
    by (intro budget_reachable.reserves budget_reachable.start; code_simp)
  have w: "bb_waiters ?b = (2, 60) # []" by code_simp
  have hs: "set [1] = fst ` set (bb_held ?b)" by code_simp
  from budget_serves_waiters[OF r _ w hs] show ?thesis unfolding w by auto
qed

end
