(* ===== verification/Model_Pricing.thy ===== *)
theory Model_Pricing
  imports Host_Path "HOL-Library.Char_ord"
begin

text \<open>
  The token prices behind the cost estimates (\<open>src/identities/model-pricing.ts\<close>). Prices are
  exact rationals in USD per million tokens; the source computes with doubles. A price table is
  an association list, its lookup the access to an own property of the object of the source. The
  price list fetched from the network (\<open>setFetchedChatPriceLookup\<close>) is a parameter.
\<close>

definition lower_char :: "char \<Rightarrow> char" where
  "lower_char c = (if CHR ''A'' \<le> c \<and> c \<le> CHR ''Z'' then char_of (of_char c + (32 :: nat)) else c)"

definition toLowerCase :: "string \<Rightarrow> string" where
  "toLowerCase s = map lower_char s"

section \<open>Prices per provider\<close>

record model_token_price =
  cost_per_1m_in :: rat
  cost_per_1m_out :: rat
  cost_per_1m_in_cached :: rat
  cost_per_1m_out_cached :: rat

definition token_price :: "rat \<Rightarrow> rat \<Rightarrow> rat \<Rightarrow> rat \<Rightarrow> model_token_price" where
  "token_price i out icached ocached = \<lparr> cost_per_1m_in = i, cost_per_1m_out = out,
     cost_per_1m_in_cached = icached, cost_per_1m_out_cached = ocached \<rparr>"

definition USD_PER_CNY :: rat where
  "USD_PER_CNY = 1 / 6.7682"

definition cnyPrice :: "rat \<Rightarrow> rat \<Rightarrow> rat option \<Rightarrow> model_token_price" where
  "cnyPrice i out cachedInput =
     token_price (i * USD_PER_CNY) (out * USD_PER_CNY) (default (i * 0.2) cachedInput * USD_PER_CNY) 0"

definition ZAI_MODEL_PRICES :: "(string \<times> model_token_price) list" where
  "ZAI_MODEL_PRICES =
    [(''glm-5.3-flash'', token_price 0.075 0.25 0.015 0),
     (''glm-5.3'', token_price 1.4 4.4 0.26 0),
     (''glm-5.2'', token_price 1.4 4.4 0.26 0),
     (''glm-5.1'', token_price 1.4 4.4 0.26 0),
     (''glm-5-turbo'', token_price 1.2 4 0.24 0),
     (''glm-5'', token_price 1 3.2 0.2 0),
     (''glm-4.7'', token_price 0.6 2.2 0.11 0),
     (''glm-4.7-flash'', token_price 0.07 0.4 0.01 0),
     (''glm-4.6'', token_price 0.6 2.2 0.11 0),
     (''glm-4.6v'', token_price 0.3 0.9 0.05 0),
     (''glm-4.5'', token_price 0.6 2.2 0.11 0),
     (''glm-4.5-air'', token_price 0.2 1.1 0.03 0),
     (''glm-4.5v'', token_price 0.6 1.8 0.11 0)]"

definition ALI_MODEL_PRICES :: "(string \<times> model_token_price) list" where
  "ALI_MODEL_PRICES =
    [(''qwen3.8-max'', cnyPrice 14.988 44.965 None),
     (''qwen3.8-max-preview'', cnyPrice 14.988 44.965 None),
     (''qwen3.7-max'', cnyPrice 14.988 44.965 None),
     (''qwen3.7-plus'', cnyPrice 2.998 11.991 None),
     (''qwen3.6-plus'', cnyPrice 3.7471 22.4826 None),
     (''qwen3.6-flash'', cnyPrice 1.87355 11.2413 None),
     (''glm-5.2'', cnyPrice 10.492 32.974 (Some (10.492 * 0.25))),
     (''deepseek-v4-pro'', cnyPrice 17.986 35.972 None)]"

definition OPENCODE_GO_MODEL_PRICES :: "(string \<times> model_token_price) list" where
  "OPENCODE_GO_MODEL_PRICES =
    [(''grok-4.6'', token_price 2 6 0.5 0),
     (''grok-4.5'', token_price 2 6 0.3 0),
     (''gpt-5.6-luna'', token_price 0.2 1.2 0.02 0.25),
     (''glm-5.3-flash'', token_price 0.15 0.5 0.03 0),
     (''glm-5.3'', token_price 1.4 4.4 0.26 0),
     (''glm-5.2'', token_price 1.4 4.4 0.26 0),
     (''glm-5.1'', token_price 1.4 4.4 0.26 0),
     (''glm-5'', token_price 1 3.2 0.2 0),
     (''kimi-k3'', token_price 3 15 0.3 0),
     (''kimi-k2.7-code'', token_price 0.95 4 0.19 0),
     (''kimi-k2.6'', token_price 0.95 4 0.16 0),
     (''kimi-k2.5'', token_price 0.6 3 0.1 0),
     (''longcat-2.0'', token_price 0.3 1.2 0.006 0),
     (''mimo-v2.5'', token_price 0.14 0.28 0.0028 0),
     (''mimo-v2.5-pro'', token_price 0.435 0.87 0.003625 0),
     (''mimo-v2-pro'', token_price 1 3 0.2 0),
     (''mimo-v2-omni'', token_price 0.4 2 0.08 0),
     (''minimax-m3'', token_price 0.3 1.2 0.06 0),
     (''minimax-m2.7'', token_price 0.3 1.2 0.06 0.375),
     (''minimax-m2.5'', token_price 0.3 1.2 0.03 0.375),
     (''muse-spark-1.3-contributor'', token_price 0.1 0.2 0.002 0),
     (''muse-spark-1.2-contributor'', token_price 0.1 0.2 0.002 0),
     (''qwen3.8-max'', token_price 2 6 0.25 2.5),
     (''qwen3.8-flash'', token_price 0.15 0.47 0.016 0.2),
     (''qwen3.7-max'', token_price 2.5 7.5 0.5 3.125),
     (''qwen3.7-plus'', token_price 0.4 1.6 0.04 0.5),
     (''qwen3.6-plus'', token_price 0.5 3 0.05 0.625),
     (''qwen3.5-plus'', token_price 0.2 1.2 0.02 0.25),
     (''deepseek-v4-pro'', token_price 0.66 1.98 0.022 0),
     (''deepseek-v4-flash'', token_price 0.22 0.66 0.007 0),
     (''deepseek-v4-flash-vision-exp'', token_price 0.22 0.66 0.007 0),
     (''hy4-preview'', token_price 0.834 2.501 0.042 0),
     (''hy3'', token_price 0.14 0.58 0.035 0)]"

definition OPENCODE_GO_MODEL_ALIASES :: "(string \<times> string) list" where
  "OPENCODE_GO_MODEL_ALIASES =
    [(''ox-alpha'', ''glm-5.3-flash''),
     (''ox-alpha-free'', ''glm-5.3-flash''),
     (''x-preview-f'', ''glm-5.3-flash''),
     (''x-preview-f-free'', ''glm-5.3-flash'')]"

datatype price_provider = P_Zai | P_Alibaba | P_Opencode_Go

fun PROVIDER_PRICES :: "price_provider \<Rightarrow> (string \<times> model_token_price) list" where
  "PROVIDER_PRICES P_Zai = ZAI_MODEL_PRICES"
| "PROVIDER_PRICES P_Alibaba = ALI_MODEL_PRICES"
| "PROVIDER_PRICES P_Opencode_Go = OPENCODE_GO_MODEL_PRICES"

text \<open>The id behind the first slash, in lower case.\<close>

definition normaliseModelId :: "string \<Rightarrow> string" where
  "normaliseModelId model =
     toLowerCase (if CHR ''/'' \<in> set model then drop 1 (dropWhile (\<lambda>c. c \<noteq> CHR ''/'') model) else model)"

text \<open>\<open>replace(/(-free|:free|:global)+$/, "")\<close>: all such suffixes go.\<close>

function strip_go_suffixes :: "string \<Rightarrow> string" where
  "strip_go_suffixes s =
     (if ends_with s ''-free'' then strip_go_suffixes (take (length s - length ''-free'') s)
      else if ends_with s '':free'' then strip_go_suffixes (take (length s - length '':free'') s)
      else if ends_with s '':global'' then strip_go_suffixes (take (length s - length '':global'') s)
      else s)"
  by pat_completeness auto
termination
  by (relation "measure length") (auto simp: ends_with_def dest!: arg_cong[where f = length])

declare strip_go_suffixes.simps [simp del]

definition normaliseOpencodeGoModelId :: "string \<Rightarrow> string" where
  "normaliseOpencodeGoModelId model =
     (let base = strip_go_suffixes (normaliseModelId model)
      in default base (map_of OPENCODE_GO_MODEL_ALIASES base))"

text \<open>Full, uncached input plus output.\<close>

definition estimateModelTokenCost :: "price_provider \<Rightarrow> string \<Rightarrow> int \<Rightarrow> int \<Rightarrow> rat option" where
  "estimateModelTokenCost provider model inputTokens outputTokens =
     map_option (\<lambda>price. (of_int inputTokens * cost_per_1m_in price +
         of_int outputTokens * cost_per_1m_out price) / 1000000)
       (map_of (if provider = P_Zai then ZAI_MODEL_PRICES else ALI_MODEL_PRICES) (normaliseModelId model))"

definition estimateDetailedModelTokenCost :: "price_provider \<Rightarrow> string \<Rightarrow> int \<Rightarrow> int \<Rightarrow> int \<Rightarrow> int \<Rightarrow> rat option" where
  "estimateDetailedModelTokenCost provider model inputTokens outputTokens cacheReadTokens cacheWriteTokens =
     (let modelId = (if provider = P_Opencode_Go then normaliseOpencodeGoModelId model else normaliseModelId model)
      in map_option (\<lambda>price. (of_int (inputTokens + cacheWriteTokens) * cost_per_1m_in price +
             of_int outputTokens * cost_per_1m_out price +
             of_int cacheReadTokens * cost_per_1m_in_cached price) / 1000000)
           (map_of (PROVIDER_PRICES provider) modelId))"

section \<open>Four-rate prices\<close>

text \<open>\<open>BedrockModelPrice\<close> and \<open>ListModelPrice\<close> have the same fields.\<close>

record list_model_price =
  usdPer1mInput :: rat
  usdPer1mOutput :: rat
  usdPer1mCacheRead :: rat
  usdPer1mCacheWrite :: rat

definition list_price :: "rat \<Rightarrow> rat \<Rightarrow> rat \<Rightarrow> rat \<Rightarrow> list_model_price" where
  "list_price i out cacheRead cacheWrite = \<lparr> usdPer1mInput = i, usdPer1mOutput = out,
     usdPer1mCacheRead = cacheRead, usdPer1mCacheWrite = cacheWrite \<rparr>"

definition AWS_BEDROCK_MODEL_PRICES :: "(string \<times> list_model_price) list" where
  "AWS_BEDROCK_MODEL_PRICES =
    [(''openai.gpt-6-astra'', list_price 11 55 1.1 13.75),
     (''openai.gpt-5.6-luna'', list_price 0.22 1.32 0.022 0.275)]"

definition four_rate_cost :: "list_model_price \<Rightarrow> int \<Rightarrow> int \<Rightarrow> int \<Rightarrow> int \<Rightarrow> rat" where
  "four_rate_cost price inputTokens outputTokens cacheReadTokens cacheWriteTokens =
     (of_int inputTokens * usdPer1mInput price + of_int outputTokens * usdPer1mOutput price +
      of_int cacheReadTokens * usdPer1mCacheRead price + of_int cacheWriteTokens * usdPer1mCacheWrite price) / 1000000"

text \<open>\<open>replace(/^(p1|p2|...)\./, "")\<close>: at most one prefix goes.\<close>

definition strip_prefixes :: "string list \<Rightarrow> string \<Rightarrow> string" where
  "strip_prefixes ps s =
     (case find (\<lambda>p. starts_with s (p @ ''.'')) ps of None \<Rightarrow> s | Some p \<Rightarrow> drop (length p + 1) s)"

definition normaliseBedrockModelId :: "string \<Rightarrow> string" where
  "normaliseBedrockModelId model =
     strip_prefixes [''us'', ''eu'', ''apac'', ''global'', ''ca''] (toLowerCase (js_trim model))"

definition estimateBedrockTokenCost :: "string \<Rightarrow> int \<Rightarrow> int \<Rightarrow> int \<Rightarrow> int \<Rightarrow> rat option" where
  "estimateBedrockTokenCost model inputTokens outputTokens cacheReadTokens cacheWriteTokens =
     (let modelId = normaliseBedrockModelId model;
          price = (case map_of AWS_BEDROCK_MODEL_PRICES modelId of
             Some p \<Rightarrow> Some p
           | None \<Rightarrow> map_of AWS_BEDROCK_MODEL_PRICES
               (strip_prefixes [''openai'', ''anthropic'', ''meta'', ''amazon''] modelId))
      in map_option (\<lambda>p. four_rate_cost p inputTokens outputTokens cacheReadTokens cacheWriteTokens) price)"

definition unknownBedrockModelFallbackPrice :: list_model_price where
  "unknownBedrockModelFallbackPrice =
     (let entries = map snd AWS_BEDROCK_MODEL_PRICES
      in list_price (list_max (map usdPer1mInput entries)) (list_max (map usdPer1mOutput entries))
           (list_max (map usdPer1mCacheRead entries)) (list_max (map usdPer1mCacheWrite entries)))"

definition listPrice :: "rat \<Rightarrow> rat \<Rightarrow> rat \<Rightarrow> rat option \<Rightarrow> list_model_price" where
  "listPrice i out cacheRead cacheWrite = list_price i out cacheRead (default i cacheWrite)"

definition CHAT_MODEL_PRICES :: "(string \<times> list_model_price) list" where
  "CHAT_MODEL_PRICES =
    [(''claude-fable-5'', listPrice 10 50 1 (Some 12.5)),
     (''claude-fable-5-1'', listPrice 10 50 0.25 (Some 12.5)),
     (''claude-opus-4-5'', listPrice 5 25 0.5 (Some 6.25)),
     (''claude-opus-4-6'', listPrice 5 25 0.5 (Some 6.25)),
     (''claude-opus-4-7'', listPrice 5 25 0.5 (Some 6.25)),
     (''claude-opus-4-8'', listPrice 5 25 0.5 (Some 6.25)),
     (''claude-opus-5'', listPrice 5 25 0.5 (Some 6.25)),
     (''claude-sonnet-4-5'', listPrice 3 15 0.3 (Some 3.75)),
     (''claude-sonnet-4-6'', listPrice 3 15 0.3 (Some 3.75)),
     (''claude-sonnet-5'', listPrice 2 10 0.2 (Some 2.5)),
     (''claude-haiku-4-5'', listPrice 1 5 0.1 (Some 1.25)),
     (''gpt-5'', listPrice 1.25 10 0.125 None),
     (''gpt-5.1'', listPrice 1.25 10 0.125 None),
     (''gpt-5.2'', listPrice 1.75 14 0.175 None),
     (''gpt-5.2-codex'', listPrice 1.75 14 0.175 None),
     (''gpt-5.3-codex'', listPrice 1.75 14 0.175 None),
     (''gpt-5.1-codex-mini'', listPrice 0.25 2 0.025 None),
     (''gpt-5.4'', listPrice 2.5 15 0.25 None),
     (''gpt-5.4-mini'', listPrice 0.75 4.5 0.075 None),
     (''gpt-5.4-nano'', listPrice 0.2 1.25 0.02 None),
     (''gpt-5.5'', listPrice 5 30 0.5 None),
     (''gpt-5.6'', listPrice 4 20 0.4 (Some 5)),
     (''gpt-5.6-luna'', listPrice 0.2 1.2 0.02 (Some 0.25)),
     (''gpt-5.6-sol'', listPrice 4 20 0.4 (Some 5)),
     (''gpt-5.6-terra'', listPrice 2 12 0.2 (Some 2.5)),
     (''gpt-6-astra'', listPrice 10 50 1 (Some 12.5)),
     (''gpt-4o'', listPrice 2.5 10 1.25 None)]"

definition is_digit :: "char \<Rightarrow> bool" where
  "is_digit c \<longleftrightarrow> CHR ''0'' \<le> c \<and> c \<le> CHR ''9''"

text \<open>\<open>replace(/-\d{8}$/, "")\<close>: a dated snapshot prices like its base entry.\<close>

definition strip_date :: "string \<Rightarrow> string" where
  "strip_date s =
     (let n = length s - 9; tl = drop n s
      in if length s \<ge> 9 \<and> hd tl = CHR ''-'' \<and> list_all is_digit (drop 1 tl) then take n s else s)"

definition normaliseChatModelId :: "string \<Rightarrow> string" where
  "normaliseChatModelId model = strip_date (normaliseModelId model)"

definition estimateChatModelTokenCost :: "(string \<Rightarrow> list_model_price option) \<Rightarrow> string \<Rightarrow> int \<Rightarrow> int \<Rightarrow> int \<Rightarrow> int \<Rightarrow> rat option" where
  "estimateChatModelTokenCost fetched model inputTokens outputTokens cacheReadTokens cacheWriteTokens =
     (let modelId = normaliseChatModelId model;
          price = (case fetched modelId of Some p \<Rightarrow> Some p | None \<Rightarrow> map_of CHAT_MODEL_PRICES modelId)
      in map_option (\<lambda>p. four_rate_cost p inputTokens outputTokens cacheReadTokens cacheWriteTokens) price)"

section \<open>Costs are never negative, unknown models never cheap\<close>

definition prices_nonneg :: "list_model_price \<Rightarrow> bool" where
  "prices_nonneg p \<longleftrightarrow> 0 \<le> usdPer1mInput p \<and> 0 \<le> usdPer1mOutput p \<and> 0 \<le> usdPer1mCacheRead p \<and> 0 \<le> usdPer1mCacheWrite p"

definition token_prices_nonneg :: "model_token_price \<Rightarrow> bool" where
  "token_prices_nonneg p \<longleftrightarrow> 0 \<le> cost_per_1m_in p \<and> 0 \<le> cost_per_1m_out p \<and>
     0 \<le> cost_per_1m_in_cached p \<and> 0 \<le> cost_per_1m_out_cached p"

lemma tables_nonneg:
  "list_all (\<lambda>(_, p). prices_nonneg p) CHAT_MODEL_PRICES"
  "list_all (\<lambda>(_, p). prices_nonneg p) AWS_BEDROCK_MODEL_PRICES"
  "list_all (\<lambda>(_, p). token_prices_nonneg p) ZAI_MODEL_PRICES"
  "list_all (\<lambda>(_, p). token_prices_nonneg p) ALI_MODEL_PRICES"
  "list_all (\<lambda>(_, p). token_prices_nonneg p) OPENCODE_GO_MODEL_PRICES"
  by (code_simp, code_simp, code_simp, code_simp, code_simp)

lemma table_lookup: "list_all (\<lambda>(_, p). P p) t \<Longrightarrow> map_of t k = Some p \<Longrightarrow> P p"
  by (auto simp: list_all_iff dest: map_of_SomeD)

lemma four_rate_cost_nonneg:
  "prices_nonneg p \<Longrightarrow> 0 \<le> i \<Longrightarrow> 0 \<le> out \<Longrightarrow> 0 \<le> r \<Longrightarrow> 0 \<le> w \<Longrightarrow> 0 \<le> four_rate_cost p i out r w"
  by (simp add: four_rate_cost_def prices_nonneg_def)

lemma chat_cost_nonneg:
  assumes "estimateChatModelTokenCost fetched model i out r w = Some c" "0 \<le> i" "0 \<le> out" "0 \<le> r" "0 \<le> w"
    and "\<forall>k p. fetched k = Some p \<longrightarrow> prices_nonneg p"
  shows "0 \<le> c"
  using assms table_lookup[OF tables_nonneg(1)]
  by (auto simp: estimateChatModelTokenCost_def Let_def four_rate_cost_nonneg split: option.splits)

lemma detailed_cost_nonneg:
  assumes "estimateDetailedModelTokenCost provider model i out r w = Some c" "0 \<le> i" "0 \<le> out" "0 \<le> r" "0 \<le> w"
  shows "0 \<le> c"
proof -
  from assms(1) obtain k p where p: "map_of (PROVIDER_PRICES provider) k = Some p"
    and c: "c = (of_int (i + w) * cost_per_1m_in p + of_int out * cost_per_1m_out p +
      of_int r * cost_per_1m_in_cached p) / 1000000"
    by (auto simp: estimateDetailedModelTokenCost_def Let_def split: if_splits)
  have "token_prices_nonneg p"
    using p table_lookup[OF tables_nonneg(3)] table_lookup[OF tables_nonneg(4)] table_lookup[OF tables_nonneg(5)]
    by (cases provider) auto
  with assms(2-5) show ?thesis by (simp add: c token_prices_nonneg_def)
qed

lemma four_rate_cost_mono:
  assumes "usdPer1mInput p \<le> usdPer1mInput q" "usdPer1mOutput p \<le> usdPer1mOutput q"
    "usdPer1mCacheRead p \<le> usdPer1mCacheRead q" "usdPer1mCacheWrite p \<le> usdPer1mCacheWrite q"
    and "0 \<le> i" "0 \<le> out" "0 \<le> r" "0 \<le> w"
  shows "four_rate_cost p i out r w \<le> four_rate_cost q i out r w"
  using assms unfolding four_rate_cost_def
  by (intro divide_right_mono add_mono mult_left_mono) auto

lemma fallback_dominates:
  assumes "map_of AWS_BEDROCK_MODEL_PRICES k = Some p" "0 \<le> i" "0 \<le> out" "0 \<le> r" "0 \<le> w"
  shows "four_rate_cost p i out r w \<le> four_rate_cost unknownBedrockModelFallbackPrice i out r w"
proof -
  have "p \<in> snd ` set AWS_BEDROCK_MODEL_PRICES" using map_of_SomeD[OF assms(1)] by force
  then have le: "f p \<le> list_max (map f (map snd AWS_BEDROCK_MODEL_PRICES))" for f :: "list_model_price \<Rightarrow> rat"
    by (intro list_max_ge) auto
  show ?thesis
    by (rule four_rate_cost_mono[OF _ _ _ _ assms(2-5)])
      (simp_all only: unknownBedrockModelFallbackPrice_def Let_def list_price_def list_model_price.simps le)
qed

end
