(* ===== verification/Usage_Tap.thy ===== *)
theory Usage_Tap
  imports Model_Pricing "HOL-Library.Sublist"
begin

text \<open>
  The observer that reads token usage from a response body while it streams through the gateway
  (\<open>src/gateway/usage.ts\<close>). Bytes and UTF-16 code units are natural numbers. The decoder of the
  standard library is a record of functions with a state of its own, \<open>JSON.parse\<close> a function that
  is undefined where it throws. The tap is the class's fields; \<open>write_tap\<close> and \<open>result_tap\<close> are its
  public methods.
\<close>

type_synonym bytes = "nat list"
type_synonym units = "nat list"

definition units_of :: "string \<Rightarrow> units" where
  "units_of s = map of_char s"

record 'd text_decoder =
  td_init :: 'd
  td_step :: "'d \<Rightarrow> bytes \<Rightarrow> units \<times> 'd"
  td_flush :: "'d \<Rightarrow> units"

text \<open>What \<open>decode(chunk, { stream: true })\<close> documents: the chunk boundaries do not matter.\<close>

definition streaming :: "'d text_decoder \<Rightarrow> bool" where
  "streaming dec \<longleftrightarrow>
     (\<forall>d. td_step dec d [] = ([], d)) \<and>
     (\<forall>d xs ys. td_step dec d (xs @ ys) =
        (let (t1, d1) = td_step dec d xs; (t2, d2) = td_step dec d1 ys in (t1 @ t2, d2)))"

record tap_env =
  te_parse :: "units \<Rightarrow> json option"

record usage_counts =
  uc_model :: "string option"
  uc_inputTokens :: int
  uc_outputTokens :: int
  uc_cacheReadTokens :: int
  uc_cacheWriteTokens :: int

definition MAX_JSON_BYTES :: nat where
  "MAX_JSON_BYTES = 4 * 1024 * 1024"

definition MAX_EVENT_BYTES :: nat where
  "MAX_EVENT_BYTES = 1024 * 1024"

datatype usage_status_of = Usage_Ok | Usage_None | Usage_Unparseable | Usage_Overflow

datatype usage_style = Anthropic_Style | Responses_Style | Chat_Style

definition is_obj :: "json option \<Rightarrow> bool" where
  "is_obj v = (case v of Some (JObj _) \<Rightarrow> True | _ \<Rightarrow> False)"

definition num_of :: "json option \<Rightarrow> int option" where
  "num_of v = (case v of Some (JNum (Fin q)) \<Rightarrow> (if q \<ge> 0 then Some \<lfloor>q\<rfloor> else None) | _ \<Rightarrow> None)"

definition SSE_FIELDS :: "bytes list" where
  "SSE_FIELDS = map units_of [''event:'', ''data:'', ''id:'', ''retry:'']"

record tap =
  tp_style :: usage_style
  tp_counts :: usage_counts
  tp_sse :: bool
  tp_sniffing :: bool
  tp_held0 :: bytes
  tp_parts :: "bytes list"
  tp_held :: nat
  tp_overflow :: bool
  tp_found :: bool
  tp_bad :: bool
  tp_line :: units
  tp_lineTooLong :: bool
  tp_skipLf :: bool
  tp_data :: "units list"
  tp_dataBytes :: nat
  tp_eventTooBig :: bool

text \<open>The decoder is the one field the observing code never looks at; it stands beside the others.\<close>

record 'd usage_tap =
  ut_tap :: tap
  ut_decoder :: 'd

definition includes_at :: "string \<Rightarrow> string \<Rightarrow> bool" where
  "includes_at s t = list_ex (\<lambda>i. starts_with (drop i s) t) [0..<Suc (length s)]"

definition new_tap :: "usage_style \<Rightarrow> string \<Rightarrow> tap" where
  "new_tap style contentType =
     (let ct = toLowerCase contentType; sse = includes_at ct ''text/event-stream''
      in \<lparr> tp_style = style,
           tp_counts = \<lparr> uc_model = None, uc_inputTokens = 0, uc_outputTokens = 0,
             uc_cacheReadTokens = 0, uc_cacheWriteTokens = 0 \<rparr>,
           tp_sse = sse, tp_sniffing = (\<not> sse \<and> \<not> includes_at ct ''json''), tp_held0 = [],
           tp_parts = [], tp_held = 0, tp_overflow = False, tp_found = False,
           tp_bad = False, tp_line = [], tp_lineTooLong = False, tp_skipLf = False, tp_data = [],
           tp_dataBytes = 0, tp_eventTooBig = False \<rparr>)"

definition new_usage_tap :: "'d text_decoder \<Rightarrow> usage_style \<Rightarrow> string \<Rightarrow> 'd usage_tap" where
  "new_usage_tap dec style contentType = \<lparr> ut_tap = new_tap style contentType, ut_decoder = td_init dec \<rparr>"

section \<open>Usage of one JSON value\<close>

definition setModel :: "json option \<Rightarrow> usage_counts \<Rightarrow> usage_counts" where
  "setModel v c = (case v of Some (JStr s) \<Rightarrow> (if s = '''' then c else c\<lparr> uc_model := Some s \<rparr>) | _ \<Rightarrow> c)"

definition get_of :: "json option \<Rightarrow> string \<Rightarrow> json option" where
  "get_of v k = Option.bind v (\<lambda>j. js_get j k)"

definition applyAnthropic :: "json \<Rightarrow> tap \<Rightarrow> tap" where
  "applyAnthropic doc t =
     (let msg = (if is_obj (js_get doc ''message'') then js_get doc ''message'' else Some doc);
          c = setModel (get_of msg ''model'') (tp_counts t);
          u = (if is_obj (get_of msg ''usage'') then get_of msg ''usage''
               else if is_obj (js_get doc ''usage'') then js_get doc ''usage'' else None);
          larger = (\<lambda>old key. max old (default 0 (num_of (get_of u key))))
      in if u = None then t\<lparr> tp_counts := c \<rparr>
         else t\<lparr> tp_found := True, tp_counts := c\<lparr>
                uc_inputTokens := larger (uc_inputTokens c) ''input_tokens'',
                uc_outputTokens := larger (uc_outputTokens c) ''output_tokens'',
                uc_cacheReadTokens := larger (uc_cacheReadTokens c) ''cache_read_input_tokens'',
                uc_cacheWriteTokens := larger (uc_cacheWriteTokens c) ''cache_creation_input_tokens'' \<rparr> \<rparr>)"

definition setOpenAi :: "int \<Rightarrow> int option \<Rightarrow> int option \<Rightarrow> tap \<Rightarrow> tap" where
  "setOpenAi prompt output cached t =
     (let read = min (default 0 cached) prompt
      in t\<lparr> tp_found := True, tp_counts := (tp_counts t)\<lparr>
            uc_inputTokens := prompt - read, uc_cacheReadTokens := read, uc_cacheWriteTokens := 0,
            uc_outputTokens := default 0 output \<rparr> \<rparr>)"

definition open_ai_usage :: "json option \<Rightarrow> string \<Rightarrow> string \<Rightarrow> string \<Rightarrow> tap \<Rightarrow> tap" where
  "open_ai_usage u promptKey outputKey detailsKey t =
     (if \<not> is_obj u then t
      else case num_of (get_of u promptKey) of
             None \<Rightarrow> t
           | Some prompt \<Rightarrow> setOpenAi prompt (num_of (get_of u outputKey))
               (if is_obj (get_of u detailsKey) then num_of (get_of (get_of u detailsKey) ''cached_tokens'') else None) t)"

definition applyResponses :: "json \<Rightarrow> tap \<Rightarrow> tap" where
  "applyResponses doc t =
     (let r = (if is_obj (js_get doc ''response'') then js_get doc ''response'' else Some doc)
      in open_ai_usage (get_of r ''usage'') ''input_tokens'' ''output_tokens'' ''input_tokens_details''
           (t\<lparr> tp_counts := setModel (get_of r ''model'') (tp_counts t) \<rparr>))"

definition applyChat :: "json \<Rightarrow> tap \<Rightarrow> tap" where
  "applyChat doc t =
     open_ai_usage (js_get doc ''usage'') ''prompt_tokens'' ''completion_tokens'' ''prompt_tokens_details''
       (t\<lparr> tp_counts := setModel (js_get doc ''model'') (tp_counts t) \<rparr>)"

definition apply_usage :: "json \<Rightarrow> tap \<Rightarrow> tap" where
  "apply_usage doc t =
     (if \<not> is_obj (Some doc) then t\<lparr> tp_bad := True \<rparr>
      else case tp_style t of
             Anthropic_Style \<Rightarrow> applyAnthropic doc t
           | Responses_Style \<Rightarrow> applyResponses doc t
           | Chat_Style \<Rightarrow> applyChat doc t)"

section \<open>Server-sent events\<close>

definition dispatch :: "tap_env \<Rightarrow> tap \<Rightarrow> tap" where
  "dispatch env t =
     (let t' = t\<lparr> tp_data := [], tp_dataBytes := 0, tp_eventTooBig := False \<rparr>;
          joined = join_with [10] (tp_data t)
      in if tp_eventTooBig t \<or> tp_data t = [] then t'
         else if joined = units_of ''[DONE]'' then t'
         else case te_parse env joined of
                None \<Rightarrow> t'\<lparr> tp_bad := True \<rparr>
              | Some doc \<Rightarrow> apply_usage doc t')"

definition prefix_of :: "units \<Rightarrow> units \<Rightarrow> bool" where
  "prefix_of p s \<longleftrightarrow> take (length p) s = p"

definition endLine :: "tap_env \<Rightarrow> tap \<Rightarrow> tap" where
  "endLine env t =
     (let line = tp_line t; t' = t\<lparr> tp_line := [], tp_lineTooLong := False \<rparr>
      in if tp_lineTooLong t then t'\<lparr> tp_eventTooBig := True, tp_overflow := True \<rparr>
         else if line = [] then dispatch env t'
         else if \<not> prefix_of (units_of ''data:'') line then t'
         else
           let v0 = drop 5 line; v = (if prefix_of [32] v0 then drop 1 v0 else v0);
               n = tp_dataBytes t + length v + 1
           in if n > MAX_EVENT_BYTES
              then t'\<lparr> tp_dataBytes := n, tp_eventTooBig := True, tp_overflow := True, tp_data := [] \<rparr>
              else if tp_eventTooBig t then t'\<lparr> tp_dataBytes := n \<rparr>
              else t'\<lparr> tp_dataBytes := n, tp_data := tp_data t @ [v] \<rparr>)"

definition appendLine :: "units \<Rightarrow> tap \<Rightarrow> tap" where
  "appendLine s t =
     (if s = [] \<or> tp_lineTooLong t then t
      else if length (tp_line t) + length s > MAX_EVENT_BYTES then t\<lparr> tp_lineTooLong := True, tp_line := [] \<rparr>
      else t\<lparr> tp_line := tp_line t @ s \<rparr>)"

text \<open>The loop of \<open>feedText\<close>; \<open>seg\<close> is the slice from \<open>start\<close> to the current index.\<close>

fun feed :: "tap_env \<Rightarrow> units \<Rightarrow> units \<Rightarrow> tap \<Rightarrow> tap" where
  "feed env seg [] t = appendLine seg t"
| "feed env seg (ch # cs) t =
     (if tp_skipLf t \<and> ch = 10 then feed env [] cs (t\<lparr> tp_skipLf := False \<rparr>)
      else
        let t' = t\<lparr> tp_skipLf := False \<rparr>
        in if ch \<noteq> 10 \<and> ch \<noteq> 13 then feed env (seg @ [ch]) cs t'
           else feed env [] cs ((endLine env (appendLine seg t'))\<lparr> tp_skipLf := (ch = 13) \<rparr>))"

definition feedText :: "tap_env \<Rightarrow> units \<Rightarrow> tap \<Rightarrow> tap" where
  "feedText env = feed env []"

definition writeSse :: "tap_env \<Rightarrow> 'd text_decoder \<Rightarrow> bytes \<Rightarrow> 'd usage_tap \<Rightarrow> 'd usage_tap" where
  "writeSse env dec chunk t =
     (let (txt, d) = td_step dec (ut_decoder t) chunk
      in \<lparr> ut_tap = feedText env txt (ut_tap t), ut_decoder = d \<rparr>)"

definition writeJson :: "bytes \<Rightarrow> tap \<Rightarrow> tap" where
  "writeJson chunk t =
     (if tp_overflow t then t
      else if tp_held t + length chunk > MAX_JSON_BYTES
      then t\<lparr> tp_overflow := True, tp_parts := [], tp_held := 0 \<rparr>
      else t\<lparr> tp_parts := tp_parts t @ [chunk], tp_held := tp_held t + length chunk \<rparr>)"

section \<open>Sniffing and the public methods\<close>

definition is_ws :: "nat \<Rightarrow> bool" where
  "is_ws b \<longleftrightarrow> b = 32 \<or> b = 9 \<or> b = 10 \<or> b = 13"

datatype sniffed = Undecided bytes | Decided bool bytes

definition sniff_bytes :: "bytes \<Rightarrow> sniffed" where
  "sniff_bytes allb =
     (let body = dropWhile is_ws allb; head = take 6 body;
          isField = list_ex (\<lambda>f. prefix_of f head) SSE_FIELDS;
          comment = prefix_of (units_of '':'') head
      in if body = [] then Undecided []
         else if \<not> isField \<and> \<not> comment \<and> length head < 6 \<and> list_ex (\<lambda>f. prefix_of head f) SSE_FIELDS
         then Undecided body
         else Decided (isField \<or> comment) body)"

definition sniff :: "bytes \<Rightarrow> tap \<Rightarrow> bytes option \<times> tap" where
  "sniff chunk t =
     (case sniff_bytes (tp_held0 t @ chunk) of
        Undecided held \<Rightarrow> (None, t\<lparr> tp_held0 := held \<rparr>)
      | Decided sse body \<Rightarrow> (Some body, t\<lparr> tp_held0 := [], tp_sniffing := False, tp_sse := sse \<rparr>))"

definition write_body :: "tap_env \<Rightarrow> 'd text_decoder \<Rightarrow> bytes \<Rightarrow> 'd usage_tap \<Rightarrow> 'd usage_tap" where
  "write_body env dec chunk t =
     (if tp_sse (ut_tap t) then writeSse env dec chunk t else t\<lparr> ut_tap := writeJson chunk (ut_tap t) \<rparr>)"

definition write_tap :: "tap_env \<Rightarrow> 'd text_decoder \<Rightarrow> bytes \<Rightarrow> 'd usage_tap \<Rightarrow> 'd usage_tap" where
  "write_tap env dec chunk t =
     (if tp_sniffing (ut_tap t)
      then (case sniff chunk (ut_tap t) of
              (None, t') \<Rightarrow> t\<lparr> ut_tap := t' \<rparr>
            | (Some rest, t') \<Rightarrow> write_body env dec rest (t\<lparr> ut_tap := t' \<rparr>))
      else write_body env dec chunk t)"

definition isSse :: "'d usage_tap \<Rightarrow> bool" where
  "isSse t = tp_sse (ut_tap t)"

text \<open>The end of the body: what is pending is read, then the counts are taken.\<close>

definition finish_tap :: "tap_env \<Rightarrow> 'd text_decoder \<Rightarrow> 'd usage_tap \<Rightarrow> tap" where
  "finish_tap env dec t =
     (let tap = ut_tap t in
      if tp_sse tap
      then dispatch env (endLine env (feedText env (td_flush dec (ut_decoder t)) tap))
      else if \<not> tp_overflow tap \<and> tp_held tap > 0 \<and> tp_parts tap \<noteq> []
      then (let buf = concat (tp_parts tap); t0 = tap\<lparr> tp_parts := [] \<rparr>;
                (txt, d) = td_step dec (td_init dec) buf
            in case te_parse env (txt @ td_flush dec d) of
                 None \<Rightarrow> t0\<lparr> tp_bad := True \<rparr>
               | Some doc \<Rightarrow> apply_usage doc t0)
      else tap)"

definition result_tap :: "tap_env \<Rightarrow> 'd text_decoder \<Rightarrow> 'd usage_tap \<Rightarrow> usage_counts \<times> 'd usage_tap" where
  "result_tap env dec t =
     (let t' = finish_tap env dec t in (tp_counts t', \<lparr> ut_tap = t', ut_decoder = td_init dec \<rparr>))"

definition status_tap :: "tap_env \<Rightarrow> 'd text_decoder \<Rightarrow> 'd usage_tap \<Rightarrow> usage_status_of" where
  "status_tap env dec t =
     (let t' = finish_tap env dec t
      in if tp_overflow t' then Usage_Overflow
         else if tp_found t' then Usage_Ok
         else if tp_bad t' then Usage_Unparseable else Usage_None)"

section \<open>Chunk boundaries do not matter\<close>

lemma appendLine_append: "appendLine s2 (appendLine s1 t) = appendLine (s1 @ s2) t"
  by (auto simp: appendLine_def)

lemma appendLine_skipLf [simp]: "tp_skipLf (appendLine s t) = tp_skipLf t"
  by (simp add: appendLine_def)

lemma skipLf_id: "\<not> tp_skipLf t \<Longrightarrow> t\<lparr> tp_skipLf := False \<rparr> = t"
  by (cases t) simp

lemma feed_seg: "\<not> tp_skipLf t \<Longrightarrow> feed env [] cs (appendLine seg t) = feed env seg cs t"
proof (induction cs arbitrary: seg t)
  case Nil
  then show ?case by (simp add: appendLine_def)
next
  case (Cons ch cs)
  have same: "t\<lparr> tp_skipLf := False \<rparr> = t" "(appendLine seg t)\<lparr> tp_skipLf := False \<rparr> = appendLine seg t"
    using Cons.prems by (simp_all add: skipLf_id)
  show ?case
  proof (cases "ch = 10 \<or> ch = 13")
    case True
    have "appendLine [] (appendLine seg t) = appendLine seg t" by (simp add: appendLine_append)
    with True show ?thesis using Cons.prems by (auto simp add: Let_def same)
  next
    case False
    have "feed env [ch] cs (appendLine seg t) = feed env [] cs (appendLine [ch] (appendLine seg t))"
      using Cons.IH[of "appendLine seg t" "[ch]"] Cons.prems by simp
    also have "\<dots> = feed env (seg @ [ch]) cs t"
      using Cons.IH[of t "seg @ [ch]"] Cons.prems by (simp add: appendLine_append)
    finally show ?thesis using False Cons.prems by (simp add: Let_def same)
  qed
qed

lemma feed_append:
  "(seg = [] \<or> \<not> tp_skipLf t) \<Longrightarrow> feed env [] ys (feed env seg xs t) = feed env seg (xs @ ys) t"
proof (induction xs arbitrary: seg t)
  case Nil
  show ?case
  proof (cases "seg = []")
    case True
    then show ?thesis by (simp add: appendLine_def)
  next
    case False
    with Nil feed_seg show ?thesis by auto
  qed
next
  case (Cons ch xs)
  show ?case
    by (auto simp: Let_def Cons.IH)
qed

lemma feedText_append: "feedText env ys (feedText env xs t) = feedText env (xs @ ys) t"
  by (simp add: feedText_def feed_append)

lemma prefix_of_prefix: "prefix_of p s \<longleftrightarrow> prefix p s"
  by (metis append_take_drop_id prefixI prefix_of_def prefix_def append_eq_conv_conj)

lemma sniff_bytes_Undecided:
  assumes "sniff_bytes xs = Undecided held"
  shows "held = dropWhile is_ws xs" "sniff_bytes held = Undecided held"
    "sniff_bytes (held @ ys) = sniff_bytes (xs @ ys)"
proof -
  show held: "held = dropWhile is_ws xs"
    using assms by (auto simp: sniff_bytes_def Let_def simp del: dropWhile_eq_Nil_conv split: if_splits)
  have idem: "dropWhile is_ws held = held" by (simp add: held)
  have "dropWhile is_ws (held @ ys) = dropWhile is_ws (xs @ ys)"
    unfolding held by (induction xs) auto
  then show "sniff_bytes (held @ ys) = sniff_bytes (xs @ ys)"
    by (simp add: sniff_bytes_def Let_def)
  show "sniff_bytes held = Undecided held"
    using assms held idem by (auto simp: sniff_bytes_def Let_def split: if_splits)
qed

lemma sniff_bytes_Decided:
  assumes "sniff_bytes xs = Decided sse body"
  shows "sniff_bytes (xs @ ys) = Decided sse (body @ ys)"
proof -
  have body: "body = dropWhile is_ws xs" "body \<noteq> []"
    using assms by (auto simp: sniff_bytes_def Let_def split: if_splits)
  then have drop: "dropWhile is_ws (xs @ ys) = body @ ys"
    by (metis dropWhile_append dropWhile_eq_Nil_conv)
  let ?fields = "\<lambda>hd. list_ex (\<lambda>f. prefix_of f hd) SSE_FIELDS"
  let ?could = "\<lambda>hd. list_ex (\<lambda>f. prefix_of hd f) SSE_FIELDS"
  let ?h = "take 6 body" and ?h' = "take 6 (body @ ys)"
  have dec: "sse \<longleftrightarrow> ?fields ?h \<or> prefix_of (units_of '':'') ?h"
    "?fields ?h \<or> prefix_of (units_of '':'') ?h \<or> \<not> length ?h < 6 \<or> \<not> ?could ?h"
    using assms body by (auto simp: sniff_bytes_def Let_def split: if_splits)
  have ext: "prefix ?h ?h'" by (auto simp: prefix_def)
  have grow: "?fields ?h \<Longrightarrow> ?fields ?h'" "prefix_of (units_of '':'') ?h \<Longrightarrow> prefix_of (units_of '':'') ?h'"
    using ext prefix_order.trans unfolding list_ex_iff prefix_of_prefix by blast+
  have colon: "prefix_of (units_of '':'') ?h' \<Longrightarrow> prefix_of (units_of '':'') ?h"
    using body(2) by (cases body) (auto simp: prefix_of_def units_of_def)
  have shrink: "?fields ?h' \<Longrightarrow> ?fields ?h \<or> ?could ?h"
    using ext prefix_same_cases unfolding list_ex_iff prefix_of_prefix by blast
  have full: "\<not> length ?h < 6 \<Longrightarrow> ?h' = ?h" by (simp add: min_def split: if_splits)
  have same: "?fields ?h' \<or> prefix_of (units_of '':'') ?h' \<longleftrightarrow> ?fields ?h \<or> prefix_of (units_of '':'') ?h"
    using dec(2) grow colon shrink full by metis
  have could: "?fields ?h' \<or> prefix_of (units_of '':'') ?h' \<or> \<not> length ?h' < 6 \<or> \<not> ?could ?h'"
  proof -
    have "?could ?h' \<Longrightarrow> ?could ?h"
      using ext prefix_order.trans unfolding list_ex_iff prefix_of_prefix by blast
    with dec(2) same full show ?thesis by metis
  qed
  show ?thesis using same could dec(1) body(2) drop by (auto simp: sniff_bytes_def Let_def)
qed

text \<open>Two taps that differ at most in how the held JSON bytes are cut into parts.\<close>

definition tap_eq :: "'d usage_tap \<Rightarrow> 'd usage_tap \<Rightarrow> bool" where
  "tap_eq t u \<longleftrightarrow> ut_decoder t = ut_decoder u \<and>
     (ut_tap t = ut_tap u \<or>
      \<not> tp_sniffing (ut_tap t) \<and> \<not> tp_sse (ut_tap t) \<and>
      (ut_tap t)\<lparr> tp_parts := [] \<rparr> = (ut_tap u)\<lparr> tp_parts := [] \<rparr> \<and>
      concat (tp_parts (ut_tap t)) = concat (tp_parts (ut_tap u)))"

definition tap_ok :: "'d usage_tap \<Rightarrow> bool" where
  "tap_ok t \<longleftrightarrow> tp_held (ut_tap t) = length (concat (tp_parts (ut_tap t))) \<and>
     tp_held (ut_tap t) \<le> MAX_JSON_BYTES \<and>
     (tp_sniffing (ut_tap t) \<longrightarrow> sniff_bytes (tp_held0 (ut_tap t)) = Undecided (tp_held0 (ut_tap t)))"

lemma writeJson_parts:
  "concat (tp_parts (writeJson xs t)) = (if tp_overflow t then concat (tp_parts t)
     else if tp_held t + length xs > MAX_JSON_BYTES then [] else concat (tp_parts t) @ xs)"
  by (simp add: writeJson_def)

lemma open_ai_usage_fields:
  "tp_held (open_ai_usage u p k d t) = tp_held t" "tp_parts (open_ai_usage u p k d t) = tp_parts t"
  "tp_sniffing (open_ai_usage u p k d t) = tp_sniffing t" "tp_sse (open_ai_usage u p k d t) = tp_sse t"
  "tp_held0 (open_ai_usage u p k d t) = tp_held0 t"
  by (simp_all add: open_ai_usage_def setOpenAi_def Let_def split: option.split)

lemma applyAnthropic_fields:
  "tp_held (applyAnthropic doc t) = tp_held t" "tp_parts (applyAnthropic doc t) = tp_parts t"
  "tp_sniffing (applyAnthropic doc t) = tp_sniffing t" "tp_sse (applyAnthropic doc t) = tp_sse t"
  "tp_held0 (applyAnthropic doc t) = tp_held0 t"
  by (simp_all only: applyAnthropic_def Let_def split: if_split) simp_all

lemma apply_usage_fields:
  "tp_held (apply_usage doc t) = tp_held t" "tp_parts (apply_usage doc t) = tp_parts t"
  "tp_sniffing (apply_usage doc t) = tp_sniffing t" "tp_sse (apply_usage doc t) = tp_sse t"
  "tp_held0 (apply_usage doc t) = tp_held0 t"
  by (simp_all add: apply_usage_def applyAnthropic_fields applyResponses_def applyChat_def open_ai_usage_fields
      Let_def split: usage_style.split)

lemma dispatch_fields:
  "tp_held (dispatch env t) = tp_held t" "tp_parts (dispatch env t) = tp_parts t"
  "tp_sniffing (dispatch env t) = tp_sniffing t" "tp_sse (dispatch env t) = tp_sse t"
  "tp_held0 (dispatch env t) = tp_held0 t"
  by (auto simp: dispatch_def Let_def apply_usage_fields split: option.split)

lemma endLine_fields:
  "tp_held (endLine env t) = tp_held t" "tp_parts (endLine env t) = tp_parts t"
  "tp_sniffing (endLine env t) = tp_sniffing t" "tp_sse (endLine env t) = tp_sse t"
  "tp_held0 (endLine env t) = tp_held0 t"
  by (auto simp: endLine_def Let_def dispatch_fields)

lemma appendLine_fields:
  "tp_held (appendLine s t) = tp_held t" "tp_parts (appendLine s t) = tp_parts t"
  "tp_sniffing (appendLine s t) = tp_sniffing t" "tp_sse (appendLine s t) = tp_sse t"
  "tp_held0 (appendLine s t) = tp_held0 t"
  by (auto simp: appendLine_def)

lemma feed_fields:
  "tp_held (feed env seg cs t) = tp_held t \<and> tp_parts (feed env seg cs t) = tp_parts t \<and>
   tp_sniffing (feed env seg cs t) = tp_sniffing t \<and> tp_sse (feed env seg cs t) = tp_sse t \<and>
   tp_held0 (feed env seg cs t) = tp_held0 t"
  by (induction env seg cs t rule: feed.induct) (simp_all add: appendLine_fields endLine_fields Let_def)

lemma write_body_ok:
  assumes "tap_ok t" "\<not> tp_sniffing (ut_tap t)"
  shows "tap_ok (write_body env dec xs t) \<and> \<not> tp_sniffing (ut_tap (write_body env dec xs t))"
  using assms
  by (auto simp: tap_ok_def write_body_def writeSse_def feedText_def feed_fields writeJson_def split: prod.split)

lemma write_tap_ok:
  assumes "tap_ok t"
  shows "tap_ok (write_tap env dec xs t)"
proof (cases "tp_sniffing (ut_tap t)")
  case True
  show ?thesis
  proof (cases "sniff_bytes (tp_held0 (ut_tap t) @ xs)")
    case (Undecided held)
    with True assms sniff_bytes_Undecided(2)[OF Undecided] show ?thesis
      by (simp add: write_tap_def sniff_def tap_ok_def)
  next
    case (Decided sse body)
    let ?t = "t\<lparr> ut_tap := (ut_tap t)\<lparr> tp_held0 := [], tp_sniffing := False, tp_sse := sse \<rparr> \<rparr>"
    have "tap_ok ?t" using assms by (simp add: tap_ok_def)
    with write_body_ok[of ?t env dec body] True Decided show ?thesis
      by (simp add: write_tap_def sniff_def)
  qed
next
  case False
  with write_body_ok[OF assms False] show ?thesis by (simp add: write_tap_def)
qed

lemma tap_eq_refl [simp]: "tap_eq t t"
  by (simp add: tap_eq_def)

lemma tap_eq_trans: "tap_eq t u \<Longrightarrow> tap_eq u v \<Longrightarrow> tap_eq t v"
proof -
  assume tu: "tap_eq t u" and uv: "tap_eq u v"
  show ?thesis
  proof (cases "ut_tap t = ut_tap u \<or> ut_tap u = ut_tap v")
    case True
    with tu uv show ?thesis by (auto simp: tap_eq_def)
  next
    case False
    with tu uv show ?thesis by (simp add: tap_eq_def)
  qed
qed

lemma writeJson_eq:
  assumes "t\<lparr> tp_parts := [] \<rparr> = u\<lparr> tp_parts := [] \<rparr>" "concat (tp_parts t) = concat (tp_parts u)"
  shows "(writeJson xs t)\<lparr> tp_parts := [] \<rparr> = (writeJson xs u)\<lparr> tp_parts := [] \<rparr> \<and>
    concat (tp_parts (writeJson xs t)) = concat (tp_parts (writeJson xs u))"
proof -
  have f: "tp_overflow t = tp_overflow u" "tp_held t = tp_held u"
    using arg_cong[OF assms(1), of tp_overflow] arg_cong[OF assms(1), of tp_held] by simp_all
  have u: "u = t\<lparr> tp_parts := tp_parts u \<rparr>"
    using arg_cong[OF assms(1), of "\<lambda>x. x\<lparr> tp_parts := tp_parts u \<rparr>"] by simp
  show ?thesis
    by (subst u, subst (2) u) (use assms(2) in \<open>simp add: writeJson_def\<close>)
qed

lemma write_tap_cong:
  assumes "tap_eq t u"
  shows "tap_eq (write_tap env dec xs t) (write_tap env dec xs u)"
proof (cases "ut_tap t = ut_tap u")
  case True
  with assms have "t = u" by (simp add: tap_eq_def)
  then show ?thesis by simp
next
  case False
  with assms have eq: "\<not> tp_sniffing (ut_tap t)" "\<not> tp_sse (ut_tap t)" "ut_decoder t = ut_decoder u"
    "(ut_tap t)\<lparr> tp_parts := [] \<rparr> = (ut_tap u)\<lparr> tp_parts := [] \<rparr>"
    "concat (tp_parts (ut_tap t)) = concat (tp_parts (ut_tap u))" by (auto simp: tap_eq_def)
  have "tp_sniffing (ut_tap u) = tp_sniffing (ut_tap t)" "tp_sse (ut_tap u) = tp_sse (ut_tap t)"
    using arg_cong[OF eq(4), of tp_sniffing] arg_cong[OF eq(4), of tp_sse] by simp_all
  then have u: "\<not> tp_sniffing (ut_tap u)" "\<not> tp_sse (ut_tap u)" using eq(1,2) by auto
  have keep: "tp_sniffing (writeJson xs s) = tp_sniffing s" "tp_sse (writeJson xs s) = tp_sse s" for s
    by (simp_all add: writeJson_def)
  from writeJson_eq[OF eq(4,5), of xs] show ?thesis
    by (simp add: write_tap_def write_body_def eq u tap_eq_def keep)
qed

lemma write_body_append:
  assumes "streaming dec" "tap_ok t" "\<not> tp_sniffing (ut_tap t)"
  shows "tap_eq (write_body env dec ys (write_body env dec xs t)) (write_body env dec (xs @ ys) t)"
proof (cases "tp_sse (ut_tap t)")
  case True
  obtain t1 d1 where 1: "td_step dec (ut_decoder t) xs = (t1, d1)" by fastforce
  obtain t2 d2 where 2: "td_step dec d1 ys = (t2, d2)" by fastforce
  have "td_step dec (ut_decoder t) (xs @ ys) = (t1 @ t2, d2)"
    using assms(1) 1 2 by (simp add: streaming_def)
  moreover have "tp_sse (feedText env t1 (ut_tap t))" using True by (simp add: feedText_def feed_fields)
  ultimately show ?thesis using True 1 2 by (simp add: write_body_def writeSse_def feedText_append)
next
  case False
  have "tp_sse (writeJson xs (ut_tap t)) = tp_sse (ut_tap t)" "tp_sniffing (writeJson xs (ut_tap t)) = tp_sniffing (ut_tap t)" for xs
    by (simp_all add: writeJson_def)
  then show ?thesis using False assms(3)
    by (auto simp: write_body_def tap_eq_def writeJson_def)
qed

lemma write_tap_append:
  assumes "streaming dec" "tap_ok t"
  shows "tap_eq (write_tap env dec ys (write_tap env dec xs t)) (write_tap env dec (xs @ ys) t)"
proof (cases "tp_sniffing (ut_tap t)")
  case True
  show ?thesis
  proof (cases "sniff_bytes (tp_held0 (ut_tap t) @ xs)")
    case (Undecided held)
    from sniff_bytes_Undecided(3)[OF Undecided, of ys] True Undecided show ?thesis
      by (auto simp: write_tap_def sniff_def split: sniffed.split)
  next
    case (Decided sse body)
    let ?t = "t\<lparr> ut_tap := (ut_tap t)\<lparr> tp_held0 := [], tp_sniffing := False, tp_sse := sse \<rparr> \<rparr>"
    have ok: "tap_ok ?t" using assms(2) by (simp add: tap_ok_def)
    have first: "write_tap env dec xs t = write_body env dec body ?t"
      using True Decided by (simp add: write_tap_def sniff_def)
    have whole: "write_tap env dec (xs @ ys) t = write_body env dec (body @ ys) ?t"
      using True sniff_bytes_Decided[OF Decided, of ys] by (simp add: write_tap_def sniff_def)
    have "\<not> tp_sniffing (ut_tap (write_body env dec body ?t))" using write_body_ok[OF ok] by simp
    then have "write_tap env dec ys (write_tap env dec xs t) = write_body env dec ys (write_body env dec body ?t)"
      unfolding first by (simp add: write_tap_def)
    with whole write_body_append[OF assms(1) ok, of env ys body] show ?thesis by simp
  qed
next
  case False
  have "\<not> tp_sniffing (ut_tap (write_body env dec xs t))" using write_body_ok[OF assms(2) False] by simp
  with False write_body_append[OF assms False, of env ys xs] show ?thesis by (simp add: write_tap_def)
qed

lemma write_tap_Nil:
  assumes "streaming dec" "tap_ok t"
  shows "tap_eq t (write_tap env dec [] t)"
proof (cases "tp_sniffing (ut_tap t)")
  case True
  with assms(2) show ?thesis by (simp add: write_tap_def sniff_def tap_ok_def)
next
  case False
  have "feedText env [] u = u" for u by (simp add: feedText_def appendLine_def)
  with False assms show ?thesis
    by (auto simp: write_tap_def write_body_def writeSse_def streaming_def tap_eq_def tap_ok_def writeJson_def)
qed

lemma write_chunks:
  assumes "streaming dec" "tap_ok t"
  shows "tap_eq (fold (write_tap env dec) chunks t) (write_tap env dec (concat chunks) t)"
  using assms(2)
proof (induction chunks arbitrary: t)
  case Nil
  from write_tap_Nil[OF assms(1) this] show ?case by simp
next
  case (Cons c cs)
  show ?case
    using tap_eq_trans[OF Cons.IH[OF write_tap_ok[OF Cons.prems]] write_tap_append[OF assms(1) Cons.prems]] by simp
qed

lemma finish_tap_eq:
  assumes "tap_eq t u" "tap_ok t" "tap_ok u"
  shows "(finish_tap env dec t)\<lparr> tp_parts := [] \<rparr> = (finish_tap env dec u)\<lparr> tp_parts := [] \<rparr>"
proof (cases "ut_tap t = ut_tap u")
  case True
  with assms(1) have "t = u" by (simp add: tap_eq_def)
  then show ?thesis by simp
next
  case False
  with assms(1) have eq: "\<not> tp_sse (ut_tap t)" "(ut_tap t)\<lparr> tp_parts := [] \<rparr> = (ut_tap u)\<lparr> tp_parts := [] \<rparr>"
    "concat (tp_parts (ut_tap t)) = concat (tp_parts (ut_tap u))" by (auto simp: tap_eq_def)
  have f: "tp_sse (ut_tap u) = tp_sse (ut_tap t)" "tp_overflow (ut_tap u) = tp_overflow (ut_tap t)"
    "tp_held (ut_tap u) = tp_held (ut_tap t)"
    using arg_cong[OF eq(2), of tp_sse] arg_cong[OF eq(2), of tp_overflow] arg_cong[OF eq(2), of tp_held] by simp_all
  have "tp_held (ut_tap t) > 0 \<Longrightarrow> tp_parts (ut_tap t) \<noteq> []" "tp_held (ut_tap u) > 0 \<Longrightarrow> tp_parts (ut_tap u) \<noteq> []"
    using assms(2,3) by (auto simp: tap_ok_def)
  then show ?thesis using eq f by (auto simp: finish_tap_def Let_def split: prod.split)
qed

lemma new_tap_ok: "tap_ok (new_usage_tap dec style contentType)"
  by (simp add: tap_ok_def new_usage_tap_def new_tap_def Let_def sniff_bytes_def)

lemma finish_chunks:
  assumes "streaming dec"
  shows "(finish_tap env dec (fold (write_tap env dec) chunks (new_usage_tap dec style ct)))\<lparr> tp_parts := [] \<rparr> =
    (finish_tap env dec (write_tap env dec (concat chunks) (new_usage_tap dec style ct)))\<lparr> tp_parts := [] \<rparr>"
proof -
  have "tap_ok (fold (write_tap env dec) cs t)" if "tap_ok t" for cs t
    using that by (induction cs arbitrary: t) (simp_all add: write_tap_ok)
  with new_tap_ok write_tap_ok write_chunks[OF assms new_tap_ok] show ?thesis by (intro finish_tap_eq) blast+
qed

text \<open>Property C28.
  What the observer reports does not depend on how the network cut the body into chunks: token
  counts, model and status are those of the whole body written at once, for bodies whose format
  the upstream named and for those it sniffs from their first bytes, across line ends, events and
  the size caps.\<close>

theorem usage_independent_of_chunks:
  assumes "streaming dec"
  shows "fst (result_tap env dec (fold (write_tap env dec) chunks (new_usage_tap dec style ct))) =
      fst (result_tap env dec (write_tap env dec (concat chunks) (new_usage_tap dec style ct))) \<and>
    status_tap env dec (fold (write_tap env dec) chunks (new_usage_tap dec style ct)) =
      status_tap env dec (write_tap env dec (concat chunks) (new_usage_tap dec style ct))"
proof -
  note eq = finish_chunks[OF assms, of env chunks style ct]
  show ?thesis
    using arg_cong[OF eq, of tp_counts] arg_cong[OF eq, of tp_overflow] arg_cong[OF eq, of tp_found] arg_cong[OF eq, of tp_bad]
    by (simp add: result_tap_def status_tap_def Let_def)
qed

text \<open>Decoding of single-byte text, and a parser for one event.\<close>

definition ascii_decoder :: "unit text_decoder" where
  "ascii_decoder = \<lparr> td_init = (), td_step = (\<lambda>d xs. (xs, d)), td_flush = (\<lambda>_. []) \<rparr>"

definition one_event :: tap_env where
  "one_event = \<lparr> te_parse = (\<lambda>s. if s = units_of ''U'' then Some (JObj [(''model'', JStr ''m''),
     (''usage'', JObj [(''input_tokens'', JNum (Fin 7)), (''output_tokens'', JNum (Fin 3))])]) else None) \<rparr>"

lemma json_tap: "new_tap Anthropic_Style ''json'' = \<lparr> tp_style = Anthropic_Style,
    tp_counts = \<lparr> uc_model = None, uc_inputTokens = 0, uc_outputTokens = 0, uc_cacheReadTokens = 0, uc_cacheWriteTokens = 0 \<rparr>,
    tp_sse = False, tp_sniffing = False, tp_held0 = [], tp_parts = [], tp_held = 0, tp_overflow = False, tp_found = False,
    tp_bad = False, tp_line = [], tp_lineTooLong = False, tp_skipLf = False, tp_data = [], tp_dataBytes = 0,
    tp_eventTooBig = False \<rparr>"
  by code_simp

theorem usage_independent_of_chunks_witness:
  "fst (result_tap one_event ascii_decoder (fold (write_tap one_event ascii_decoder) [[], units_of ''U'', []]
     (new_usage_tap ascii_decoder Anthropic_Style ''json''))) =
   \<lparr> uc_model = Some ''m'', uc_inputTokens = 7, uc_outputTokens = 3, uc_cacheReadTokens = 0, uc_cacheWriteTokens = 0 \<rparr>"
proof -
  have s: "streaming ascii_decoder" by (simp add: streaming_def ascii_decoder_def)
  have u: "units_of ''U'' = [85]" by code_simp
  have doc: "te_parse one_event [85] = Some (JObj [(''model'', JStr ''m''),
     (''usage'', JObj [(''input_tokens'', JNum (Fin 7)), (''output_tokens'', JNum (Fin 3))])])"
    by (simp add: one_event_def u)
  have whole: "fst (result_tap one_event ascii_decoder (write_tap one_event ascii_decoder
      (concat [[], units_of ''U'', []]) (new_usage_tap ascii_decoder Anthropic_Style ''json''))) =
    \<lparr> uc_model = Some ''m'', uc_inputTokens = 7, uc_outputTokens = 3, uc_cacheReadTokens = 0, uc_cacheWriteTokens = 0 \<rparr>"
    by (simp add: u write_tap_def write_body_def writeJson_def new_usage_tap_def json_tap MAX_JSON_BYTES_def result_tap_def
        finish_tap_def ascii_decoder_def doc apply_usage_def applyAnthropic_def is_obj_def setModel_def get_of_def num_of_def)
  show ?thesis unfolding usage_independent_of_chunks[OF s, THEN conjunct1] whole by simp
qed

section \<open>Memory and counts\<close>

definition data_size :: "units list \<Rightarrow> nat" where
  "data_size vs = sum_list (map (\<lambda>v. length v + 1) vs)"

definition counts_ok :: "usage_counts \<Rightarrow> bool" where
  "counts_ok c \<longleftrightarrow> 0 \<le> uc_inputTokens c \<and> 0 \<le> uc_outputTokens c \<and> 0 \<le> uc_cacheReadTokens c \<and> 0 \<le> uc_cacheWriteTokens c"

definition sse_ok :: "tap \<Rightarrow> bool" where
  "sse_ok t \<longleftrightarrow> counts_ok (tp_counts t) \<and> length (tp_line t) \<le> MAX_EVENT_BYTES \<and>
     data_size (tp_data t) \<le> tp_dataBytes t \<and> (tp_data t = [] \<or> tp_dataBytes t \<le> MAX_EVENT_BYTES)"

lemma num_of_nonneg: "0 \<le> default 0 (num_of v)"
  by (auto simp: num_of_def split: option.split json.split js_num.split)

lemma setModel_counts [simp]: "counts_ok (setModel v c) = counts_ok c"
  by (auto simp: setModel_def counts_ok_def split: option.split json.split)

lemma open_ai_usage_ok:
  assumes "counts_ok (tp_counts t)"
  shows "counts_ok (tp_counts (open_ai_usage u p k d t))"
proof (cases "is_obj u")
  case True
  show ?thesis
  proof (cases "num_of (get_of u p)")
    case (Some prompt)
    have "0 \<le> prompt" using num_of_nonneg[of "get_of u p"] Some by simp
    moreover have "0 \<le> default 0 (if is_obj (get_of u d) then num_of (get_of (get_of u d) ''cached_tokens'') else None)"
      using num_of_nonneg by auto
    ultimately show ?thesis using True Some num_of_nonneg[of "get_of u k"]
      by (simp add: open_ai_usage_def setOpenAi_def Let_def counts_ok_def min_def)
  qed (use True assms in \<open>simp add: open_ai_usage_def\<close>)
qed (use assms in \<open>simp add: open_ai_usage_def\<close>)

lemma counts_ok_larger:
  "counts_ok c \<Longrightarrow> counts_ok (c\<lparr> uc_inputTokens := max (uc_inputTokens c) i, uc_outputTokens := max (uc_outputTokens c) out,
     uc_cacheReadTokens := max (uc_cacheReadTokens c) r, uc_cacheWriteTokens := max (uc_cacheWriteTokens c) w \<rparr>)"
  by (auto simp: counts_ok_def)

lemma applyAnthropic_ok: "counts_ok (tp_counts t) \<Longrightarrow> counts_ok (tp_counts (applyAnthropic doc t))"
  unfolding applyAnthropic_def Let_def by (simp add: counts_ok_larger)

lemma apply_usage_ok:
  assumes "counts_ok (tp_counts t)"
  shows "counts_ok (tp_counts (apply_usage doc t))"
  using assms by (simp add: apply_usage_def applyAnthropic_ok applyResponses_def applyChat_def open_ai_usage_ok
      Let_def split: usage_style.split)

lemma open_ai_usage_text:
  "tp_line (open_ai_usage u p k d t) = tp_line t" "tp_data (open_ai_usage u p k d t) = tp_data t"
  "tp_dataBytes (open_ai_usage u p k d t) = tp_dataBytes t"
  by (simp_all add: open_ai_usage_def setOpenAi_def Let_def split: option.split)

lemma applyAnthropic_text:
  "tp_line (applyAnthropic doc t) = tp_line t" "tp_data (applyAnthropic doc t) = tp_data t"
  "tp_dataBytes (applyAnthropic doc t) = tp_dataBytes t"
  by (simp_all only: applyAnthropic_def Let_def split: if_split) simp_all

lemma apply_usage_text:
  "tp_line (apply_usage doc t) = tp_line t" "tp_data (apply_usage doc t) = tp_data t"
  "tp_dataBytes (apply_usage doc t) = tp_dataBytes t"
  by (simp_all add: apply_usage_def applyAnthropic_text applyResponses_def applyChat_def open_ai_usage_text
      Let_def split: usage_style.split)

lemma dispatch_ok: "sse_ok t \<Longrightarrow> sse_ok (dispatch env t)"
  by (auto simp: dispatch_def Let_def sse_ok_def data_size_def apply_usage_text apply_usage_ok split: option.split)

lemma endLine_ok: "sse_ok t \<Longrightarrow> sse_ok (endLine env t)"
proof -
  assume t: "sse_ok t"
  then have "sse_ok (t\<lparr> tp_line := [], tp_lineTooLong := False \<rparr>)" by (simp add: sse_ok_def)
  from dispatch_ok[OF this] t show ?thesis
    by (auto simp: endLine_def Let_def sse_ok_def data_size_def)
qed

lemma appendLine_ok: "sse_ok t \<Longrightarrow> sse_ok (appendLine s t)"
  by (auto simp: appendLine_def sse_ok_def)

lemma feed_ok: "sse_ok t \<Longrightarrow> sse_ok (feed env seg cs t)"
proof (induction env seg cs t rule: feed.induct)
  case (2 env seg ch cs t)
  have skip: "sse_ok (u\<lparr> tp_skipLf := b \<rparr>) = sse_ok u" for u b by (simp add: sse_ok_def)
  from 2 show ?case by (simp add: Let_def skip endLine_ok appendLine_ok)
qed (simp add: appendLine_ok)

definition tap_bounded :: "'d usage_tap \<Rightarrow> bool" where
  "tap_bounded t \<longleftrightarrow> tap_ok t \<and> sse_ok (ut_tap t) \<and> length (tp_held0 (ut_tap t)) < 6"

lemma sniffed_short:
  assumes "sniff_bytes xs = Undecided held"
  shows "length held < 6"
  using assms by (auto simp: sniff_bytes_def Let_def split: if_splits)

lemma write_body_bounded:
  assumes "tap_bounded t" "\<not> tp_sniffing (ut_tap t)"
  shows "tap_bounded (write_body env dec xs t)"
proof -
  have "sse_ok (writeJson xs u) = sse_ok u" "tp_held0 (writeJson xs u) = tp_held0 u" for u
    by (simp_all add: writeJson_def sse_ok_def)
  then have "sse_ok (ut_tap (write_body env dec xs t)) \<and> tp_held0 (ut_tap (write_body env dec xs t)) = tp_held0 (ut_tap t)"
    using assms by (simp add: write_body_def writeSse_def feedText_def feed_ok feed_fields tap_bounded_def split: prod.split)
  with write_body_ok[of t env dec xs] assms show ?thesis by (simp add: tap_bounded_def)
qed

lemma write_tap_bounded:
  assumes "tap_bounded t"
  shows "tap_bounded (write_tap env dec xs t)"
proof (cases "tp_sniffing (ut_tap t)")
  case True
  show ?thesis
  proof (cases "sniff_bytes (tp_held0 (ut_tap t) @ xs)")
    case (Undecided held)
    with True assms write_tap_ok[of t env dec xs] sniffed_short[OF Undecided] show ?thesis
      by (simp add: write_tap_def sniff_def tap_bounded_def sse_ok_def)
  next
    case (Decided sse body)
    let ?t = "t\<lparr> ut_tap := (ut_tap t)\<lparr> tp_held0 := [], tp_sniffing := False, tp_sse := sse \<rparr> \<rparr>"
    have "tap_bounded ?t" using assms by (simp add: tap_bounded_def tap_ok_def sse_ok_def)
    from write_body_bounded[OF this, of env dec body] True Decided show ?thesis
      by (simp add: write_tap_def sniff_def)
  qed
next
  case False
  with write_body_bounded[OF assms False] show ?thesis by (simp add: write_tap_def)
qed

text \<open>The observer never holds more than it documents, whatever the upstream sends: at most one
  partial line and one partial event of a mebibyte each, or four mebibytes of JSON, and fewer
  than six undecided bytes; and no count it reports is negative.\<close>

theorem usage_tap_bounded:
  assumes "t = ut_tap (fold (write_tap env dec) chunks (new_usage_tap dec style ct))"
  shows "length (tp_line t) \<le> 1048576 \<and> data_size (tp_data t) \<le> 1048576 \<and>
    length (concat (tp_parts t)) \<le> 4194304 \<and> length (tp_held0 t) < 6 \<and> counts_ok (tp_counts t)"
proof -
  have "tap_bounded (fold (write_tap env dec) chunks u)" if "tap_bounded u" for u
    using that by (induction chunks arbitrary: u) (simp_all add: write_tap_bounded)
  moreover have "tap_bounded (new_usage_tap dec style ct)"
    using new_tap_ok by (simp add: tap_bounded_def new_usage_tap_def new_tap_def Let_def sse_ok_def counts_ok_def data_size_def)
  ultimately have "tap_bounded (fold (write_tap env dec) chunks (new_usage_tap dec style ct))" by blast
  then show ?thesis
    unfolding assms by (auto simp: tap_bounded_def tap_ok_def sse_ok_def MAX_EVENT_BYTES_def MAX_JSON_BYTES_def data_size_def)
qed

theorem usage_tap_bounded_witness:
  "tp_held0 (ut_tap (fold (write_tap one_event ascii_decoder) [units_of ''dat''] (new_usage_tap ascii_decoder Anthropic_Style ''''))) = units_of ''dat'' \<and>
   length (units_of ''dat'') < 6"
proof -
  have "tp_held0 (ut_tap (fold (write_tap one_event ascii_decoder) [units_of ''dat''] (new_usage_tap ascii_decoder Anthropic_Style ''''))) = units_of ''dat''"
    by code_simp
  with usage_tap_bounded[OF refl, of one_event ascii_decoder "[units_of ''dat'']" Anthropic_Style "''''"] show ?thesis by simp
qed

end
