(* ===== verification/Gateway_Store.thy ===== *)
theory Gateway_Store
  imports Usage_Tap "HOL-Library.AList"
begin

text \<open>
  The gateway's data (\<open>src/gateway/types.ts\<close>, \<open>src/browser/types.ts\<close>), the price of a ledger row
  (end of \<open>src/gateway/usage.ts\<close>) and the in-memory store (\<open>MemoryGatewayStore\<close> of
  \<open>src/gateway/store.ts\<close>). A JavaScript \<open>Map\<close> is an association list in insertion order; the store
  copies what it is given, which values of HOL are anyway. \<open>Date.parse\<close> is a function that is
  undefined where it gives \<open>NaN\<close>, with which every comparison is false.
\<close>

datatype gateway_provider = G_Claude | G_Codex | G_Kimi | G_Grok | G_Zai | G_Ali | G_Opencode

fun provider_text :: "gateway_provider \<Rightarrow> string" where
  "provider_text G_Claude = ''claude''"
| "provider_text G_Codex = ''codex''"
| "provider_text G_Kimi = ''kimi''"
| "provider_text G_Grok = ''grok''"
| "provider_text G_Zai = ''zai''"
| "provider_text G_Ali = ''ali''"
| "provider_text G_Opencode = ''opencode''"

datatype api_style = Anthropic | Openai

datatype app_target = Pin string | Pool "string list option"

record gateway_app =
  ga_name :: string
  ga_owner :: string
  ga_namespace :: string
  ga_provider :: gateway_provider
  ga_style :: api_style
  ga_target :: app_target
  ga_models :: "string list option"
  ga_dailyTokens :: "rat option"
  ga_reservePercent :: "rat option"
  ga_active :: bool
  ga_createdAt :: string
  ga_lastUsedAt :: "string option"

record token_record =
  tr_app :: string
  tr_prefix :: string
  tr_hash :: string
  tr_createdAt :: string
  tr_expiresAt :: "string option"

record usage_row =
  ur_ts :: string
  ur_app :: string
  ur_provider :: gateway_provider
  ur_identity :: string
  ur_model :: "string option"
  ur_inputTokens :: int
  ur_outputTokens :: int
  ur_cacheReadTokens :: int
  ur_cacheWriteTokens :: int
  ur_estCostUsd :: "rat option"
  ur_status :: string
  ur_httpStatus :: int
  ur_latencyMs :: int
  ur_streamed :: bool

record identity_usage_row =
  iu_provider :: gateway_provider
  iu_identity :: string
  iu_app :: string
  iu_inputTokens :: int
  iu_outputTokens :: int
  iu_cacheReadTokens :: int
  iu_cacheWriteTokens :: int
  iu_estCostUsd :: rat
  iu_unpricedRequests :: nat
  iu_requests :: nat

datatype browser_target = Browser_Identity string | Browser_Pool string

record browser_binding =
  bd_name :: string
  bd_target :: browser_target
  bd_profileLabel :: string
  bd_active :: bool
  bd_createdAt :: string
  bd_lastSeenAt :: "string option"

record browser_pairing =
  bp_code :: string
  bp_profileLabel :: string
  bp_createdAt :: string
  bp_expiresAt :: string
  bp_pollSecretHash :: string
  bp_approvedBinding :: "string option"

record agent_token =
  at_identity :: string
  at_prefix :: string
  at_hash :: string
  at_createdAt :: string
  at_revokedAt :: "string option"

section \<open>The price of ledger rows\<close>

definition estimateCost :: "(string \<Rightarrow> list_model_price option) \<Rightarrow> gateway_provider \<Rightarrow> usage_counts \<Rightarrow> rat option" where
  "estimateCost fetched provider c =
     (if \<not> truthy (uc_model c) then None
      else
        let model = default '''' (uc_model c) in
        if provider = G_Zai \<or> provider = G_Ali
        then estimateDetailedModelTokenCost (if provider = G_Zai then P_Zai else P_Alibaba) model
               (uc_inputTokens c) (uc_outputTokens c) (uc_cacheReadTokens c) (uc_cacheWriteTokens c)
        else estimateChatModelTokenCost fetched model
               (uc_inputTokens c) (uc_outputTokens c) (uc_cacheReadTokens c) (uc_cacheWriteTokens c))"

text \<open>\<open>priceNullCostGroup\<close> of one group: the cost to add and the requests that stay unpriced.\<close>

definition priceNullCostGroup :: "(string \<Rightarrow> list_model_price option) \<Rightarrow> gateway_provider \<Rightarrow> usage_counts \<Rightarrow> nat \<Rightarrow> rat \<times> nat" where
  "priceNullCostGroup fetched provider c requests =
     (if uc_inputTokens c + uc_outputTokens c + uc_cacheReadTokens c + uc_cacheWriteTokens c \<le> 0 then (0, 0)
      else case (if truthy (uc_model c) then estimateCost fetched provider c else None) of
             None \<Rightarrow> (0, requests)
           | Some cost \<Rightarrow> (cost, 0))"

section \<open>The store\<close>

record gateway_store =
  st_apps :: "(string \<times> gateway_app) list"
  st_tokens :: "token_record list"
  st_usage :: "usage_row list"
  st_bindings :: "(string \<times> browser_binding) list"
  st_browserTokens :: "token_record list"
  st_pairings :: "(string \<times> browser_pairing) list"
  st_agentTokens :: "agent_token list"

definition empty_store :: gateway_store where
  "empty_store = \<lparr> st_apps = [], st_tokens = [], st_usage = [], st_bindings = [], st_browserTokens = [],
     st_pairings = [], st_agentTokens = [] \<rparr>"

definition getApp :: "string \<Rightarrow> gateway_store \<Rightarrow> gateway_app option" where
  "getApp name st = map_of (st_apps st) name"

definition listApps :: "gateway_store \<Rightarrow> gateway_app list" where
  "listApps st = map snd (st_apps st)"

definition putApp :: "gateway_app \<Rightarrow> gateway_store \<Rightarrow> gateway_store" where
  "putApp app st = st\<lparr> st_apps := AList.update (ga_name app) app (st_apps st) \<rparr>"

definition addToken :: "token_record \<Rightarrow> gateway_store \<Rightarrow> gateway_store" where
  "addToken rec st = st\<lparr> st_tokens := st_tokens st @ [rec] \<rparr>"

definition tokensFor :: "string \<Rightarrow> gateway_store \<Rightarrow> token_record list" where
  "tokensFor app st = filter (\<lambda>t. tr_app t = app) (st_tokens st)"

definition expireTokens :: "string \<Rightarrow> string \<Rightarrow> gateway_store \<Rightarrow> gateway_store" where
  "expireTokens app instant st = st\<lparr> st_tokens := map (\<lambda>t.
     if tr_app t = app \<and> tr_expiresAt t = None then t\<lparr> tr_expiresAt := Some instant \<rparr> else t) (st_tokens st) \<rparr>"

definition revokeApp :: "string \<Rightarrow> gateway_store \<Rightarrow> gateway_store" where
  "revokeApp name st = (case map_of (st_apps st) name of
       None \<Rightarrow> st
     | Some app \<Rightarrow> st\<lparr> st_apps := AList.update name (app\<lparr> ga_active := False \<rparr>) (st_apps st) \<rparr>)"

definition appendUsage :: "usage_row list \<Rightarrow> gateway_store \<Rightarrow> gateway_store" where
  "appendUsage rows st = st\<lparr> st_usage := st_usage st @ rows \<rparr>"

definition usageSince :: "(string \<Rightarrow> int option) \<Rightarrow> string \<Rightarrow> int \<Rightarrow> gateway_store \<Rightarrow> int" where
  "usageSince parse app cutoff st =
     sum_list (map (\<lambda>r. ur_inputTokens r + ur_outputTokens r + ur_cacheWriteTokens r)
       (filter (\<lambda>r. ur_app r = app \<and> (\<exists>t \<in> set_option (parse (ur_ts r)). t \<ge> cutoff)) (st_usage st)))"

definition usage_key :: "usage_row \<Rightarrow> string" where
  "usage_key r = provider_text (ur_provider r) @ [CHR 0x00] @ ur_identity r @ [CHR 0x00] @ ur_app r"

definition fresh_usage_row :: "usage_row \<Rightarrow> identity_usage_row" where
  "fresh_usage_row r = \<lparr> iu_provider = ur_provider r, iu_identity = ur_identity r, iu_app = ur_app r,
     iu_inputTokens = 0, iu_outputTokens = 0, iu_cacheReadTokens = 0, iu_cacheWriteTokens = 0,
     iu_estCostUsd = 0, iu_unpricedRequests = 0, iu_requests = 0 \<rparr>"

definition row_counts :: "usage_row \<Rightarrow> usage_counts" where
  "row_counts r = \<lparr> uc_model = ur_model r, uc_inputTokens = ur_inputTokens r, uc_outputTokens = ur_outputTokens r,
     uc_cacheReadTokens = ur_cacheReadTokens r, uc_cacheWriteTokens = ur_cacheWriteTokens r \<rparr>"

definition add_usage_row :: "(string \<Rightarrow> list_model_price option) \<Rightarrow> usage_row \<Rightarrow> identity_usage_row \<Rightarrow> identity_usage_row" where
  "add_usage_row fetched r a =
     (let (cost, unpriced) = (case ur_estCostUsd r of
            Some c \<Rightarrow> (c, 0)
          | None \<Rightarrow> priceNullCostGroup fetched (ur_provider r) (row_counts r) 1)
      in a\<lparr> iu_inputTokens := iu_inputTokens a + ur_inputTokens r,
            iu_outputTokens := iu_outputTokens a + ur_outputTokens r,
            iu_cacheReadTokens := iu_cacheReadTokens a + ur_cacheReadTokens r,
            iu_cacheWriteTokens := iu_cacheWriteTokens a + ur_cacheWriteTokens r,
            iu_requests := iu_requests a + 1,
            iu_estCostUsd := iu_estCostUsd a + cost,
            iu_unpricedRequests := iu_unpricedRequests a + unpriced \<rparr>)"

text \<open>One iteration of the loop of \<open>usageByIdentity\<close>; a row without a valid time stamp passes both tests.\<close>

definition in_window :: "(string \<Rightarrow> int option) \<Rightarrow> int \<Rightarrow> int option \<Rightarrow> usage_row \<Rightarrow> bool" where
  "in_window parse since until r \<longleftrightarrow>
     (\<forall>t \<in> set_option (parse (ur_ts r)). \<not> t < since \<and> \<not> (\<exists>u \<in> set_option until. t \<ge> u))"

definition usage_step :: "(string \<Rightarrow> list_model_price option) \<Rightarrow> (string \<Rightarrow> int option) \<Rightarrow> int \<Rightarrow> int option \<Rightarrow>
    usage_row \<Rightarrow> (string \<times> identity_usage_row) list \<Rightarrow> (string \<times> identity_usage_row) list" where
  "usage_step fetched parse since until r acc =
     (if \<not> in_window parse since until r then acc
      else AList.update (usage_key r) (add_usage_row fetched r (default (fresh_usage_row r) (map_of acc (usage_key r)))) acc)"

definition usageByIdentity :: "(string \<Rightarrow> list_model_price option) \<Rightarrow> (string \<Rightarrow> int option) \<Rightarrow> int \<Rightarrow> int option \<Rightarrow>
    gateway_store \<Rightarrow> identity_usage_row list" where
  "usageByIdentity fetched parse since until st =
     map snd (fold (usage_step fetched parse since until) (st_usage st) [])"

definition putBrowserBinding :: "browser_binding \<Rightarrow> gateway_store \<Rightarrow> gateway_store" where
  "putBrowserBinding b st = st\<lparr> st_bindings := AList.update (bd_name b) b (st_bindings st) \<rparr>"

definition getBrowserBinding :: "string \<Rightarrow> gateway_store \<Rightarrow> browser_binding option" where
  "getBrowserBinding name st = map_of (st_bindings st) name"

definition listBrowserBindings :: "gateway_store \<Rightarrow> browser_binding list" where
  "listBrowserBindings st = map snd (st_bindings st)"

definition touchBrowserBinding :: "string \<Rightarrow> string \<Rightarrow> gateway_store \<Rightarrow> gateway_store" where
  "touchBrowserBinding name instant st = (case map_of (st_bindings st) name of
       None \<Rightarrow> st
     | Some b \<Rightarrow> st\<lparr> st_bindings := AList.update name (b\<lparr> bd_lastSeenAt := Some instant \<rparr>) (st_bindings st) \<rparr>)"

definition revokeBrowserBinding :: "string \<Rightarrow> gateway_store \<Rightarrow> gateway_store" where
  "revokeBrowserBinding name st = (case map_of (st_bindings st) name of
       None \<Rightarrow> st
     | Some b \<Rightarrow> st\<lparr> st_bindings := AList.update name (b\<lparr> bd_active := False \<rparr>) (st_bindings st) \<rparr>)"

definition addBrowserToken :: "string \<Rightarrow> string \<Rightarrow> string \<Rightarrow> string \<Rightarrow> gateway_store \<Rightarrow> gateway_store" where
  "addBrowserToken binding pre hash now st = st\<lparr> st_browserTokens := st_browserTokens st @
     [\<lparr> tr_app = binding, tr_prefix = pre, tr_hash = hash, tr_createdAt = now, tr_expiresAt = None \<rparr>] \<rparr>"

definition deleteBrowserTokens :: "string \<Rightarrow> gateway_store \<Rightarrow> gateway_store" where
  "deleteBrowserTokens binding st = st\<lparr> st_browserTokens := filter (\<lambda>x. tr_app x \<noteq> binding) (st_browserTokens st) \<rparr>"

definition browserTokenByPrefix :: "string \<Rightarrow> gateway_store \<Rightarrow> token_record option" where
  "browserTokenByPrefix pre st = find (\<lambda>x. tr_prefix x = pre) (st_browserTokens st)"

definition putPairing :: "browser_pairing \<Rightarrow> gateway_store \<Rightarrow> gateway_store" where
  "putPairing p st = st\<lparr> st_pairings := AList.update (bp_code p) p (st_pairings st) \<rparr>"

definition getPairing :: "string \<Rightarrow> gateway_store \<Rightarrow> browser_pairing option" where
  "getPairing code st = map_of (st_pairings st) code"

definition deletePairing :: "string \<Rightarrow> gateway_store \<Rightarrow> gateway_store" where
  "deletePairing code st = st\<lparr> st_pairings := AList.delete code (st_pairings st) \<rparr>"

definition claimPairing :: "string \<Rightarrow> gateway_store \<Rightarrow> browser_pairing option \<times> gateway_store" where
  "claimPairing code st = (map_of (st_pairings st) code, deletePairing code st)"

definition deleteExpiredPairings :: "(string \<Rightarrow> int option) \<Rightarrow> int \<Rightarrow> gateway_store \<Rightarrow> gateway_store" where
  "deleteExpiredPairings parse now st = st\<lparr> st_pairings :=
     filter (\<lambda>(code, p). \<not> (\<exists>t \<in> set_option (parse (bp_expiresAt p)). t \<le> now)) (st_pairings st) \<rparr>"

definition addAgentToken :: "agent_token \<Rightarrow> gateway_store \<Rightarrow> gateway_store" where
  "addAgentToken r st = st\<lparr> st_agentTokens := st_agentTokens st @ [r] \<rparr>"

definition agentTokenByPrefix :: "string \<Rightarrow> gateway_store \<Rightarrow> agent_token option" where
  "agentTokenByPrefix pre st = find (\<lambda>t. at_prefix t = pre \<and> at_revokedAt t = None) (st_agentTokens st)"

definition revokeAgentTokens :: "string \<Rightarrow> string \<Rightarrow> gateway_store \<Rightarrow> gateway_store" where
  "revokeAgentTokens ident now st = st\<lparr> st_agentTokens := map (\<lambda>t.
     if at_identity t = ident \<and> at_revokedAt t = None then t\<lparr> at_revokedAt := Some now \<rparr> else t) (st_agentTokens st) \<rparr>"

section \<open>Laws of the store\<close>

lemma revokeApp_inactive:
  "getApp name (revokeApp name st) = map_option (\<lambda>a. a\<lparr> ga_active := False \<rparr>) (getApp name st)"
  by (auto simp: getApp_def revokeApp_def update_conv' split: option.split)

lemma revokeApp_other: "name \<noteq> other \<Longrightarrow> getApp other (revokeApp name st) = getApp other st"
  by (auto simp: getApp_def revokeApp_def update_conv' split: option.split)

lemma touch_keeps_revoked:
  "getBrowserBinding name (touchBrowserBinding name instant st) =
     map_option (\<lambda>b. b\<lparr> bd_lastSeenAt := Some instant \<rparr>) (getBrowserBinding name st)"
  by (auto simp: getBrowserBinding_def touchBrowserBinding_def update_conv' split: option.split)

lemma revoked_agent_tokens:
  assumes "agentTokenByPrefix pre (revokeAgentTokens ident now st) = Some t"
  shows "at_identity t \<noteq> ident"
proof
  assume ident: "at_identity t = ident"
  let ?f = "\<lambda>t. if at_identity t = ident \<and> at_revokedAt t = None then t\<lparr> at_revokedAt := Some now \<rparr> else t"
  from assms have "find (\<lambda>t. at_prefix t = pre \<and> at_revokedAt t = None) (map ?f (st_agentTokens st)) = Some t"
    by (simp add: agentTokenByPrefix_def revokeAgentTokens_def)
  from find_Some_set[OF this] have "t \<in> ?f ` set (st_agentTokens st)" and live: "at_revokedAt t = None"
    unfolding set_map by blast+
  then obtain u where u: "t = ?f u" by blast
  show False
  proof (cases "at_identity u = ident \<and> at_revokedAt u = None")
    case True
    with u live show False by simp
  next
    case False
    with u live ident show False by simp
  qed
qed

lemma claim_once: "claimPairing code st = (r, st') \<Longrightarrow> fst (claimPairing code st') = None"
  by (auto simp: claimPairing_def deletePairing_def delete_conv')

lemma claim_others: "other \<noteq> code \<Longrightarrow> getPairing other (snd (claimPairing code st)) = getPairing other st"
  by (simp add: claimPairing_def deletePairing_def getPairing_def delete_conv')

lemma usageSince_append:
  "usageSince parse app cutoff (appendUsage rows st) = usageSince parse app cutoff st +
     usageSince parse app cutoff (st\<lparr> st_usage := rows \<rparr>)"
  by (simp add: usageSince_def appendUsage_def)

text \<open>The totals of the report, over all of its rows.\<close>

definition report_tokens :: "(string \<times> identity_usage_row) list \<Rightarrow> int" where
  "report_tokens acc = sum_list (map (\<lambda>(_, a). iu_inputTokens a + iu_outputTokens a + iu_cacheReadTokens a + iu_cacheWriteTokens a) acc)"

definition report_requests :: "(string \<times> identity_usage_row) list \<Rightarrow> nat" where
  "report_requests acc = sum_list (map (\<lambda>(_, a). iu_requests a) acc)"

definition row_tokens :: "usage_row \<Rightarrow> int" where
  "row_tokens r = ur_inputTokens r + ur_outputTokens r + ur_cacheReadTokens r + ur_cacheWriteTokens r"

lemma sum_update:
  fixes f :: "'v \<Rightarrow> 'n::ab_group_add"
  assumes "distinct (map fst al)"
  shows "sum_list (map (\<lambda>(_, a). f a) (AList.update k v al)) =
    sum_list (map (\<lambda>(_, a). f a) al) - (case map_of al k of None \<Rightarrow> 0 | Some a \<Rightarrow> f a) + f v"
  using assms
proof (induction al)
  case (Cons p al)
  obtain k' a where p: "p = (k', a)" by (cases p)
  show ?case
  proof (cases "k' = k")
    case True
    with p show ?thesis by simp
  next
    case False
    with Cons p show ?thesis by (simp add: algebra_simps)
  qed
qed simp

lemma usage_step_distinct: "distinct (map fst acc) \<Longrightarrow> distinct (map fst (usage_step fetched parse since until r acc))"
  by (simp add: usage_step_def distinct_update)

lemma add_usage_row_totals:
  "iu_inputTokens (add_usage_row fetched r a) + iu_outputTokens (add_usage_row fetched r a) +
     iu_cacheReadTokens (add_usage_row fetched r a) + iu_cacheWriteTokens (add_usage_row fetched r a) =
   iu_inputTokens a + iu_outputTokens a + iu_cacheReadTokens a + iu_cacheWriteTokens a + row_tokens r"
  "iu_requests (add_usage_row fetched r a) = iu_requests a + 1"
  by (auto simp: add_usage_row_def row_tokens_def Let_def split: prod.split)

lemma usage_step_totals:
  assumes "distinct (map fst acc)"
  shows "report_tokens (usage_step fetched parse since until r acc) =
      report_tokens acc + (if in_window parse since until r then row_tokens r else 0)"
    "int (report_requests (usage_step fetched parse since until r acc)) =
      int (report_requests acc) + (if in_window parse since until r then 1 else 0)"
proof -
  let ?a = "default (fresh_usage_row r) (map_of acc (usage_key r))"
  let ?tok = "\<lambda>a. iu_inputTokens a + iu_outputTokens a + iu_cacheReadTokens a + iu_cacheWriteTokens a"
  have "(case map_of acc (usage_key r) of None \<Rightarrow> 0 | Some a \<Rightarrow> ?tok a) = ?tok ?a"
    "(case map_of acc (usage_key r) of None \<Rightarrow> 0 | Some a \<Rightarrow> int (iu_requests a)) = int (iu_requests ?a)"
    by (simp_all add: fresh_usage_row_def split: option.split)
  moreover have reqs: "int (report_requests xs) = sum_list (map (\<lambda>(_, a). int (iu_requests a)) xs)" for xs
    by (induction xs) (auto simp: report_requests_def)
  ultimately show "report_tokens (usage_step fetched parse since until r acc) =
      report_tokens acc + (if in_window parse since until r then row_tokens r else 0)"
    "int (report_requests (usage_step fetched parse since until r acc)) =
      int (report_requests acc) + (if in_window parse since until r then 1 else 0)"
    using sum_update[OF assms, where f = ?tok and k = "usage_key r"]
      sum_update[OF assms, where f = "\<lambda>a. int (iu_requests a)" and k = "usage_key r"]
    by (auto simp: usage_step_def report_tokens_def add_usage_row_totals)
qed

lemma usage_report_totals:
  "distinct (map fst acc) \<Longrightarrow>
     report_tokens (fold (usage_step fetched parse since until) rows acc) =
       report_tokens acc + sum_list (map row_tokens (filter (in_window parse since until) rows)) \<and>
     report_requests (fold (usage_step fetched parse since until) rows acc) =
       report_requests acc + length (filter (in_window parse since until) rows)"
proof (induction rows arbitrary: acc)
  case (Cons r rows)
  from usage_step_totals[OF Cons.prems, of fetched parse since until r]
    Cons.IH[OF usage_step_distinct[OF Cons.prems], of fetched parse since until r]
  show ?case by (auto split: if_splits)
qed simp

end
