(* ===== verification/Ledger_Buffer.thy ===== *)
theory Ledger_Buffer
  imports Gateway_Store
begin

text \<open>
  The gateway's usage buffer (\<open>src/gateway/ledger-buffer.ts\<close>): rows are pushed by the request path
  and written to the store in batches by a drain that runs on a timer. Between two \<open>await\<close>s of the
  drain other events may run, so the drain is a state machine: it waits for the answer to a batch,
  or to a single row of a batch it is isolating after a data error. An answer of the store is
  \<open>None\<close> for success or the error it threw.
\<close>

definition BATCH_SIZE :: nat where
  "BATCH_SIZE = 500"

text \<open>What is read of a thrown value; \<open>None\<close> stands for one that is not an object.\<close>

record thrown =
  th_name :: "json option"
  th_code :: "json option"
  th_errno :: "json option"

type_synonym store_error = "thrown option"

definition sqlstate_char :: "char \<Rightarrow> bool" where
  "sqlstate_char c \<longleftrightarrow> is_digit c \<or> (CHR ''A'' \<le> c \<and> c \<le> CHR ''Z'')"

text \<open>The pattern \<open>/^2[23][0-9A-Z]{3}$/\<close>.\<close>

definition data_state :: "json option \<Rightarrow> bool" where
  "data_state v = (case v of
       Some (JStr s) \<Rightarrow> length s = 5 \<and> s ! 0 = CHR ''2'' \<and> s ! 1 \<in> {CHR ''2'', CHR ''3''} \<and> list_all sqlstate_char (drop 2 s)
     | _ \<Rightarrow> False)"

definition isDataError :: "store_error \<Rightarrow> bool" where
  "isDataError err = (case err of None \<Rightarrow> False | Some e \<Rightarrow> data_state (th_errno e) \<or> data_state (th_code e))"

definition tag_part :: "(js_num \<Rightarrow> string) \<Rightarrow> json option \<Rightarrow> string list" where
  "tag_part num v = (case v of Some (JStr s) \<Rightarrow> [s] | Some (JNum n) \<Rightarrow> [num n] | _ \<Rightarrow> [])"

definition errorTag :: "(js_num \<Rightarrow> string) \<Rightarrow> store_error \<Rightarrow> string" where
  "errorTag num err =
     (let name = Option.bind err th_name; code = Option.bind err th_code; errno = Option.bind err th_errno
      in join_with '' '' ((case name of Some (JStr s) \<Rightarrow> [s] | _ \<Rightarrow> [''Error'']) @ tag_part num code @ tag_part num errno))"

section \<open>The buffer\<close>

datatype drain_phase = Idle | Appending "usage_row list" | Isolating "usage_row list"

fun in_flight :: "drain_phase \<Rightarrow> usage_row list" where
  "in_flight Idle = []"
| "in_flight (Appending batch) = batch"
| "in_flight (Isolating batch) = batch"

record ledger =
  lb_rows :: "usage_row list"
  lb_dropped :: nat
  lb_closed :: bool
  lb_max :: nat
  lb_phase :: drain_phase

definition new_ledger :: "nat \<Rightarrow> ledger" where
  "new_ledger m = \<lparr> lb_rows = [], lb_dropped = 0, lb_closed = False, lb_max = m, lb_phase = Idle \<rparr>"

definition depth :: "ledger \<Rightarrow> nat" where
  "depth lb = length (lb_rows lb)"

definition trim :: "ledger \<Rightarrow> ledger" where
  "trim lb = (let over = length (lb_rows lb) - lb_max lb
              in lb\<lparr> lb_rows := drop over (lb_rows lb), lb_dropped := lb_dropped lb + over \<rparr>)"

definition push :: "usage_row \<Rightarrow> ledger \<Rightarrow> ledger" where
  "push row lb =
     (if lb_closed lb then lb\<lparr> lb_dropped := lb_dropped lb + 1 \<rparr>
      else trim (lb\<lparr> lb_rows := lb_rows lb @ [row] \<rparr>))"

text \<open>The head of the loop of \<open>drain\<close>: the next batch is taken out of the buffer, or the drain ends.\<close>

definition next_batch :: "ledger \<Rightarrow> ledger" where
  "next_batch lb =
     (if lb_rows lb = [] then lb\<lparr> lb_phase := Idle \<rparr>
      else lb\<lparr> lb_phase := Appending (take BATCH_SIZE (lb_rows lb)), lb_rows := drop BATCH_SIZE (lb_rows lb) \<rparr>)"

definition flush :: "ledger \<Rightarrow> ledger" where
  "flush lb = (if lb_phase lb = Idle then next_batch lb else lb)"

text \<open>Unwritten rows go back in front of the rows pushed meanwhile, and the drain ends.\<close>

definition requeue :: "usage_row list \<Rightarrow> ledger \<Rightarrow> ledger" where
  "requeue rows lb = (trim (lb\<lparr> lb_rows := rows @ lb_rows lb \<rparr>))\<lparr> lb_phase := Idle \<rparr>"

definition isolate_rest :: "usage_row list \<Rightarrow> ledger \<Rightarrow> ledger" where
  "isolate_rest rest lb = (if rest = [] then next_batch lb else lb\<lparr> lb_phase := Isolating rest \<rparr>)"

text \<open>The answer of the store to the append that is under way.\<close>

definition store_answer :: "(usage_row list \<Rightarrow> 's \<Rightarrow> store_error option \<times> 's) \<Rightarrow> ledger \<times> 's \<Rightarrow> ledger \<times> 's" where
  "store_answer put lbs =
     (case lbs of (lb, st) \<Rightarrow>
       (case lb_phase lb of
          Idle \<Rightarrow> (lb, st)
        | Appending batch \<Rightarrow>
            (case put batch st of
               (None, st') \<Rightarrow> (next_batch lb, st')
             | (Some err, st') \<Rightarrow>
                 (if isDataError err then isolate_rest batch lb else requeue batch lb, st'))
        | Isolating batch \<Rightarrow>
            (case batch of
               [] \<Rightarrow> (next_batch lb, st)
             | row # rest \<Rightarrow>
                 (case put [row] st of
                    (None, st') \<Rightarrow> (isolate_rest rest lb, st')
                  | (Some err, st') \<Rightarrow>
                      (if isDataError err then isolate_rest rest (lb\<lparr> lb_dropped := lb_dropped lb + 1 \<rparr>)
                       else requeue batch lb, st')))))"

definition close_start :: "ledger \<Rightarrow> ledger" where
  "close_start lb = (if lb_closed lb then lb else flush (lb\<lparr> lb_closed := True \<rparr>))"

text \<open>The rest of \<open>close\<close>, once the drain it waited for has ended.\<close>

definition close_end :: "ledger \<Rightarrow> ledger" where
  "close_end lb =
     (if lb_closed lb \<and> lb_phase lb = Idle
      then lb\<lparr> lb_rows := [], lb_dropped := lb_dropped lb + length (lb_rows lb) \<rparr> else lb)"

datatype ledger_event = Push usage_row | Tick | Store_Answer | Close_Start | Close_End

definition ledger_step :: "(usage_row list \<Rightarrow> 's \<Rightarrow> store_error option \<times> 's) \<Rightarrow> ledger_event \<Rightarrow> ledger \<times> 's \<Rightarrow> ledger \<times> 's" where
  "ledger_step put e lbs =
     (case e of
        Push row \<Rightarrow> (push row (fst lbs), snd lbs)
      | Tick \<Rightarrow> (if lb_closed (fst lbs) then lbs else (flush (fst lbs), snd lbs))
      | Store_Answer \<Rightarrow> store_answer put lbs
      | Close_Start \<Rightarrow> (close_start (fst lbs), snd lbs)
      | Close_End \<Rightarrow> (close_end (fst lbs), snd lbs))"

definition pushed_rows :: "ledger_event list \<Rightarrow> usage_row list" where
  "pushed_rows es = List.map_filter (\<lambda>e. case e of Push row \<Rightarrow> Some row | _ \<Rightarrow> None) es"

section \<open>What the buffer needs of the store\<close>

text \<open>An append writes all its rows in order, or fails and writes none.\<close>

locale usage_sink =
  fixes put :: "usage_row list \<Rightarrow> 's \<Rightarrow> store_error option \<times> 's"
    and stored :: "'s \<Rightarrow> usage_row list"
  assumes append_ok: "put rows st = (None, st') \<Longrightarrow> stored st' = stored st @ rows"
    and append_failed: "put rows st = (Some err, st') \<Longrightarrow> stored st' = stored st"

definition memory_append :: "usage_row list \<Rightarrow> gateway_store \<Rightarrow> store_error option \<times> gateway_store" where
  "memory_append rows st = (None, appendUsage rows st)"

interpretation memory_sink: usage_sink memory_append st_usage
  by unfold_locales (auto simp: memory_append_def appendUsage_def)

section \<open>Conservation\<close>

definition ledger_ok :: "ledger \<Rightarrow> bool" where
  "ledger_ok lb \<longleftrightarrow> length (lb_rows lb) \<le> lb_max lb \<and> length (in_flight (lb_phase lb)) \<le> BATCH_SIZE \<and>
     lb_phase lb \<noteq> Isolating [] \<and> lb_phase lb \<noteq> Appending []"

text \<open>Rows in hand, oldest first: those the drain holds, then those in the buffer.\<close>

definition in_hand :: "ledger \<Rightarrow> usage_row list" where
  "in_hand lb = in_flight (lb_phase lb) @ lb_rows lb"

text \<open>A step takes rows away from the front of what is in hand, or loses some; the rest keep their order.\<close>

definition kept :: "usage_row list \<Rightarrow> ledger \<Rightarrow> ledger \<Rightarrow> bool" where
  "kept rows lb lb' \<longleftrightarrow> subseq (in_hand lb') rows \<and> lb_max lb' = lb_max lb \<and>
     length (in_hand lb') + lb_dropped lb' = length rows + lb_dropped lb"

lemma subseq_drop: "subseq (drop n xs) xs"
  by (metis append_take_drop_id list_emb_append2 subseq_order.order_refl)

lemma subseq_left: "subseq xs (xs @ ys)"
  by (metis append_Nil2 subseq_append' list_emb_Nil)

lemma trim_kept:
  assumes "lb_phase lb = Idle \<or> True"
  shows "in_hand (trim lb) = in_flight (lb_phase lb) @ drop (length (lb_rows lb) - lb_max lb) (lb_rows lb)"
    "lb_dropped (trim lb) = lb_dropped lb + (length (lb_rows lb) - lb_max lb)" "lb_max (trim lb) = lb_max lb"
    "length (lb_rows (trim lb)) \<le> lb_max lb" "lb_phase (trim lb) = lb_phase lb" "lb_closed (trim lb) = lb_closed lb"
  by (simp_all add: trim_def Let_def in_hand_def)

lemma push_kept:
  assumes "ledger_ok lb"
  shows "kept (in_hand lb @ [row]) lb (push row lb) \<and> ledger_ok (push row lb)"
proof (cases "lb_closed lb")
  case True
  with assms show ?thesis by (simp add: push_def kept_def in_hand_def ledger_ok_def subseq_left flip: append_assoc)
next
  case False
  let ?lb = "lb\<lparr> lb_rows := lb_rows lb @ [row] \<rparr>"
  have "subseq (in_flight (lb_phase lb) @ drop n (lb_rows lb @ [row])) (in_flight (lb_phase lb) @ lb_rows lb @ [row])" for n
    unfolding subseq_append' by (rule subseq_drop)
  moreover define n where "n = length (lb_rows lb @ [row]) - lb_max lb"
  moreover have "in_hand (push row lb) = in_flight (lb_phase lb) @ drop n (lb_rows lb @ [row])"
    "lb_dropped (push row lb) = lb_dropped lb + n" "lb_max (push row lb) = lb_max lb"
    "lb_phase (push row lb) = lb_phase lb" "lb_rows (push row lb) = drop n (lb_rows lb @ [row])"
    using False by (simp_all add: push_def trim_def Let_def in_hand_def n_def)
  moreover have "length (drop n (lb_rows lb @ [row])) = length (lb_rows lb @ [row]) - n" by (rule length_drop)
  ultimately show ?thesis
    using assms by (simp add: kept_def ledger_ok_def in_hand_def del: drop_append length_drop)
qed

lemma next_batch_kept:
  assumes "length (lb_rows lb) \<le> lb_max lb"
  shows "in_hand (next_batch lb) = lb_rows lb \<and> lb_dropped (next_batch lb) = lb_dropped lb \<and>
    lb_max (next_batch lb) = lb_max lb \<and> ledger_ok (next_batch lb) \<and> lb_closed (next_batch lb) = lb_closed lb"
  using assms by (auto simp: next_batch_def in_hand_def ledger_ok_def BATCH_SIZE_def)

lemma requeue_kept:
  "kept (rows @ lb_rows lb) lb (requeue rows lb) \<and> ledger_ok (requeue rows lb)"
proof -
  let ?n = "length (rows @ lb_rows lb) - lb_max lb"
  have "in_hand (requeue rows lb) = drop ?n (rows @ lb_rows lb)" "lb_dropped (requeue rows lb) = lb_dropped lb + ?n"
    "lb_max (requeue rows lb) = lb_max lb" "lb_phase (requeue rows lb) = Idle" "lb_rows (requeue rows lb) = drop ?n (rows @ lb_rows lb)"
    by (simp_all add: requeue_def in_hand_def trim_def Let_def)
  moreover have "length (drop ?n (rows @ lb_rows lb)) = length (rows @ lb_rows lb) - ?n" by (rule length_drop)
  ultimately show ?thesis by (simp add: kept_def ledger_ok_def subseq_drop del: drop_append length_append length_drop)
qed

lemma isolate_rest_kept:
  assumes "length (lb_rows lb) \<le> lb_max lb" "length rest \<le> BATCH_SIZE"
  shows "in_hand (isolate_rest rest lb) = rest @ lb_rows lb \<and> lb_dropped (isolate_rest rest lb) = lb_dropped lb \<and>
    lb_max (isolate_rest rest lb) = lb_max lb \<and> ledger_ok (isolate_rest rest lb)"
  using assms next_batch_kept[OF assms(1)] by (auto simp: isolate_rest_def in_hand_def ledger_ok_def)

text \<open>What a run preserves, from the rows pushed so far.\<close>

definition conserved :: "usage_row list \<Rightarrow> usage_row list \<Rightarrow> ledger \<Rightarrow> bool" where
  "conserved pushed written lb \<longleftrightarrow> subseq (written @ in_hand lb) pushed \<and>
     length pushed = length written + length (in_hand lb) + lb_dropped lb"

lemma conserved_kept:
  assumes "conserved pushed written lb" "kept rows lb lb'" "rows = in_hand lb"
  shows "conserved pushed written lb'"
proof -
  have "subseq (written @ in_hand lb') (written @ in_hand lb)"
    using assms(2,3) by (simp add: kept_def subseq_append')
  with assms show ?thesis by (auto simp: conserved_def kept_def intro: subseq_order.trans)
qed

text \<open>The states a buffer over a store reaches, with the rows pushed so far.\<close>

inductive ledger_run :: "(usage_row list \<Rightarrow> 's \<Rightarrow> store_error option \<times> 's) \<Rightarrow> nat \<Rightarrow> 's \<Rightarrow> usage_row list \<Rightarrow> ledger \<Rightarrow> 's \<Rightarrow> bool"
  for put m st0 where
  run_start: "ledger_run put m st0 [] (new_ledger m) st0"
| run_step: "ledger_run put m st0 pushed lb st \<Longrightarrow> ledger_step put e (lb, st) = (lb', st') \<Longrightarrow>
    ledger_run put m st0 (pushed @ pushed_rows [e]) lb' st'"

lemma pushed_rows_simps [simp]:
  "pushed_rows [Push row] = [row]" "pushed_rows [Tick] = []" "pushed_rows [Store_Answer] = []"
  "pushed_rows [Close_Start] = []" "pushed_rows [Close_End] = []"
  by (simp_all add: pushed_rows_def map_filter_simps)

lemma flush_hand:
  assumes "ledger_ok lb"
  shows "in_hand (flush lb) = in_hand lb \<and> lb_dropped (flush lb) = lb_dropped lb \<and> lb_max (flush lb) = lb_max lb \<and>
    ledger_ok (flush lb)"
  using assms next_batch_kept[of lb] by (cases "lb_phase lb = Idle") (auto simp: flush_def in_hand_def ledger_ok_def)

lemma close_start_hand:
  assumes "ledger_ok lb"
  shows "in_hand (close_start lb) = in_hand lb \<and> lb_dropped (close_start lb) = lb_dropped lb \<and>
    lb_max (close_start lb) = lb_max lb \<and> ledger_ok (close_start lb)"
  using assms flush_hand[of "lb\<lparr> lb_closed := True \<rparr>"] by (simp add: close_start_def in_hand_def ledger_ok_def)

lemma close_end_kept:
  assumes "ledger_ok lb"
  shows "kept (in_hand lb) lb (close_end lb) \<and> ledger_ok (close_end lb)"
  using assms by (auto simp: close_end_def kept_def in_hand_def ledger_ok_def)

lemma conserved_push:
  assumes "conserved pushed written lb"
  shows "subseq (written @ in_hand lb @ [row]) (pushed @ [row])"
  using assms by (simp add: conserved_def flip: append_assoc)

context usage_sink
begin

lemma store_answer_conserved:
  assumes "ledger_ok lb" "conserved pushed written lb" "stored st = old @ written"
    and step: "store_answer put (lb, st) = (lb', st')"
  shows "\<exists>written'. conserved pushed written' lb' \<and> stored st' = old @ written' \<and> ledger_ok lb' \<and> lb_max lb' = lb_max lb"
proof (cases "lb_phase lb")
  case Idle
  with assms show ?thesis by (auto simp: store_answer_def)
next
  case (Appending batch)
  have size: "length (lb_rows lb) \<le> lb_max lb" "length batch \<le> BATCH_SIZE"
    using assms(1) Appending by (auto simp: ledger_ok_def)
  have hand: "in_hand lb = batch @ lb_rows lb" using Appending by (simp add: in_hand_def)
  obtain r s where ans: "put batch st = (r, s)" by fastforce
  show ?thesis
  proof (cases r)
    case None
    with step ans Appending have "lb' = next_batch lb" "stored st' = old @ (written @ batch)"
      using append_ok[of batch st s] assms(3) by (auto simp: store_answer_def)
    with next_batch_kept[OF size(1)] assms(2) hand show ?thesis
      by (intro exI[of _ "written @ batch"]) (simp add: conserved_def)
  next
    case (Some err)
    with step ans Appending have lb': "lb' = (if isDataError err then isolate_rest batch lb else requeue batch lb)"
      and st': "stored st' = old @ written"
      using append_failed[of batch st err s] assms(3) by (auto simp: store_answer_def)
    show ?thesis
    proof (cases "isDataError err")
      case True
      with isolate_rest_kept[OF size] lb' st' hand assms(2) show ?thesis
        by (intro exI[of _ written]) (simp add: conserved_def)
    next
      case False
      with requeue_kept[of batch lb] lb' st' hand conserved_kept[OF assms(2)] show ?thesis
        by (intro exI[of _ written]) (auto simp: kept_def)
    qed
  qed
next
  case (Isolating batch)
  then obtain row rest where batch: "batch = row # rest" using assms(1) by (cases batch) (auto simp: ledger_ok_def)
  have size: "length (lb_rows lb) \<le> lb_max lb" "length rest \<le> BATCH_SIZE"
    using assms(1) Isolating batch by (auto simp: ledger_ok_def)
  have hand: "in_hand lb = row # rest @ lb_rows lb" using Isolating batch by (simp add: in_hand_def)
  obtain r s where ans: "put [row] st = (r, s)" by fastforce
  show ?thesis
  proof (cases r)
    case None
    with step ans Isolating batch have "lb' = isolate_rest rest lb" "stored st' = old @ (written @ [row])"
      using append_ok[of "[row]" st s] assms(3) by (auto simp: store_answer_def)
    with isolate_rest_kept[OF size] assms(2) hand show ?thesis
      by (intro exI[of _ "written @ [row]"]) (simp add: conserved_def)
  next
    case (Some err)
    with step ans Isolating batch have
      lb': "lb' = (if isDataError err then isolate_rest rest (lb\<lparr> lb_dropped := lb_dropped lb + 1 \<rparr>) else requeue batch lb)"
      and st': "stored st' = old @ written"
      using append_failed[of "[row]" st err s] assms(3) by (auto simp: store_answer_def)
    show ?thesis
    proof (cases "isDataError err")
      case True
      have "subseq (written @ rest @ lb_rows lb) (written @ row # rest @ lb_rows lb)"
        unfolding subseq_append' by (simp add: list_emb_Cons)
      moreover have "subseq (written @ row # rest @ lb_rows lb) pushed"
        using assms(2) hand by (simp add: conserved_def)
      ultimately have "subseq (written @ rest @ lb_rows lb) pushed" by (rule subseq_order.trans)
      with True isolate_rest_kept[of "lb\<lparr> lb_dropped := lb_dropped lb + 1 \<rparr>" rest] size lb' st' hand assms(2) show ?thesis
        by (intro exI[of _ written]) (simp add: conserved_def)
    next
      case False
      with requeue_kept[of batch lb] lb' st' hand batch conserved_kept[OF assms(2)] show ?thesis
        by (intro exI[of _ written]) (auto simp: kept_def)
    qed
  qed
qed

lemma run_conserves:
  assumes "ledger_run put m st0 pushed lb st"
  shows "\<exists>written. conserved pushed written lb \<and> stored st = stored st0 @ written \<and> ledger_ok lb \<and> lb_max lb = m"
  using assms
proof (induction rule: ledger_run.induct)
  case run_start
  show ?case by (intro exI[of _ "[]"]) (simp add: conserved_def new_ledger_def in_hand_def ledger_ok_def)
next
  case (run_step pushed lb st e lb' st')
  then obtain written where IH: "conserved pushed written lb" "stored st = stored st0 @ written" "ledger_ok lb" "lb_max lb = m"
    by blast
  show ?case
  proof (cases e)
    case (Push row)
    with run_step.hyps(2) have s: "lb' = push row lb" "st' = st" by (auto simp: ledger_step_def)
    from push_kept[OF IH(3), of row] have k: "kept (in_hand lb @ [row]) lb lb'" "ledger_ok lb'" by (auto simp: s)
    from k(1) have "subseq (written @ in_hand lb') (written @ in_hand lb @ [row])" by (simp add: kept_def subseq_append')
    from subseq_order.trans[OF this conserved_push[OF IH(1)]] k IH Push show ?thesis
      by (intro exI[of _ written]) (auto simp: conserved_def kept_def s)
  next
    case Tick
    with run_step.hyps(2) flush_hand[OF IH(3)] IH show ?thesis
      by (intro exI[of _ written]) (auto simp: ledger_step_def conserved_def split: if_splits)
  next
    case Store_Answer
    with run_step.hyps(2) store_answer_conserved[OF IH(3,1,2)] IH(4) show ?thesis by (auto simp: ledger_step_def)
  next
    case Close_Start
    with run_step.hyps(2) close_start_hand[OF IH(3)] IH show ?thesis
      by (intro exI[of _ written]) (auto simp: ledger_step_def conserved_def)
  next
    case Close_End
    with run_step.hyps(2) close_end_kept[OF IH(3)] conserved_kept[OF IH(1)] IH show ?thesis
      by (intro exI[of _ written]) (auto simp: ledger_step_def kept_def)
  qed
qed

end

text \<open>Property C40.
  The usage buffer loses nothing silently, however pushes, timer ticks, store answers and the close
  interleave, over any store whose append is all or nothing: every pushed row was written, is held
  by the drain, waits in the buffer, or was counted as dropped; what was written, and what will be
  written next, keeps the order of the pushes, without duplicates; and no more rows wait than the
  configured maximum, beside one batch in flight.\<close>

theorem ledger_conserves_rows:
  assumes "usage_sink put stored" "ledger_run put m st0 pushed lb st"
  shows "\<exists>written. stored st = stored st0 @ written \<and> subseq (written @ in_hand lb) pushed \<and>
    length pushed = length written + length (in_hand lb) + lb_dropped lb \<and>
    depth lb \<le> m \<and> length (in_hand lb) \<le> m + BATCH_SIZE"
proof -
  from usage_sink.run_conserves[OF assms] obtain written where
    "conserved pushed written lb" "stored st = stored st0 @ written" "ledger_ok lb" "lb_max lb = m" by blast
  then show ?thesis by (auto simp: conserved_def ledger_ok_def depth_def in_hand_def)
qed

definition example_row :: "string \<Rightarrow> usage_row" where
  "example_row ident = \<lparr> ur_ts = ''t1'', ur_app = ''a'', ur_provider = G_Claude, ur_identity = ident, ur_model = None,
     ur_inputTokens = 1, ur_outputTokens = 2, ur_cacheReadTokens = 0, ur_cacheWriteTokens = 0,
     ur_estCostUsd = None, ur_status = ''ok'', ur_httpStatus = 200, ur_latencyMs = 1, ur_streamed = False \<rparr>"

text \<open>A store that rejects the rows of one identity with a data error.\<close>

definition picky_append :: "usage_row list \<Rightarrow> usage_row list \<Rightarrow> store_error option \<times> usage_row list" where
  "picky_append rows st =
     (if list_ex (\<lambda>r. ur_identity r = ''bad'') rows
      then (Some (Some \<lparr> th_name = None, th_code = Some (JStr ''22P02''), th_errno = None \<rparr>), st)
      else (None, st @ rows))"

definition picky_run :: "ledger \<times> usage_row list" where
  "picky_run = fold (ledger_step picky_append)
     [Push (example_row ''x''), Push (example_row ''bad''), Push (example_row ''y''), Tick,
      Store_Answer, Store_Answer, Store_Answer, Store_Answer] (new_ledger 10, [])"

lemma ledger_run_fold:
  "ledger_run put m st0 pushed lb st \<Longrightarrow> fold (ledger_step put) es (lb, st) = (lb', st') \<Longrightarrow>
     ledger_run put m st0 (pushed @ pushed_rows es) lb' st'"
proof (induction es arbitrary: pushed lb st)
  case (Cons e es)
  obtain l s where step: "ledger_step put e (lb, st) = (l, s)" by fastforce
  from Cons.IH[OF ledger_run.run_step[OF Cons.prems(1) step]] Cons.prems(2) step show ?case
    by (auto simp: pushed_rows_def map_filter_def split: option.splits ledger_event.splits)
qed (simp add: pushed_rows_def map_filter_simps)

theorem ledger_conserves_rows_witness:
  "snd picky_run = [example_row ''x'', example_row ''y''] \<and> lb_dropped (fst picky_run) = 1 \<and>
   (\<exists>written. snd picky_run = [] @ written \<and> subseq (written @ in_hand (fst picky_run)) [example_row ''x'', example_row ''bad'', example_row ''y''])"
proof -
  have sink: "usage_sink picky_append (\<lambda>st. st)"
    by unfold_locales (auto simp: picky_append_def split: if_splits)
  have "fold (ledger_step picky_append) [Push (example_row ''x''), Push (example_row ''bad''), Push (example_row ''y''), Tick,
      Store_Answer, Store_Answer, Store_Answer, Store_Answer] (new_ledger 10, []) = (fst picky_run, snd picky_run)"
    by (simp add: picky_run_def)
  from ledger_run_fold[OF ledger_run.run_start this] have
    run: "ledger_run picky_append 10 [] [example_row ''x'', example_row ''bad'', example_row ''y''] (fst picky_run) (snd picky_run)"
    by (simp add: pushed_rows_def map_filter_simps)
  have "snd picky_run = [example_row ''x'', example_row ''y''] \<and> lb_dropped (fst picky_run) = 1" by code_simp
  with ledger_conserves_rows[OF sink run] show ?thesis by blast
qed

end
