(* ===== verification/Gateway_Select.thy ===== *)
theory Gateway_Select
  imports Gateway_Store Pool_Ops_Laws
begin

text \<open>
  Which identity serves a request (\<open>src/gateway/select.ts\<close>). What the gateway reads for the choice is
  a record: the usage reading of an identity (\<open>None\<close> also when the reading failed), the members of
  the provider's pool (\<open>None\<close> when the registry could not be read) and the canonical name of an alias.
\<close>

record select_deps =
  sd_usageFor :: "gateway_provider \<Rightarrow> string \<Rightarrow> pool_usage option"
  sd_poolMembers :: "gateway_provider \<Rightarrow> string list option"
  sd_canonical :: "gateway_provider \<Rightarrow> string \<Rightarrow> string option"

definition DEFAULT_RESERVE_PERCENT :: rat where
  "DEFAULT_RESERVE_PERCENT = 80"

text \<open>The worst window; the status of the reading is not looked at.\<close>

definition utilisations :: "pool_usage \<Rightarrow> rat list" where
  "utilisations u =
     (case pu_maxUtilization u of None \<Rightarrow> [] | Some m \<Rightarrow> [m]) @ map uw_utilization (default [] (pu_windows u))"

definition utilisationOf :: "pool_usage option \<Rightarrow> rat option" where
  "utilisationOf usage =
     (case usage of
        None \<Rightarrow> None
      | Some u \<Rightarrow> if utilisations u = [] then None else Some (list_max (utilisations u)))"

definition canonical_name :: "select_deps \<Rightarrow> gateway_provider \<Rightarrow> string \<Rightarrow> string" where
  "canonical_name deps p n = default n (sd_canonical deps p n)"

definition allowedMembers :: "gateway_app \<Rightarrow> select_deps \<Rightarrow> string list option" where
  "allowedMembers app deps =
     (case ga_target app of
        Pin i \<Rightarrow> Some [i]
      | Pool identities \<Rightarrow>
          map_option (\<lambda>names.
            if identities \<noteq> None \<and> identities \<noteq> Some []
            then filter (\<lambda>n. n \<in> set (map (canonical_name deps (ga_provider app)) (default [] identities))) names
            else names) (sd_poolMembers deps (ga_provider app)))"

definition memberUsages :: "gateway_app \<Rightarrow> select_deps \<Rightarrow> pool_usage option list" where
  "memberUsages app deps =
     (case allowedMembers app deps of
        None \<Rightarrow> []
      | Some names \<Rightarrow> map (sd_usageFor deps (ga_provider app)) names)"

datatype reject_reason = Reserve | No_Headroom | No_Identities

datatype pick = Identity string | Reject reject_reason

text \<open>The row of a pool member for the choice: its worst window as a live reading.\<close>

definition select_row :: "gateway_app \<Rightarrow> select_deps \<Rightarrow> string \<Rightarrow> string \<times> pool_usage option" where
  "select_row app deps n =
     (let usage = sd_usageFor deps (ga_provider app) n
      in (n, map_option (\<lambda>util. \<lparr> pu_status = Live, pu_maxUtilization = Some util, pu_windows = None,
            pu_extraUsage = Option.bind usage pu_extraUsage, pu_error = None, pu_retryAfterSeconds = None,
            pu_capturedAt = '''' \<rparr>) (utilisationOf usage)))"

definition reserve_of :: "gateway_app \<Rightarrow> rat" where
  "reserve_of app = default DEFAULT_RESERVE_PERCENT (ga_reservePercent app)"

text \<open>\<open>exclude\<close> is the empty list where the source passes nothing.\<close>

definition pickIdentity :: "gateway_app \<Rightarrow> select_deps \<Rightarrow> string list \<Rightarrow> pick option" where
  "pickIdentity app deps exclude =
     (case ga_target app of
        Pin i \<Rightarrow>
          Some (case utilisationOf (sd_usageFor deps (ga_provider app) i) of
                  Some util \<Rightarrow> if util \<ge> reserve_of app then Reject Reserve else Identity i
                | None \<Rightarrow> Identity i)
      | Pool _ \<Rightarrow>
          map_option (\<lambda>names.
            if names = [] then Reject No_Identities
            else
              let rows = map (select_row app deps) (filter (\<lambda>n. n \<notin> set exclude) names)
              in (case chooseBest rows (below (min (reserve_of app) (99999 / 1000))) of
                    Some known \<Rightarrow> Identity known
                  | None \<Rightarrow>
                      (case find (\<lambda>r. snd r = None) rows of
                         Some r \<Rightarrow> Identity (fst r)
                       | None \<Rightarrow> Reject No_Headroom)))
            (allowedMembers app deps))"

section \<open>What the choice guarantees\<close>

lemma live_util_row [simp]: "live_util (snd (select_row app deps n)) = utilisationOf (sd_usageFor deps (ga_provider app) n)"
  by (cases "utilisationOf (sd_usageFor deps (ga_provider app) n)") (simp_all add: select_row_def Let_def live_util_def)

lemma fst_row [simp]: "fst (select_row app deps n) = n"
  by (simp add: select_row_def Let_def)

lemma snd_row_None [simp]: "snd (select_row app deps n) = None \<longleftrightarrow> utilisationOf (sd_usageFor deps (ga_provider app) n) = None"
  by (simp add: select_row_def Let_def)

lemma eligible_row:
  "eligible (below b) (select_row app deps n) \<longleftrightarrow>
     (\<exists>u. utilisationOf (sd_usageFor deps (ga_provider app) n) = Some u \<and> u < b)"
  by (auto simp: eligible_def)

lemma utilisationOf_max:
  "utilisationOf (Some v) = Some u \<Longrightarrow> x \<in> set (utilisations v) \<Longrightarrow> x \<le> u"
  by (auto simp: utilisationOf_def list_max_ge split: if_splits)

text \<open>The pool branch of \<open>pickIdentity\<close>, as the alternatives of a specification.\<close>

lemma pick_pool_cases:
  assumes "ga_target app = Pool ids" "allowedMembers app deps = Some names"
    and "pickIdentity app deps exclude = Some p"
  defines "cands \<equiv> filter (\<lambda>n. n \<notin> set exclude) names"
    and "util \<equiv> \<lambda>n. utilisationOf (sd_usageFor deps (ga_provider app) n)"
    and "b \<equiv> min (reserve_of app) (99999 / 1000)"
  obtains (none) "names = []" "p = Reject No_Identities"
  | (known) n u where "names \<noteq> []" "p = Identity n" "n \<in> set cands" "util n = Some u" "u < b"
      "\<forall>m \<in> set cands. \<forall>v. util m = Some v \<and> v < b \<longrightarrow> u \<le> v"
  | (unknown) n where "names \<noteq> []" "p = Identity n" "n \<in> set cands" "util n = None"
      "\<forall>m \<in> set cands. \<forall>v. util m = Some v \<longrightarrow> b \<le> v"
  | (full) "names \<noteq> []" "p = Reject No_Headroom" "\<forall>m \<in> set cands. \<exists>v. util m = Some v \<and> b \<le> v"
proof (cases "names = []")
  case True
  with assms(1-3) none show thesis by (simp add: pickIdentity_def)
next
  case ne: False
  let ?rows = "map (select_row app deps) cands"
  have p: "p = (case chooseBest ?rows (below b) of
                    Some known \<Rightarrow> Identity known
                  | None \<Rightarrow> (case find (\<lambda>r. snd r = None) ?rows of Some r \<Rightarrow> Identity (fst r) | None \<Rightarrow> Reject No_Headroom))"
    using assms(1-3) ne unfolding cands_def b_def pickIdentity_def Let_def by simp
  show thesis
  proof (cases "chooseBest ?rows (below b)")
    case (Some n)
    from chooseBest_Some[OF this] obtain m where m: "m \<in> set cands" "m = n" "eligible (below b) (select_row app deps m)"
      and least: "\<forall>r' \<in> set ?rows. eligible (below b) r' \<longrightarrow> rank (select_row app deps m) \<le> rank r'"
      by auto
    from m obtain u where u: "util n = Some u" "u < b" by (auto simp: eligible_row util_def)
    have "u \<le> v" if "k \<in> set cands" "util k = Some v" "v < b" for k v
    proof -
      have "eligible (below b) (select_row app deps k)" using that by (auto simp: eligible_row util_def)
      with least that(1) have "rank (select_row app deps m) \<le> rank (select_row app deps k)" by auto
      with u m(2) that(2) show ?thesis by (auto simp: rank_def util_def less_eq_prod_def)
    qed
    with known[of n u] ne p Some m u show thesis by auto
  next
    case none': None
    then have over: "\<forall>m \<in> set cands. \<forall>v. util m = Some v \<longrightarrow> b \<le> v"
      by (auto simp: chooseBest_None eligible_row util_def not_less)
    show thesis
    proof (cases "find (\<lambda>r. snd r = None) ?rows")
      case None
      then have "\<forall>m \<in> set cands. util m \<noteq> None" by (auto simp: find_None_iff util_def)
      with over full ne p none' None show thesis by fastforce
    next
      case (Some r)
      then have "r \<in> set ?rows" "snd r = None" using find_Some_set by fastforce+
      then obtain n where "n \<in> set cands" "r = select_row app deps n" "util n = None" by (auto simp: util_def)
      with unknown[of n] over ne p none' Some show thesis by simp
    qed
  qed
qed

lemma pick_allowed:
  assumes "pickIdentity app deps exclude = Some (Identity n)"
  shows "\<exists>names. allowedMembers app deps = Some names \<and> n \<in> set names \<and>
    (\<forall>ids. ga_target app = Pool ids \<longrightarrow> n \<notin> set exclude)"
proof (cases "ga_target app")
  case (Pin i)
  with assms show ?thesis by (auto simp: pickIdentity_def allowedMembers_def split: option.splits if_splits)
next
  case (Pool ids)
  with assms obtain names where names: "allowedMembers app deps = Some names" by (auto simp: pickIdentity_def)
  from Pool names assms show ?thesis by (cases rule: pick_pool_cases) (use Pool names in auto)
qed

lemma pick_pin_not_excluded:
  "pickIdentity app deps exclude = Some (Identity n) \<Longrightarrow> ga_target app = Pool ids \<Longrightarrow> n \<notin> set exclude"
  using pick_allowed by fastforce

text \<open>Property C30.
  The identity picked for a request is one the app may use. A pool request never gets a member it
  excluded, nor one known to be at its reserve or full; among the members known to be below, it gets
  one of least utilisation, and a member without a usage figure only when no member is known to be
  below. It is refused for lack of headroom exactly when every remaining member is known to be at the
  limit, and a pinned one exactly when its identity is known to be at the reserve.\<close>

theorem pickIdentity_sound:
  assumes "pickIdentity app deps exclude = Some p" "allowedMembers app deps = Some names"
  defines "util \<equiv> \<lambda>n. utilisationOf (sd_usageFor deps (ga_provider app) n)"
    and "limit \<equiv> min (reserve_of app) (99999 / 1000)"
  shows "case ga_target app of
      Pin i \<Rightarrow> p = (if \<exists>u. util i = Some u \<and> reserve_of app \<le> u then Reject Reserve else Identity i)
    | Pool _ \<Rightarrow>
       (case p of
          Identity n \<Rightarrow> n \<in> set names - set exclude \<and>
            (case util n of
               Some u \<Rightarrow> u < limit \<and> (\<forall>m \<in> set names - set exclude. \<forall>v. util m = Some v \<longrightarrow> u \<le> v)
             | None \<Rightarrow> \<forall>m \<in> set names - set exclude. \<forall>v. util m = Some v \<longrightarrow> limit \<le> v)
        | Reject r \<Rightarrow> (r = No_Identities \<longleftrightarrow> names = []) \<and> r \<noteq> Reserve \<and>
            (r = No_Headroom \<longrightarrow> (\<forall>m \<in> set names - set exclude. \<exists>v. util m = Some v \<and> limit \<le> v)))"
proof (cases "ga_target app")
  case (Pin i)
  with assms(1) show ?thesis by (auto simp: pickIdentity_def util_def split: option.splits if_splits)
next
  case (Pool ids)
  from Pool assms(2,1) show ?thesis
  proof (cases rule: pick_pool_cases)
    case (known n u)
    moreover from this have "u \<le> v" if "m \<in> set names - set exclude" "util m = Some v" for m v
      using that by (cases "v < limit") (auto simp: util_def limit_def)
    ultimately show ?thesis using Pool by (auto simp: util_def limit_def)
  qed (use Pool in \<open>auto simp: util_def limit_def\<close>)
qed

definition example_pool_app :: gateway_app where
  "example_pool_app = \<lparr> ga_name = ''shop'', ga_owner = ''ops'', ga_namespace = ''prod'', ga_provider = G_Claude,
     ga_style = Anthropic, ga_target = Pool (Some [''a'', ''b'', ''c'']), ga_models = None, ga_dailyTokens = None,
     ga_reservePercent = Some 90, ga_active = True, ga_createdAt = ''t0'', ga_lastUsedAt = None \<rparr>"

definition example_select :: select_deps where
  "example_select = \<lparr>
     sd_usageFor = (\<lambda>_ n. if n = ''a'' then Some (usage_at 95) else if n = ''b'' then Some (usage_at 40)
       else if n = ''d'' then Some (usage_at 10) else None),
     sd_poolMembers = (\<lambda>_. Some [''a'', ''b'', ''c'', ''d'']), sd_canonical = (\<lambda>_ _. None) \<rparr>"

theorem pickIdentity_sound_witness:
  "pickIdentity example_pool_app example_select [] = Some (Identity ''b'') \<and>
   pickIdentity example_pool_app example_select [''b''] = Some (Identity ''c'') \<and>
   pickIdentity example_pool_app example_select [''b'', ''c''] = Some (Reject No_Headroom) \<and>
   ''b'' \<in> set [''a'', ''b'', ''c''] - set []"
proof -
  have names: "allowedMembers example_pool_app example_select = Some [''a'', ''b'', ''c'']" by code_simp
  have run: "pickIdentity example_pool_app example_select [] = Some (Identity ''b'')" by code_simp
  have "''b'' \<in> set [''a'', ''b'', ''c''] - set []"
    using pickIdentity_sound[OF run names] unfolding example_pool_app_def by (simp del: set_simps)
  moreover have "pickIdentity example_pool_app example_select [''b''] = Some (Identity ''c'') \<and>
   pickIdentity example_pool_app example_select [''b'', ''c''] = Some (Reject No_Headroom)" by code_simp
  ultimately show ?thesis using run by blast
qed

end
