(* ===== verification/Gateway_Access.thy ===== *)
theory Gateway_Access
  imports Gateway_Store
begin

text \<open>
  Who may use the gateway: tokens (\<open>src/gateway/tokens.ts\<close>), the token in the request headers
  (\<open>auth.ts\<close>), daily caps and the model list (\<open>caps.ts\<close>), error types (\<open>errors.ts\<close>), and the
  issue and rotation of tokens (\<open>admin.ts\<close>). SHA-256 is a parameter \<open>sha\<close> that gives the hex
  digest of a string; random bytes are arguments; \<open>Date.parse\<close> and \<open>toISOString\<close> are parameters.
\<close>

section \<open>Encodings of Buffer\<close>

text \<open>\<open>Buffer.from(s, "hex")\<close>: pairs of hex digits up to the first that is none.\<close>

definition hex_digit :: "char \<Rightarrow> nat option" where
  "hex_digit c =
     (let n = of_char c :: nat in
      if 48 \<le> n \<and> n \<le> 57 then Some (n - 48)
      else if 97 \<le> n \<and> n \<le> 102 then Some (n - 87)
      else if 65 \<le> n \<and> n \<le> 70 then Some (n - 55)
      else None)"

fun hex_bytes :: "string \<Rightarrow> nat list" where
  "hex_bytes (a # b # s) =
     (case (hex_digit a, hex_digit b) of
        (Some x, Some y) \<Rightarrow> (16 * x + y) # hex_bytes s
      | _ \<Rightarrow> [])"
| "hex_bytes _ = []"

text \<open>\<open>Buffer.toString("base64url")\<close>, without padding.\<close>

definition BASE64URL :: string where
  "BASE64URL = ''ABCDEFGHIJKLMNOPQRSTUVWXYZabcdefghijklmnopqrstuvwxyz0123456789-_''"

definition b64 :: "nat \<Rightarrow> char" where
  "b64 n = BASE64URL ! (n mod 64)"

fun base64url :: "nat list \<Rightarrow> string" where
  "base64url [] = []"
| "base64url [a] = [b64 (a div 4), b64 ((a mod 4) * 16)]"
| "base64url [a, b] = [b64 (a div 4), b64 ((a mod 4) * 16 + b div 16), b64 ((b mod 16) * 4)]"
| "base64url (a # b # c # s) =
     [b64 (a div 4), b64 ((a mod 4) * 16 + b div 16), b64 ((b mod 16) * 4 + c div 64), b64 (c mod 64)] @ base64url s"

section \<open>Tokens\<close>

definition BASE32 :: string where
  "BASE32 = ''abcdefghijklmnopqrstuvwxyz234567''"

definition PREFIX_LEN :: nat where
  "PREFIX_LEN = 8"

definition SECRET_LEN :: nat where
  "SECRET_LEN = 43"

definition TOKEN_HEAD :: string where
  "TOKEN_HEAD = ''aisg_''"

text \<open>The stored hash of a secret against a presented one.\<close>

definition sameHash :: "(string \<Rightarrow> string) \<Rightarrow> string \<Rightarrow> string \<Rightarrow> bool" where
  "sameHash sha storedHex secret \<longleftrightarrow> hex_bytes storedHex = hex_bytes (sha secret)"

record generated_token =
  gt_token :: string
  gt_prefix :: string
  gt_hash :: string

definition generateToken :: "(string \<Rightarrow> string) \<Rightarrow> nat list \<Rightarrow> nat list \<Rightarrow> generated_token" where
  "generateToken sha p r =
     (let pre = map (\<lambda>b. BASE32 ! (b mod 32)) p; secret = base64url r
      in \<lparr> gt_token = TOKEN_HEAD @ pre @ ''_'' @ secret, gt_prefix = pre, gt_hash = sha secret \<rparr>)"

text \<open>The character classes \<open>[a-z2-7]\<close> and \<open>[A-Za-z0-9_-]\<close> are the two alphabets.\<close>

definition base32_char :: "char \<Rightarrow> bool" where
  "base32_char c \<longleftrightarrow> c \<in> set BASE32"

definition secret_char :: "char \<Rightarrow> bool" where
  "secret_char c \<longleftrightarrow> c \<in> set BASE64URL"

text \<open>\<open>rest.indexOf("_")\<close> is the length of the part before the first underscore, when there is one.\<close>

definition parseToken :: "string \<Rightarrow> (string \<times> string) option" where
  "parseToken raw =
     (if \<not> starts_with raw TOKEN_HEAD then None
      else
        let rest = drop (length TOKEN_HEAD) raw; pre = takeWhile (\<lambda>c. c \<noteq> CHR ''_'') rest;
            secret = drop (length pre + 1) rest
        in if CHR ''_'' \<notin> set rest \<or> length pre \<noteq> PREFIX_LEN then None
           else if pre = [] \<or> \<not> list_all base32_char pre \<or> length secret \<noteq> SECRET_LEN \<or> \<not> list_all secret_char secret
           then None
           else Some (pre, secret))"

record clock =
  ck_parse :: "string \<Rightarrow> int option"
  ck_iso :: "int \<Rightarrow> string"

definition unexpired :: "clock \<Rightarrow> int \<Rightarrow> token_record \<Rightarrow> bool" where
  "unexpired ck now t =
     (case tr_expiresAt t of
        None \<Rightarrow> True
      | Some e \<Rightarrow> (case ck_parse ck e of None \<Rightarrow> False | Some x \<Rightarrow> x > now))"

text \<open>The loop of \<open>verifyToken\<close> looks at every token, whatever it has found.\<close>

definition verify_step :: "(string \<Rightarrow> string) \<Rightarrow> clock \<Rightarrow> string \<times> string \<Rightarrow> int \<Rightarrow> bool \<Rightarrow> token_record \<Rightarrow> bool" where
  "verify_step sha ck parsed now acc t =
     (if tr_prefix t \<noteq> fst parsed then acc
      else if \<not> sameHash sha (tr_hash t) (snd parsed) then acc
      else if \<not> unexpired ck now t then acc
      else True)"

definition verifyToken :: "(string \<Rightarrow> string) \<Rightarrow> clock \<Rightarrow> gateway_store \<Rightarrow> string \<Rightarrow> string \<Rightarrow> int \<Rightarrow> bool" where
  "verifyToken sha ck st app raw now =
     (case parseToken raw of
        None \<Rightarrow> False
      | Some parsed \<Rightarrow>
          (case getApp app st of
             None \<Rightarrow> False
           | Some a \<Rightarrow>
               if \<not> ga_active a then False
               else foldl (verify_step sha ck parsed now) False (tokensFor app st)))"

section \<open>The token of a request\<close>

text \<open>
  Header names are in lower case. \<open>un64\<close> is \<open>Buffer.from(v, "base64").toString("utf8")\<close>, which
  never throws.
\<close>

type_synonym headers = "(string \<times> string) list"

definition header :: "string \<Rightarrow> headers \<Rightarrow> string option" where
  "header n hs = map_of hs n"

definition basicPassword :: "(string \<Rightarrow> string) \<Rightarrow> string \<Rightarrow> string \<Rightarrow> string option" where
  "basicPassword un64 value app =
     (let decoded = un64 value; user = takeWhile (\<lambda>c. c \<noteq> CHR '':'') decoded
      in if CHR '':'' \<notin> set decoded \<or> user \<noteq> app then None else Some (drop (length user + 1) decoded))"

text \<open>\<open>/^(bearer|basic)\s+(\S+)$/i\<close> on the trimmed header.\<close>

definition auth_parts :: "string \<Rightarrow> (string \<times> string) option" where
  "auth_parts auth =
     (let scheme = takeWhile (\<lambda>c. \<not> is_space c) auth;
          gap = takeWhile is_space (drop (length scheme) auth);
          value = drop (length scheme + length gap) auth
      in if toLowerCase scheme \<in> {''bearer'', ''basic''} \<and> gap \<noteq> [] \<and> value \<noteq> [] \<and> list_all (\<lambda>c. \<not> is_space c) value
         then Some (toLowerCase scheme, value) else None)"

definition auth_candidates :: "(string \<Rightarrow> string) \<Rightarrow> headers \<Rightarrow> string \<Rightarrow> string option list" where
  "auth_candidates un64 hs app =
     (case map_option js_trim (header ''authorization'' hs) of
        None \<Rightarrow> []
      | Some auth \<Rightarrow>
          (case auth_parts auth of
             None \<Rightarrow> []
           | Some (scheme, value) \<Rightarrow> [if scheme = ''bearer'' then Some value else basicPassword un64 value app]))
     @ [map_option js_trim (header ''x-api-key'' hs), map_option js_trim (header ''api-key'' hs)]"

definition extractToken :: "(string \<Rightarrow> string) \<Rightarrow> headers \<Rightarrow> string \<Rightarrow> string option" where
  "extractToken un64 hs app =
     find (\<lambda>c. parseToken c \<noteq> None) (List.map_filter id (auth_candidates un64 hs app))"

section \<open>Caps\<close>

definition ICT_OFFSET_MS :: int where
  "ICT_OFFSET_MS = 7 * 3600000"

definition DAY_MS :: int where
  "DAY_MS = 86400000"

definition dayStartIct :: "int \<Rightarrow> int" where
  "dayStartIct now = (let shifted = now + ICT_OFFSET_MS in (shifted div DAY_MS) * DAY_MS - ICT_OFFSET_MS)"

datatype caps_answer = Caps_Ok | Model_Refused | Cap_Reached

definition checkCaps :: "gateway_app \<Rightarrow> string option \<Rightarrow> int \<Rightarrow> caps_answer" where
  "checkCaps app model usedToday =
     (if ga_models app \<noteq> None \<and> ga_models app \<noteq> Some [] \<and>
         (case model of None \<Rightarrow> True | Some m \<Rightarrow> m \<notin> set (default [] (ga_models app)))
      then Model_Refused
      else if \<exists>cap \<in> set_option (ga_dailyTokens app). of_int usedToday \<ge> cap then Cap_Reached
      else Caps_Ok)"

section \<open>Error types\<close>

definition typeFor :: "api_style \<Rightarrow> int \<Rightarrow> string" where
  "typeFor style status =
     (if style = Anthropic then
        if status = 401 then ''authentication_error''
        else if status = 403 then ''permission_error''
        else if status = 404 then ''not_found_error''
        else if status = 413 then ''request_too_large''
        else if status = 429 then ''rate_limit_error''
        else if status \<ge> 500 then ''api_error''
        else ''invalid_request_error''
      else
        if status = 401 then ''invalid_request_error''
        else if status = 403 then ''permission_error''
        else if status = 429 then ''rate_limit_error''
        else if status \<ge> 500 then ''server_error''
        else ''invalid_request_error'')"

definition providerError :: "api_style \<Rightarrow> int \<Rightarrow> string \<Rightarrow> int \<times> json" where
  "providerError style status message =
     (let ty = typeFor style status in
      (status,
       if style = Anthropic
       then JObj [(''type'', JStr ''error''), (''error'', JObj [(''type'', JStr ty), (''message'', JStr message)])]
       else JObj [(''error'', JObj [(''message'', JStr message), (''type'', JStr ty), (''param'', JNull),
              (''code'', if status = 401 then JStr ''invalid_api_key'' else JNull)])]))"

section \<open>Issue and rotation\<close>

definition DEFAULT_OVERLAP_MS :: rat where
  "DEFAULT_OVERLAP_MS = 24 * 3600000"

definition MAX_OVERLAP_HOURS :: rat where
  "MAX_OVERLAP_HOURS = 24 * 30"

definition overlap_ms :: "rat \<Rightarrow> json \<Rightarrow> rat option" where
  "overlap_ms dflt raw =
     (case js_get raw ''overlapHours'' of
        None \<Rightarrow> Some dflt
      | Some (JNum (Fin h)) \<Rightarrow> if 0 \<le> h \<and> h \<le> MAX_OVERLAP_HOURS then Some (h * 3600000) else None
      | Some _ \<Rightarrow> None)"

datatype issue_answer = Issue_Refused nat | Issued string string

text \<open>
  \<open>POST /apps/:name/tokens\<close>: the request body is \<open>None\<close> when it is no JSON. Older tokens get
  their expiry first, then the new token is stored; only its hash is kept.
\<close>

definition issueToken :: "(string \<Rightarrow> string) \<Rightarrow> clock \<Rightarrow> rat option \<Rightarrow> string \<Rightarrow> json option \<Rightarrow> int \<Rightarrow> nat list \<Rightarrow> nat list \<Rightarrow>
    gateway_store \<Rightarrow> issue_answer \<times> gateway_store" where
  "issueToken sha ck overlap name body now p r st =
     (case getApp name st of
        None \<Rightarrow> (Issue_Refused 404, st)
      | Some app \<Rightarrow>
          if \<not> ga_active app then (Issue_Refused 409, st)
          else (case body of
                  None \<Rightarrow> (Issue_Refused 400, st)
                | Some raw \<Rightarrow>
                    (case overlap_ms (default DEFAULT_OVERLAP_MS overlap) raw of
                       None \<Rightarrow> (Issue_Refused 400, st)
                     | Some ms \<Rightarrow>
                         let previousExpiresAt = ck_iso ck (now + \<lfloor>ms\<rfloor>);
                             st1 = expireTokens name previousExpiresAt st;
                             t = generateToken sha p r
                         in (Issued (gt_token t) previousExpiresAt,
                             addToken \<lparr> tr_app = name, tr_prefix = gt_prefix t, tr_hash = gt_hash t,
                                        tr_createdAt = ck_iso ck now, tr_expiresAt = None \<rparr> st1))))"

definition revoke_request :: "string \<Rightarrow> gateway_store \<Rightarrow> nat option \<times> gateway_store" where
  "revoke_request name st = (if getApp name st = None then (Some 404, st) else (None, revokeApp name st))"

section \<open>Round trip of a generated token\<close>

lemma BASE64URL_char: "secret_char (b64 n)"
proof -
  have "list_all secret_char BASE64URL" by code_simp
  moreover have "n mod 64 < length BASE64URL" by (simp add: BASE64URL_def)
  ultimately show ?thesis unfolding b64_def by (auto simp: list_all_length)
qed

lemma base64url_chars: "list_all secret_char (base64url r)"
  by (induction r rule: base64url.induct) (simp_all add: BASE64URL_char)

lemma length_base64url: "length (base64url r) = (4 * length r + 2) div 3"
  by (induction r rule: base64url.induct) simp_all

lemma BASE32_char: "base32_char (BASE32 ! (n mod 32)) \<and> BASE32 ! (n mod 32) \<noteq> CHR ''_''"
proof -
  have "list_all (\<lambda>c. base32_char c \<and> c \<noteq> CHR ''_'') BASE32" by code_simp
  moreover have "n mod 32 < length BASE32" by (simp add: BASE32_def)
  ultimately show ?thesis by (auto simp: list_all_length)
qed

lemma parseToken_parts:
  assumes "length pre = PREFIX_LEN" "list_all base32_char pre" "CHR ''_'' \<notin> set pre"
    and "length secret = SECRET_LEN" "list_all secret_char secret"
  shows "parseToken (TOKEN_HEAD @ pre @ ''_'' @ secret) = Some (pre, secret)"
proof -
  have "takeWhile (\<lambda>c. c \<noteq> CHR ''_'') (pre @ ''_'' @ secret) = pre"
    using assms(3) by (induction pre) auto
  moreover have "pre \<noteq> []" using assms(1) by (auto simp: PREFIX_LEN_def)
  ultimately show ?thesis using assms by (simp add: parseToken_def Let_def)
qed

lemma parse_generated:
  assumes "length p = 8" "length r = 32"
  shows "parseToken (gt_token (generateToken sha p r)) = Some (gt_prefix (generateToken sha p r), base64url r)"
proof -
  let ?pre = "map (\<lambda>b. BASE32 ! (b mod 32)) p"
  have "length ?pre = PREFIX_LEN" using assms(1) by (simp add: PREFIX_LEN_def)
  moreover have "list_all base32_char ?pre" "CHR ''_'' \<notin> set ?pre"
    using BASE32_char by (auto simp: list_all_iff) metis
  moreover have "length (base64url r) = SECRET_LEN"
    using assms(2) by (simp add: length_base64url SECRET_LEN_def)
  ultimately show ?thesis
    using base64url_chars by (simp add: generateToken_def Let_def parseToken_parts del: append_Cons append_Nil)
qed

section \<open>What a token gives access to\<close>

text \<open>A stored token that a presented one matches, whatever its expiry.\<close>

definition matches :: "(string \<Rightarrow> string) \<Rightarrow> token_record \<Rightarrow> string \<times> string \<Rightarrow> bool" where
  "matches sha t parsed \<longleftrightarrow> tr_prefix t = fst parsed \<and> sameHash sha (tr_hash t) (snd parsed)"

lemma verify_loop:
  "foldl (verify_step sha ck parsed now) acc ts \<longleftrightarrow> acc \<or> (\<exists>t \<in> set ts. matches sha t parsed \<and> unexpired ck now t)"
  by (induction ts arbitrary: acc) (auto simp: verify_step_def matches_def)

lemma verifyToken_iff:
  "verifyToken sha ck st app raw now \<longleftrightarrow>
     (\<exists>parsed a. parseToken raw = Some parsed \<and> getApp app st = Some a \<and> ga_active a \<and>
        (\<exists>t \<in> set (tokensFor app st). matches sha t parsed \<and> unexpired ck now t))"
  by (auto simp: verifyToken_def verify_loop split: option.splits)

lemma getApp_tokens [simp]:
  "getApp n (addToken t st) = getApp n st" "getApp n (expireTokens a e st) = getApp n st"
  by (simp_all add: getApp_def addToken_def expireTokens_def)

lemma tokensFor_addToken:
  "tokensFor a (addToken t st) = tokensFor a st @ (if tr_app t = a then [t] else [])"
  by (simp add: tokensFor_def addToken_def)

lemma tokensFor_expire:
  "tokensFor a (expireTokens b e st) =
     (if a = b then map (\<lambda>t. if tr_expiresAt t = None then t\<lparr> tr_expiresAt := Some e \<rparr> else t) (tokensFor a st)
      else tokensFor a st)"
proof -
  define ts where "ts = st_tokens st"
  let ?f = "\<lambda>t. if tr_app t = b \<and> tr_expiresAt t = None then t\<lparr> tr_expiresAt := Some e \<rparr> else t"
  have "filter (\<lambda>t. tr_app t = a) (map ?f ts) =
     (if a = b then map (\<lambda>t. if tr_expiresAt t = None then t\<lparr> tr_expiresAt := Some e \<rparr> else t) (filter (\<lambda>t. tr_app t = a) ts)
      else filter (\<lambda>t. tr_app t = a) ts)"
    by (cases "a = b"; induction ts) auto
  then show ?thesis by (simp add: tokensFor_def expireTokens_def ts_def)
qed

lemma issueToken_Issued:
  assumes "issueToken sha ck overlap name body now p r st = (Issued tok e, st')"
  obtains ms raw app where "getApp name st = Some app" "ga_active app" "body = Some raw"
    "overlap_ms (default DEFAULT_OVERLAP_MS overlap) raw = Some ms" "e = ck_iso ck (now + \<lfloor>ms\<rfloor>)"
    "tok = gt_token (generateToken sha p r)"
    "st' = addToken \<lparr> tr_app = name, tr_prefix = gt_prefix (generateToken sha p r), tr_hash = sha (base64url r),
       tr_createdAt = ck_iso ck now, tr_expiresAt = None \<rparr> (expireTokens name e st)"
  using assms that
  by (auto simp: issueToken_def Let_def generateToken_def split: option.splits if_splits)

lemma revoked_never:
  "\<not> verifyToken sha ck (revokeApp name st) name raw t"
  by (auto simp: verifyToken_iff revokeApp_def getApp_def update_conv' split: option.splits)

section \<open>The life of a token\<close>


definition example_sha :: "string \<Rightarrow> string" where
  "example_sha s = (if s = replicate 43 CHR ''A'' then ''00ff'' else ''1234'')"

definition example_app :: gateway_app where
  "example_app = \<lparr> ga_name = ''shop'', ga_owner = ''ops'', ga_namespace = ''prod'', ga_provider = G_Claude,
     ga_style = Anthropic, ga_target = Pool None, ga_models = None, ga_dailyTokens = None, ga_reservePercent = None,
     ga_active = True, ga_createdAt = ''t0'', ga_lastUsedAt = None \<rparr>"

definition example_tokens :: gateway_store where
  "example_tokens = empty_store\<lparr> st_apps := [(''shop'', example_app)] \<rparr>"


text \<open>
  A rotation without overlap does not end tokens that an earlier rotation gave a longer one: the
  response calls the new instant the end of the previous tokens, but they work on.
\<close>

definition counting_clock :: clock where
  "counting_clock = \<lparr> ck_parse = (\<lambda>s. Some (int (length s))), ck_iso = (\<lambda>n. replicate (nat n) CHR ''x'') \<rparr>"

lemma rotation_leaves_longer_overlap:
  "let st1 = example_tokens\<lparr> st_tokens := [\<lparr> tr_app = ''shop'', tr_prefix = ''aaaaaaaa'', tr_hash = ''00ff'',
         tr_createdAt = ''t0'', tr_expiresAt = Some (replicate 9 CHR ''x'') \<rparr>] \<rparr>;
       (a, st2) = issueToken example_sha counting_clock None ''shop'' (Some (JObj [(''overlapHours'', JNum (Fin 0))])) 2
           (replicate 8 1) (replicate 32 1) st1
   in (case a of Issued _ e \<Rightarrow> ck_parse counting_clock e = Some 2 | _ \<Rightarrow> False) \<and>
      verifyToken example_sha counting_clock st2 ''shop'' (''aisg_aaaaaaaa_'' @ replicate 43 CHR ''A'') 5"
  by code_simp

end
