(* ===== verification/Gateway_Limit.thy ===== *)
theory Gateway_Limit
  imports Gateway_Select Gateway_Access Pool_Scheduler
begin

text \<open>
  What a quota answer of a provider means and what the gateway answers itself when no member is left:
  \<open>src/gateway/native-limit.ts\<close>, and \<open>provesSubscriptionExhaustion\<close>, \<open>burstHoldUntil\<close>,
  \<open>exhaustedUntil\<close>, \<open>isQuotaBody\<close> and \<open>pathAllowed\<close> of \<open>src/gateway/app.ts\<close>. Instants of this part
  are rationals (milliseconds) or integers (seconds); \<open>num\<close> is \<open>String(number)\<close>.
\<close>

section \<open>Number(string)\<close>

definition digits_value :: "nat \<Rightarrow> nat list \<Rightarrow> nat" where
  "digits_value base ds = foldl (\<lambda>n d. base * n + d) 0 ds"

definition dec_value :: "string \<Rightarrow> rat" where
  "dec_value s = of_nat (digits_value 10 (map (\<lambda>c. of_char c - 48) s))"

definition pow10 :: "int \<Rightarrow> rat" where
  "pow10 e = (if e \<ge> 0 then 10 ^ nat e else 1 / 10 ^ nat (- e))"

text \<open>The exponent part after the mantissa; \<open>None\<close> when it is malformed.\<close>

definition exponent_of :: "string \<Rightarrow> int option" where
  "exponent_of s =
     (if s = [] then Some 0
      else if hd s \<noteq> CHR ''e'' \<and> hd s \<noteq> CHR ''E'' then None
      else
        let r = tl s; neg = (r \<noteq> [] \<and> hd r = CHR ''-'');
            ds = (if r \<noteq> [] \<and> (hd r = CHR ''-'' \<or> hd r = CHR ''+'') then tl r else r)
        in if ds = [] \<or> \<not> list_all is_digit ds then None
           else Some (if neg then - \<lfloor>dec_value ds\<rfloor> else \<lfloor>dec_value ds\<rfloor>))"

definition unsigned_decimal :: "string \<Rightarrow> rat option" where
  "unsigned_decimal s =
     (let ip = takeWhile is_digit s; r1 = drop (length ip) s;
          fp = (if r1 \<noteq> [] \<and> hd r1 = CHR ''.'' then takeWhile is_digit (tl r1) else []);
          r2 = (if r1 \<noteq> [] \<and> hd r1 = CHR ''.'' then drop (length fp) (tl r1) else r1)
      in if ip = [] \<and> fp = [] then None
         else map_option (\<lambda>e. dec_value (ip @ fp) * pow10 (e - int (length fp))) (exponent_of r2))"

definition radix_number :: "string \<Rightarrow> rat option" where
  "radix_number s =
     (let ds = map hex_digit (drop 2 s);
          base = (case toLowerCase (take 2 s) of ''0x'' \<Rightarrow> 16 | ''0o'' \<Rightarrow> 8 | ''0b'' \<Rightarrow> 2 | _ \<Rightarrow> 0)
      in if base = 0 \<or> ds = [] \<or> \<not> list_all (\<lambda>d. \<exists>x \<in> set_option d. x < base) ds then None
         else Some (of_nat (digits_value base (map the ds))))"

text \<open>From here on a decimal literal rounds to infinity.\<close>

definition INFINITE_FROM :: rat where
  "INFINITE_FROM = 2 ^ 1024 - 2 ^ 970"

definition finite_or_inf :: "rat \<Rightarrow> js_num" where
  "finite_or_inf q = (if q \<ge> INFINITE_FROM then PosInf else if q \<le> - INFINITE_FROM then NegInf else Fin q)"

text \<open>\<open>Number(s)\<close>; \<open>None\<close> is \<open>NaN\<close>.\<close>

definition js_number :: "string \<Rightarrow> js_num option" where
  "js_number raw =
     (let s = js_trim raw in
      if s = [] then Some (Fin 0)
      else case radix_number s of
        Some q \<Rightarrow> Some (finite_or_inf q)
      | None \<Rightarrow>
          (let neg = (hd s = CHR ''-''); u = (if hd s = CHR ''-'' \<or> hd s = CHR ''+'' then tl s else s)
           in if u = ''Infinity'' then Some (if neg then NegInf else PosInf)
              else map_option (\<lambda>q. finite_or_inf (if neg then - q else q)) (unsigned_decimal u)))"

definition finite_number :: "string \<Rightarrow> rat option" where
  "finite_number s = (case js_number s of Some (Fin q) \<Rightarrow> Some q | _ \<Rightarrow> None)"

section \<open>Quota answers of a provider\<close>

definition provesSubscriptionExhaustion :: "headers \<Rightarrow> bool" where
  "provesSubscriptionExhaustion hs \<longleftrightarrow>
     header ''x-ais-subscription-exhausted'' hs = Some ''1'' \<or>
     list_ex (\<lambda>k. map_option (\<lambda>v. toLowerCase (js_trim v)) (header (''anthropic-ratelimit-unified-'' @ k) hs) = Some ''rejected'')
       [''status'', ''5h-status'', ''7d-status'']"

definition BURST_HOLD_DEFAULT_MS :: rat where
  "BURST_HOLD_DEFAULT_MS = 15000"

definition BURST_HOLD_MAX_MS :: rat where
  "BURST_HOLD_MAX_MS = 60000"

definition burstHoldUntil :: "clock \<Rightarrow> headers \<Rightarrow> rat \<Rightarrow> rat" where
  "burstHoldUntil ck hs nowMs =
     (let ms = (case header ''retry-after'' hs of
                  None \<Rightarrow> BURST_HOLD_DEFAULT_MS
                | Some retry \<Rightarrow>
                    if js_trim retry = [] then BURST_HOLD_DEFAULT_MS
                    else (case finite_number retry of
                            Some secs \<Rightarrow> if secs \<ge> 0 then secs * 1000
                              else (case ck_parse ck retry of Some t \<Rightarrow> max 0 (of_int t - nowMs) | None \<Rightarrow> BURST_HOLD_DEFAULT_MS)
                          | None \<Rightarrow> (case ck_parse ck retry of Some t \<Rightarrow> max 0 (of_int t - nowMs) | None \<Rightarrow> BURST_HOLD_DEFAULT_MS)))
      in nowMs + min ms BURST_HOLD_MAX_MS)"

definition EXHAUSTED_DEFAULT_MS :: rat where
  "EXHAUSTED_DEFAULT_MS = 300000"

definition EXHAUSTED_MAX_MS :: rat where
  "EXHAUSTED_MAX_MS = 604800000"

definition unified_candidate :: "clock \<Rightarrow> headers \<Rightarrow> rat list" where
  "unified_candidate ck hs =
     (let v = default '''' (header ''anthropic-ratelimit-unified-reset'' hs) in
      case finite_number v of
        Some u \<Rightarrow> if u > 0 then [if u < 10 ^ 11 then u * 1000 else u]
                  else map of_int (case ck_parse ck v of Some t \<Rightarrow> [t] | None \<Rightarrow> [])
      | None \<Rightarrow> map of_int (case ck_parse ck v of Some t \<Rightarrow> [t] | None \<Rightarrow> []))"

definition retry_candidate :: "clock \<Rightarrow> headers \<Rightarrow> rat \<Rightarrow> rat list" where
  "retry_candidate ck hs nowMs =
     (case header ''retry-after'' hs of
        None \<Rightarrow> []
      | Some retry \<Rightarrow>
          if js_trim retry \<noteq> [] \<and> (\<exists>secs \<in> set_option (finite_number retry). secs \<ge> 0)
          then [nowMs + default 0 (finite_number retry) * 1000]
          else map of_int (case ck_parse ck retry of Some t \<Rightarrow> [t] | None \<Rightarrow> []))"

definition exhaustedUntil :: "clock \<Rightarrow> headers \<Rightarrow> rat \<Rightarrow> rat" where
  "exhaustedUntil ck hs nowMs =
     (let valid = filter (\<lambda>t. t > nowMs \<and> t \<le> nowMs + EXHAUSTED_MAX_MS) (unified_candidate ck hs @ retry_candidate ck hs nowMs)
      in if valid \<noteq> [] then list_max valid else nowMs + EXHAUSTED_DEFAULT_MS)"

definition QUOTA_CODES :: "string list" where
  "QUOTA_CODES = [''insufficient_quota'', ''rate_limit_error'', ''rate_limit_exceeded'', ''usage_limit_reached'',
     ''quota_exceeded'', ''billing_hard_limit_reached'']"

text \<open>\<open>isQuotaBody\<close> of a body that parses; one that does not is none.\<close>

definition isQuotaBody :: "json option \<Rightarrow> bool" where
  "isQuotaBody parsed =
     (case parsed of
        None \<Rightarrow> False
      | Some doc \<Rightarrow>
          (let err = default JNull (js_get doc ''error'')
           in list_ex (\<lambda>v. case v of Some (JStr s) \<Rightarrow> toLowerCase s \<in> set QUOTA_CODES | _ \<Rightarrow> False)
                [js_get doc ''type'', js_get doc ''code'', js_get err ''type'', js_get err ''code'']))"

section \<open>The path of a request\<close>

fun split_2f :: "string \<Rightarrow> string list" where
  "split_2f (a # b # c # s) =
     (if toLowerCase [a, b, c] = ''%2f'' then [] # split_2f s
      else (case split_2f (b # c # s) of [] \<Rightarrow> [[a]] | w # ws \<Rightarrow> (a # w) # ws))"
| "split_2f s = [s]"

definition model_id :: "string \<Rightarrow> api_style \<Rightarrow> string option" where
  "model_id rest style =
     (let r = (if starts_with rest ''/v1/models/'' then drop 3 rest else rest); i = drop 8 r
      in if style = Openai \<and> starts_with r ''/models/'' \<and> i \<noteq> [] \<and> CHR ''/'' \<notin> set i then Some i else None)"

definition pathAllowed :: "string \<Rightarrow> api_style \<Rightarrow> bool" where
  "pathAllowed rest style =
     (case model_id rest style of
        Some i \<Rightarrow>
          \<not> (includes_at (toLowerCase i) ''%5c'' \<or> includes_at (toLowerCase i) ''%2e'') \<and>
          list_all (\<lambda>piece. piece \<noteq> '''' \<and> piece \<noteq> ''.'' \<and> piece \<noteq> ''..'') (split_2f i)
      | None \<Rightarrow> \<not> (includes_at (toLowerCase rest) ''%2f'' \<or> includes_at (toLowerCase rest) ''%5c'' \<or> includes_at (toLowerCase rest) ''%2e''))"

section \<open>The gateway's own limit answer\<close>

definition FALLBACK_RESET_SECONDS :: int where
  "FALLBACK_RESET_SECONDS = 300"

datatype limit_slot = Short | Long

record slot_window =
  sw_slot :: limit_slot
  sw_utilization :: rat
  sw_resetsAtSec :: "int option"

record recovery =
  rc_resetAtSec :: int
  rc_claim :: limit_slot
  rc_windows :: "slot_window list"

record limit_info = recovery +
  li_guessed :: bool

text \<open>\<open>~[1-5]h\<close> and \<open>~\d+d\<close> anywhere in the label.\<close>

fun tilde_hours :: "string \<Rightarrow> bool" where
  "tilde_hours (a # b # c # s) \<longleftrightarrow>
     a = CHR ''~'' \<and> CHR ''1'' \<le> b \<and> b \<le> CHR ''5'' \<and> c = CHR ''h'' \<or> tilde_hours (b # c # s)"
| "tilde_hours _ \<longleftrightarrow> False"

fun tilde_days :: "string \<Rightarrow> bool" where
  "tilde_days [] \<longleftrightarrow> False"
| "tilde_days (a # s) \<longleftrightarrow>
     a = CHR ''~'' \<and> takeWhile is_digit s \<noteq> [] \<and> take 1 (dropWhile is_digit s) = ''d'' \<or> tilde_days s"

definition slotOf :: "string \<Rightarrow> limit_slot option" where
  "slotOf label =
     (let l = toLowerCase label in
      if list_ex (includes_at l) [''five'', ''5h'', ''session'', ''hour''] \<or> tilde_hours l then Some Short
      else if list_ex (includes_at l) [''seven'', ''7d'', ''week'', ''day''] \<or> tilde_days l then Some Long
      else None)"

text \<open>\<open>/^\d+(\.\d+)?$/\<close>.\<close>

definition plain_decimal :: "string \<Rightarrow> bool" where
  "plain_decimal s =
     (let ip = takeWhile is_digit s; r = drop (length ip) s
      in ip \<noteq> [] \<and> (r = [] \<or> hd r = CHR ''.'' \<and> tl r \<noteq> [] \<and> list_all is_digit (tl r)))"

definition parseReset :: "clock \<Rightarrow> string option \<Rightarrow> int option" where
  "parseReset ck v =
     (if \<not> truthy v then None
      else
        let s = default '''' v in
        case (if plain_decimal (js_trim s) then finite_number s else None) of
          Some n \<Rightarrow> Some \<lfloor>(if n < 10 ^ 11 then n * 1000 else n) / 1000\<rfloor>
        | None \<Rightarrow> map_option (\<lambda>t. t div 1000) (ck_parse ck s))"

definition window_step :: "clock \<Rightarrow> slot_window list \<Rightarrow> usage_window \<Rightarrow> slot_window list" where
  "window_step ck out w =
     (let slot = (case slotOf (uw_label w) of Some s \<Rightarrow> s | None \<Rightarrow> if Short \<in> sw_slot ` set out then Long else Short)
      in if slot \<in> sw_slot ` set out then out
         else out @ [\<lparr> sw_slot = slot, sw_utilization = uw_utilization w, sw_resetsAtSec = parseReset ck (uw_resetsAt w) \<rparr>])"

definition windowsOf :: "clock \<Rightarrow> pool_usage option \<Rightarrow> slot_window list" where
  "windowsOf ck usage = foldl (window_step ck) [] (default [] (Option.bind usage pu_windows))"

definition busiest :: "slot_window \<Rightarrow> slot_window list \<Rightarrow> slot_window" where
  "busiest = foldl (\<lambda>a b. if sw_utilization b > sw_utilization a then b else a)"

definition latest :: "slot_window \<Rightarrow> slot_window list \<Rightarrow> slot_window" where
  "latest = foldl (\<lambda>a b. if the (sw_resetsAtSec b) > the (sw_resetsAtSec a) then b else a)"

definition blocking_windows :: "rat \<Rightarrow> slot_window list \<Rightarrow> slot_window list" where
  "blocking_windows reservePercent ws =
     (let over = filter (\<lambda>w. sw_utilization w \<ge> reservePercent) ws
      in if over = [] then [busiest (hd ws) (tl ws)] else over)"

definition memberRecovery :: "clock \<Rightarrow> pool_usage option \<Rightarrow> rat \<Rightarrow> recovery option" where
  "memberRecovery ck usage reservePercent =
     (let windows = windowsOf ck usage in
      if windows = [] then None
      else
        let timed = filter (\<lambda>w. sw_resetsAtSec w \<noteq> None) (blocking_windows reservePercent windows)
        in if timed = [] then None
           else (let l = latest (hd timed) (tl timed)
                 in Some \<lparr> rc_resetAtSec = the (sw_resetsAtSec l), rc_claim = sw_slot l, rc_windows = windows \<rparr>))"

definition now_sec :: "rat \<Rightarrow> int" where
  "now_sec nowMs = \<lfloor>nowMs / 1000\<rfloor>"

definition better_recovery :: "int \<Rightarrow> recovery option \<Rightarrow> recovery option \<Rightarrow> recovery option" where
  "better_recovery nowSec best r =
     (case r of
        None \<Rightarrow> best
      | Some rec \<Rightarrow>
          if rc_resetAtSec rec \<le> nowSec then best
          else (case best of
                  None \<Rightarrow> Some rec
                | Some b \<Rightarrow> if rc_resetAtSec rec < rc_resetAtSec b then Some rec else best))"

definition summariseLimit :: "clock \<Rightarrow> pool_usage option list \<Rightarrow> rat \<Rightarrow> rat \<Rightarrow> limit_info" where
  "summariseLimit ck usages reservePercent nowMs =
     (case foldl (better_recovery (now_sec nowMs)) None (map (\<lambda>u. memberRecovery ck u reservePercent) usages) of
        Some b \<Rightarrow> recovery.extend b \<lparr> li_guessed = False \<rparr>
      | None \<Rightarrow> \<lparr> rc_resetAtSec = now_sec nowMs + FALLBACK_RESET_SECONDS, rc_claim = Short, rc_windows = [], li_guessed = True \<rparr>)"

definition slotFor :: "limit_info \<Rightarrow> limit_slot \<Rightarrow> slot_window option" where
  "slotFor info slot = find (\<lambda>w. sw_slot w = slot) (rc_windows info)"

record gw_response =
  rs_status :: int
  rs_headers :: headers
  rs_body :: json

definition fraction :: "(rat \<Rightarrow> string) \<Rightarrow> rat \<Rightarrow> string" where
  "fraction num percent = num (js_round (min (max percent 0) 100) / 100)"

definition slot_abbrev :: "limit_slot \<Rightarrow> string" where
  "slot_abbrev slot = (case slot of Short \<Rightarrow> ''5h'' | Long \<Rightarrow> ''7d'')"

definition unified :: "string \<Rightarrow> string" where
  "unified k = ''anthropic-ratelimit-unified-'' @ k"

text \<open>The three headers of one window; none when the window is unknown and does not hold the member back.\<close>

definition window_headers :: "(rat \<Rightarrow> string) \<Rightarrow> limit_info \<Rightarrow> limit_slot \<Rightarrow> headers" where
  "window_headers num info slot =
     (let w = slotFor info slot; abbrev = slot_abbrev slot in
      if w = None \<and> slot \<noteq> rc_claim info then []
      else
        let blocked = (slot = rc_claim info \<or> (\<exists>x \<in> set_option w. sw_utilization x \<ge> 100))
        in [(unified (abbrev @ ''-status''), if blocked then ''rejected'' else ''allowed''),
            (unified (abbrev @ ''-reset''), num (of_int
               (if slot = rc_claim info then rc_resetAtSec info
                else default (rc_resetAtSec info) (Option.bind w sw_resetsAtSec)))),
            (unified (abbrev @ ''-utilization''), if blocked then ''1''
               else fraction num (case w of Some x \<Rightarrow> sw_utilization x | None \<Rightarrow> 0))])"

definition anthropicLimitResponse :: "(rat \<Rightarrow> string) \<Rightarrow> limit_info \<Rightarrow> rat \<Rightarrow> gw_response" where
  "anthropicLimitResponse num info nowMs =
     (let retryAfter = max 1 (rc_resetAtSec info - now_sec nowMs)
      in \<lparr> rs_status = 429,
           rs_headers =
             [(''content-type'', ''application/json''),
              (''retry-after'', num (of_int retryAfter)),
              (unified ''status'', ''rejected''),
              (unified ''reset'', num (of_int (rc_resetAtSec info))),
              (unified ''representative-claim'', if rc_claim info = Short then ''five_hour'' else ''seven_day''),
              (unified ''overage-status'', ''rejected''),
              (unified ''overage-disabled-reason'', ''org_level_disabled'')]
             @ window_headers num info Short @ window_headers num info Long,
           rs_body = JObj [(''type'', JStr ''error''), (''error'', JObj [(''type'', JStr ''rate_limit_error''),
             (''message'', JStr ''This request would exceed your account's rate limit. Please try again later.'')])] \<rparr>)"

definition codex_window :: "(rat \<Rightarrow> string) \<Rightarrow> limit_info \<Rightarrow> string \<Rightarrow> string \<Rightarrow> limit_slot \<Rightarrow> headers" where
  "codex_window num info name minutes slot =
     (let w = (if rc_claim info = slot
               then Some \<lparr> sw_slot = slot, sw_utilization = 100, sw_resetsAtSec = Some (rc_resetAtSec info) \<rparr>
               else slotFor info slot)
      in case w of
           None \<Rightarrow> []
         | Some x \<Rightarrow>
             [(name @ ''-used-percent'', num (min 100 (js_round (sw_utilization x)))),
              (name @ ''-window-minutes'', minutes),
              (name @ ''-reset-at'', num (of_int (default (rc_resetAtSec info) (sw_resetsAtSec x))))])"

definition codexLimitResponse :: "(rat \<Rightarrow> string) \<Rightarrow> limit_info \<Rightarrow> rat \<Rightarrow> gw_response" where
  "codexLimitResponse num info nowMs =
     \<lparr> rs_status = 429,
       rs_headers = [(''content-type'', ''application/json'')]
         @ codex_window num info ''x-codex-primary'' ''300'' Short
         @ codex_window num info ''x-codex-secondary'' ''10080'' Long,
       rs_body = JObj [(''error'', JObj [(''type'', JStr ''usage_limit_reached''),
         (''message'', JStr ''The usage limit has been reached''),
         (''resets_at'', JNum (Fin (of_int (rc_resetAtSec info)))),
         (''resets_in_seconds'', JNum (Fin (of_int (max 1 (rc_resetAtSec info - now_sec nowMs)))))])] \<rparr>"

definition nativeLimitResponse :: "clock \<Rightarrow> (rat \<Rightarrow> string) \<Rightarrow> gateway_provider \<Rightarrow> pool_usage option list \<Rightarrow> rat \<Rightarrow> rat \<Rightarrow>
    gw_response option" where
  "nativeLimitResponse ck num provider usages reservePercent nowMs =
     (let info = summariseLimit ck usages reservePercent nowMs in
      if provider = G_Claude then Some (anthropicLimitResponse num info nowMs)
      else if provider = G_Codex then Some (codexLimitResponse num info nowMs)
      else None)"

section \<open>Holds are bounded\<close>

text \<open>However the headers of a quota answer read, the member is held for a bounded time: after a burst
  for at most a minute, after proven exhaustion beyond the present and at most a week.\<close>

theorem holds_bounded:
  "nowMs \<le> burstHoldUntil ck hs nowMs \<and> burstHoldUntil ck hs nowMs \<le> nowMs + BURST_HOLD_MAX_MS \<and>
   nowMs < exhaustedUntil ck hs nowMs \<and> exhaustedUntil ck hs nowMs \<le> nowMs + EXHAUSTED_MAX_MS"
proof (intro conjI)
  show "nowMs \<le> burstHoldUntil ck hs nowMs"
    by (auto simp: burstHoldUntil_def Let_def BURST_HOLD_DEFAULT_MS_def BURST_HOLD_MAX_MS_def split: option.splits)
  show "burstHoldUntil ck hs nowMs \<le> nowMs + BURST_HOLD_MAX_MS" by (simp add: burstHoldUntil_def)
  define valid where "valid = filter (\<lambda>t. t > nowMs \<and> t \<le> nowMs + EXHAUSTED_MAX_MS)
    (unified_candidate ck hs @ retry_candidate ck hs nowMs)"
  have "exhaustedUntil ck hs nowMs = (if valid \<noteq> [] then list_max valid else nowMs + EXHAUSTED_DEFAULT_MS)"
    by (simp add: exhaustedUntil_def valid_def)
  moreover have "valid \<noteq> [] \<Longrightarrow> list_max valid \<in> set valid" by (rule list_max_in)
  moreover have "t \<in> set valid \<Longrightarrow> nowMs < t \<and> t \<le> nowMs + EXHAUSTED_MAX_MS" for t by (auto simp: valid_def)
  ultimately show "nowMs < exhaustedUntil ck hs nowMs" "exhaustedUntil ck hs nowMs \<le> nowMs + EXHAUSTED_MAX_MS"
    by (auto simp: EXHAUSTED_DEFAULT_MS_def EXHAUSTED_MAX_MS_def split: if_splits)
qed

section \<open>The reset that is promised\<close>

lemma latest_ge: "latest a ws \<in> insert a (set ws) \<and> (\<forall>w \<in> insert a (set ws). the (sw_resetsAtSec w) \<le> the (sw_resetsAtSec (latest a ws)))"
proof (induction ws arbitrary: a)
  case (Cons b ws)
  show ?case
    using Cons.IH[of "if the (sw_resetsAtSec b) > the (sw_resetsAtSec a) then b else a"]
    by (auto simp: latest_def split: if_splits)
qed (simp add: latest_def)

lemma memberRecovery_Some:
  assumes "memberRecovery ck u p = Some rec"
  shows "rc_windows rec = windowsOf ck u \<and>
    (\<exists>w \<in> set (windowsOf ck u). sw_resetsAtSec w = Some (rc_resetAtSec rec) \<and> sw_slot w = rc_claim rec) \<and>
    (\<forall>w \<in> set (windowsOf ck u). sw_utilization w \<ge> p \<longrightarrow> (\<forall>t. sw_resetsAtSec w = Some t \<longrightarrow> t \<le> rc_resetAtSec rec))"
proof -
  let ?ws = "windowsOf ck u"
  define timed where "timed = filter (\<lambda>w. sw_resetsAtSec w \<noteq> None) (blocking_windows p ?ws)"
  define l where "l = latest (hd timed) (tl timed)"
  have ne: "?ws \<noteq> []" "timed \<noteq> []" and rec: "rec = \<lparr> rc_resetAtSec = the (sw_resetsAtSec l), rc_claim = sw_slot l, rc_windows = ?ws \<rparr>"
    using assms by (auto simp: memberRecovery_def Let_def timed_def l_def split: if_splits)
  from ne(2) have set: "insert (hd timed) (set (tl timed)) = set timed" by (cases timed) auto
  have l: "l \<in> set timed" "\<forall>w \<in> set timed. the (sw_resetsAtSec w) \<le> the (sw_resetsAtSec l)"
    using latest_ge[of "hd timed" "tl timed"] unfolding set l_def by auto
  have "busiest a xs \<in> insert a (set xs)" for a xs
    by (induction xs arbitrary: a) (auto simp: busiest_def split: if_splits)
  then have "busiest (hd ?ws) (tl ?ws) \<in> set ?ws" using ne(1) by (cases ?ws) auto
  then have sub: "set (blocking_windows p ?ws) \<subseteq> set ?ws"
    by (auto simp: blocking_windows_def Let_def)
  have over: "w \<in> set (blocking_windows p ?ws)" if "w \<in> set ?ws" "sw_utilization w \<ge> p" for w
    using that by (auto simp: blocking_windows_def Let_def filter_empty_conv)
  have "l \<in> set ?ws" "sw_resetsAtSec l = Some (the (sw_resetsAtSec l))"
    using l(1) sub by (auto simp: timed_def)
  moreover have "t \<le> the (sw_resetsAtSec l)" if "w \<in> set ?ws" "sw_utilization w \<ge> p" "sw_resetsAtSec w = Some t" for w t
    using l(2) over[OF that(1,2)] that(3) by (fastforce simp: timed_def)
  ultimately show ?thesis by (auto simp: rec)
qed

lemma better_step:
  assumes "\<forall>x \<in> set_option b. nowSec < rc_resetAtSec x"
  shows "(better_recovery nowSec b y = b \<or> better_recovery nowSec b y = y) \<and>
    (\<forall>x \<in> set_option (better_recovery nowSec b y). nowSec < rc_resetAtSec x) \<and>
    (\<forall>x. b = Some x \<or> y = Some x \<longrightarrow> nowSec < rc_resetAtSec x \<longrightarrow>
       (\<exists>z. better_recovery nowSec b y = Some z \<and> rc_resetAtSec z \<le> rc_resetAtSec x))"
  using assms by (cases y; cases b) (auto simp: better_recovery_def)

lemma better_loop:
  assumes "foldl (better_recovery nowSec) b rs = Some r"
    and "\<forall>x \<in> set_option b. nowSec < rc_resetAtSec x"
  shows "(b = Some r \<or> Some r \<in> set rs) \<and> nowSec < rc_resetAtSec r \<and>
    (\<forall>x. b = Some x \<or> Some x \<in> set rs \<longrightarrow> nowSec < rc_resetAtSec x \<longrightarrow> rc_resetAtSec r \<le> rc_resetAtSec x)"
  using assms
proof (induction rs arbitrary: b)
  case (Cons y rs)
  let ?b = "better_recovery nowSec b y"
  note step = better_step[OF Cons.prems(2), of y]
  have run: "foldl (better_recovery nowSec) ?b rs = Some r" using Cons.prems(1) by simp
  have IH: "(?b = Some r \<or> Some r \<in> set rs) \<and> nowSec < rc_resetAtSec r \<and>
    (\<forall>x. ?b = Some x \<or> Some x \<in> set rs \<longrightarrow> nowSec < rc_resetAtSec x \<longrightarrow> rc_resetAtSec r \<le> rc_resetAtSec x)"
    by (rule Cons.IH[OF run]) (use step in blast)
  have least: "rc_resetAtSec r \<le> rc_resetAtSec x" if "b = Some x \<or> Some x \<in> set (y # rs)" "nowSec < rc_resetAtSec x" for x
  proof (cases "Some x \<in> set rs")
    case False
    with that have "b = Some x \<or> y = Some x" by auto
    with step that(2) obtain z where "?b = Some z" "rc_resetAtSec z \<le> rc_resetAtSec x" by blast
    moreover from this step have "nowSec < rc_resetAtSec z" by simp
    ultimately show ?thesis using IH by force
  qed (use IH that in blast)
  have "b = Some r \<or> Some r \<in> set (y # rs)" using IH step by (metis list.set_intros)
  with IH least show ?case by blast
qed auto

lemma summarise_cases:
  fixes ck usages p nowMs
  defines "info \<equiv> summariseLimit ck usages p nowMs"
  shows "now_sec nowMs < rc_resetAtSec info \<and>
    (\<not> li_guessed info \<longrightarrow>
      (\<exists>u \<in> set usages. \<exists>rec. memberRecovery ck u p = Some rec \<and> rc_resetAtSec rec = rc_resetAtSec info \<and>
         rc_claim rec = rc_claim info \<and> rc_windows rec = rc_windows info) \<and>
      (\<forall>u \<in> set usages. \<forall>rec. memberRecovery ck u p = Some rec \<longrightarrow> now_sec nowMs < rc_resetAtSec rec \<longrightarrow>
         rc_resetAtSec info \<le> rc_resetAtSec rec))"
proof (cases "foldl (better_recovery (now_sec nowMs)) None (map (\<lambda>u. memberRecovery ck u p) usages)")
  case None
  then show ?thesis by (simp add: info_def summariseLimit_def FALLBACK_RESET_SECONDS_def)
next
  case (Some b)
  then have info: "info = recovery.extend b \<lparr> li_guessed = False \<rparr>" by (simp add: info_def summariseLimit_def)
  from better_loop[OF Some] have "Some b \<in> set (map (\<lambda>u. memberRecovery ck u p) usages)" "now_sec nowMs < rc_resetAtSec b"
    "\<forall>x. Some x \<in> set (map (\<lambda>u. memberRecovery ck u p) usages) \<longrightarrow> now_sec nowMs < rc_resetAtSec x \<longrightarrow> rc_resetAtSec b \<le> rc_resetAtSec x"
    by auto
  then show ?thesis by (auto simp: info recovery.defs) (metis imageI)+
qed


definition example_limit_usages :: "pool_usage option list" where
  "example_limit_usages =
     [Some ((usage_at 100)\<lparr> pu_windows := Some [\<lparr> uw_label = ''5h'', uw_utilization = 100, uw_resetsAt = Some ''9000'' \<rparr>,
         \<lparr> uw_label = ''7d'', uw_utilization = 20, uw_resetsAt = Some ''90000'' \<rparr>] \<rparr>),
      None,
      Some ((usage_at 100)\<lparr> pu_windows := Some [\<lparr> uw_label = ''week'', uw_utilization = 97, uw_resetsAt = Some ''7000'' \<rparr>] \<rparr>)]"

definition example_num :: "rat \<Rightarrow> string" where
  "example_num q = (if q = 7000 then ''7000'' else if q = 6000 then ''6000'' else ''n'')"

lemmas number_simps = js_trim_def is_space_def is_digit_def finite_number_def js_number_def radix_number_def toLowerCase_def
  lower_char_def hex_digit_def unsigned_decimal_def exponent_of_def dec_value_def digits_value_def pow10_def
  finite_or_inf_def INFINITE_FROM_def Let_def

lemma example_resets:
  "parseReset counting_clock (Some ''9000'') = Some 9000" "parseReset counting_clock (Some ''90000'') = Some 90000"
  "parseReset counting_clock (Some ''7000'') = Some 7000"
  by (simp_all add: parseReset_def truthy_def plain_decimal_def number_simps)

lemma example_slots: "slotOf ''5h'' = Some Short" "slotOf ''7d'' = Some Long" "slotOf ''week'' = Some Long"
  by code_simp+

lemma example_windows:
  "map (windowsOf counting_clock) example_limit_usages =
     [[\<lparr> sw_slot = Short, sw_utilization = 100, sw_resetsAtSec = Some 9000 \<rparr>,
       \<lparr> sw_slot = Long, sw_utilization = 20, sw_resetsAtSec = Some 90000 \<rparr>], [],
      [\<lparr> sw_slot = Long, sw_utilization = 97, sw_resetsAtSec = Some 7000 \<rparr>]]"
  by (simp add: example_limit_usages_def windowsOf_def window_step_def example_slots example_resets)

lemma example_info:
  "summariseLimit counting_clock example_limit_usages 80 1000000 =
     \<lparr> rc_resetAtSec = 7000, rc_claim = Long,
       rc_windows = [\<lparr> sw_slot = Long, sw_utilization = 97, sw_resetsAtSec = Some 7000 \<rparr>], li_guessed = False \<rparr>"
proof -
  have "map (\<lambda>u. memberRecovery counting_clock u 80) example_limit_usages =
     [Some \<lparr> rc_resetAtSec = 9000, rc_claim = Short,
        rc_windows = [\<lparr> sw_slot = Short, sw_utilization = 100, sw_resetsAtSec = Some 9000 \<rparr>,
          \<lparr> sw_slot = Long, sw_utilization = 20, sw_resetsAtSec = Some 90000 \<rparr>] \<rparr>, None,
      Some \<lparr> rc_resetAtSec = 7000, rc_claim = Long,
        rc_windows = [\<lparr> sw_slot = Long, sw_utilization = 97, sw_resetsAtSec = Some 7000 \<rparr>] \<rparr>]"
    using example_windows unfolding example_limit_usages_def
    by (simp add: memberRecovery_def Let_def blocking_windows_def latest_def)
  then show ?thesis by (simp add: summariseLimit_def better_recovery_def now_sec_def recovery.defs)
qed


end
