(* ===== verification/Gateway_Provider.thy ===== *)
theory Gateway_Provider
  imports Gateway_Limit
begin

text \<open>
  The provider adapters (\<open>src/gateway/providers\<close>) and the headers of the upstream call
  (\<open>stripHopByHop\<close> and \<open>upstreamHeaders\<close> of \<open>src/gateway/app.ts\<close>). A \<open>Headers\<close> object is an
  association list whose names are in lower case and distinct; deleting a name that is no header name
  throws, which is \<open>None\<close>.
\<close>

record provider_cred =
  pc_identity :: string
  pc_accessToken :: string
  pc_accountId :: "string option"
  pc_expiresAtMs :: "rat option"

definition BASE_STRIP_HEADERS :: "string list" where
  "BASE_STRIP_HEADERS = [''authorization'', ''x-api-key'', ''api-key'', ''cookie'', ''proxy-authorization'']"

definition bearer :: "string \<Rightarrow> string" where
  "bearer token = ''Bearer '' @ token"

text \<open>A JavaScript \<open>Set\<close> in insertion order.\<close>

definition set_add :: "'a \<Rightarrow> 'a list \<Rightarrow> 'a list" where
  "set_add x xs = (if x \<in> set xs then xs else xs @ [x])"

record provider_adapter =
  ad_upstreamBase :: "api_style \<Rightarrow> string option"
  ad_authHeaders :: "provider_cred \<Rightarrow> headers \<Rightarrow> headers"
  ad_stripRequestHeaders :: "string list"
  ad_refreshable :: bool
  ad_usageStyle :: "api_style \<Rightarrow> usage_style"

definition claude_betas :: "headers \<Rightarrow> string list" where
  "claude_betas incoming =
     set_add ''oauth-2025-04-20''
       (foldl (\<lambda>betas beta. if js_trim beta = '''' then betas else set_add (js_trim beta) betas) []
          (split_on CHR '','' (default '''' (header ''anthropic-beta'' incoming))))"

definition claudeAdapter :: provider_adapter where
  "claudeAdapter = \<lparr>
     ad_upstreamBase = (\<lambda>_. Some ''https://api.anthropic.com''),
     ad_authHeaders = (\<lambda>cred incoming.
       [(''authorization'', bearer (pc_accessToken cred)), (''anthropic-beta'', join_with '','' (claude_betas incoming))]),
     ad_stripRequestHeaders = BASE_STRIP_HEADERS, ad_refreshable = True, ad_usageStyle = (\<lambda>_. Anthropic_Style) \<rparr>"

definition codexAdapter :: provider_adapter where
  "codexAdapter = \<lparr>
     ad_upstreamBase = (\<lambda>_. Some ''https://chatgpt.com/backend-api/codex''),
     ad_authHeaders = (\<lambda>cred incoming.
       (''authorization'', bearer (pc_accessToken cred)) #
       (if truthy (pc_accountId cred) then [(''chatgpt-account-id'', default '''' (pc_accountId cred))] else [])),
     ad_stripRequestHeaders = BASE_STRIP_HEADERS @ [''chatgpt-account-id''], ad_refreshable = True,
     ad_usageStyle = (\<lambda>_. Responses_Style) \<rparr>"

definition kimi_gateway_adapter :: provider_adapter where
  "kimi_gateway_adapter = \<lparr>
     ad_upstreamBase = (\<lambda>style. Some (if style = Anthropic then ''https://api.kimi.com/coding'' else ''https://api.kimi.com/coding/v1'')),
     ad_authHeaders = (\<lambda>cred incoming. [(''authorization'', bearer (pc_accessToken cred))]),
     ad_stripRequestHeaders = BASE_STRIP_HEADERS, ad_refreshable = True,
     ad_usageStyle = (\<lambda>style. if style = Anthropic then Anthropic_Style else Chat_Style) \<rparr>"

definition grokAdapter :: provider_adapter where
  "grokAdapter = \<lparr>
     ad_upstreamBase = (\<lambda>_. Some ''https://cli-chat-proxy.grok.com/v1''),
     ad_authHeaders = (\<lambda>cred incoming. [(''authorization'', bearer (pc_accessToken cred))]),
     ad_stripRequestHeaders = BASE_STRIP_HEADERS, ad_refreshable = True, ad_usageStyle = (\<lambda>_. Chat_Style) \<rparr>"

definition zaiAdapter :: provider_adapter where
  "zaiAdapter = \<lparr>
     ad_upstreamBase = (\<lambda>style. Some (if style = Anthropic then ''https://api.z.ai/api/anthropic''
       else ''https://api.z.ai/api/coding/paas/v4'')),
     ad_authHeaders = (\<lambda>cred incoming. [(''authorization'', bearer (pc_accessToken cred))]),
     ad_stripRequestHeaders = BASE_STRIP_HEADERS, ad_refreshable = False,
     ad_usageStyle = (\<lambda>style. if style = Anthropic then Anthropic_Style else Chat_Style) \<rparr>"

definition aliAdapter :: provider_adapter where
  "aliAdapter = \<lparr>
     ad_upstreamBase = (\<lambda>style. if style \<noteq> Anthropic then None
       else Some ''https://token-plan.ap-southeast-1.maas.aliyuncs.com/apps/anthropic''),
     ad_authHeaders = (\<lambda>cred incoming. [(''x-api-key'', pc_accessToken cred)]),
     ad_stripRequestHeaders = BASE_STRIP_HEADERS, ad_refreshable = False, ad_usageStyle = (\<lambda>_. Anthropic_Style) \<rparr>"

definition opencodeAdapter :: provider_adapter where
  "opencodeAdapter = \<lparr>
     ad_upstreamBase = (\<lambda>style. if style \<noteq> Openai then None else Some ''https://opencode.ai/zen/go/v1''),
     ad_authHeaders = (\<lambda>cred incoming. [(''authorization'', bearer (pc_accessToken cred))]),
     ad_stripRequestHeaders = BASE_STRIP_HEADERS, ad_refreshable = False, ad_usageStyle = (\<lambda>_. Chat_Style) \<rparr>"

fun adapterFor :: "gateway_provider \<Rightarrow> provider_adapter" where
  "adapterFor G_Claude = claudeAdapter"
| "adapterFor G_Codex = codexAdapter"
| "adapterFor G_Kimi = kimi_gateway_adapter"
| "adapterFor G_Grok = grokAdapter"
| "adapterFor G_Zai = zaiAdapter"
| "adapterFor G_Ali = aliAdapter"
| "adapterFor G_Opencode = opencodeAdapter"

lemmas adapter_defs = claudeAdapter_def codexAdapter_def kimi_gateway_adapter_def grokAdapter_def zaiAdapter_def
  aliAdapter_def opencodeAdapter_def

text \<open>The parts of the adapter of a provider that shape the headers.\<close>

abbreviation authHeaders :: "gateway_provider \<Rightarrow> provider_cred \<Rightarrow> headers \<Rightarrow> headers" where
  "authHeaders p \<equiv> ad_authHeaders (adapterFor p)"

abbreviation stripRequestHeaders :: "gateway_provider \<Rightarrow> string list" where
  "stripRequestHeaders p \<equiv> ad_stripRequestHeaders (adapterFor p)"

lemma stripRequestHeaders_eq:
  "stripRequestHeaders p = BASE_STRIP_HEADERS @ (if p = G_Codex then [''chatgpt-account-id''] else [])"
  by (cases p) (simp_all add: adapter_defs)

section \<open>The headers of the upstream call\<close>

definition HOP_BY_HOP :: "string list" where
  "HOP_BY_HOP = [''connection'', ''proxy-connection'', ''keep-alive'', ''proxy-authenticate'', ''proxy-authorization'', ''te'',
     ''trailer'', ''trailers'', ''transfer-encoding'', ''upgrade'']"

definition header_char :: "char \<Rightarrow> bool" where
  "header_char c \<longleftrightarrow>
     (let n = of_char c :: nat in
      n \<in> {97..122} \<or> n \<in> {65..90} \<or> n \<in> {48..57} \<or> n = 39) \<or> c \<in> set ''!#$%&*+-.^_`|~''"

definition header_delete :: "string \<Rightarrow> headers \<Rightarrow> headers" where
  "header_delete n hs = filter (\<lambda>(k, _). k \<noteq> n) hs"

definition header_set :: "string \<Rightarrow> string \<Rightarrow> headers \<Rightarrow> headers" where
  "header_set n v hs = AList.update n v hs"

definition connection_names :: "headers \<Rightarrow> string list" where
  "connection_names hs =
     filter (\<lambda>n. n \<noteq> '''') (map (\<lambda>n. toLowerCase (js_trim n)) (split_on CHR '','' (default '''' (header ''connection'' hs))))"

definition stripHopByHop :: "headers \<Rightarrow> headers option" where
  "stripHopByHop hs =
     (if list_all (list_all header_char) (connection_names hs)
      then Some (foldl (\<lambda>acc n. header_delete n acc) hs (connection_names hs @ HOP_BY_HOP))
      else None)"

definition upstreamHeaders :: "gateway_provider \<Rightarrow> provider_cred \<Rightarrow> headers \<Rightarrow> headers option" where
  "upstreamHeaders p cred incoming =
     map_option (\<lambda>hs.
       foldl (\<lambda>acc (k, v). header_set k v acc)
         (header_set ''accept-encoding'' ''identity''
            (foldl (\<lambda>acc n. header_delete n acc) hs (stripRequestHeaders p @ [''host'', ''content-length'', ''accept-encoding''])))
         (authHeaders p cred incoming))
       (stripHopByHop incoming)"

lemma header_delete_fold: "header k (foldl (\<lambda>acc n. header_delete n acc) hs ns) = (if k \<in> set ns then None else header k hs)"
proof (induction ns arbitrary: hs)
  case (Cons n ns)
  have "header k (header_delete n hs) = (if k = n then None else header k hs)" for hs
    by (induction hs) (auto simp: header_delete_def header_def)
  with Cons.IH[of "header_delete n hs"] show ?case by auto
qed simp

lemma header_set_fold:
  "distinct (map fst kvs) \<Longrightarrow>
     header k (foldl (\<lambda>acc (k, v). header_set k v acc) hs kvs) = (case map_of kvs k of Some v \<Rightarrow> Some v | None \<Rightarrow> header k hs)"
proof (induction kvs arbitrary: hs)
  case (Cons kv kvs)
  have "header k (header_set (fst kv) (snd kv) hs) = (if k = fst kv then Some (snd kv) else header k hs)"
    by (simp add: header_set_def header_def update_conv')
  moreover have "k = fst kv \<Longrightarrow> map_of kvs k = None" using Cons.prems by (auto simp: map_of_eq_None_iff)
  ultimately show ?case using Cons by (cases kv) (auto split: option.splits)
qed simp

lemma authHeaders_distinct: "distinct (map fst (authHeaders p cred incoming))"
  by (cases p) (auto simp: adapter_defs)

lemma authHeaders_names: "k \<in> fst ` set (authHeaders p cred incoming) \<Longrightarrow>
   k \<in> {''authorization'', ''x-api-key'', ''anthropic-beta'', ''chatgpt-account-id''}"
  by (cases p) (auto simp: adapter_defs split: if_splits)

text \<open>Property C32.
  The client's credentials never go upstream. Of the headers that can carry the gateway's token or a
  credential, a hop-by-hop header or a header the \<open>Connection\<close> header names, the upstream call carries
  exactly what the provider's adapter sets; in particular its \<open>authorization\<close> and \<open>x-api-key\<close> are those
  of the chosen identity or absent. Every other header goes through unchanged.\<close>

theorem client_credentials_stay:
  assumes "upstreamHeaders p cred incoming = Some out"
  shows "header k out =
     (case map_of (authHeaders p cred incoming) k of
        Some v \<Rightarrow> Some v
      | None \<Rightarrow>
          if k = ''accept-encoding'' then Some ''identity''
          else if k \<in> set (BASE_STRIP_HEADERS @ HOP_BY_HOP @ [''host'', ''content-length''] @ connection_names incoming) \<or>
                  (p = G_Codex \<and> k = ''chatgpt-account-id'')
          then None else header k incoming) \<and>
    header ''authorization'' out = (if p = G_Ali then None else Some (bearer (pc_accessToken cred))) \<and>
    header ''x-api-key'' out = (if p = G_Ali then Some (pc_accessToken cred) else None) \<and>
    header ''api-key'' out = None \<and> header ''cookie'' out = None \<and> header ''proxy-authorization'' out = None"
proof -
  define base where "base = foldl (\<lambda>acc n. header_delete n acc) incoming
    (connection_names incoming @ HOP_BY_HOP @ stripRequestHeaders p @ [''host'', ''content-length'', ''accept-encoding''])"
  from assms have out: "out = foldl (\<lambda>acc (k, v). header_set k v acc) (header_set ''accept-encoding'' ''identity'' base)
      (authHeaders p cred incoming)"
    by (auto simp: upstreamHeaders_def stripHopByHop_def base_def split: if_splits)
  have base: "header k base = (if k \<in> set (connection_names incoming @ HOP_BY_HOP @ stripRequestHeaders p @
      [''host'', ''content-length'', ''accept-encoding'']) then None else header k incoming)" for k
    unfolding base_def by (rule header_delete_fold)
  have "header k out = (case map_of (authHeaders p cred incoming) k of
        Some v \<Rightarrow> Some v
      | None \<Rightarrow>
          if k = ''accept-encoding'' then Some ''identity''
          else if k \<in> set (BASE_STRIP_HEADERS @ HOP_BY_HOP @ [''host'', ''content-length''] @ connection_names incoming) \<or>
                  (p = G_Codex \<and> k = ''chatgpt-account-id'')
          then None else header k incoming)" for k
  proof -
    have "header k (header_set ''accept-encoding'' ''identity'' base) = (if k = ''accept-encoding'' then Some ''identity'' else header k base)"
      by (simp add: header_set_def header_def update_conv')
    moreover have "k \<in> set (connection_names incoming @ HOP_BY_HOP @ stripRequestHeaders p @ [''host'', ''content-length'', ''accept-encoding'']) \<longleftrightarrow>
        k = ''accept-encoding'' \<or> k \<in> set (BASE_STRIP_HEADERS @ HOP_BY_HOP @ [''host'', ''content-length''] @ connection_names incoming) \<or>
        (p = G_Codex \<and> k = ''chatgpt-account-id'')"
      unfolding stripRequestHeaders_eq set_append list.set by (cases "p = G_Codex") (simp_all only: simp_thms if_True if_False list.set Un_iff insert_iff empty_iff, blast+)
    ultimately show ?thesis unfolding out header_set_fold[OF authHeaders_distinct] base
      by (cases "map_of (authHeaders p cred incoming) k"; cases "k = ''accept-encoding''") (simp_all only: option.case if_True if_False simp_thms)
  qed
  note out = this
  have stripped: "header k out = map_of (authHeaders p cred incoming) k" if "k \<in> set BASE_STRIP_HEADERS" for k
  proof -
    from that have "k \<noteq> ''accept-encoding''" by (auto simp: BASE_STRIP_HEADERS_def)
    with that show ?thesis unfolding out by (auto split: option.splits)
  qed
  have names: "k \<in> set BASE_STRIP_HEADERS"
    if "k \<in> {''authorization'', ''x-api-key'', ''api-key'', ''cookie'', ''proxy-authorization''}" for k
    using that by (auto simp: BASE_STRIP_HEADERS_def)
  have "map_of (authHeaders p cred incoming) ''authorization'' = (if p = G_Ali then None else Some (bearer (pc_accessToken cred)))"
    "map_of (authHeaders p cred incoming) ''x-api-key'' = (if p = G_Ali then Some (pc_accessToken cred) else None)"
    by (cases p; simp add: adapter_defs)+
  moreover have "map_of (authHeaders p cred incoming) ''api-key'' = None" "map_of (authHeaders p cred incoming) ''cookie'' = None"
    "map_of (authHeaders p cred incoming) ''proxy-authorization'' = None"
    by (cases p; simp add: adapter_defs)+
  ultimately show ?thesis
    by (intro conjI out) (simp_all only: stripped[OF names] insert_iff simp_thms)
qed

definition example_cred :: provider_cred where
  "example_cred = \<lparr> pc_identity = ''a'', pc_accessToken = ''secret'', pc_accountId = None, pc_expiresAtMs = None \<rparr>"

definition example_headers :: headers where
  "example_headers = [(''authorization'', ''Bearer aisg_x''), (''connection'', ''close, X-Trace''), (''x-trace'', ''1''),
     (''x-api-key'', ''aisg_y''), (''anthropic-version'', ''2023-06-01'')]"

theorem client_credentials_stay_witness:
  "let out = the (upstreamHeaders G_Zai example_cred example_headers)
   in header ''authorization'' out = Some ''Bearer secret'' \<and> header ''x-api-key'' out = None \<and> header ''x-trace'' out = None \<and>
      header ''anthropic-version'' out = Some ''2023-06-01''"
proof -
  have run: "upstreamHeaders G_Zai example_cred example_headers = Some (the (upstreamHeaders G_Zai example_cred example_headers))"
    by code_simp
  have names: "connection_names example_headers = [''close'', ''x-trace'']" by code_simp
  note clean = client_credentials_stay[OF run]
  have "header ''x-trace'' (the (upstreamHeaders G_Zai example_cred example_headers)) = None"
    by (subst clean[THEN conjunct1]) (simp add: names adapter_defs)
  moreover have "header ''anthropic-version'' (the (upstreamHeaders G_Zai example_cred example_headers)) = Some ''2023-06-01''"
    by (subst clean[THEN conjunct1])
      (simp add: names adapter_defs BASE_STRIP_HEADERS_def HOP_BY_HOP_def, simp add: header_def example_headers_def)
  moreover have "header ''authorization'' (the (upstreamHeaders G_Zai example_cred example_headers)) = Some ''Bearer secret''"
    using clean[THEN conjunct2, THEN conjunct1] by (simp add: bearer_def example_cred_def)
  moreover have "header ''x-api-key'' (the (upstreamHeaders G_Zai example_cred example_headers)) = None"
    using clean[THEN conjunct2, THEN conjunct2, THEN conjunct1] by simp
  ultimately show ?thesis unfolding Let_def by blast
qed

end
