(* ===== verification/Model_Scan.thy ===== *)
theory Model_Scan
  imports Usage_Tap
begin

text \<open>
  The model a request names: \<open>scanModel\<close> and \<open>requestModel\<close> of \<open>src/gateway/app.ts\<close>. The scanner walks
  the bytes of the body with an index; here the index is the rest of the bytes. The list of models an
  app may use is checked against its answer, so it is compared with \<open>JSON.parse\<close> of the whole body:
  \<open>js\<close> is \<open>JSON.parse(new TextDecoder().decode(bytes))\<close>, \<open>None\<close> when it throws.
\<close>

section \<open>The scanner\<close>

text \<open>\<open>str\<close>: the raw content of a string and what follows its closing quote.\<close>

fun scan_str :: "bytes \<Rightarrow> (bytes \<times> bytes) option" where
  "scan_str [] = None"
| "scan_str (c # cs) =
     (if c = 92 then
        (case cs of
           [] \<Rightarrow> None
         | d # r \<Rightarrow> map_option (\<lambda>(s, rest). (c # d # s, rest)) (scan_str r))
      else if c = 34 then Some ([], cs)
      else map_option (\<lambda>(s, rest). (c # s, rest)) (scan_str cs))"

lemma scan_str_length: "scan_str b = Some (s, rest) \<Longrightarrow> length rest < length b"
  by (induction b arbitrary: s rest rule: scan_str.induct) (fastforce split: if_splits list.splits)+

text \<open>The bracket loop of \<open>value\<close>.\<close>

function skip_brackets :: "nat list \<Rightarrow> bytes \<Rightarrow> bytes option" where
  "skip_brackets stack [] = None"
| "skip_brackets stack (d # r) =
     (if d = 34 then (case scan_str r of None \<Rightarrow> None | Some (_, rest) \<Rightarrow> skip_brackets stack rest)
      else if d = 123 then skip_brackets (125 # stack) r
      else if d = 91 then skip_brackets (93 # stack) r
      else if d = 125 \<or> d = 93 then
        (case stack of
           [] \<Rightarrow> None
         | t # ts \<Rightarrow> if t \<noteq> d then None else if ts = [] then Some r else skip_brackets ts r)
      else skip_brackets stack r)"
  by pat_completeness auto
termination
  by (relation "measure (\<lambda>(_, b). length b)") (auto dest: scan_str_length)

definition bdigit :: "nat \<Rightarrow> bool" where
  "bdigit b \<longleftrightarrow> 48 \<le> b \<and> b \<le> 57"

text \<open>\<open>/^-?(?:0|[1-9]\d*)(?:\.\d+)?(?:[eE][+-]?\d+)?$/\<close>.\<close>

definition int_rest :: "bytes \<Rightarrow> bytes option" where
  "int_rest b =
     (case b of
        [] \<Rightarrow> None
      | d # r \<Rightarrow> if d = 48 then Some r else if bdigit d then Some (dropWhile bdigit r) else None)"

definition frac_rest :: "bytes \<Rightarrow> bytes option" where
  "frac_rest b =
     (if b \<noteq> [] \<and> hd b = 46
      then (if takeWhile bdigit (tl b) = [] then None else Some (dropWhile bdigit (tl b)))
      else Some b)"

definition exp_ok :: "bytes \<Rightarrow> bool" where
  "exp_ok b \<longleftrightarrow> b = [] \<or>
     (hd b \<in> {101, 69} \<and>
      (let r = (if tl b \<noteq> [] \<and> hd (tl b) \<in> {43, 45} then tl (tl b) else tl b) in r \<noteq> [] \<and> list_all bdigit r))"

definition number_literal :: "bytes \<Rightarrow> bool" where
  "number_literal b =
     (let u = (if b \<noteq> [] \<and> hd b = 45 then tl b else b)
      in case Option.bind (int_rest u) frac_rest of None \<Rightarrow> False | Some r \<Rightarrow> exp_ok r)"

definition json_literal :: "bytes \<Rightarrow> bool" where
  "json_literal b \<longleftrightarrow> b \<in> {units_of ''true'', units_of ''false'', units_of ''null''} \<or> number_literal b"

text \<open>\<open>TextDecoder\<close> takes a byte order mark away.\<close>

definition strip_bom :: "bytes \<Rightarrow> bytes" where
  "strip_bom b = (if take 3 b = [239, 187, 191] then drop 3 b else b)"

definition in_literal :: "nat \<Rightarrow> bool" where
  "in_literal b \<longleftrightarrow> b \<noteq> 44 \<and> b \<noteq> 125 \<and> \<not> is_ws b"

text \<open>\<open>value\<close>, from its first byte that is not white space.\<close>

definition scan_value :: "bytes \<Rightarrow> bytes option" where
  "scan_value b =
     (case b of
        [] \<Rightarrow> None
      | c # r \<Rightarrow>
          if c = 34 then map_option snd (scan_str r)
          else if c = 123 \<or> c = 91 then skip_brackets [] b
          else if json_literal (strip_bom (takeWhile in_literal b)) then Some (dropWhile in_literal b)
          else None)"

definition MODEL_KEY :: bytes where
  "MODEL_KEY = [109, 111, 100, 101, 108]"

lemma skip_brackets_length: "skip_brackets st b = Some r \<Longrightarrow> length r < length b"
  by (induction st b rule: skip_brackets.induct) (fastforce split: if_splits list.splits option.splits dest: scan_str_length)+

lemma scan_value_length: "scan_value b = Some r \<Longrightarrow> length r \<le> length b"
  using length_dropWhile_le[of in_literal b]
  by (auto simp: scan_value_def split: list.splits if_splits dest: scan_str_length skip_brackets_length)

text \<open>
  The loop over the members; the result is \<open>None\<close> for \<open>ok: false\<close> and the model otherwise. A model
  that is a string is read by \<open>JSON.parse\<close> of its own bytes.
\<close>

datatype scanned = Scanned "string option" | Not_Scanned

function scan_members :: "(bytes \<Rightarrow> json option) \<Rightarrow> string option \<Rightarrow> bytes \<Rightarrow> scanned" where
  "scan_members js model b =
     (case dropWhile is_ws b of
        [] \<Rightarrow> Not_Scanned
      | q # r \<Rightarrow>
          if q \<noteq> 34 then Not_Scanned
          else (case scan_str r of
                  None \<Rightarrow> Not_Scanned
                | Some (key, r1) \<Rightarrow>
                    if 92 \<in> set key then Not_Scanned
                    else (case dropWhile is_ws r1 of
                            [] \<Rightarrow> Not_Scanned
                          | c # r2 \<Rightarrow>
                              if c \<noteq> 58 then Not_Scanned
                              else
                                let v = dropWhile is_ws r2
                                in (case scan_value v of
                                      None \<Rightarrow> Not_Scanned
                                    | Some r3 \<Rightarrow>
                                        (case (if key \<noteq> MODEL_KEY then Scanned model
                                               else if take 1 v = [34]
                                               then (case js (take (length v - length r3) v) of
                                                       None \<Rightarrow> Not_Scanned
                                                     | Some (JStr m) \<Rightarrow> Scanned (Some m)
                                                     | Some _ \<Rightarrow> Scanned None)
                                               else Scanned None) of
                                           Not_Scanned \<Rightarrow> Not_Scanned
                                         | Scanned model' \<Rightarrow>
                                             (case dropWhile is_ws r3 of
                                                [] \<Rightarrow> Not_Scanned
                                              | d # r4 \<Rightarrow>
                                                  if d = 44 then scan_members js model' r4
                                                  else if d = 125 then
                                                    (if dropWhile is_ws r4 = [] then Scanned model' else Not_Scanned)
                                                  else Not_Scanned))))))"
  by pat_completeness auto
termination
proof (relation "measure (\<lambda>(_, _, b). length b)", goal_cases)
  case (2 js model b q r p key r1 c r2 v r3 model' d r4)
  have ws: "length (dropWhile is_ws x) \<le> length x" for x by (rule length_dropWhile_le)
  have drop: "length y < length x" if "dropWhile is_ws x = a # y" for x a y
    using ws[of x] that by simp
  have "length r4 < length r3" using drop[of r3] 2 by simp
  moreover have "length r3 \<le> length r2" using scan_value_length[of "dropWhile is_ws r2" r3] 2 ws[of r2] by simp
  moreover have "length r2 < length r1" using drop[of r1] 2 by simp
  moreover have "length r1 < length r" using scan_str_length[of r key r1] 2 by simp
  moreover have "length r < length b" using drop[of b] 2 by simp
  ultimately show ?case by simp
qed simp

declare scan_members.simps [simp del]

definition scanModel :: "(bytes \<Rightarrow> json option) \<Rightarrow> bytes \<Rightarrow> scanned" where
  "scanModel js b =
     (case dropWhile is_ws b of
        [] \<Rightarrow> Not_Scanned
      | c # r \<Rightarrow>
          if c \<noteq> 123 then Not_Scanned
          else (case dropWhile is_ws r of
                  d # r1 \<Rightarrow>
                    if d = 125 then (if dropWhile is_ws r1 = [] then Scanned None else Not_Scanned)
                    else scan_members js None (dropWhile is_ws r)
                | [] \<Rightarrow> scan_members js None []))"

datatype request_body = No_Body | Buffered bytes | Streamed

definition requestModel :: "(bytes \<Rightarrow> json option) \<Rightarrow> request_body \<Rightarrow> string option" where
  "requestModel js body =
     (case body of
        Buffered b \<Rightarrow>
          (if b = [] \<or> hd b \<noteq> 123 then None
           else (case scanModel js b of
                   Scanned model \<Rightarrow> model
                 | Not_Scanned \<Rightarrow> (case Option.bind (js b) (\<lambda>doc. js_get doc ''model'') of Some (JStr m) \<Rightarrow> Some m | _ \<Rightarrow> None)))
      | _ \<Rightarrow> None)"

section \<open>JSON texts\<close>

text \<open>The bytes of a JSON value, of the inside of an array and of the inside of an object.\<close>

definition ws :: "bytes \<Rightarrow> bool" where
  "ws = list_all is_ws"

definition hex_byte :: "nat \<Rightarrow> bool" where
  "hex_byte b \<longleftrightarrow> bdigit b \<or> 97 \<le> b \<and> b \<le> 102 \<or> 65 \<le> b \<and> b \<le> 70"

fun str_ok :: "bytes \<Rightarrow> bool" where
  "str_ok [] \<longleftrightarrow> True"
| "str_ok (c # cs) \<longleftrightarrow>
     (if c = 92 then
        (case cs of
           [] \<Rightarrow> False
         | d # r \<Rightarrow> (d \<in> {34, 92, 47, 98, 102, 110, 114, 116} \<or> d = 117 \<and> 4 \<le> length r \<and> list_all hex_byte (take 4 r)) \<and> str_ok r)
      else c \<noteq> 34 \<and> 32 \<le> c \<and> str_ok cs)"

inductive jtext :: "bytes \<Rightarrow> bool" and jitems :: "bytes \<Rightarrow> bool" and jmems :: "bytes \<Rightarrow> bool" where
  text_literal: "json_literal l \<Longrightarrow> jtext l"
| text_string: "str_ok s \<Longrightarrow> jtext (34 # s @ [34])"
| text_no_items: "ws a \<Longrightarrow> jtext (91 # a @ [93])"
| text_array: "jitems xs \<Longrightarrow> jtext (91 # xs @ [93])"
| text_no_members: "ws a \<Longrightarrow> jtext (123 # a @ [125])"
| text_object: "jmems xs \<Longrightarrow> jtext (123 # xs @ [125])"
| one_item: "ws a \<Longrightarrow> jtext v \<Longrightarrow> ws b \<Longrightarrow> jitems (a @ v @ b)"
| more_items: "ws a \<Longrightarrow> jtext v \<Longrightarrow> ws b \<Longrightarrow> jitems xs \<Longrightarrow> jitems (a @ v @ b @ 44 # xs)"
| one_member: "ws a \<Longrightarrow> str_ok k \<Longrightarrow> ws b \<Longrightarrow> ws c \<Longrightarrow> jtext v \<Longrightarrow> ws d \<Longrightarrow>
    jmems (a @ 34 # k @ 34 # b @ 58 # c @ v @ d)"
| more_members: "ws a \<Longrightarrow> str_ok k \<Longrightarrow> ws b \<Longrightarrow> ws c \<Longrightarrow> jtext v \<Longrightarrow> ws d \<Longrightarrow> jmems xs \<Longrightarrow>
    jmems (a @ 34 # k @ 34 # b @ 58 # c @ v @ d @ 44 # xs)"

text \<open>The text of an object after its opening brace, with its members (raw key, value text).\<close>

inductive jobject :: "(bytes \<times> bytes) list \<Rightarrow> bytes \<Rightarrow> bool" where
  last_member: "ws a \<Longrightarrow> str_ok k \<Longrightarrow> ws b \<Longrightarrow> ws c \<Longrightarrow> jtext v \<Longrightarrow> ws d \<Longrightarrow> ws e \<Longrightarrow>
    jobject [(k, v)] (a @ 34 # k @ 34 # b @ 58 # c @ v @ d @ 125 # e)"
| next_member: "ws a \<Longrightarrow> str_ok k \<Longrightarrow> ws b \<Longrightarrow> ws c \<Longrightarrow> jtext v \<Longrightarrow> ws d \<Longrightarrow> jobject ms xs \<Longrightarrow>
    jobject ((k, v) # ms) (a @ 34 # k @ 34 # b @ 58 # c @ v @ d @ 44 # xs)"

section \<open>The scanner skips exactly a value\<close>

lemma scan_str_ok: "str_ok s \<Longrightarrow> scan_str (s @ 34 # rest) = Some (s, rest)"
  by (induction s rule: str_ok.induct) (auto split: list.splits if_splits)

lemma skip_plain:
  "\<forall>c \<in> set xs. c \<notin> {34, 123, 91, 125, 93} \<Longrightarrow> skip_brackets st (xs @ rest) = skip_brackets st rest"
  by (induction xs) auto

lemma skip_ws: "ws a \<Longrightarrow> skip_brackets st (a @ rest) = skip_brackets st rest"
  by (rule skip_plain) (auto simp: ws_def list_all_iff is_ws_def)

lemma skip_string: "str_ok s \<Longrightarrow> skip_brackets st (34 # s @ 34 # rest) = skip_brackets st rest"
  by (simp add: scan_str_ok)

text \<open>The bytes of a literal.\<close>

definition literal_byte :: "nat \<Rightarrow> bool" where
  "literal_byte b \<longleftrightarrow> bdigit b \<or> b \<in> {43, 45, 46, 69, 101} \<or> b \<in> set (units_of ''truefalsenull'')"

lemma digits_split: "set b = set (takeWhile bdigit b) \<union> set (dropWhile bdigit b)"
  by (metis set_append takeWhile_dropWhile_id)

lemma number_bytes:
  "exp_ok b \<Longrightarrow> \<forall>c \<in> set b. literal_byte c"
  "frac_rest b = Some r \<Longrightarrow> \<forall>c \<in> set r. literal_byte c \<Longrightarrow> \<forall>c \<in> set b. literal_byte c"
  "int_rest b = Some r \<Longrightarrow> \<forall>c \<in> set r. literal_byte c \<Longrightarrow> b \<noteq> [] \<and> (\<forall>c \<in> set b. literal_byte c)"
proof -
  show "\<forall>c \<in> set b. literal_byte c" if "exp_ok b"
  proof (cases b)
    case (Cons x y)
    with that show ?thesis
      by (cases y) (auto simp: exp_ok_def Let_def literal_byte_def list_all_iff split: if_splits)
  qed simp
  have digits: "\<forall>c \<in> set b. literal_byte c" if "\<forall>c \<in> set (dropWhile bdigit b). literal_byte c" for b
    using that set_takeWhileD[of _ bdigit b] by (subst digits_split) (auto simp: literal_byte_def)
  show "\<forall>c \<in> set b. literal_byte c" if "frac_rest b = Some r" "\<forall>c \<in> set r. literal_byte c"
  proof (cases "b \<noteq> [] \<and> hd b = 46")
    case True
    then obtain y where b: "b = 46 # y" by (cases b) auto
    with that digits[of y] show ?thesis by (auto simp: frac_rest_def literal_byte_def split: if_splits)
  qed (use that in \<open>auto simp: frac_rest_def\<close>)
  show "b \<noteq> [] \<and> (\<forall>c \<in> set b. literal_byte c)" if "int_rest b = Some r" "\<forall>c \<in> set r. literal_byte c"
  proof -
    from that(1) obtain d y where b: "b = d # y" by (cases b) (simp_all add: int_rest_def)
    with that(1) have "d = 48 \<and> r = y \<or> bdigit d \<and> r = dropWhile bdigit y" by (auto simp: int_rest_def split: if_splits)
    then have "literal_byte d" "\<forall>c \<in> set y. literal_byte c"
      using that(2) digits[of y] by (auto simp: literal_byte_def bdigit_def[of 48])
    with b show ?thesis by simp
  qed
qed

lemma literal_bytes:
  assumes "json_literal l"
  shows "l \<noteq> [] \<and> (\<forall>c \<in> set l. literal_byte c)"
proof (cases "l \<in> {units_of ''true'', units_of ''false'', units_of ''null''}")
  case True
  then show ?thesis by (auto simp: units_of_def literal_byte_def)
next
  case False
  define u where "u = (if l \<noteq> [] \<and> hd l = 45 then tl l else l)"
  from False assms obtain r1 r where r: "int_rest u = Some r1" "frac_rest r1 = Some r" "exp_ok r"
    unfolding json_literal_def number_literal_def Let_def u_def[symmetric]
    by (auto simp: bind_eq_Some_conv split: option.splits)
  have u: "u \<noteq> []" "\<forall>c \<in> set u. literal_byte c"
    using number_bytes(3)[OF r(1) number_bytes(2)[OF r(2) number_bytes(1)[OF r(3)]]] by simp_all
  show ?thesis
  proof (cases "l \<noteq> [] \<and> hd l = 45")
    case True
    then have "l = 45 # u" by (cases l) (auto simp: u_def)
    with u show ?thesis by (simp add: literal_byte_def)
  next
    case False
    then have "u = l" by (auto simp: u_def)
    with u show ?thesis by simp
  qed
qed

lemma literal_byte_simps:
  assumes "literal_byte c"
  shows "in_literal c \<and> c \<notin> {34, 123, 91, 125, 93, 239} \<and> \<not> is_ws c"
  using assms by (auto simp: literal_byte_def in_literal_def bdigit_def is_ws_def units_of_def)

lemma skip_value:
  "jtext v \<Longrightarrow> st \<noteq> [] \<Longrightarrow> skip_brackets st (v @ rest) = skip_brackets st rest"
  "jitems xs \<Longrightarrow> st \<noteq> [] \<Longrightarrow> skip_brackets st (xs @ rest) = skip_brackets st rest"
  "jmems ms \<Longrightarrow> st \<noteq> [] \<Longrightarrow> skip_brackets st (ms @ rest) = skip_brackets st rest"
proof (induction arbitrary: st rest and st rest and st rest rule: jtext_jitems_jmems.inducts)
  case (text_literal l)
  then show ?case using literal_bytes literal_byte_simps by (intro skip_plain) blast
qed (simp_all add: skip_ws scan_str_ok)

lemma scan_value_text:
  assumes "jtext v" "rest = [] \<or> \<not> in_literal (hd rest)"
  shows "scan_value (v @ rest) = Some rest"
  using assms(1)
proof cases
  case text_literal
  note bytes = literal_bytes[OF text_literal]
  then obtain c r where v: "v = c # r" by (cases v) auto
  with bytes have c: "c \<notin> {34, 123, 91, 239}" using literal_byte_simps by auto
  have "takeWhile in_literal (v @ rest) = v" "dropWhile in_literal (v @ rest) = rest"
    using bytes literal_byte_simps assms(2) by (auto simp: takeWhile_append2 dropWhile_append2 takeWhile_eq_Nil_iff dropWhile_eq_self_iff)
  moreover have "strip_bom v = v" using c v by (simp add: strip_bom_def)
  ultimately show ?thesis using c v text_literal by (simp add: scan_value_def)
qed (simp_all add: scan_value_def scan_str_ok skip_ws skip_value)

section \<open>The scanner agrees with JSON.parse\<close>

lemma jtext_head: "jtext v \<Longrightarrow> v \<noteq> [] \<and> \<not> is_ws (hd v)"
proof (induction rule: jtext.cases)
  case (text_literal l)
  with literal_bytes[of l] literal_byte_simps show ?case by (cases l) auto
qed (auto simp: is_ws_def)

lemma drop_ws:
  "ws a \<Longrightarrow> c # r = b \<Longrightarrow> \<not> is_ws c \<Longrightarrow> dropWhile is_ws (a @ b) = b"
  "ws a \<Longrightarrow> jtext v \<Longrightarrow> dropWhile is_ws (a @ v @ r) = v @ r"
proof -
  show "ws a \<Longrightarrow> c # r = b \<Longrightarrow> \<not> is_ws c \<Longrightarrow> dropWhile is_ws (a @ b) = b" for a c r b
    by (auto simp: ws_def list_all_iff dropWhile_append2)
  show "ws a \<Longrightarrow> jtext v \<Longrightarrow> dropWhile is_ws (a @ v @ r) = v @ r"
    using jtext_head[of v] by (cases v) (auto simp: ws_def list_all_iff dropWhile_append2)
qed

lemma drop_all_ws: "ws e \<Longrightarrow> dropWhile is_ws e = []"
  by (simp add: ws_def list_all_iff)

text \<open>What the loop does with the members of an object.\<close>

fun scan_list :: "(bytes \<Rightarrow> json option) \<Rightarrow> string option \<Rightarrow> (bytes \<times> bytes) list \<Rightarrow> scanned" where
  "scan_list js model [] = Scanned model"
| "scan_list js model ((k, v) # ms) =
     (if 92 \<in> set k then Not_Scanned
      else if k \<noteq> MODEL_KEY then scan_list js model ms
      else if take 1 v = [34] then
        (case js v of
           None \<Rightarrow> Not_Scanned
         | Some (JStr m) \<Rightarrow> scan_list js (Some m) ms
         | Some _ \<Rightarrow> scan_list js None ms)
      else scan_list js None ms)"

lemma scan_one:
  assumes "ws a" "str_ok k" "ws b" "ws c" "jtext v" "ws d" "e \<in> {44, 125}"
  shows "scan_members js model (a @ 34 # k @ 34 # b @ 58 # c @ v @ d @ e # rest) =
     (if 92 \<in> set k then Not_Scanned
      else case (if k \<noteq> MODEL_KEY then Scanned model
                 else if take 1 v = [34] then (case js v of None \<Rightarrow> Not_Scanned | Some (JStr m) \<Rightarrow> Scanned (Some m) | Some _ \<Rightarrow> Scanned None)
                 else Scanned None) of
             Not_Scanned \<Rightarrow> Not_Scanned
           | Scanned model' \<Rightarrow> if e = 44 then scan_members js model' rest
                else if dropWhile is_ws rest = [] then Scanned model' else Not_Scanned)"
proof -
  have start: "dropWhile is_ws (a @ 34 # k @ 34 # b @ 58 # c @ v @ d @ e # rest) = 34 # k @ 34 # b @ 58 # c @ v @ d @ e # rest"
    "dropWhile is_ws (b @ 58 # c @ v @ d @ e # rest) = 58 # c @ v @ d @ e # rest"
    "dropWhile is_ws (c @ v @ d @ e # rest) = v @ d @ e # rest"
    "dropWhile is_ws (d @ e # rest) = e # rest"
    using assms by (auto intro!: drop_ws simp: is_ws_def)
  have "hd (d @ e # rest) = e \<or> is_ws (hd (d @ e # rest))"
    using assms(6) by (cases d) (auto simp: ws_def)
  then have "\<not> in_literal (hd (d @ e # rest))" using assms(7) by (auto simp: in_literal_def)
  then have val: "scan_value (v @ d @ e # rest) = Some (d @ e # rest)"
    using scan_value_text[OF assms(5)] by simp
  have v: "take (length (v @ d @ e # rest) - length (d @ e # rest)) (v @ d @ e # rest) = v" by simp
  have h: "take 1 (v @ d @ e # rest) = take 1 v" using jtext_head[OF assms(5)] by (cases v) auto
  have "e = 44 \<or> e = 125" using assms(7) by simp
  then show ?thesis
  proof
    assume e: "e = 44"
    show ?thesis unfolding scan_members.simps[of js model "a @ _"] e
      by (simp only: start[unfolded e] scan_str_ok[OF assms(2)] val[unfolded e] v[unfolded e] h[unfolded e] Let_def
            list.case option.case prod.case simp_thms if_True if_False)
  next
    assume e: "e = 125"
    have n: "(125::nat) \<noteq> 44" by simp
    show ?thesis unfolding scan_members.simps[of js model "a @ _"] e
      by (simp only: start[unfolded e] scan_str_ok[OF assms(2)] val[unfolded e] v[unfolded e] h[unfolded e] Let_def
            list.case option.case prod.case simp_thms if_True if_False n)
  qed
qed

lemma scan_object:
  "jobject ms b \<Longrightarrow> scan_members js model b = scan_list js model ms"
proof (induction arbitrary: model rule: jobject.induct)
  case (last_member a k b c v d e)
  then show ?case
    using scan_one[of a k b c v d 125 js model e]
    by (auto simp: drop_all_ws split: option.splits json.splits)
next
  case (next_member a k b c v d ms xs)
  then show ?case
    using scan_one[of a k b c v d 44 js model xs]
    by (auto split: option.splits json.splits)
qed

definition string_model :: "json option \<Rightarrow> string option" where
  "string_model j = (case j of Some (JStr m) \<Rightarrow> Some m | _ \<Rightarrow> None)"

text \<open>
  What \<open>JSON.parse\<close> is relied on for, for one object: the last member with a key wins, the value of a
  member is what its own text gives, a text is a string exactly when it starts with a quote, and a
  key without a backslash stands for itself.
\<close>

definition parses_as :: "(bytes \<Rightarrow> json option) \<Rightarrow> (bytes \<Rightarrow> string) \<Rightarrow> bytes \<Rightarrow> (bytes \<times> bytes) list \<Rightarrow> bool" where
  "parses_as js unesc body ms \<longleftrightarrow>
     (\<exists>doc. js body = Some doc \<and>
        js_get doc ''model'' = (case find (\<lambda>(k, _). unesc k = ''model'') (rev ms) of None \<Rightarrow> None | Some (_, v) \<Rightarrow> js v)) \<and>
     (\<forall>(k, v) \<in> set ms. (92 \<notin> set k \<longrightarrow> (unesc k = ''model'' \<longleftrightarrow> k = MODEL_KEY)) \<and>
        js v \<noteq> None \<and> (string_model (js v) \<noteq> None \<longleftrightarrow> take 1 v = [34]))"

lemma scan_list_last:
  assumes "scan_list js model ms = Scanned r"
    and "\<forall>(k, v) \<in> set ms. (92 \<notin> set k \<longrightarrow> (unesc k = ''model'' \<longleftrightarrow> k = MODEL_KEY)) \<and>
        js v \<noteq> None \<and> (string_model (js v) \<noteq> None \<longleftrightarrow> take 1 v = [34])"
  shows "r = (case find (\<lambda>(k, _). unesc k = ''model'') (rev ms) of None \<Rightarrow> model | Some (_, v) \<Rightarrow> string_model (js v))"
  using assms
proof (induction ms arbitrary: model)
  case (Cons m ms)
  obtain k v where m: "m = (k, v)" by (cases m)
  have esc: "92 \<notin> set k" using Cons.prems(1) m by (auto split: if_splits)
  have find: "find P (xs @ [x]) = (case find P xs of None \<Rightarrow> if P x then Some x else None | Some y \<Rightarrow> Some y)" for P xs and x :: "bytes \<times> bytes"
    by (induction xs) auto
  have key: "unesc k = ''model'' \<longleftrightarrow> k = MODEL_KEY" and v: "js v \<noteq> None" "string_model (js v) \<noteq> None \<longleftrightarrow> take 1 v = [34]"
    using Cons.prems(2) m esc by auto
  define model' where "model' = (if k = MODEL_KEY then string_model (js v) else model)"
  have "scan_list js model (m # ms) = scan_list js model' ms"
    using esc v m by (auto simp: model'_def string_model_def split: option.splits json.splits)
  with Cons.prems have "r = (case find (\<lambda>(k, _). unesc k = ''model'') (rev ms) of None \<Rightarrow> model' | Some (_, v) \<Rightarrow> string_model (js v))"
    by (intro Cons.IH) auto
  then show ?case using key m by (auto simp: find model'_def split: option.splits)
qed simp

text \<open>Property C31.
  The model that the allow-list is checked against is the one the provider will read: for a body that
  is the text of a JSON object, whatever its spacing, nesting, escapes and duplicate keys, the scanner
  gives the string that \<open>JSON.parse\<close> of the whole body has under \<open>model\<close>, and nothing when that is
  no string.\<close>

theorem requestModel_agrees:
  assumes "jobject ms b" "parses_as js unesc (123 # b) ms"
  shows "requestModel js (Buffered (123 # b)) = string_model (Option.bind (js (123 # b)) (\<lambda>doc. js_get doc ''model''))"
proof -
  have "dropWhile is_ws (123 # b) = 123 # b" by (simp add: is_ws_def)
  moreover have "\<exists>y. dropWhile is_ws b = 34 # y"
    using assms(1) drop_ws(1)[OF _ refl] by cases (auto simp: is_ws_def)
  then have "scan_members js None (dropWhile is_ws b) = scan_members js None b"
    by (subst (1 2) scan_members.simps) (simp add: dropWhile_idem)
  ultimately have scan: "scanModel js (123 # b) = scan_list js None ms"
    using \<open>\<exists>y. dropWhile is_ws b = 34 # y\<close> scan_object[OF assms(1), of js None] by (auto simp: scanModel_def)
  show ?thesis
  proof (cases "scan_list js None ms")
    case (Scanned r)
    obtain doc where doc: "js (123 # b) = Some doc"
      "js_get doc ''model'' = (case find (\<lambda>(k, _). unesc k = ''model'') (rev ms) of None \<Rightarrow> None | Some (_, v) \<Rightarrow> js v)"
      using assms(2) by (auto simp: parses_as_def)
    have "r = (case find (\<lambda>(k, _). unesc k = ''model'') (rev ms) of None \<Rightarrow> None | Some (_, v) \<Rightarrow> string_model (js v))"
      using scan_list_last[OF Scanned] assms(2) by (simp add: parses_as_def)
    also have "\<dots> = string_model (js_get doc ''model'')"
      unfolding doc(2) by (auto simp: string_model_def split: option.splits)
    finally show ?thesis using doc(1) scan Scanned by (simp add: requestModel_def)
  next
    case Not_Scanned
    then show ?thesis using scan by (simp add: requestModel_def string_model_def)
  qed
qed

text \<open>A body that names two models, \<open>a\<close> and then \<open>b\<close>.\<close>

definition two_models :: bytes where
  "two_models = 34 # MODEL_KEY @ 34 # 58 # [34, 97, 34] @ [32] @ 44 # (34 # MODEL_KEY @ 34 # 58 # [34, 98, 34] @ [125])"

definition example_js :: "bytes \<Rightarrow> json option" where
  "example_js b =
     (if b = 123 # two_models then Some (JObj [(''model'', JStr ''b'')])
      else if b = [34, 97, 34] then Some (JStr ''a'')
      else if b = [34, 98, 34] then Some (JStr ''b'') else None)"

theorem requestModel_agrees_witness:
  "requestModel example_js (Buffered (123 # two_models)) = Some ''b''"
proof -
  have str: "jtext [34, 97, 34]" "jtext [34, 98, 34]"
    using text_string[of "[97]"] text_string[of "[98]"] by simp_all
  have key: "str_ok MODEL_KEY" by code_simp
  have "jobject [(MODEL_KEY, [34, 97, 34]), (MODEL_KEY, [34, 98, 34])] two_models"
    using next_member[OF _ key _ _ str(1) _ last_member[OF _ key _ _ str(2)], of "[]" "[]" "[]" "[32]" "[]" "[]" "[]" "[]" "[]"]
    by (simp add: two_models_def ws_def is_ws_def)
  moreover have "parses_as example_js (\<lambda>k. if k = MODEL_KEY then ''model'' else '''') (123 # two_models)
      [(MODEL_KEY, [34, 97, 34]), (MODEL_KEY, [34, 98, 34])]"
    unfolding parses_as_def by (simp add: example_js_def string_model_def two_models_def MODEL_KEY_def)
  ultimately have "requestModel example_js (Buffered (123 # two_models)) =
      string_model (Option.bind (example_js (123 # two_models)) (\<lambda>doc. js_get doc ''model''))"
    by (rule requestModel_agrees)
  then show ?thesis by (simp add: example_js_def string_model_def)
qed

text \<open>White space before the object hides its model: only a body whose first byte is a brace has one.\<close>

lemma leading_space_hides_model:
  "requestModel js (Buffered (32 # b)) = None"
  by (simp add: requestModel_def)

end
