(* ===== verification/Gateway_Proxy.thy ===== *)
theory Gateway_Proxy
  imports Gateway_Provider Model_Scan
begin

text \<open>
  One request through the gateway: \<open>proxy\<close> of \<open>src/gateway/app.ts\<close> up to the answer of the upstream,
  with the failover between the members of a pool. The members that are held back (\<open>exhausted\<close>,
  \<open>holds\<close>) are shared by all requests, so a state is the two maps and the rest of the world, and what
  an \<open>await\<close> lets others do is a function on that state: it may change anything they can change.
\<close>

section \<open>Tokens in the query string\<close>

text \<open>Percent decoding that leaves malformed escapes alone, and the strict one that throws on them.\<close>

function pct_decode :: "string \<Rightarrow> string" where
  "pct_decode s =
     (case s of
        [] \<Rightarrow> []
      | p # r \<Rightarrow>
          (case map hex_digit (take 2 r) of
             [Some x, Some y] \<Rightarrow> if p = CHR ''%'' then char_of (16 * x + y) # pct_decode (drop 2 r) else p # pct_decode r
           | _ \<Rightarrow> p # pct_decode r))"
  by pat_completeness auto
termination by (relation "measure length") auto

declare pct_decode.simps [simp del]

function pct_strict :: "string \<Rightarrow> string option" where
  "pct_strict s =
     (case s of
        [] \<Rightarrow> Some []
      | p # r \<Rightarrow>
          if p \<noteq> CHR ''%'' then map_option (Cons p) (pct_strict r)
          else (case map hex_digit (take 2 r) of
                  [Some x, Some y] \<Rightarrow> map_option (Cons (char_of (16 * x + y))) (pct_strict (drop 2 r))
                | _ \<Rightarrow> None))"
  by pat_completeness auto
termination by (relation "measure length") auto

declare pct_strict.simps [simp del]

definition utf8_tail :: "nat \<Rightarrow> bool" where
  "utf8_tail b \<longleftrightarrow> 128 \<le> b \<and> b \<le> 191"

text \<open>Well-formed UTF-8: no overlong forms, no surrogates, nothing above U+10FFFF.\<close>

function utf8_ok :: "nat list \<Rightarrow> bool" where
  "utf8_ok bs =
     (case bs of
        [] \<Rightarrow> True
      | a # r \<Rightarrow>
          if a < 128 then utf8_ok r
          else if 194 \<le> a \<and> a \<le> 223 then length r \<ge> 1 \<and> utf8_tail (r ! 0) \<and> utf8_ok (drop 1 r)
          else if 224 \<le> a \<and> a \<le> 239 then
            length r \<ge> 2 \<and> utf8_tail (r ! 0) \<and> (a = 224 \<longrightarrow> r ! 0 \<ge> 160) \<and> (a = 237 \<longrightarrow> r ! 0 \<le> 159) \<and>
            utf8_tail (r ! 1) \<and> utf8_ok (drop 2 r)
          else if 240 \<le> a \<and> a \<le> 244 then
            length r \<ge> 3 \<and> utf8_tail (r ! 0) \<and> (a = 240 \<longrightarrow> r ! 0 \<ge> 144) \<and> (a = 244 \<longrightarrow> r ! 0 \<le> 143) \<and>
            utf8_tail (r ! 1) \<and> utf8_tail (r ! 2) \<and> utf8_ok (drop 3 r)
          else False)"
  by pat_completeness auto
termination by (relation "measure length") auto

declare utf8_ok.simps [simp del]

definition decodeURIComponent :: "string \<Rightarrow> string option" where
  "decodeURIComponent s =
     (case pct_strict s of
        None \<Rightarrow> None
      | Some d \<Rightarrow> if utf8_ok (map of_char d) then Some d else None)"

definition form_decode :: "string \<Rightarrow> string" where
  "form_decode s = pct_decode (map (\<lambda>c. if c = CHR ''+'' then CHR '' '' else c) s)"

definition search_params :: "string \<Rightarrow> (string \<times> string) list" where
  "search_params search =
     (let q = (if take 1 search = ''?'' then tl search else search)
      in map (\<lambda>part. let k = takeWhile (\<lambda>c. c \<noteq> CHR ''='') part
                     in (form_decode k, form_decode (drop (length k + 1) part)))
           (filter (\<lambda>part. part \<noteq> []) (split_on CHR ''&'' q)))"

definition queryCarriesToken :: "string \<Rightarrow> bool" where
  "queryCarriesToken search =
     (let needle = ''aisg_''; lower = toLowerCase search in
      includes_at lower needle \<or> includes_at lower ''aisg%5f'' \<or>
      list_ex (\<lambda>(k, v). includes_at (toLowerCase k) needle \<or> includes_at (toLowerCase v) needle) (search_params search) \<or>
      (\<exists>d \<in> set_option (decodeURIComponent lower). includes_at d needle))"

definition guessStyle :: "string \<Rightarrow> api_style" where
  "guessStyle path =
     (if includes_at path ''/messages/'' \<or> ends_with path ''/messages'' then Anthropic else Openai)"

section \<open>Held members\<close>

record hold =
  hd_burst :: bool
  hd_long :: bool
  hd_sig :: "string option"
  hd_message :: "string option"

text \<open>The key \<open>provider NUL name\<close> is a pair; both maps are in insertion order.\<close>

type_synonym hold_key = "gateway_provider \<times> string"

record 'w gateway =
  gw_exhausted :: "(hold_key \<times> rat) list"
  gw_holds :: "(hold_key \<times> hold) list"
  gw_world :: 'w

text \<open>Failures that an attempt can end with.\<close>

datatype credential_code = Refresh_Failed | Refresh_Lock_Timeout | Token_Unchanged | No_Credential | Unknown_Identity |
  Retired_Identity | Login_Dead

datatype attempt_error = Credential_Error credential_code string | Refresh_Cooldown | Not_Refreshable | Swap_Lock_Error |
  Abort_Error | Other_Failure

fun isCredentialFailure :: "attempt_error \<Rightarrow> bool" where
  "isCredentialFailure (Credential_Error _ _) = True"
| "isCredentialFailure Refresh_Cooldown = True"
| "isCredentialFailure Not_Refreshable = True"
| "isCredentialFailure Swap_Lock_Error = True"
| "isCredentialFailure Abort_Error = False"
| "isCredentialFailure Other_Failure = False"

text \<open>
  An answer of the upstream; \<open>us_peek\<close> is what \<open>peek\<close> reads of its body: nothing when the body is longer
  than 64 KiB, else its text and the value it parses to. \<open>us_body\<close> says whether it has a body at all.
\<close>

record upstream =
  us_status :: int
  us_headers :: headers
  us_body :: bool
  us_peek :: "(string \<times> json option) option"

text \<open>
  What a request needs of its surroundings. \<open>px_creds\<close> and \<open>px_refresh\<close> are \<open>get\<close> and \<open>refreshAfter401\<close> of
  the credential cache, \<open>px_fetch\<close> the upstream call, \<open>px_pause\<close> what others do while a choice is awaited.
\<close>

record 'w proxy_deps =
  px_now :: "'w \<Rightarrow> rat"
  px_aborted :: "'w \<Rightarrow> bool"
  px_select :: "'w \<Rightarrow> select_deps"
  px_signature :: "'w \<Rightarrow> gateway_provider \<Rightarrow> string \<Rightarrow> string option"
  px_creds :: "gateway_provider \<Rightarrow> string \<Rightarrow> 'w gateway \<Rightarrow> (attempt_error + provider_cred) \<times> 'w gateway"
  px_refresh :: "gateway_provider \<Rightarrow> string \<Rightarrow> string \<Rightarrow> 'w gateway \<Rightarrow> (attempt_error + provider_cred) \<times> 'w gateway"
  px_fetch :: "headers \<Rightarrow> request_body \<Rightarrow> 'w gateway \<Rightarrow> (attempt_error + upstream) \<times> 'w gateway"
  px_pause :: "'w gateway \<Rightarrow> 'w gateway"
  px_sleep :: "rat \<Rightarrow> 'w gateway \<Rightarrow> 'w gateway"

text \<open>What is fixed for one request: the app, its headers, body and model, and how the clock is read.\<close>

record 'w proxy_env =
  pe_deps :: "'w proxy_deps"
  pe_app :: gateway_app
  pe_headers :: headers
  pe_body :: request_body
  pe_model :: "string option"
  pe_clock :: clock
  pe_num :: "rat \<Rightarrow> string"

text \<open>
  The state of one request: the shared state, the number of waits for short holds, and the identities
  the request was sent for, in order.
\<close>

record 'w request =
  rq_gw :: "'w gateway"
  rq_waits :: nat
  rq_sent :: "string list"

definition is_pool :: "gateway_app \<Rightarrow> bool" where
  "is_pool app \<longleftrightarrow> (case ga_target app of Pool _ \<Rightarrow> True | Pin _ \<Rightarrow> False)"

definition exKey :: "gateway_app \<Rightarrow> string \<Rightarrow> hold_key" where
  "exKey app n = (ga_provider app, n)"

definition now_of :: "'w proxy_env \<Rightarrow> 'w request \<Rightarrow> rat" where
  "now_of env rq = px_now (pe_deps env) (gw_world (rq_gw rq))"

definition aborted :: "'w proxy_env \<Rightarrow> 'w request \<Rightarrow> bool" where
  "aborted env rq = px_aborted (pe_deps env) (gw_world (rq_gw rq))"

text \<open>A hold that \<open>exhaustedNames\<close> keeps: not over, and its credential file has not changed.\<close>

definition still_held :: "'w proxy_env \<Rightarrow> 'w gateway \<Rightarrow> hold_key \<times> rat \<Rightarrow> bool" where
  "still_held env gw e \<longleftrightarrow>
     snd e > px_now (pe_deps env) (gw_world gw) \<and>
     (fst (fst e) = ga_provider (pe_app env) \<longrightarrow>
        (\<forall>h \<in> set_option (map_of (gw_holds gw) (fst e)).
           hd_long h \<longrightarrow> px_signature (pe_deps env) (gw_world gw) (ga_provider (pe_app env)) (snd (fst e)) = hd_sig h))"

definition exhaustedNames :: "'w proxy_env \<Rightarrow> 'w request \<Rightarrow> string list \<times> 'w request" where
  "exhaustedNames env rq =
     (let gw = rq_gw rq; kept = filter (still_held env gw) (gw_exhausted gw);
          gone = map fst (filter (\<lambda>e. \<not> still_held env gw e) (gw_exhausted gw))
      in (map (\<lambda>e. snd (fst e)) (filter (\<lambda>e. fst (fst e) = ga_provider (pe_app env)) kept),
          rq\<lparr> rq_gw := gw\<lparr> gw_exhausted := kept, gw_holds := filter (\<lambda>h. fst h \<notin> set gone) (gw_holds gw) \<rparr> \<rparr>))"

definition CREDENTIAL_HOLD_MS :: rat where
  "CREDENTIAL_HOLD_MS = 600000"

definition holdCredentialFailure :: "'w proxy_env \<Rightarrow> string \<Rightarrow> attempt_error \<Rightarrow> 'w request \<Rightarrow> 'w request" where
  "holdCredentialFailure env n err rq =
     (let gw = rq_gw rq; key = exKey (pe_app env) n;
          long = (case err of Credential_Error code _ \<Rightarrow> code \<in> {Login_Dead, Retired_Identity, Unknown_Identity} | _ \<Rightarrow> False);
          message = (case err of Credential_Error _ m \<Rightarrow> m | _ \<Rightarrow> ''upstream credential unavailable'');
          until = now_of env rq + (if long then CREDENTIAL_HOLD_MS else BURST_HOLD_DEFAULT_MS);
          sig = (if long then px_signature (pe_deps env) (gw_world gw) (ga_provider (pe_app env)) n else None)
      in rq\<lparr> rq_gw := gw\<lparr> gw_exhausted := AList.update key until (gw_exhausted gw),
           gw_holds := AList.update key \<lparr> hd_burst = False, hd_long = long, hd_sig = sig, hd_message = Some message \<rparr> (gw_holds gw) \<rparr> \<rparr>)"

definition holdQuota :: "'w proxy_env \<Rightarrow> string \<Rightarrow> upstream \<Rightarrow> 'w request \<Rightarrow> 'w request" where
  "holdQuota env n res rq =
     (let gw = rq_gw rq; key = exKey (pe_app env) n in
      if us_status res = 402 \<or> us_status res = 403 \<or> (us_status res = 429 \<and> provesSubscriptionExhaustion (us_headers res))
      then rq\<lparr> rq_gw := gw\<lparr> gw_exhausted := AList.update key (exhaustedUntil (pe_clock env) (us_headers res) (now_of env rq)) (gw_exhausted gw),
             gw_holds := AList.delete key (gw_holds gw) \<rparr> \<rparr>
      else if us_status res = 429
      then rq\<lparr> rq_gw := gw\<lparr> gw_exhausted := AList.update key (burstHoldUntil (pe_clock env) (us_headers res) (now_of env rq)) (gw_exhausted gw),
             gw_holds := AList.update key \<lparr> hd_burst = True, hd_long = False, hd_sig = None, hd_message = None \<rparr> (gw_holds gw) \<rparr> \<rparr>
      else rq)"

section \<open>Choosing and waiting\<close>

definition pick_now :: "'w proxy_env \<Rightarrow> string list \<Rightarrow> 'w request \<Rightarrow> pick option \<times> 'w request" where
  "pick_now env exclude rq =
     (let gw = px_pause (pe_deps env) (rq_gw rq)
      in (pickIdentity (pe_app env) (px_select (pe_deps env) (gw_world gw)) exclude, rq\<lparr> rq_gw := gw \<rparr>))"

definition SHORT_HOLD_WAIT_BUDGET_MS :: rat where
  "SHORT_HOLD_WAIT_BUDGET_MS = 90000"

definition SHORT_HOLD_MAX_WAITS :: nat where
  "SHORT_HOLD_MAX_WAITS = 8"

definition SHORT_HOLD_MIN_SLEEP_MS :: rat where
  "SHORT_HOLD_MIN_SLEEP_MS = 250"

definition short_held :: "gateway_app \<Rightarrow> 'w gateway \<Rightarrow> string \<Rightarrow> bool" where
  "short_held app gw n \<longleftrightarrow> (\<exists>h \<in> set_option (map_of (gw_holds gw) (exKey app n)). \<not> hd_long h)"

text \<open>\<open>None\<close> when the choice throws, which ends the request.\<close>

definition waitForShortHold :: "'w proxy_env \<Rightarrow> rat \<Rightarrow> 'w request \<Rightarrow> bool option \<times> 'w request" where
  "waitForShortHold env waitStart rq =
     (let app = pe_app env; now = now_of env rq; left = waitStart + SHORT_HOLD_WAIT_BUDGET_MS - now in
      if \<not> is_pool app \<or> rq_waits rq \<ge> SHORT_HOLD_MAX_WAITS \<or> aborted env rq \<or> left \<le> 0 then (Some False, rq)
      else
        let (held, rq1) = exhaustedNames env rq; shortHeld = filter (short_held app (rq_gw rq1)) held
        in if shortHeld = [] then (Some False, rq1)
           else
             (case pick_now env (filter (\<lambda>n. n \<notin> set shortHeld) held) rq1 of
                (None, rq2) \<Rightarrow> (None, rq2)
              | (Some (Reject _), rq2) \<Rightarrow> (Some False, rq2)
              | (Some (Identity _), rq2) \<Rightarrow>
                  let soonest = list_min (map (\<lambda>n. default now (map_of (gw_exhausted (rq_gw rq2)) (exKey app n))) shortHeld);
                      rq3 = rq2\<lparr> rq_waits := rq_waits rq2 + 1,
                        rq_gw := px_sleep (pe_deps env) (min (max (soonest - now) SHORT_HOLD_MIN_SLEEP_MS) left) (rq_gw rq2) \<rparr>
                  in (Some (\<not> aborted env rq3), rq3)))"

section \<open>One attempt\<close>

definition replayable :: "'w proxy_env \<Rightarrow> bool" where
  "replayable env \<longleftrightarrow> pe_body env \<noteq> Streamed"

definition send :: "'w proxy_env \<Rightarrow> string \<Rightarrow> provider_cred \<Rightarrow> 'w request \<Rightarrow> (attempt_error + upstream) \<times> 'w request" where
  "send env n cred rq =
     (if aborted env rq then (Inl Abort_Error, rq)
      else case upstreamHeaders (ga_provider (pe_app env)) cred (pe_headers env) of
        None \<Rightarrow> (Inl Other_Failure, rq)
      | Some hs \<Rightarrow>
          (case px_fetch (pe_deps env) hs (pe_body env) (rq_gw rq) of
             (r, gw) \<Rightarrow> (r, rq\<lparr> rq_gw := gw, rq_sent := rq_sent rq @ [n] \<rparr>)))"

text \<open>\<open>attempt\<close>: the call with the identity's credential, and at most one refresh and retry after a 401.\<close>

definition attempt :: "'w proxy_env \<Rightarrow> string \<Rightarrow> 'w request \<Rightarrow> (attempt_error + upstream) \<times> 'w request" where
  "attempt env n rq =
     (let app = pe_app env; p = ga_provider app in
      case px_creds (pe_deps env) p n (rq_gw rq) of
        (Inl err, gw) \<Rightarrow> (Inl err, rq\<lparr> rq_gw := gw \<rparr>)
      | (Inr cred, gw) \<Rightarrow>
          (case send env n cred (rq\<lparr> rq_gw := gw \<rparr>) of
             (Inl err, rq1) \<Rightarrow> (Inl err, rq1)
           | (Inr res, rq1) \<Rightarrow>
               if us_status res \<noteq> 401 \<or> \<not> ad_refreshable (adapterFor p) then (Inr res, rq1)
               else
                 (case px_refresh (pe_deps env) p n (pc_accessToken cred) (rq_gw rq1) of
                    (Inl err, gw2) \<Rightarrow>
                      (if err = Refresh_Cooldown \<or> err = Not_Refreshable
                       then (if is_pool app \<and> replayable env then Inl err else Inr res)
                       else (if replayable env then Inl err else Inr res), rq1\<lparr> rq_gw := gw2 \<rparr>)
                  | (Inr cred2, gw2) \<Rightarrow>
                      if replayable env then send env n cred2 (rq1\<lparr> rq_gw := gw2 \<rparr>)
                      else (Inr res, rq1\<lparr> rq_gw := gw2 \<rparr>))))"

text \<open>\<open>isQuota\<close>: whether an answer means that the login is out of quota; a Codex one that says so is marked.\<close>

definition isQuota :: "gateway_provider \<Rightarrow> upstream \<Rightarrow> bool \<times> upstream" where
  "isQuota p res =
     (if us_status res = 402 then (True, res)
      else if us_status res = 429 then
        (True,
         if p = G_Codex \<and> (\<exists>b \<in> set_option (us_peek res). includes_at (fst b) ''usage_limit_reached'')
         then res\<lparr> us_headers := header_set ''x-ais-subscription-exhausted'' ''1'' (us_headers res) \<rparr> else res)
      else if us_status res = 403 then (\<exists>b \<in> set_option (us_peek res). isQuotaBody (snd b), res)
      else (False, res))"

section \<open>Failover\<close>

record 'w failover =
  fl_name :: string
  fl_tried :: "string list"
  fl_cur :: "upstream option"
  fl_quota :: bool
  fl_identity :: string
  fl_credErr :: "attempt_error option"
  fl_rq :: "'w request"

definition canon :: "'w proxy_env \<Rightarrow> 'w request \<Rightarrow> string \<Rightarrow> string" where
  "canon env rq n = canonical_name (px_select (pe_deps env) (gw_world (rq_gw rq))) (ga_provider (pe_app env)) n"

text \<open>
  One turn of the loop \<open>while (quota || !cur)\<close>: thrown, or whether the loop goes on and the new state.
\<close>

definition failover_turn :: "'w proxy_env \<Rightarrow> rat \<Rightarrow> 'w failover \<Rightarrow> (attempt_error \<times> 'w failover) + (bool \<times> 'w failover)" where
  "failover_turn env waitStart fl =
     (let tried = fl_name fl # fl_tried fl; (held, rq1) = exhaustedNames env (fl_rq fl)
      in case pick_now env (held @ tried) rq1 of
           (None, rq2) \<Rightarrow> Inl (Other_Failure, fl\<lparr> fl_tried := tried, fl_rq := rq2 \<rparr>)
         | (Some (Reject _), rq2) \<Rightarrow>
             (if fl_quota fl \<and> (\<exists>c \<in> set_option (fl_cur fl). \<not> provesSubscriptionExhaustion (us_headers c))
              then (case waitForShortHold env waitStart rq2 of
                      (None, rq3) \<Rightarrow> Inl (Other_Failure, fl\<lparr> fl_tried := tried, fl_rq := rq3 \<rparr>)
                    | (Some True, rq3) \<Rightarrow> Inr (True, fl\<lparr> fl_tried := [], fl_name := '''', fl_rq := rq3 \<rparr>)
                    | (Some False, rq3) \<Rightarrow> Inr (False, fl\<lparr> fl_tried := tried, fl_rq := rq3 \<rparr>))
              else Inr (False, fl\<lparr> fl_tried := tried, fl_rq := rq2 \<rparr>))
         | (Some (Identity n), rq2) \<Rightarrow>
             (case attempt env n rq2 of
                (Inl err, rq3) \<Rightarrow>
                  if aborted env rq3 then Inl (Abort_Error, fl\<lparr> fl_name := n, fl_tried := tried, fl_rq := rq3 \<rparr>)
                  else
                    Inr (True, fl\<lparr> fl_name := n, fl_tried := n # tried,
                      fl_credErr := (if isCredentialFailure err then Some err else fl_credErr fl),
                      fl_rq := (if isCredentialFailure err then holdCredentialFailure env n err rq3 else rq3) \<rparr>)
              | (Inr second, rq3) \<Rightarrow>
                  (case isQuota (ga_provider (pe_app env)) second of
                     (quota, res) \<Rightarrow>
                       Inr (quota, fl\<lparr> fl_name := n, fl_tried := tried, fl_cur := Some res, fl_identity := canon env rq3 n,
                         fl_quota := quota, fl_rq := (if quota then holdQuota env n res rq3 else rq3) \<rparr>))))"

fun failover_loop :: "nat \<Rightarrow> 'w proxy_env \<Rightarrow> rat \<Rightarrow> 'w failover \<Rightarrow> ((attempt_error \<times> 'w failover) + 'w failover) option" where
  "failover_loop 0 env waitStart fl = None"
| "failover_loop (Suc n) env waitStart fl =
     (if \<not> fl_quota fl \<and> fl_cur fl \<noteq> None then Some (Inr fl)
      else case failover_turn env waitStart fl of
        Inl e \<Rightarrow> Some (Inl e)
      | Inr (True, fl') \<Rightarrow> failover_loop n env waitStart fl'
      | Inr (False, fl') \<Rightarrow> Some (Inr fl'))"

text \<open>The upstream part of a request: the answer that is relayed or the failure, with the identity it is charged to.\<close>

definition call_upstream :: "nat \<Rightarrow> 'w proxy_env \<Rightarrow> rat \<Rightarrow> string \<Rightarrow> 'w request \<Rightarrow>
    ((attempt_error + upstream) \<times> string \<times> 'w request) option" where
  "call_upstream fuel env waitStart picked rq =
     (let identity = canon env rq picked; poolReplay = (is_pool (pe_app env) \<and> replayable env) in
      case attempt env identity rq of
        (first, rq1) \<Rightarrow>
          if \<not> poolReplay then Some (first, identity, rq1)
          else
            let start = \<lparr> fl_name = picked, fl_tried = [], fl_cur = None, fl_quota = False, fl_identity = identity,
                          fl_credErr = None, fl_rq = rq1 \<rparr>;
                finish = map_option (\<lambda>out. case out of
                  Inl (err, fl) \<Rightarrow> (Inl err, fl_identity fl, fl_rq fl)
                | Inr fl \<Rightarrow> (case fl_cur fl of Some up \<Rightarrow> Inr up | None \<Rightarrow> Inl (default Other_Failure (fl_credErr fl)),
                    fl_identity fl, fl_rq fl))
            in (case first of
                  Inl err \<Rightarrow>
                    if aborted env rq1 \<or> \<not> isCredentialFailure err then Some (Inl err, identity, rq1)
                    else finish (failover_loop fuel env waitStart
                           (start\<lparr> fl_credErr := Some err, fl_rq := holdCredentialFailure env picked err rq1 \<rparr>))
                | Inr res \<Rightarrow>
                    (case isQuota (ga_provider (pe_app env)) res of
                       (quota, res') \<Rightarrow> finish (failover_loop fuel env waitStart
                          (start\<lparr> fl_cur := Some res', fl_quota := quota,
                             fl_rq := (if quota then holdQuota env picked res' rq1 else rq1) \<rparr>)))))"

section \<open>Bounds on the upstream calls\<close>

lemma send_sent:
  "send env n cred rq = (r, rq') \<Longrightarrow>
     rq_waits rq' = rq_waits rq \<and> (\<exists>k \<le> 1. rq_sent rq' = rq_sent rq @ replicate k n)"
  by (auto simp: send_def split: if_splits option.splits prod.splits intro: exI[of _ 0] exI[of _ 1])

text \<open>An attempt sends the request at most twice, a streamed one at most once, and only for its identity.\<close>

lemma attempt_sent:
  assumes "attempt env n rq = (r, rq')"
  shows "rq_waits rq' = rq_waits rq \<and>
    (\<exists>k \<le> (if replayable env then 2 else 1). rq_sent rq' = rq_sent rq @ replicate k n)"
proof -
  obtain c gw where c: "px_creds (pe_deps env) (ga_provider (pe_app env)) n (rq_gw rq) = (c, gw)" by (cases rule: prod.exhaust)
  show ?thesis
  proof (cases c)
    case (Inl err)
    with c assms show ?thesis by (auto simp: attempt_def Let_def)
  next
    case (Inr cred)
    obtain s rq1 where s: "send env n cred (rq\<lparr> rq_gw := gw \<rparr>) = (s, rq1)" by (cases rule: prod.exhaust)
    from send_sent[OF s] obtain k where k: "k \<le> 1" "rq_sent rq1 = rq_sent rq @ replicate k n" "rq_waits rq1 = rq_waits rq"
      by auto
    have one: ?thesis if "rq_sent rq' = rq_sent rq1" "rq_waits rq' = rq_waits rq1"
      using that k by (intro conjI exI[of _ k]) auto
    have two: ?thesis if "replayable env" "send env n d (rq1\<lparr> rq_gw := g \<rparr>) = (r, rq')" for d g
    proof -
      from send_sent[OF that(2)] obtain j where "j \<le> 1" "rq_sent rq' = rq_sent rq1 @ replicate j n" "rq_waits rq' = rq_waits rq1"
        by auto
      with k that(1) show ?thesis by (intro conjI exI[of _ "k + j"]) (auto simp: replicate_add)
    qed
    show ?thesis
    proof (cases "\<exists>res. s = Inr res \<and> us_status res = 401 \<and> ad_refreshable (adapterFor (ga_provider (pe_app env)))")
      case False
      with c Inr s assms have "rq' = rq1" by (auto simp: attempt_def Let_def split: sum.splits if_splits)
      with one show ?thesis by simp
    next
      case True
      then obtain res where res: "s = Inr res" "us_status res = 401" "ad_refreshable (adapterFor (ga_provider (pe_app env)))" by blast
      obtain f g where f: "px_refresh (pe_deps env) (ga_provider (pe_app env)) n (pc_accessToken cred) (rq_gw rq1) = (f, g)"
        by (cases rule: prod.exhaust)
      show ?thesis
      proof (cases "replayable env \<and> (\<exists>d. f = Inr d)")
        case True
        with c Inr s res f assms two show ?thesis by (auto simp: attempt_def Let_def)
      next
        case False
        with c Inr s res f assms have "rq' = rq1\<lparr> rq_gw := g \<rparr>"
          by (auto simp: attempt_def Let_def split: sum.splits if_splits)
        with one show ?thesis by simp
      qed
    qed
  qed
qed

text \<open>What happens between the calls sends nothing.\<close>

lemma quiet [simp]:
  "rq_sent (snd (exhaustedNames env rq)) = rq_sent rq" "rq_waits (snd (exhaustedNames env rq)) = rq_waits rq"
  "rq_sent (snd (pick_now env ex rq)) = rq_sent rq" "rq_waits (snd (pick_now env ex rq)) = rq_waits rq"
  "rq_sent (holdQuota env n res rq) = rq_sent rq" "rq_waits (holdQuota env n res rq) = rq_waits rq"
  "rq_sent (holdCredentialFailure env n err rq) = rq_sent rq" "rq_waits (holdCredentialFailure env n err rq) = rq_waits rq"
  by (simp_all add: exhaustedNames_def pick_now_def holdQuota_def holdCredentialFailure_def Let_def)

lemma wait_quiet:
  assumes "waitForShortHold env t rq = (w, rq')"
  shows "rq_sent rq' = rq_sent rq \<and>
    (if w = Some True then rq_waits rq < SHORT_HOLD_MAX_WAITS \<and> rq_waits rq' = Suc (rq_waits rq)
     else rq_waits rq' \<in> {rq_waits rq, Suc (rq_waits rq)}) \<and>
    (rq_waits rq \<le> SHORT_HOLD_MAX_WAITS \<longrightarrow> rq_waits rq' \<le> SHORT_HOLD_MAX_WAITS)"
proof -
  obtain held rq1 where h: "exhaustedNames env rq = (held, rq1)" by (cases rule: prod.exhaust)
  then have q1: "rq_sent rq1 = rq_sent rq" "rq_waits rq1 = rq_waits rq"
    using quiet(1,2)[of env rq] by simp_all
  obtain p rq2 where p: "pick_now env (filter (\<lambda>n. n \<notin> set (filter (short_held (pe_app env) (rq_gw rq1)) held)) held) rq1 = (p, rq2)"
    by (cases rule: prod.exhaust)
  then have q2: "rq_sent rq2 = rq_sent rq" "rq_waits rq2 = rq_waits rq"
    using quiet(3,4)[of env _ rq1] q1 by (metis snd_conv)+
  show ?thesis
    using assms h p q1 q2
    by (auto simp: waitForShortHold_def Let_def not_le split: if_splits option.splits pick.splits)
qed

text \<open>\<open>A\<close>: every name the pool may offer while the request runs.\<close>

definition pool_within :: "'w proxy_env \<Rightarrow> string set \<Rightarrow> bool" where
  "pool_within env A \<longleftrightarrow> (\<forall>w names. allowedMembers (pe_app env) (px_select (pe_deps env) w) = Some names \<longrightarrow> set names \<subseteq> A)"

definition unseen :: "string set \<Rightarrow> 'w failover \<Rightarrow> nat" where
  "unseen A fl = card (A - insert (fl_name fl) (set (fl_tried fl)))"

definition waits_left :: "'w failover \<Rightarrow> nat" where
  "waits_left fl = SHORT_HOLD_MAX_WAITS - rq_waits (fl_rq fl)"

lemma pick_now_within:
  assumes "pool_within env A" "pick_now env ex rq = (Some (Identity n), rq')" "is_pool (pe_app env)"
  shows "n \<in> A" "n \<notin> set ex"
proof -
  from assms(2) obtain w where w: "pickIdentity (pe_app env) (px_select (pe_deps env) w) ex = Some (Identity n)"
    by (auto simp: pick_now_def Let_def)
  from assms(3) obtain ids where "ga_target (pe_app env) = Pool ids" by (auto simp: is_pool_def split: app_target.splits)
  with pick_allowed[OF w] assms(1) show "n \<in> A" "n \<notin> set ex" by (auto simp: pool_within_def)
qed

text \<open>
  One turn of the loop: it tries a member not tried before, or it waits once more, or it is the last.
\<close>

lemma turn_progress:
  assumes A: "pool_within env A" "finite A" "is_pool (pe_app env)"
    and turn: "failover_turn env t fl = out"
  defines "fl' \<equiv> (case out of Inl e \<Rightarrow> snd e | Inr e \<Rightarrow> snd e)"
  shows "(\<exists>n \<in> A. \<exists>k \<le> 2. rq_sent (fl_rq fl') = rq_sent (fl_rq fl) @ replicate k n \<and> unseen A fl' < unseen A fl \<and>
            waits_left fl' = waits_left fl) \<or>
         rq_sent (fl_rq fl') = rq_sent (fl_rq fl) \<and>
         (if \<exists>e. out = Inr (True, e) then waits_left fl' < waits_left fl else waits_left fl' \<le> waits_left fl \<and> unseen A fl' = unseen A fl)"
proof -
  obtain held rq1 where h: "exhaustedNames env (fl_rq fl) = (held, rq1)" by (cases rule: prod.exhaust)
  then have q1: "rq_sent rq1 = rq_sent (fl_rq fl)" "rq_waits rq1 = rq_waits (fl_rq fl)"
    using quiet(1,2)[of env "fl_rq fl"] by simp_all
  obtain p rq2 where p: "pick_now env (held @ fl_name fl # fl_tried fl) rq1 = (p, rq2)" by (cases rule: prod.exhaust)
  then have q2: "rq_sent rq2 = rq_sent (fl_rq fl)" "rq_waits rq2 = rq_waits (fl_rq fl)"
    using quiet(3,4)[of env _ rq1] q1 by (metis snd_conv)+
  note start = turn[unfolded failover_turn_def Let_def h prod.case p]
  show ?thesis
  proof (cases "\<exists>n. p = Some (Identity n)")
    case True
    then obtain n where n: "p = Some (Identity n)" by blast
    obtain r rq3 where r: "attempt env n rq2 = (r, rq3)" by (cases rule: prod.exhaust)
    from attempt_sent[OF r] obtain k where k: "k \<le> 2" "rq_sent rq3 = rq_sent (fl_rq fl) @ replicate k n"
      and w: "rq_waits rq3 = rq_waits (fl_rq fl)"
      using q2 by (auto split: if_splits intro: le_trans)
    from pick_now_within[OF A(1) p[unfolded n] A(3)] have mem: "n \<in> A" "n \<noteq> fl_name fl" "n \<notin> set (fl_tried fl)" by auto
    have "fl_name fl' = n \<and> set (fl_tried fl') \<subseteq> insert n (insert (fl_name fl) (set (fl_tried fl))) \<and>
      insert (fl_name fl) (set (fl_tried fl)) \<subseteq> set (fl_tried fl') \<and>
      rq_sent (fl_rq fl') = rq_sent rq3 \<and> rq_waits (fl_rq fl') = rq_waits rq3"
      using start n r unfolding fl'_def by (auto split: sum.splits if_splits prod.splits)
    then have sets: "A - insert (fl_name fl') (set (fl_tried fl')) \<subset> A - insert (fl_name fl) (set (fl_tried fl))"
      and same: "rq_sent (fl_rq fl') = rq_sent rq3" "rq_waits (fl_rq fl') = rq_waits rq3"
      using mem by auto
    from sets have "unseen A fl' < unseen A fl" unfolding unseen_def using A(2) by (intro psubset_card_mono) auto
    with same k w mem(1) show ?thesis by (auto simp: waits_left_def)
  next
    case False
    have keep: "unseen A (fl\<lparr> fl_tried := fl_name fl # fl_tried fl, fl_rq := rq \<rparr>) = unseen A fl" for rq
      by (simp add: unseen_def insert_absorb)
    show ?thesis
    proof (cases "(\<exists>rj. p = Some (Reject rj)) \<and> fl_quota fl \<and> (\<exists>c \<in> set_option (fl_cur fl). \<not> provesSubscriptionExhaustion (us_headers c))")
      case True
      then obtain rj where rj: "p = Some (Reject rj)" by blast
      obtain w rq3 where w: "waitForShortHold env t rq2 = (w, rq3)" by (cases rule: prod.exhaust)
      from wait_quiet[OF w] have wq: "rq_sent rq3 = rq_sent (fl_rq fl)" "rq_waits rq3 \<ge> rq_waits (fl_rq fl)"
        "w = Some True \<Longrightarrow> rq_waits (fl_rq fl) < SHORT_HOLD_MAX_WAITS \<and> rq_waits rq3 = Suc (rq_waits (fl_rq fl))"
        using q2 by (auto split: if_splits)
      have out: "out = (case w of None \<Rightarrow> Inl (Other_Failure, fl\<lparr> fl_tried := fl_name fl # fl_tried fl, fl_rq := rq3 \<rparr>)
          | Some True \<Rightarrow> Inr (True, fl\<lparr> fl_tried := [], fl_name := '''', fl_rq := rq3 \<rparr>)
          | Some False \<Rightarrow> Inr (False, fl\<lparr> fl_tried := fl_name fl # fl_tried fl, fl_rq := rq3 \<rparr>))"
        using start True rj w by (simp split: option.splits bool.splits)
      show ?thesis
      proof (cases w)
        case None
        with out wq show ?thesis by (simp add: fl'_def keep waits_left_def)
      next
        case (Some b)
        with out wq show ?thesis by (cases b) (auto simp: fl'_def keep waits_left_def)
      qed
    next
      case no: False
      with False start have "fl' = fl\<lparr> fl_tried := fl_name fl # fl_tried fl, fl_rq := rq2 \<rparr> \<and> \<not> (\<exists>e. out = Inr (True, e))"
        unfolding fl'_def by (auto split: option.splits pick.splits if_splits)
      with q2 show ?thesis by (simp add: keep waits_left_def)
    qed
  qed
qed

definition loop_rank :: "string set \<Rightarrow> 'w failover \<Rightarrow> nat" where
  "loop_rank A fl = waits_left fl * Suc (card A) + unseen A fl"

definition send_rank :: "string set \<Rightarrow> 'w failover \<Rightarrow> nat" where
  "send_rank A fl = waits_left fl * card A + unseen A fl"

lemma unseen_le: "finite A \<Longrightarrow> unseen A fl \<le> card A"
  by (simp add: unseen_def card_mono)

lemma rank_down:
  fixes w w' u u' c :: nat
  assumes "w' < w" "u' \<le> c"
  shows "w' * c + u' \<le> w * c + u" "w' * Suc c + u' < w * Suc c + u"
proof -
  from assms(1) obtain d where d: "w = Suc (w' + d)" using less_iff_Suc_add by auto
  show "w' * c + u' \<le> w * c + u" "w' * Suc c + u' < w * Suc c + u"
    using assms(2) by (simp_all add: d algebra_simps)
qed

definition sent_by :: "(attempt_error \<times> 'w failover) + 'w failover \<Rightarrow> string list" where
  "sent_by out = rq_sent (fl_rq (case out of Inl e \<Rightarrow> snd e | Inr fl \<Rightarrow> fl))"

lemma failover_loop_ends:
  assumes A: "pool_within env A" "finite A" "is_pool (pe_app env)"
  shows "loop_rank A fl < n \<Longrightarrow>
    \<exists>out ns. failover_loop n env t fl = Some out \<and> sent_by out = rq_sent (fl_rq fl) @ ns \<and>
      set ns \<subseteq> A \<and> length ns \<le> 2 * send_rank A fl"
proof (induction n arbitrary: fl)
  case (Suc n)
  show ?case
  proof (cases "\<not> fl_quota fl \<and> fl_cur fl \<noteq> None")
    case True
    then show ?thesis by (simp add: sent_by_def)
  next
    case False
    obtain out where out: "failover_turn env t fl = out" by simp
    define fl' where "fl' = (case out of Inl e \<Rightarrow> snd e | Inr e \<Rightarrow> snd e)"
    note prog = turn_progress[OF A out, folded fl'_def]
    have step: "\<exists>ns. rq_sent (fl_rq fl') = rq_sent (fl_rq fl) @ ns \<and> set ns \<subseteq> A \<and>
        length ns + 2 * send_rank A fl' \<le> 2 * send_rank A fl \<and>
        ((\<exists>e. out = Inr (True, e)) \<longrightarrow> loop_rank A fl' < loop_rank A fl)"
      using prog
    proof (elim disjE bexE exE conjE)
      fix m k
      assume "m \<in> A" "k \<le> (2::nat)" "rq_sent (fl_rq fl') = rq_sent (fl_rq fl) @ replicate k m" "unseen A fl' < unseen A fl"
        "waits_left fl' = waits_left fl"
      then show ?thesis by (intro exI[of _ "replicate k m"]) (auto simp: send_rank_def loop_rank_def)
    next
      assume s: "rq_sent (fl_rq fl') = rq_sent (fl_rq fl)"
        and d: "if \<exists>e. out = Inr (True, e) then waits_left fl' < waits_left fl else waits_left fl' \<le> waits_left fl \<and> unseen A fl' = unseen A fl"
      show ?thesis
      proof (cases "\<exists>e. out = Inr (True, e)")
        case True
        with d have "waits_left fl' < waits_left fl" by simp
        from rank_down[OF this unseen_le[OF A(2), of fl'], of "unseen A fl"] s show ?thesis by (simp add: send_rank_def loop_rank_def)
      next
        case False
        with d have "waits_left fl' \<le> waits_left fl \<and> unseen A fl' = unseen A fl" by (simp only: if_False)
        with s False show ?thesis by (auto simp: send_rank_def)
      qed
    qed
    then obtain ns where ns: "rq_sent (fl_rq fl') = rq_sent (fl_rq fl) @ ns" "set ns \<subseteq> A"
      "length ns + 2 * send_rank A fl' \<le> 2 * send_rank A fl"
      "(\<exists>e. out = Inr (True, e)) \<Longrightarrow> loop_rank A fl' < loop_rank A fl" by blast
    show ?thesis
    proof (cases "\<exists>e. out = Inr (True, e)")
      case True
      then have "out = Inr (True, fl')" by (auto simp: fl'_def)
      with False out have go: "failover_loop (Suc n) env t fl = failover_loop n env t fl'" by auto
      from ns(4)[OF True] Suc.prems have "loop_rank A fl' < n" by simp
      from Suc.IH[OF this] obtain r ms where "failover_loop n env t fl' = Some r" "sent_by r = rq_sent (fl_rq fl') @ ms"
        "set ms \<subseteq> A" "length ms \<le> 2 * send_rank A fl'" by blast
      with go ns show ?thesis by (intro exI[of _ r] exI[of _ "ns @ ms"]) auto
    next
      case ends: False
      have "\<exists>r. failover_loop (Suc n) env t fl = Some r \<and> sent_by r = rq_sent (fl_rq fl')"
        using False out ends by (cases out) (auto simp: fl'_def sent_by_def split: bool.splits)
      with ns show ?thesis by fastforce
    qed
  qed
qed simp

text \<open>Property C33.
  One request always ends and asks the upstream a bounded number of times, however its members answer:
  with \<open>c\<close> members to choose from it is sent at most \<open>2 (9 c + 1)\<close> times (once plus a refreshed retry
  for each member, again after each of at most eight waits), and never for an identity other than one
  of the members or the canonical name of the first one picked. A pinned request is sent at most
  twice, for its own identity, and a body that cannot be replayed at most once.\<close>

theorem call_upstream_bounded:
  fixes rq :: "'w request"
  assumes "pool_within env A" "finite A" "picked \<in> A" "9 * (card A + 1) \<le> fuel"
  shows "\<exists>r ident rq' ns. call_upstream fuel env t picked rq = Some (r, ident, rq') \<and> rq_sent rq' = rq_sent rq @ ns \<and>
    set ns \<subseteq> insert (canon env rq picked) A \<and>
    length ns \<le> (if \<not> replayable env then 1 else if is_pool (pe_app env) then 2 * (9 * card A + 1) else 2)"
proof -
  let ?i = "canon env rq picked"
  obtain first rq1 where f: "attempt env ?i rq = (first, rq1)" by (cases rule: prod.exhaust)
  from attempt_sent[OF f] obtain k where k: "k \<le> (if replayable env then 2 else 1)" "rq_sent rq1 = rq_sent rq @ replicate k ?i"
    by blast
  show ?thesis
  proof (cases "is_pool (pe_app env) \<and> replayable env")
    case False
    with f have "call_upstream fuel env t picked rq = Some (first, ?i, rq1)"
      by (simp only: call_upstream_def Let_def prod.case if_True simp_thms)
    with k False show ?thesis by (intro exI[of _ first] exI[of _ ?i] exI[of _ rq1] exI[of _ "replicate k ?i"]) auto
  next
    case pool: True
    define start :: "'w failover" where "start = \<lparr> fl_name = picked, fl_tried = [], fl_cur = None, fl_quota = False,
      fl_identity = ?i, fl_credErr = None, fl_rq = rq1 \<rparr>"
    have loop: "\<exists>out ns. failover_loop fuel env t fl = Some out \<and> sent_by out = rq_sent rq1 @ ns \<and> set ns \<subseteq> A \<and>
        length ns \<le> 2 * (9 * card A)"
      if "fl_name fl = picked" "fl_tried fl = []" "rq_sent (fl_rq fl) = rq_sent rq1" for fl :: "'w failover"
    proof -
      have w: "waits_left fl \<le> 8" by (simp add: waits_left_def SHORT_HOLD_MAX_WAITS_def)
      then have "send_rank A fl \<le> 9 * card A" "loop_rank A fl < 9 * (card A + 1)"
        using unseen_le[OF assms(2), of fl] w mult_le_mono1[OF w, of "card A"]
        unfolding send_rank_def loop_rank_def mult_Suc_right add_mult_distrib2 by linarith+
      with failover_loop_ends[OF assms(1,2), of fl fuel t] pool assms(4) that(3) show ?thesis by fastforce
    qed
    have run: "\<exists>r ident rq' ns. map_option (\<lambda>out. case out of
                  Inl (err, fl) \<Rightarrow> (Inl err, fl_identity fl, fl_rq fl)
                | Inr fl \<Rightarrow> (case fl_cur fl of Some up \<Rightarrow> Inr up | None \<Rightarrow> Inl (default Other_Failure (fl_credErr fl)),
                    fl_identity fl, fl_rq fl)) (failover_loop fuel env t fl) = Some (r, ident, rq') \<and>
         rq_sent rq' = rq_sent rq @ ns \<and> set ns \<subseteq> insert ?i A \<and> length ns \<le> 2 * (9 * card A + 1)"
      if "fl_name fl = picked" "fl_tried fl = []" "rq_sent (fl_rq fl) = rq_sent rq1" for fl :: "'w failover"
    proof -
      from loop[OF that] obtain out ns where o: "failover_loop fuel env t fl = Some out" "sent_by out = rq_sent rq1 @ ns"
        "set ns \<subseteq> A" "length ns \<le> 2 * (9 * card A)" by blast
      have sub: "set (replicate k ?i @ ns) \<subseteq> insert ?i A" using o(3) by auto
      from o k pool sub show ?thesis
        by (cases out) (auto simp: sent_by_def split: prod.splits intro!: exI[of _ "replicate k ?i @ ns"])
    qed
    have stop: ?thesis if "call_upstream fuel env t picked rq = Some (r, ?i, rq1)" for r
      using that k pool assms(3) by (intro exI[of _ r] exI[of _ ?i] exI[of _ rq1] exI[of _ "replicate k ?i"]) auto
    show ?thesis
    proof (cases first)
      case (Inl err)
      show ?thesis
      proof (cases "aborted env rq1 \<or> \<not> isCredentialFailure err")
        case True
        with Inl f pool have "call_upstream fuel env t picked rq = Some (Inl err, ?i, rq1)"
          by (simp add: call_upstream_def Let_def)
        then show ?thesis by (rule stop)
      next
        case False
        with Inl f pool run[of "start\<lparr> fl_credErr := Some err, fl_rq := holdCredentialFailure env picked err rq1 \<rparr>"]
        show ?thesis by (simp add: call_upstream_def Let_def start_def)
      qed
    next
      case (Inr res)
      obtain q res' where q: "isQuota (ga_provider (pe_app env)) res = (q, res')" by (cases rule: prod.exhaust)
      with Inr f pool run[of "start\<lparr> fl_cur := Some res', fl_quota := q,
          fl_rq := (if q then holdQuota env picked res' rq1 else rq1) \<rparr>"]
      show ?thesis by (simp add: call_upstream_def Let_def start_def)
    qed
  qed
qed

text \<open>Two members answer: the first is over its limit, the other serves the request.\<close>

definition example_proxy :: "rat proxy_env" where
  "example_proxy = \<lparr>
     pe_deps = \<lparr> px_now = (\<lambda>w. w), px_aborted = (\<lambda>_. False), px_select = (\<lambda>_. example_select), px_signature = (\<lambda>_ _ _. None),
       px_creds = (\<lambda>_ n gw. (Inr \<lparr> pc_identity = n, pc_accessToken = n, pc_accountId = None, pc_expiresAtMs = None \<rparr>, gw)),
       px_refresh = (\<lambda>_ _ _ gw. (Inl Refresh_Cooldown, gw)),
       px_fetch = (\<lambda>hs _ gw. (Inr \<lparr> us_status = (if map_of hs ''authorization'' = Some ''Bearer b'' then 429 else 200),
         us_headers = [], us_body = True, us_peek = None \<rparr>, gw\<lparr> gw_world := gw_world gw + 1 \<rparr>)),
       px_pause = (\<lambda>gw. gw), px_sleep = (\<lambda>ms gw. gw\<lparr> gw_world := gw_world gw + ms \<rparr>) \<rparr>,
     pe_app = example_pool_app, pe_headers = [], pe_body = No_Body, pe_model = None,
     pe_clock = \<lparr> ck_parse = (\<lambda>_. None), ck_iso = (\<lambda>_. '''') \<rparr>, pe_num = (\<lambda>_. '''') \<rparr>"

definition example_request :: "rat request" where
  "example_request = \<lparr> rq_gw = \<lparr> gw_exhausted = [], gw_holds = [], gw_world = 0 \<rparr>, rq_waits = 0, rq_sent = [] \<rparr>"

theorem call_upstream_bounded_witness:
  "map_option (\<lambda>(r, i, rq). (i, rq_sent rq)) (call_upstream 36 example_proxy 0 ''b'' example_request) = Some (''c'', [''b'', ''c'']) \<and>
   (\<exists>r i rq'. call_upstream 36 example_proxy 0 ''b'' example_request = Some (r, i, rq') \<and> length (rq_sent rq') \<le> 56)"
proof -
  have names: "allowedMembers example_pool_app example_select = Some [''a'', ''b'', ''c'']" by code_simp
  have "pool_within example_proxy {''a'', ''b'', ''c''}"
    using names by (simp add: pool_within_def example_proxy_def)
  moreover have "replayable example_proxy \<and> is_pool (pe_app example_proxy)" by code_simp
  ultimately have "\<exists>r i rq'. call_upstream 36 example_proxy 0 ''b'' example_request = Some (r, i, rq') \<and> length (rq_sent rq') \<le> 56"
    using call_upstream_bounded[of example_proxy "{''a'', ''b'', ''c''}" "''b''" 36 0 example_request]
    by (fastforce simp: example_request_def)
  moreover have "map_option (\<lambda>(r, i, rq). (i, rq_sent rq)) (call_upstream 36 example_proxy 0 ''b'' example_request) = Some (''c'', [''b'', ''c''])"
    by code_simp
  ultimately show ?thesis by blast
qed

end
