(* ===== verification/Gateway_Request.thy ===== *)
theory Gateway_Request
  imports Gateway_Proxy Body_Budget
begin

text \<open>
  A whole request through the gateway: \<open>proxy\<close> of \<open>src/gateway/app.ts\<close> from the path to the end of
  the response, with \<open>readBody\<close>, the answers to refused requests, the usage row and the events of the
  relayed stream. The upstream part is \<open>Gateway_Proxy\<close>. Metrics and log lines are left out.
\<close>

section \<open>The request body\<close>

definition REPLAY_LIMIT_BYTES :: nat where
  "REPLAY_LIMIT_BYTES = 8 * 1024 * 1024"

text \<open>The body as the client sends it: the chunks, and whether it then breaks off.\<close>

datatype body_source = No_Stream | Stream "bytes list" bool

definition declaredLength :: "headers \<Rightarrow> rat option" where
  "declaredLength hs =
     (case header ''content-length'' hs of
        None \<Rightarrow> None
      | Some h \<Rightarrow> if js_trim h \<noteq> '''' \<and> list_all is_digit (js_trim h) then finite_number h else None)"

text \<open>\<open>None\<close> when the read throws; with a streamed body comes what the stream still gives.\<close>

fun read_chunks :: "bytes list \<Rightarrow> nat \<Rightarrow> bytes list \<Rightarrow> bool \<Rightarrow> (request_body \<times> bytes list) option" where
  "read_chunks chunks n (c # cs) broken =
     (if n + length c > REPLAY_LIMIT_BYTES then Some (Streamed, chunks @ [c] @ cs)
      else read_chunks (chunks @ [c]) (n + length c) cs broken)"
| "read_chunks chunks n [] broken = (if broken then None else Some (Buffered (concat chunks), []))"

definition within_limit :: "rat \<Rightarrow> bool" where
  "within_limit declared \<longleftrightarrow> declared \<le> of_nat REPLAY_LIMIT_BYTES"

definition readBody :: "headers \<Rightarrow> body_source \<Rightarrow> (request_body \<times> bytes list) option" where
  "readBody hs src =
     (case src of
        No_Stream \<Rightarrow> Some (No_Body, [])
      | Stream cs broken \<Rightarrow>
          (case declaredLength hs of
             Some d \<Rightarrow>
               if within_limit d then
                 (if broken \<or> of_nat (length (concat cs)) > d then None else Some (Buffered (concat cs), []))
               else Some (Streamed, cs)
           | None \<Rightarrow> read_chunks [] 0 cs broken))"

text \<open>The bytes a request reserves of the budget before its body is read.\<close>

definition reserve_amount :: "headers \<Rightarrow> body_source \<Rightarrow> int" where
  "reserve_amount hs src =
     (if src = No_Stream then 0
      else case declaredLength hs of
        Some d \<Rightarrow> if within_limit d then \<lfloor>d\<rfloor> else 0
      | None \<Rightarrow> int REPLAY_LIMIT_BYTES)"

section \<open>State and surroundings of a request\<close>

text \<open>
  \<open>ge_store\<close> is the store as the world has it, \<open>None\<close> while the database is away and every call throws;
  \<open>ge_wait\<close> waits for the body budget and says whether the reservation was granted.
\<close>

record ('w, 'd) gateway_env =
  ge_deps :: "'w proxy_deps"
  ge_store :: "'w \<Rightarrow> gateway_store option"
  ge_wait :: "int \<Rightarrow> 'w gateway \<Rightarrow> bool \<times> 'w gateway"
  ge_perf :: "'w \<Rightarrow> rat"
  ge_sha :: "string \<Rightarrow> string"
  ge_un64 :: "string \<Rightarrow> string"
  ge_clock :: clock
  ge_num :: "rat \<Rightarrow> string"
  ge_json :: "bytes \<Rightarrow> json option"
  ge_price :: "string \<Rightarrow> list_model_price option"
  ge_tap :: tap_env
  ge_decoder :: "'d text_decoder"

record incoming =
  ic_path :: string
  ic_search :: string
  ic_headers :: headers
  ic_body :: body_source

text \<open>A request being served: its state, the rows it has pushed to the ledger, and whether it has recorded.\<close>

record 'w exchange =
  ex_rq :: "'w request"
  ex_rows :: "usage_row list"
  ex_recorded :: bool

definition gw_of :: "'w exchange \<Rightarrow> 'w gateway" where
  "gw_of ex = rq_gw (ex_rq ex)"

definition with_gw :: "'w gateway \<Rightarrow> 'w exchange \<Rightarrow> 'w exchange" where
  "with_gw gw ex = ex\<lparr> ex_rq := (ex_rq ex)\<lparr> rq_gw := gw \<rparr> \<rparr>"

text \<open>\<open>deps.now()\<close> in whole milliseconds.\<close>

definition time_of :: "('w, 'd) gateway_env \<Rightarrow> 'w gateway \<Rightarrow> int" where
  "time_of ge gw = \<lfloor>px_now (ge_deps ge) (gw_world gw)\<rfloor>"

definition gone :: "('w, 'd) gateway_env \<Rightarrow> 'w exchange \<Rightarrow> bool" where
  "gone ge ex = px_aborted (ge_deps ge) (gw_world (gw_of ex))"

section \<open>The usage row\<close>

definition usage_row_of :: "('w, 'd) gateway_env \<Rightarrow> gateway_app \<Rightarrow> rat \<Rightarrow> string \<Rightarrow> string \<Rightarrow> int \<Rightarrow> usage_counts option \<Rightarrow> bool \<Rightarrow>
    string option \<Rightarrow> 'w gateway \<Rightarrow> usage_row" where
  "usage_row_of ge app started identity outcome httpStatus counts streamed model gw =
     (let c = default \<lparr> uc_model = None, uc_inputTokens = 0, uc_outputTokens = 0, uc_cacheReadTokens = 0,
                        uc_cacheWriteTokens = 0 \<rparr> counts;
          named = (\<lambda>c. c\<lparr> uc_model := (if uc_model c = None then model else uc_model c) \<rparr>)
      in \<lparr> ur_ts = ck_iso (ge_clock ge) (time_of ge gw), ur_app = ga_name app, ur_provider = ga_provider app,
           ur_identity = identity, ur_model = uc_model (named c), ur_inputTokens = uc_inputTokens c,
           ur_outputTokens = uc_outputTokens c, ur_cacheReadTokens = uc_cacheReadTokens c,
           ur_cacheWriteTokens = uc_cacheWriteTokens c,
           ur_estCostUsd = Option.bind counts (\<lambda>k. estimateCost (ge_price ge) (ga_provider app) (named k)),
           ur_status = outcome, ur_httpStatus = httpStatus,
           ur_latencyMs = \<lfloor>js_round (ge_perf ge (gw_world gw) - started)\<rfloor>, ur_streamed = streamed \<rparr>)"

definition record_usage :: "('w, 'd) gateway_env \<Rightarrow> gateway_app \<Rightarrow> rat \<Rightarrow> string \<Rightarrow> string \<Rightarrow> int \<Rightarrow> usage_counts option \<Rightarrow> bool \<Rightarrow>
    string option \<Rightarrow> 'w exchange \<Rightarrow> 'w exchange" where
  "record_usage ge app started identity outcome httpStatus counts streamed model ex =
     (if ex_recorded ex then ex
      else ex\<lparr> ex_recorded := True,
        ex_rows := ex_rows ex @ [usage_row_of ge app started identity outcome httpStatus counts streamed model (gw_of ex)] \<rparr>)"

section \<open>Replies\<close>

text \<open>A reply of the gateway itself, one without a body, or the upstream's body relayed.\<close>

record 'd relay =
  rl_status :: int
  rl_headers :: headers
  rl_tap :: "'d usage_tap"
  rl_identity :: string
  rl_aborted :: bool

datatype 'd reply = Local gw_response | Empty int headers | Relayed "'d relay"

fun reply_status :: "'d reply \<Rightarrow> int" where
  "reply_status (Local r) = rs_status r"
| "reply_status (Empty s _) = s"
| "reply_status (Relayed rl) = rl_status rl"

definition error_response :: "api_style \<Rightarrow> int \<Rightarrow> string \<Rightarrow> gw_response" where
  "error_response style code message =
     (case providerError style code message of
        (s, body) \<Rightarrow> \<lparr> rs_status = s, rs_headers = [(''content-type'', ''application/json'')], rs_body = body \<rparr>)"

definition GATEWAY_MARK_HEADER :: string where
  "GATEWAY_MARK_HEADER = ''x-ais-gateway''"

definition mark :: "headers \<Rightarrow> headers" where
  "mark hs = header_set GATEWAY_MARK_HEADER ''1'' hs"

fun markGatewayResponse :: "'d reply \<Rightarrow> 'd reply" where
  "markGatewayResponse (Local r) = Local (r\<lparr> rs_headers := mark (rs_headers r) \<rparr>)"
| "markGatewayResponse (Empty s hs) = Empty s (mark hs)"
| "markGatewayResponse (Relayed rl) = Relayed (rl\<lparr> rl_headers := mark (rl_headers rl) \<rparr>)"

section \<open>Authentication\<close>

definition app_segment :: "string \<Rightarrow> string" where
  "app_segment path = takeWhile (\<lambda>c. c \<noteq> CHR ''/'') (drop 1 path)"

definition decodeSegment :: "string \<Rightarrow> string" where
  "decodeSegment s = default '''' (decodeURIComponent s)"

definition rest_of :: "string \<Rightarrow> string" where
  "rest_of path = dropWhile (\<lambda>c. c \<noteq> CHR ''/'') (drop 1 path)"

text \<open>The app of the request, or the reply to one that is not let in.\<close>

definition authenticate :: "('w, 'd) gateway_env \<Rightarrow> incoming \<Rightarrow> 'w gateway \<Rightarrow> (gw_response + gateway_app) \<times> 'w gateway" where
  "authenticate ge req gw0 =
     (let path = ic_path req; appName = decodeSegment (app_segment path); guess = guessStyle path;
          gw1 = (if appName = '''' then gw0 else px_pause (ge_deps ge) gw0);
          unavailable = (\<lambda>style. error_response style 502 ''gateway store unavailable'')
      in case (if appName = '''' then Some None else map_option (getApp appName) (ge_store ge (gw_world gw1))) of
           None \<Rightarrow> (Inl (unavailable guess), gw1)
         | Some None \<Rightarrow> (Inl (error_response guess 404 ''not found''), gw1)
         | Some (Some app) \<Rightarrow>
             (let style = ga_style app;
                  token = (if queryCarriesToken (ic_search req) then None
                           else extractToken (ge_un64 ge) (ic_headers req) (ga_name app));
                  gw2 = (if token = None then gw1 else px_pause (ge_deps ge) gw1)
              in case token of
                   None \<Rightarrow> (Inl (error_response style 401 ''invalid or missing gateway token''), gw2)
                 | Some t \<Rightarrow>
                     (case ge_store ge (gw_world gw2) of
                        None \<Rightarrow> (Inl (unavailable style), gw2)
                      | Some st \<Rightarrow>
                          if verifyToken (ge_sha ge) (ge_clock ge) st (ga_name app) t (time_of ge gw1)
                          then (Inr app, gw2)
                          else (Inl (error_response style 401 ''invalid or missing gateway token''), gw2))))"

definition styleForPath :: "('w, 'd) gateway_env \<Rightarrow> string \<Rightarrow> 'w gateway \<Rightarrow> api_style" where
  "styleForPath ge path gw =
     (let appName = decodeSegment (app_segment path) in
      case (if appName = '''' then None else Option.bind (ge_store ge (gw_world gw)) (getApp appName)) of
        Some app \<Rightarrow> ga_style app
      | None \<Rightarrow> guessStyle path)"

section \<open>Requests that are refused\<close>

definition respond :: "('w, 'd) gateway_env \<Rightarrow> gateway_app \<Rightarrow> rat \<Rightarrow> string \<Rightarrow> string \<Rightarrow> string option \<Rightarrow> gw_response \<Rightarrow> 'w exchange \<Rightarrow>
    'd reply \<times> 'w exchange" where
  "respond ge app started identity outcome model res ex =
     (Local res, record_usage ge app started identity outcome (rs_status res) None False model ex)"

definition reject :: "('w, 'd) gateway_env \<Rightarrow> gateway_app \<Rightarrow> rat \<Rightarrow> string \<Rightarrow> string option \<Rightarrow> int \<Rightarrow> string \<Rightarrow> 'w exchange \<Rightarrow>
    'd reply \<times> 'w exchange" where
  "reject ge app started identity model code message ex =
     respond ge app started identity ''rejected'' model (error_response (ga_style app) code message) ex"

definition client_left :: "('w, 'd) gateway_env \<Rightarrow> gateway_app \<Rightarrow> rat \<Rightarrow> string \<Rightarrow> string option \<Rightarrow> 'w exchange \<Rightarrow>
    'd reply \<times> 'w exchange" where
  "client_left ge app started identity model ex =
     (Empty 499 [], record_usage ge app started identity ''client_aborted'' 499 None False model ex)"

text \<open>The outer \<open>catch\<close>: whatever is thrown after authentication and not handled.\<close>

definition fail_request :: "('w, 'd) gateway_env \<Rightarrow> gateway_app \<Rightarrow> rat \<Rightarrow> string \<Rightarrow> string option \<Rightarrow> 'w exchange \<Rightarrow>
    'd reply \<times> 'w exchange" where
  "fail_request ge app started identity model ex =
     (if gone ge ex then client_left ge app started identity model ex
      else respond ge app started identity ''error'' model (error_response (ga_style app) 500 ''gateway error'') ex)"

definition hold_of :: "'w proxy_env \<Rightarrow> 'w request \<Rightarrow> string \<Rightarrow> hold option" where
  "hold_of env rq n = map_of (gw_holds (rq_gw rq)) (exKey (pe_app env) n)"

definition credential_held :: "'w proxy_env \<Rightarrow> 'w request \<Rightarrow> string list" where
  "credential_held env rq =
     map (\<lambda>e. snd (fst e)) (filter (\<lambda>e. \<not> hd_burst (snd e) \<and> fst (fst e) = ga_provider (pe_app env)) (gw_holds (rq_gw rq)))"

text \<open>
  The held member a refused pool request would have got, a burst-held one before a credential-held one;
  \<open>None\<close> when a choice throws.
\<close>

definition held_choice :: "'w proxy_env \<Rightarrow> 'w request \<Rightarrow> (string \<times> hold) option option \<times> 'w request" where
  "held_choice env rq =
     (let (names, rq1) = exhaustedNames env rq; quotaOut = filter (\<lambda>n. hold_of env rq1 n = None) names
      in case pick_now env quotaOut rq1 of
           (None, rq2) \<Rightarrow> (None, rq2)
         | (Some (Reject _), rq2) \<Rightarrow> (Some None, rq2)
         | (Some (Identity n), rq2) \<Rightarrow>
             (case hold_of env rq2 n of
                None \<Rightarrow> (Some None, rq2)
              | Some h \<Rightarrow>
                  if hd_burst h then (Some (Some (n, h)), rq2)
                  else
                    (case pick_now env (quotaOut @ credential_held env rq2) rq2 of
                       (None, rq3) \<Rightarrow> (None, rq3)
                     | (Some (Reject _), rq3) \<Rightarrow> (Some (Some (n, h)), rq3)
                     | (Some (Identity m), rq3) \<Rightarrow>
                         (case hold_of env rq3 m of
                            Some k \<Rightarrow> (Some (Some (if hd_burst k then (m, k) else (n, h))), rq3)
                          | None \<Rightarrow> (Some (Some (n, h)), rq3)))))"

definition retry_seconds :: "'w proxy_env \<Rightarrow> string \<Rightarrow> 'w request \<Rightarrow> int" where
  "retry_seconds env n rq =
     (let until = default 0 (map_of (gw_exhausted (rq_gw rq)) (exKey (pe_app env) n))
      in min 60 (max 1 \<lceil>(until - now_of env rq) / 1000\<rceil>))"

fun refusal_text :: "gateway_provider \<Rightarrow> reject_reason \<Rightarrow> string" where
  "refusal_text p Reserve = ''identity is at its usage reserve''"
| "refusal_text p No_Identities = ''no identities configured for '' @ provider_text p"
| "refusal_text p No_Headroom = ''no pool member has headroom below the reserve''"

definition refuse :: "('w, 'd) gateway_env \<Rightarrow> 'w proxy_env \<Rightarrow> rat \<Rightarrow> string \<Rightarrow> reject_reason \<Rightarrow> 'w exchange \<Rightarrow>
    'd reply \<times> 'w exchange" where
  "refuse ge env started identity why ex =
     (let app = pe_app env; model = pe_model env; style = ga_style app; short = (why = No_Headroom \<and> is_pool app);
          (held, rq) = (if short then held_choice env (snd (exhaustedNames env (ex_rq ex))) else (Some None, ex_rq ex));
          ex1 = ex\<lparr> ex_rq := rq \<rparr>
      in case held of
           None \<Rightarrow> fail_request ge app started identity model ex1
         | Some (Some (n, h)) \<Rightarrow>
             if hd_burst h then
               (let res = error_response style 429 ''upstream rate limit: retry shortly''
                in respond ge app started identity ''rejected'' model
                     (res\<lparr> rs_headers := header_set ''retry-after'' (pe_num env (of_int (retry_seconds env n rq))) (rs_headers res) \<rparr>) ex1)
             else respond ge app started identity ''credential_error'' model
                    (error_response style 502 (default ''upstream credential unavailable'' (hd_message h))) ex1
         | Some None \<Rightarrow>
             let gw = px_pause (ge_deps ge) (rq_gw rq); ex2 = with_gw gw ex1;
                 native = (if why = No_Identities then None
                   else nativeLimitResponse (ge_clock ge) (ge_num ge) (ga_provider app)
                          (memberUsages app (px_select (ge_deps ge) (gw_world gw))) (reserve_of app) (px_now (ge_deps ge) (gw_world gw)))
             in (case native of
                   Some res \<Rightarrow> respond ge app started identity ''rejected'' model res ex2
                 | None \<Rightarrow> reject ge app started identity model 429 (refusal_text (ga_provider app) why) ex2))"

section \<open>The upstream's answer\<close>

definition credential_unavailable :: string where
  "credential_unavailable = ''upstream credential unavailable''"

definition upstream_failed :: "('w, 'd) gateway_env \<Rightarrow> gateway_app \<Rightarrow> rat \<Rightarrow> string \<Rightarrow> string option \<Rightarrow> attempt_error \<Rightarrow> 'w exchange \<Rightarrow>
    'd reply \<times> 'w exchange" where
  "upstream_failed ge app started identity model err ex =
     (if gone ge ex then client_left ge app started identity model ex
      else
        let answer = (\<lambda>outcome message. respond ge app started identity outcome model (error_response (ga_style app) 502 message) ex)
        in case err of
             Credential_Error _ message \<Rightarrow> answer ''credential_error'' message
           | _ \<Rightarrow> if isCredentialFailure err then answer ''credential_error'' credential_unavailable
                  else answer ''upstream_error'' ''upstream request failed'')"

definition finish :: "('w, 'd) gateway_env \<Rightarrow> gateway_app \<Rightarrow> rat \<Rightarrow> string option \<Rightarrow> string \<Rightarrow> 'd relay \<Rightarrow> 'w exchange \<Rightarrow>
    'd relay \<times> 'w exchange" where
  "finish ge app started model outcome rl ex =
     (case result_tap (ge_tap ge) (ge_decoder ge) (rl_tap rl) of
        (counts, tap) \<Rightarrow>
          (rl\<lparr> rl_tap := tap \<rparr>,
           record_usage ge app started (rl_identity rl) outcome (rl_status rl) (Some counts) (isSse tap) model ex))"

definition ok_outcome :: "int \<Rightarrow> string" where
  "ok_outcome code = (if code \<ge> 400 then ''upstream_error'' else ''ok'')"

definition relayed_headers :: "headers \<Rightarrow> headers option" where
  "relayed_headers hs =
     map_option (\<lambda>h. if header ''content-encoding'' h = None then h
                     else header_delete ''content-length'' (header_delete ''content-encoding'' h))
       (stripHopByHop (header_delete ''x-ais-subscription-exhausted'' hs))"

definition relay_answer :: "('w, 'd) gateway_env \<Rightarrow> gateway_app \<Rightarrow> rat \<Rightarrow> string \<Rightarrow> string option \<Rightarrow> upstream \<Rightarrow> 'w exchange \<Rightarrow>
    'd reply \<times> 'w exchange" where
  "relay_answer ge app started identity model up ex =
     (case relayed_headers (us_headers up) of
        None \<Rightarrow> fail_request ge app started identity model ex
      | Some hs \<Rightarrow>
          let tap = new_usage_tap (ge_decoder ge) (ad_usageStyle (adapterFor (ga_provider app)) (ga_style app))
                      (default '''' (header ''content-type'' (us_headers up)));
              rl = \<lparr> rl_status = us_status up, rl_headers = hs, rl_tap = tap, rl_identity = identity, rl_aborted = False \<rparr>
          in if us_body up then (Relayed rl, ex)
             else (Empty (us_status up) hs, snd (finish ge app started model (ok_outcome (us_status up)) rl ex)))"

text \<open>
  The stream to the client: what the upstream's reader gives, and the ways the client leaves. An event
  comes with the shared state of its moment.
\<close>

datatype relay_event = Read_Chunk bytes | Read_Done | Read_Failed | Client_Cancel | Client_Gone

definition relay_step :: "('w, 'd) gateway_env \<Rightarrow> gateway_app \<Rightarrow> rat \<Rightarrow> string option \<Rightarrow> 'w gateway \<times> relay_event \<Rightarrow>
    'd relay \<times> 'w exchange \<Rightarrow> 'd relay \<times> 'w exchange" where
  "relay_step ge app started model e s =
     (let rl = fst s; ex = with_gw (fst e) (snd s); end = (\<lambda>outcome rl. finish ge app started model outcome rl ex)
      in case snd e of
           Read_Chunk b \<Rightarrow> (rl\<lparr> rl_tap := write_tap (ge_tap ge) (ge_decoder ge) b (rl_tap rl) \<rparr>, ex)
         | Read_Done \<Rightarrow> end (ok_outcome (rl_status rl)) rl
         | Read_Failed \<Rightarrow> end (if rl_aborted rl then ''client_aborted'' else ''stream_error'') rl
         | Client_Cancel \<Rightarrow> end ''client_aborted'' (rl\<lparr> rl_aborted := True \<rparr>)
         | Client_Gone \<Rightarrow> end ''client_aborted'' (rl\<lparr> rl_aborted := True \<rparr>))"

section \<open>Serving a request\<close>

text \<open>The loop of the first choice: it goes on as long as there is a wait left, so it ends.\<close>

lemma exhausted_waits: "exhaustedNames env rq = (held, rq') \<Longrightarrow> rq_waits rq' = rq_waits rq"
  using quiet(2)[of env rq] by simp

function await_choice :: "'w proxy_env \<Rightarrow> rat \<Rightarrow> pick option \<Rightarrow> 'w request \<Rightarrow> pick option \<times> 'w request" where
  "await_choice env waitStart p rq =
     (if p = Some (Reject No_Headroom) then
        (case waitForShortHold env waitStart rq of
           (None, rq1) \<Rightarrow> (None, rq1)
         | (Some False, rq1) \<Rightarrow> (p, rq1)
         | (Some True, rq1) \<Rightarrow>
             (case exhaustedNames env rq1 of
                (held, rq2) \<Rightarrow>
                  (case pick_now env held rq2 of (q, rq3) \<Rightarrow> await_choice env waitStart q rq3)))
      else (p, rq))"
  by pat_completeness auto
termination
  by (relation "measure (\<lambda>(_, _, _, rq). SHORT_HOLD_MAX_WAITS - rq_waits rq)")
     (auto dest!: wait_quiet[OF sym] exhausted_waits[OF sym] simp: split_beta)

declare await_choice.simps [simp del]

definition first_choice :: "'w proxy_env \<Rightarrow> rat \<Rightarrow> 'w request \<Rightarrow> pick option \<times> 'w request" where
  "first_choice env waitStart rq =
     (let (held, rq1) = (if is_pool (pe_app env) then exhaustedNames env rq else ([], rq));
          (p, rq2) = pick_now env held rq1
      in await_choice env waitStart p rq2)"

definition caps_refusal :: "caps_answer \<Rightarrow> (int \<times> string) option" where
  "caps_refusal c =
     (case c of
        Caps_Ok \<Rightarrow> None
      | Model_Refused \<Rightarrow> Some (403, ''model not allowed for this app'')
      | Cap_Reached \<Rightarrow> Some (429, ''daily token cap reached''))"

text \<open>The tokens used today; an app whose ledger cannot be read counts as having used none.\<close>

definition used_today :: "('w, 'd) gateway_env \<Rightarrow> gateway_app \<Rightarrow> 'w gateway \<Rightarrow> int" where
  "used_today ge app gw =
     (if ga_dailyTokens app = None then 0
      else case ge_store ge (gw_world gw) of
        None \<Rightarrow> 0
      | Some st \<Rightarrow> usageSince (ck_parse (ge_clock ge)) (ga_name app) (dayStartIct (time_of ge gw)) st)"

definition row_identity :: "('w, 'd) gateway_env \<Rightarrow> gateway_app \<Rightarrow> 'w gateway \<Rightarrow> string" where
  "row_identity ge app gw =
     (case ga_target app of
        Pin i \<Rightarrow> canonical_name (px_select (ge_deps ge) (gw_world gw)) (ga_provider app) i
      | Pool _ \<Rightarrow> ''-'')"

definition request_env :: "('w, 'd) gateway_env \<Rightarrow> gateway_app \<Rightarrow> incoming \<Rightarrow> request_body \<Rightarrow> string option \<Rightarrow> 'w proxy_env" where
  "request_env ge app req body model =
     \<lparr> pe_deps = ge_deps ge, pe_app = app, pe_headers = ic_headers req, pe_body = body, pe_model = model,
       pe_clock = ge_clock ge, pe_num = ge_num ge \<rparr>"

text \<open>From the choice of an identity to the reply.\<close>

definition dispatch_request :: "nat \<Rightarrow> ('w, 'd) gateway_env \<Rightarrow> 'w proxy_env \<Rightarrow> rat \<Rightarrow> string \<Rightarrow> 'w exchange \<Rightarrow>
    ('d reply \<times> 'w exchange) option" where
  "dispatch_request fuel ge env started identity ex =
     (let app = pe_app env; model = pe_model env; waitStart = now_of env (ex_rq ex) in
      case first_choice env waitStart (ex_rq ex) of
        (None, rq) \<Rightarrow> Some (fail_request ge app started identity model (ex\<lparr> ex_rq := rq \<rparr>))
      | (Some (Reject why), rq) \<Rightarrow> Some (refuse ge env started identity why (ex\<lparr> ex_rq := rq \<rparr>))
      | (Some (Identity picked), rq) \<Rightarrow>
          if ad_upstreamBase (adapterFor (ga_provider app)) (ga_style app) = None
          then Some (fail_request ge app started identity model (ex\<lparr> ex_rq := rq \<rparr>))
          else
            map_option (\<lambda>(r, served, rq'). case r of
                Inl err \<Rightarrow> upstream_failed ge app started served model err (ex\<lparr> ex_rq := rq' \<rparr>)
              | Inr up \<Rightarrow> relay_answer ge app started served model up (ex\<lparr> ex_rq := rq' \<rparr>))
              (call_upstream fuel env waitStart picked rq))"

text \<open>\<open>run\<close>: the checks before an identity is chosen.\<close>

definition serve :: "nat \<Rightarrow> ('w, 'd) gateway_env \<Rightarrow> gateway_app \<Rightarrow> incoming \<Rightarrow> rat \<Rightarrow> 'w exchange \<Rightarrow> ('d reply \<times> 'w exchange) option" where
  "serve fuel ge app req started ex =
     (let style = ga_style app; identity = row_identity ge app (gw_of ex); pause = px_pause (ge_deps ge) in
      if \<not> pathAllowed (rest_of (ic_path req)) style
      then Some (reject ge app started identity None 400 ''encoded slashes and dot segments are not allowed in the path'' ex)
      else
        let amount = reserve_amount (ic_headers req) (ic_body req);
            (granted, gw1) = (if amount > 0 then ge_wait ge amount (gw_of ex) else (True, gw_of ex));
            gw2 = (if granted then pause gw1 else gw1)
        in case (if granted then readBody (ic_headers req) (ic_body req) else None) of
             None \<Rightarrow>
               (let ex2 = with_gw gw2 ex; ex3 = (if gone ge ex2 then ex2 else with_gw (pause gw2) ex2)
                in Some (if gone ge ex3 then client_left ge app started identity None ex3
                         else reject ge app started identity None 400 ''request body could not be read'' ex3))
           | Some (body, _) \<Rightarrow>
               (let model = requestModel (ge_json ge) body; ex2 = with_gw gw2 ex in
                if ga_models app \<noteq> None \<and> ga_models app \<noteq> Some [] \<and> body = Streamed
                then Some (reject ge app started identity model 413 ''request too large to verify the model allowlist'' ex2)
                else
                  let ex3 = with_gw (pause gw2) ex2 in
                  case caps_refusal (checkCaps app model (used_today ge app (gw_of ex3))) of
                    Some (code, message) \<Rightarrow> Some (reject ge app started identity model code message ex3)
                  | None \<Rightarrow> dispatch_request fuel ge (request_env ge app req body model) started identity ex3))"

definition proxy :: "nat \<Rightarrow> ('w, 'd) gateway_env \<Rightarrow> incoming \<Rightarrow> 'w exchange \<Rightarrow> ('d reply \<times> 'w exchange) option" where
  "proxy fuel ge req ex =
     (case authenticate ge req (gw_of ex) of
        (Inl res, gw) \<Rightarrow> Some (Local res, with_gw gw ex)
      | (Inr app, gw) \<Rightarrow> serve fuel ge app req (ge_perf ge (gw_world (gw_of ex))) (with_gw gw ex))"

definition handle :: "nat \<Rightarrow> ('w, 'd) gateway_env \<Rightarrow> incoming \<Rightarrow> 'w exchange \<Rightarrow> ('d reply \<times> 'w exchange) option" where
  "handle fuel ge req ex = map_option (\<lambda>(r, ex'). (markGatewayResponse r, ex')) (proxy fuel ge req ex)"

section \<open>One row for every request that is let in\<close>

lemma error_response_status [simp]: "rs_status (error_response style code message) = code"
  by (simp add: error_response_def providerError_def Let_def)

text \<open>A finished reply has pushed one row, which names the app and the status the client got.\<close>

definition row_for :: "gateway_app \<Rightarrow> int \<Rightarrow> usage_row list \<Rightarrow> 'w exchange \<Rightarrow> bool" where
  "row_for app code rows ex \<longleftrightarrow>
     ex_recorded ex \<and> (\<exists>row. ex_rows ex = rows @ [row] \<and> ur_app row = ga_name app \<and> ur_provider row = ga_provider app \<and>
       ur_httpStatus row = code)"

definition answered :: "gateway_app \<Rightarrow> usage_row list \<Rightarrow> 'd reply \<times> 'w exchange \<Rightarrow> bool" where
  "answered app rows out \<longleftrightarrow>
     (case fst out of
        Relayed rl \<Rightarrow> ex_rows (snd out) = rows \<and> \<not> ex_recorded (snd out)
      | r \<Rightarrow> row_for app (reply_status r) rows (snd out))"

definition unrecorded :: "usage_row list \<Rightarrow> 'w exchange \<Rightarrow> bool" where
  "unrecorded rows ex \<longleftrightarrow> \<not> ex_recorded ex \<and> ex_rows ex = rows"

lemma unrecorded_update [simp]:
  "unrecorded rows (ex\<lparr> ex_rq := rq \<rparr>) = unrecorded rows ex" "unrecorded rows (with_gw gw ex) = unrecorded rows ex"
  by (simp_all add: unrecorded_def with_gw_def)

lemma record_usage_row:
  "unrecorded rows ex \<Longrightarrow> row_for app code rows (record_usage ge app started identity outcome code counts streamed model ex)"
  by (simp add: unrecorded_def row_for_def record_usage_def usage_row_of_def Let_def)

lemma respond_answered: "unrecorded rows ex \<Longrightarrow> answered app rows (respond ge app started identity outcome model res ex)"
  by (simp add: respond_def answered_def record_usage_row)

lemma reject_answered: "unrecorded rows ex \<Longrightarrow> answered app rows (reject ge app started identity model code message ex)"
  by (simp add: reject_def respond_answered)

lemma client_left_answered: "unrecorded rows ex \<Longrightarrow> answered app rows (client_left ge app started identity model ex)"
  by (simp add: client_left_def answered_def record_usage_row)

lemma fail_answered: "unrecorded rows ex \<Longrightarrow> answered app rows (fail_request ge app started identity model ex)"
  by (simp add: fail_request_def respond_answered client_left_answered)

lemmas answers = respond_answered reject_answered client_left_answered fail_answered

lemma refuse_answered:
  assumes "unrecorded rows ex"
  shows "answered (pe_app env) rows (refuse ge env started identity why ex)"
proof -
  let ?h = "if why = No_Headroom \<and> is_pool (pe_app env) then held_choice env (snd (exhaustedNames env (ex_rq ex)))
    else (Some None, ex_rq ex)"
  obtain held rq where h: "?h = (held, rq)" by (cases rule: prod.exhaust)
  have u: "unrecorded rows (ex\<lparr> ex_rq := rq \<rparr>)" using assms by simp
  note run = refuse_def Let_def h prod.case
  show ?thesis
  proof (cases held)
    case None
    show ?thesis unfolding run None option.case by (rule fail_answered[OF u])
  next
    case (Some s)
    show ?thesis
    proof (cases s)
      case None
      with u show ?thesis unfolding run Some None option.case by (auto intro!: answers split: option.splits)
    next
      case nh: (Some nh)
      with u show ?thesis unfolding run Some nh option.case by (auto intro!: answers split: prod.splits)
    qed
  qed
qed

lemma upstream_failed_answered:
  "unrecorded rows ex \<Longrightarrow> answered app rows (upstream_failed ge app started identity model err ex)"
  by (auto simp: upstream_failed_def Let_def intro!: answers split: attempt_error.splits)

lemma finish_row: "unrecorded rows ex \<Longrightarrow> row_for app (rl_status rl) rows (snd (finish ge app started model outcome rl ex))"
  by (auto simp: finish_def record_usage_row split: prod.splits)

lemma relay_answered: "unrecorded rows ex \<Longrightarrow> answered app rows (relay_answer ge app started identity model up ex)"
proof -
  assume u: "unrecorded rows ex"
  show ?thesis
  proof (cases "relayed_headers (us_headers up)")
    case None
    with u show ?thesis by (simp add: relay_answer_def fail_answered)
  next
    case (Some hs)
    show ?thesis
    proof (cases "us_body up")
      case True
      with Some u show ?thesis by (simp add: relay_answer_def Let_def answered_def unrecorded_def)
    next
      case False
      with Some finish_row[OF u, of app "\<lparr> rl_status = us_status up, rl_headers = hs, rl_tap = _, rl_identity = _, rl_aborted = _ \<rparr>"]
      show ?thesis by (simp add: relay_answer_def Let_def answered_def)
    qed
  qed
qed

lemma delivered:
  "unrecorded rows ex \<Longrightarrow>
     answered app rows (case r of Inl err \<Rightarrow> upstream_failed ge app started identity model err ex
       | Inr up \<Rightarrow> relay_answer ge app started identity model up ex)"
  by (cases r) (simp_all add: upstream_failed_answered relay_answered)

lemma dispatch_answered:
  assumes u: "unrecorded rows ex" and run: "dispatch_request fuel ge env started identity ex = Some out"
  shows "answered (pe_app env) rows out"
proof -
  obtain p rq where p: "first_choice env (now_of env (ex_rq ex)) (ex_rq ex) = (p, rq)" by (cases rule: prod.exhaust)
  from u have "unrecorded rows (ex\<lparr> ex_rq := r \<rparr>)" for r by simp
  with run p show ?thesis
    by (auto simp: dispatch_request_def Let_def split: option.splits pick.splits if_splits
        intro!: fail_answered refuse_answered delivered)
qed

lemma serve_answered:
  assumes u: "unrecorded rows ex" and run: "serve fuel ge app req started ex = Some out"
  shows "answered app rows out"
proof (cases "pathAllowed (rest_of (ic_path req)) (ga_style app)")
  case False
  with run u show ?thesis by (auto simp: serve_def Let_def intro: reject_answered)
next
  case True
  define start where "start = (if reserve_amount (ic_headers req) (ic_body req) > 0
    then ge_wait ge (reserve_amount (ic_headers req) (ic_body req)) (gw_of ex) else (True, gw_of ex))"
  obtain granted gw where s: "start = (granted, gw)" by (cases rule: prod.exhaust)
  note step = run[unfolded serve_def Let_def if_not_P[OF not_not[THEN iffD2, OF True]] start_def[symmetric] s prod.case]
  from u have u': "unrecorded rows (with_gw g ex)" "unrecorded rows (with_gw g (with_gw g' ex))" for g g' by simp_all
  show ?thesis
  proof (cases "if granted then readBody (ic_headers req) (ic_body req) else None")
    case None
    from step[unfolded None option.case] u' show ?thesis by (auto intro: answers split: if_splits)
  next
    case (Some b)
    from step[unfolded Some option.case] u' show ?thesis
      by (auto simp: request_env_def intro: answers dest: dispatch_answered[OF u'(2)] split: if_splits option.splits prod.splits)
  qed
qed

text \<open>Streaming: the row is pushed by the first event that ends the response, and by no later one.\<close>

definition relay_run :: "('w, 'd) gateway_env \<Rightarrow> gateway_app \<Rightarrow> rat \<Rightarrow> string option \<Rightarrow> ('w gateway \<times> relay_event) list \<Rightarrow>
    'd relay \<times> 'w exchange \<Rightarrow> 'd relay \<times> 'w exchange" where
  "relay_run ge app started model evs s = foldl (\<lambda>s e. relay_step ge app started model e s) s evs"

fun ends_response :: "relay_event \<Rightarrow> bool" where
  "ends_response (Read_Chunk _) = False"
| "ends_response _ = True"

lemma recorded_stays: "ex_recorded ex \<Longrightarrow> record_usage ge app started identity outcome code counts streamed model ex = ex"
  by (simp add: record_usage_def)

lemma row_for_with_gw [simp]: "row_for app code rows (with_gw gw ex) = row_for app code rows ex"
  by (simp add: row_for_def with_gw_def)

lemma relay_step_status [simp]: "rl_status (fst (relay_step ge app started model e s)) = rl_status (fst s)"
  by (cases "snd e") (auto simp: relay_step_def Let_def finish_def split: prod.splits)

lemma relay_step_recorded:
  assumes "row_for app code rows (snd s)"
  shows "row_for app code rows (snd (relay_step ge app started model e s))"
proof -
  have "ex_recorded (with_gw (fst e) (snd s))" using assms by (simp add: row_for_def with_gw_def)
  note same = recorded_stays[OF this]
  show ?thesis using assms
    by (cases "snd e") (auto simp: relay_step_def Let_def finish_def same split: prod.splits)
qed

lemma relay_step_first:
  assumes "unrecorded rows (snd s)"
  shows "if ends_response (snd e) then row_for app (rl_status (fst s)) rows (snd (relay_step ge app started model e s))
         else unrecorded rows (snd (relay_step ge app started model e s))"
proof -
  from assms have u: "unrecorded rows (with_gw (fst e) (snd s))" by simp
  show ?thesis
    using finish_row[OF u, of app "fst s"] finish_row[OF u, of app "(fst s)\<lparr> rl_aborted := True \<rparr>"] u
    by (cases "snd e") (simp_all add: relay_step_def Let_def)
qed

lemma relay_run_once:
  "row_for app code rows (snd s) \<Longrightarrow> row_for app code rows (snd (relay_run ge app started model evs s))"
  by (induction evs arbitrary: s) (simp_all add: relay_run_def relay_step_recorded)

lemma relay_run_row:
  "unrecorded rows (snd s) \<Longrightarrow> list_ex (\<lambda>e. ends_response (snd e)) evs \<Longrightarrow>
     row_for app (rl_status (fst s)) rows (snd (relay_run ge app started model evs s))"
proof (induction evs arbitrary: s)
  case (Cons e evs)
  let ?s = "relay_step ge app started model e s"
  have run: "relay_run ge app started model (e # evs) s = relay_run ge app started model evs ?s" by (simp add: relay_run_def)
  show ?case
  proof (cases "ends_response (snd e)")
    case True
    with relay_step_first[OF Cons.prems(1), of e app] show ?thesis unfolding run by (simp add: relay_run_once)
  next
    case False
    with relay_step_first[OF Cons.prems(1), of e app] Cons.prems(2) Cons.IH[of ?s] show ?thesis unfolding run by simp
  qed
qed simp

text \<open>Property C34.
  Every request that is let in is put on the ledger exactly once. A reply of the gateway itself or one
  without a body has pushed one row when it is returned; a relayed response pushes none until its
  stream ends, and one however many of the upstream's end, the upstream's failure and the client's
  leaving then come together, in whatever order. The row names the app and its provider and the very
  status the client got. A request that is not let in leaves the ledger as it was, has no upstream
  call, and gets 401, 404 or 502.\<close>

theorem proxy_records_once:
  assumes "proxy fuel ge req ex = Some (r, ex')" "\<not> ex_recorded ex"
  shows "case fst (authenticate ge req (gw_of ex)) of
      Inl res \<Rightarrow> r = Local res \<and> ex_rows ex' = ex_rows ex \<and> rq_sent (ex_rq ex') = rq_sent (ex_rq ex) \<and>
        rs_status res \<in> {401, 404, 502}
    | Inr app \<Rightarrow>
       (case r of
          Relayed rl \<Rightarrow> ex_rows ex' = ex_rows ex \<and>
            (\<forall>started model evs. list_ex (\<lambda>e. ends_response (snd e)) evs \<longrightarrow>
               row_for app (reply_status r) (ex_rows ex) (snd (relay_run ge app started model evs (rl, ex'))))
        | _ \<Rightarrow> row_for app (reply_status r) (ex_rows ex) ex')"
proof (cases "authenticate ge req (gw_of ex)")
  case (Pair out gw)
  show ?thesis
  proof (cases out)
    case (Inl res)
    with Pair assms(1) have r: "r = Local res" "ex' = with_gw gw ex" by (simp_all add: proxy_def)
    have "rs_status res \<in> {401, 404, 502}"
      using Pair unfolding Inl by (auto simp: authenticate_def Let_def split: option.splits if_splits)
    with r Pair Inl show ?thesis by (simp add: with_gw_def)
  next
    case (Inr app)
    with Pair assms(1) have run: "serve fuel ge app req (ge_perf ge (gw_world (gw_of ex))) (with_gw gw ex) = Some (r, ex')"
      by (simp add: proxy_def)
    from assms(2) have "unrecorded (ex_rows ex) (with_gw gw ex)" by (simp add: unrecorded_def with_gw_def)
    from serve_answered[OF this run] have a: "answered app (ex_rows ex) (r, ex')" .
    show ?thesis
    proof (cases r)
      case (Relayed rl)
      with a have "unrecorded (ex_rows ex) (snd (rl, ex'))" by (simp add: answered_def unrecorded_def)
      from relay_run_row[OF this, of _ app] Relayed a Pair Inr show ?thesis by (simp add: answered_def)
    qed (use a Pair Inr in \<open>simp_all add: answered_def\<close>)
  qed
qed

section \<open>Only token holders are served\<close>

lemma authenticate_sound:
  assumes "authenticate ge req gw = (Inr app, gw')"
  shows "\<exists>w st a tok parsed t now. ge_store ge w = Some st \<and> getApp (ga_name app) st = Some a \<and> ga_active a \<and>
    \<not> queryCarriesToken (ic_search req) \<and> extractToken (ge_un64 ge) (ic_headers req) (ga_name app) = Some tok \<and>
    parseToken tok = Some parsed \<and> t \<in> set (tokensFor (ga_name app) st) \<and> matches (ge_sha ge) t parsed \<and>
    unexpired (ge_clock ge) now t \<and>
    (\<exists>w0 st0. ge_store ge w0 = Some st0 \<and> getApp (decodeSegment (app_segment (ic_path req))) st0 = Some app)"
proof -
  let ?token = "if queryCarriesToken (ic_search req) then None else extractToken (ge_un64 ge) (ic_headers req) (ga_name app)"
  from assms obtain w st now tok w0 st0 where "ge_store ge w = Some st" "verifyToken (ge_sha ge) (ge_clock ge) st (ga_name app) tok now"
    "?token = Some tok" "ge_store ge w0 = Some st0" "getApp (decodeSegment (app_segment (ic_path req))) st0 = Some app"
    by (auto simp: authenticate_def Let_def split: option.splits if_splits)
  then show ?thesis unfolding verifyToken_iff by (auto split: if_splits) blast
qed


section \<open>A request that fails over and is left by its client\<close>

definition example_token :: string where
  "example_token = ''aisg_aaaaaaaa_'' @ replicate 43 CHR ''A''"

definition example_gateway :: "(rat, unit) gateway_env" where
  "example_gateway = \<lparr> ge_deps = pe_deps example_proxy,
     ge_store = (\<lambda>_. Some (addToken \<lparr> tr_app = ''shop'', tr_prefix = ''aaaaaaaa'', tr_hash = ''00'', tr_createdAt = '''',
       tr_expiresAt = None \<rparr> (putApp example_pool_app empty_store))),
     ge_wait = (\<lambda>_ gw. (True, gw)), ge_perf = (\<lambda>w. w), ge_sha = (\<lambda>_. ''00''), ge_un64 = (\<lambda>s. s),
     ge_clock = pe_clock example_proxy, ge_num = (\<lambda>_. ''''), ge_json = (\<lambda>_. None), ge_price = (\<lambda>_. None),
     ge_tap = \<lparr> te_parse = (\<lambda>_. None) \<rparr>, ge_decoder = ascii_decoder \<rparr>"

definition example_incoming :: incoming where
  "example_incoming = \<lparr> ic_path = ''/shop/v1/messages'', ic_search = '''', ic_headers = [(''x-api-key'', example_token)],
     ic_body = No_Stream \<rparr>"

definition example_exchange :: "rat exchange" where
  "example_exchange = \<lparr> ex_rq = example_request, ex_rows = [], ex_recorded = False \<rparr>"

definition example_outcome :: "(unit reply \<times> rat exchange) option" where
  "example_outcome = proxy 36 example_gateway example_incoming example_exchange"

lemma example_served:
  "\<exists>rl ex. example_outcome = Some (Relayed rl, ex) \<and> rl_status rl = 200 \<and> rq_sent (ex_rq ex) = [''b'', ''c'']"
proof -
  have "map_option (\<lambda>(r, ex). (case r of Relayed rl \<Rightarrow> rl_status rl | _ \<Rightarrow> 0, rq_sent (ex_rq ex))) example_outcome
      = Some (200, [''b'', ''c''])"
    by code_simp
  then obtain r ex where "example_outcome = Some (r, ex)" "(case r of Relayed rl \<Rightarrow> rl_status rl | _ \<Rightarrow> 0) = 200"
    "rq_sent (ex_rq ex) = [''b'', ''c'']" by auto
  then show ?thesis by (cases r) auto
qed

lemma example_let_in: "fst (authenticate example_gateway example_incoming (gw_of example_exchange)) = Inr example_pool_app"
  by code_simp

theorem proxy_records_once_witness:
  "\<exists>rl ex. example_outcome = Some (Relayed rl, ex) \<and> ex_rows ex = [] \<and>
     (\<forall>gw. \<exists>row. ex_rows (snd (relay_run example_gateway example_pool_app 0 None
        [(gw, Read_Chunk [123]), (gw, Client_Gone), (gw, Read_Done)] (rl, ex))) = [row] \<and>
        ur_httpStatus row = 200 \<and> ur_app row = ''shop'')"
proof -
  obtain rl ex where run: "example_outcome = Some (Relayed rl, ex)" "rl_status rl = 200" using example_served by blast
  have fresh: "\<not> ex_recorded example_exchange" "ex_rows example_exchange = []" by (simp_all add: example_exchange_def)
  from proxy_records_once[OF run(1)[unfolded example_outcome_def] fresh(1), unfolded example_let_in fresh(2)]
  have "ex_rows ex = []" "\<forall>started model evs. list_ex (\<lambda>e. ends_response (snd e)) evs \<longrightarrow>
      row_for example_pool_app 200 [] (snd (relay_run example_gateway example_pool_app started model evs (rl, ex)))"
    using run(2) by simp_all
  moreover from this(2) have "row_for example_pool_app 200 [] (snd (relay_run example_gateway example_pool_app 0 None
      [(gw, Read_Chunk [123]), (gw, Client_Gone), (gw, Read_Done)] (rl, ex)))" for gw by simp
  ultimately show ?thesis using run(1) by (fastforce simp: row_for_def example_pool_app_def)
qed


end
