(* ===== verification/Gateway_Credentials.thy ===== *)
theory Gateway_Credentials
  imports Gateway_Proxy
begin

text \<open>
  The credential cache of the gateway (\<open>src/gateway/credentials.ts\<close>), the owner alerts
  (\<open>src/gateway/alerts.ts\<close>) and the wrappers that raise and clear them (\<open>src/gateway/serve.ts\<close>). A
  refresh after a 401 is a task that advances one answer at a time; between two steps other processes
  change the world as they like. The registry, the credential files and the token refresh itself are
  parameters on the world.
\<close>

section \<open>Messages\<close>

definition loginCommand :: "gateway_provider \<Rightarrow> string \<Rightarrow> string" where
  "loginCommand provider ident =
     (case provider of
        G_Claude \<Rightarrow> ''claude --identity='' @ ident @ '', then run /login inside it''
      | G_Codex \<Rightarrow> ''codex --identity='' @ ident @ '' login''
      | G_Grok \<Rightarrow> ''grok --identity='' @ ident @ '' login''
      | G_Kimi \<Rightarrow> ''kimi --identity='' @ ident @ '', then sign in when it asks''
      | G_Ali \<Rightarrow> ''ais auth login '' @ ident @ '' --tool=ali''
      | G_Zai \<Rightarrow> ''zai --identity='' @ ident @ '' auth login''
      | G_Opencode \<Rightarrow> ''opencode --identity='' @ ident @ '', then sign in when it asks'')"

fun code_text :: "credential_code \<Rightarrow> string" where
  "code_text Refresh_Failed = ''refresh-failed''"
| "code_text Refresh_Lock_Timeout = ''refresh-lock-timeout''"
| "code_text Token_Unchanged = ''token-unchanged''"
| "code_text No_Credential = ''no-credential''"
| "code_text Unknown_Identity = ''unknown-identity''"
| "code_text Retired_Identity = ''retired''"
| "code_text Login_Dead = ''login-dead''"

definition clientMessage :: "credential_code \<Rightarrow> gateway_provider \<Rightarrow> string \<Rightarrow> string" where
  "clientMessage code provider ident =
     (if code = Login_Dead
      then provider_text provider @ '' identity \"'' @ ident @
           ''\" is logged out (its saved login cannot be refreshed). Log back in with: '' @ loginCommand provider ident
      else ''upstream credential unavailable ('' @ code_text code @ '')'')"

definition credential_error :: "credential_code \<Rightarrow> gateway_provider \<Rightarrow> string \<Rightarrow> attempt_error" where
  "credential_error code provider ident = Credential_Error code (clientMessage code provider ident)"

section \<open>The cache and its surroundings\<close>

text \<open>What the token refresh answers, and what it throws.\<close>

datatype refresh_outcome = Refreshed | Skipped_Fresh | Skipped_Revoked | No_Grant | Refresh_Broken

record refresh_result =
  rr_outcome :: refresh_outcome
  rr_readError :: bool

datatype refresh_error = Lock_Busy | Oauth_Error bool "string option" | Refresh_Other

text \<open>\<open>cd_resolve\<close> is \<open>None\<close> when the registry cannot be read.\<close>

record 'w cred_deps =
  cd_resolve :: "gateway_provider \<Rightarrow> string \<Rightarrow> 'w \<Rightarrow> identity option option"
  cd_signature :: "gateway_provider \<Rightarrow> identity \<Rightarrow> 'w \<Rightarrow> string option"
  cd_read :: "gateway_provider \<Rightarrow> identity \<Rightarrow> 'w \<Rightarrow> provider_cred option"
  cd_refresh :: "gateway_provider \<Rightarrow> identity \<Rightarrow> string \<Rightarrow> 'w \<Rightarrow> (refresh_error + refresh_result) \<times> 'w"
  cd_now :: "'w \<Rightarrow> rat"
  cd_pause :: "'w \<Rightarrow> 'w"

record cred_entry =
  ce_signature :: string
  ce_cred :: provider_cred

text \<open>
  A refresh under way: before its first read, waiting for the refresh with the time it began, before its
  second read, and done.
\<close>

datatype refresh_phase = Reading | Refreshing rat | Rereading refresh_result | Settled "attempt_error + provider_cred"

record refresh_task =
  rt_provider :: gateway_provider
  rt_identity :: identity
  rt_stale :: string
  rt_phase :: refresh_phase

text \<open>\<open>cc_done\<close> lists the refreshes that succeeded, for the statements about them.\<close>

record 'w cred_cache =
  cc_entries :: "(hold_key \<times> cred_entry) list"
  cc_lastRefreshAt :: "(hold_key \<times> rat) list"
  cc_inflight :: "(hold_key \<times> refresh_task) list"
  cc_world :: 'w
  cc_done :: "(hold_key \<times> rat) list"

definition REFRESH_COOLDOWN_MS :: rat where
  "REFRESH_COOLDOWN_MS = 60000"

definition cred_key :: "gateway_provider \<Rightarrow> identity \<Rightarrow> hold_key" where
  "cred_key provider i = (provider, i_name i)"

definition resolve_cred :: "'w cred_deps \<Rightarrow> gateway_provider \<Rightarrow> string \<Rightarrow> 'w \<Rightarrow> attempt_error + identity" where
  "resolve_cred deps provider ident w =
     (case cd_resolve deps provider ident w of
        None \<Rightarrow> Inl Other_Failure
      | Some None \<Rightarrow> Inl (credential_error Unknown_Identity provider ident)
      | Some (Some i) \<Rightarrow> if isRetired i then Inl (credential_error Retired_Identity provider ident) else Inr i)"

text \<open>An absent credential is read a second time before the identity counts as logged out.\<close>

definition load_cred :: "'w cred_deps \<Rightarrow> gateway_provider \<Rightarrow> identity \<Rightarrow> string option \<Rightarrow> 'w cred_cache \<Rightarrow>
    (attempt_error + provider_cred) \<times> 'w cred_cache" where
  "load_cred deps provider i sig c =
     (let first = cd_read deps provider i (cc_world c);
          w = (if first = None then cd_pause deps (cc_world c) else cc_world c);
          c' = c\<lparr> cc_world := w \<rparr>
      in case (if first = None then cd_read deps provider i w else first) of
           None \<Rightarrow> (Inl (credential_error (if isSwapPool i then No_Credential else Login_Dead) provider (i_name i)), c')
         | Some cred \<Rightarrow>
             (Inr cred, case sig of
                None \<Rightarrow> c'
              | Some s \<Rightarrow> c'\<lparr> cc_entries := AList.update (cred_key provider i) \<lparr> ce_signature = s, ce_cred = cred \<rparr> (cc_entries c') \<rparr>))"

definition reload_cred :: "'w cred_deps \<Rightarrow> gateway_provider \<Rightarrow> identity \<Rightarrow> 'w cred_cache \<Rightarrow>
    (attempt_error + provider_cred) \<times> 'w cred_cache" where
  "reload_cred deps provider i c =
     (let sig = cd_signature deps provider i (cc_world c)
      in load_cred deps provider i sig (c\<lparr> cc_world := cd_pause deps (cc_world c) \<rparr>))"

definition get_cred :: "'w cred_deps \<Rightarrow> gateway_provider \<Rightarrow> string \<Rightarrow> 'w cred_cache \<Rightarrow>
    (attempt_error + provider_cred) \<times> 'w cred_cache" where
  "get_cred deps provider ident c =
     (case resolve_cred deps provider ident (cc_world c) of
        Inl err \<Rightarrow> (Inl err, c)
      | Inr i \<Rightarrow>
          let c1 = c\<lparr> cc_world := cd_pause deps (cc_world c) \<rparr>; sig = cd_signature deps provider i (cc_world c1) in
          case (sig, map_of (cc_entries c1) (cred_key provider i)) of
            (Some s, Some e) \<Rightarrow>
              if ce_signature e = s then (Inr (ce_cred e), c1) else load_cred deps provider i sig c1
          | _ \<Rightarrow> load_cred deps provider i sig c1)"

section \<open>The refresh after a 401\<close>

definition DEAD_REFRESH_CODES :: "string list" where
  "DEAD_REFRESH_CODES = [''invalid_grant'', ''refresh_token_expired'', ''refresh_token_reused'', ''refresh_token_invalidated'']"

definition thrown_code :: "refresh_error \<Rightarrow> credential_code" where
  "thrown_code err =
     (case err of
        Lock_Busy \<Rightarrow> Refresh_Lock_Timeout
      | Oauth_Error revoked code \<Rightarrow>
          if revoked \<and> (\<exists>c \<in> set_option code. c \<in> set DEAD_REFRESH_CODES) then Login_Dead else Refresh_Failed
      | Refresh_Other \<Rightarrow> Refresh_Failed)"

definition unchanged_code :: "identity \<Rightarrow> refresh_result \<Rightarrow> credential_code" where
  "unchanged_code i r =
     (if rr_outcome r = Skipped_Revoked \<or> (rr_outcome r = No_Grant \<and> \<not> isSwapPool i \<and> \<not> rr_readError r) then Login_Dead
      else if rr_outcome r = Refresh_Broken \<or> rr_outcome r = No_Grant then Refresh_Failed
      else Token_Unchanged)"

text \<open>The next step of \<open>doRefresh\<close>, for the task under \<open>key\<close>.\<close>

definition advance :: "'w cred_deps \<Rightarrow> refresh_task \<Rightarrow> 'w cred_cache \<Rightarrow> refresh_phase \<times> 'w cred_cache" where
  "advance deps t c =
     (let p = rt_provider t; i = rt_identity t; key = cred_key p i in
      case rt_phase t of
        Reading \<Rightarrow>
          (case reload_cred deps p i c of
             (Inl err, c1) \<Rightarrow> (Settled (Inl err), c1)
           | (Inr current, c1) \<Rightarrow>
               if pc_accessToken current \<noteq> rt_stale t then (Settled (Inr current), c1)
               else
                 let now = cd_now deps (cc_world c1) in
                 if \<exists>last \<in> set_option (map_of (cc_lastRefreshAt c1) key). now - last < REFRESH_COOLDOWN_MS
                 then (Settled (Inl Refresh_Cooldown), c1) else (Refreshing now, c1))
      | Refreshing now \<Rightarrow>
          (case cd_refresh deps p i (rt_stale t) (cc_world c) of
             (Inl err, w) \<Rightarrow> (Settled (Inl (credential_error (thrown_code err) p (i_name i))), c\<lparr> cc_world := w \<rparr>)
           | (Inr r, w) \<Rightarrow>
               let c1 = c\<lparr> cc_world := w \<rparr> in
               (Rereading r, if rr_outcome r = Refreshed
                             then c1\<lparr> cc_lastRefreshAt := AList.update key now (cc_lastRefreshAt c1), cc_done := cc_done c1 @ [(key, now)] \<rparr>
                             else c1))
      | Rereading r \<Rightarrow>
          (case reload_cred deps p i c of
             (Inl err, c1) \<Rightarrow> (Settled (Inl err), c1)
           | (Inr nxt, c1) \<Rightarrow>
               (Settled (if pc_accessToken nxt \<noteq> rt_stale t then Inr nxt
                         else Inl (credential_error (unchanged_code i r) p (i_name i))), c1))
      | Settled r \<Rightarrow> (Settled r, c))"

text \<open>
  \<open>refreshAfter401\<close>: an error at once, or the key of the task that is joined or begun.
\<close>

definition refreshAfter401 :: "'w cred_deps \<Rightarrow> gateway_provider \<Rightarrow> string \<Rightarrow> string \<Rightarrow> 'w cred_cache \<Rightarrow>
    (attempt_error + hold_key) \<times> 'w cred_cache" where
  "refreshAfter401 deps provider ident stale c =
     (if \<not> ad_refreshable (adapterFor provider) then (Inl Not_Refreshable, c)
      else
        case resolve_cred deps provider ident (cc_world c) of
          Inl err \<Rightarrow> (Inl err, c)
        | Inr i \<Rightarrow>
            let key = cred_key provider i in
            (Inr key,
             if map_of (cc_inflight c) key \<noteq> None then c
             else c\<lparr> cc_inflight := AList.update key
                       \<lparr> rt_provider = provider, rt_identity = i, rt_stale = stale, rt_phase = Reading \<rparr> (cc_inflight c) \<rparr>))"

text \<open>What can happen: a call, a step of a task, the end of one (its \<open>finally\<close>), a read, or the world changes.\<close>

datatype 'w cred_event = Ask gateway_provider string string | Step hold_key | Leave hold_key | Get gateway_provider string |
  World "'w \<Rightarrow> 'w"

fun is_settled :: "refresh_phase \<Rightarrow> bool" where
  "is_settled (Settled _) = True"
| "is_settled _ = False"

fun cred_step :: "'w cred_deps \<Rightarrow> 'w cred_event \<Rightarrow> 'w cred_cache \<Rightarrow> 'w cred_cache" where
  "cred_step deps (Ask p n stale) c = snd (refreshAfter401 deps p n stale c)"
| "cred_step deps (Step key) c =
     (case map_of (cc_inflight c) key of
        None \<Rightarrow> c
      | Some t \<Rightarrow>
          (case advance deps t c of
             (phase, c') \<Rightarrow> c'\<lparr> cc_inflight := AList.update key (t\<lparr> rt_phase := phase \<rparr>) (cc_inflight c') \<rparr>))"
| "cred_step deps (Leave key) c =
     (if \<exists>t \<in> set_option (map_of (cc_inflight c) key). is_settled (rt_phase t)
      then c\<lparr> cc_inflight := AList.delete key (cc_inflight c) \<rparr> else c)"
| "cred_step deps (Get p n) c = snd (get_cred deps p n c)"
| "cred_step deps (World f) c = c\<lparr> cc_world := f (cc_world c) \<rparr>"

inductive cred_reach :: "'w cred_deps \<Rightarrow> 'w cred_cache \<Rightarrow> bool" for deps where
  start: "cred_reach deps \<lparr> cc_entries = [], cc_lastRefreshAt = [], cc_inflight = [], cc_world = w, cc_done = [] \<rparr>"
| step: "cred_reach deps c \<Longrightarrow> cred_reach deps (cred_step deps e c)"

definition signature_cred :: "'w cred_deps \<Rightarrow> gateway_provider \<Rightarrow> string \<Rightarrow> 'w \<Rightarrow> attempt_error + string option" where
  "signature_cred deps provider ident w =
     (case resolve_cred deps provider ident w of
        Inl err \<Rightarrow> Inl err
      | Inr i \<Rightarrow> Inr (cd_signature deps provider i (cd_pause deps w)))"

section \<open>Refreshes are rare, and never give back the token that failed\<close>

text \<open>The times at which the login under \<open>key\<close> was refreshed.\<close>

definition refresh_times :: "hold_key \<Rightarrow> 'w cred_cache \<Rightarrow> rat list" where
  "refresh_times key c = map snd (filter (\<lambda>e. fst e = key) (cc_done c))"

definition cooled :: "rat list \<Rightarrow> bool" where
  "cooled = sorted_wrt (\<lambda>a b. b - a \<ge> REFRESH_COOLDOWN_MS)"

definition task_sound :: "'w cred_cache \<Rightarrow> hold_key \<Rightarrow> refresh_task \<Rightarrow> bool" where
  "task_sound c key t \<longleftrightarrow> key = cred_key (rt_provider t) (rt_identity t) \<and>
     (\<forall>now. rt_phase t = Refreshing now \<longrightarrow>
        (\<forall>before \<in> set_option (map_of (cc_lastRefreshAt c) key). now - before \<ge> REFRESH_COOLDOWN_MS)) \<and>
     (\<forall>cred. rt_phase t = Settled (Inr cred) \<longrightarrow> pc_accessToken cred \<noteq> rt_stale t)"

definition times_ok :: "'w cred_cache \<Rightarrow> bool" where
  "times_ok c \<longleftrightarrow> (\<forall>key. cooled (refresh_times key c) \<and>
     map_of (cc_lastRefreshAt c) key = (if refresh_times key c = [] then None else Some (last (refresh_times key c))))"

definition cred_ok :: "'w cred_cache \<Rightarrow> bool" where
  "cred_ok c \<longleftrightarrow> times_ok c \<and> (\<forall>key t. map_of (cc_inflight c) key = Some t \<longrightarrow> task_sound c key t)"

text \<open>Reading credentials touches neither the tasks nor the times.\<close>

definition same_refreshes :: "'w cred_cache \<Rightarrow> 'w cred_cache \<Rightarrow> bool" where
  "same_refreshes c c' \<longleftrightarrow> cc_lastRefreshAt c' = cc_lastRefreshAt c \<and> cc_inflight c' = cc_inflight c \<and> cc_done c' = cc_done c"

lemma load_same: "load_cred deps p i sig c = (r, c') \<Longrightarrow> same_refreshes c c'"
  by (auto simp: load_cred_def Let_def same_refreshes_def split: option.splits if_splits)

lemma reload_same: "reload_cred deps p i c = (r, c') \<Longrightarrow> same_refreshes c c'"
  by (auto simp: reload_cred_def Let_def same_refreshes_def dest!: load_same)

lemma get_same: "get_cred deps p n c = (r, c') \<Longrightarrow> same_refreshes c c'"
  by (auto simp: get_cred_def Let_def same_refreshes_def dest!: load_same split: sum.splits option.splits if_splits)

lemma same_sound: "same_refreshes c c' \<Longrightarrow> task_sound c' key t = task_sound c key t"
  unfolding same_refreshes_def task_sound_def by simp

lemma cred_okI:
  assumes "times_ok c" "\<And>k u. map_of (cc_inflight c) k = Some u \<Longrightarrow> task_sound c k u"
  shows "cred_ok c"
  using assms by (simp add: cred_ok_def del: split_paired_All)

lemma cred_okD:
  assumes "cred_ok c"
  shows "times_ok c" "map_of (cc_inflight c) k = Some u \<Longrightarrow> task_sound c k u"
  using assms by (simp_all add: cred_ok_def del: split_paired_All)

lemma times_okD:
  assumes "times_ok c"
  shows "cooled (refresh_times k c)"
    and "map_of (cc_lastRefreshAt c) k = (if refresh_times k c = [] then None else Some (last (refresh_times k c)))"
  using assms by (simp_all add: times_ok_def del: split_paired_All)

lemma times_okI:
  assumes "\<And>k. cooled (refresh_times k c)"
    and "\<And>k. map_of (cc_lastRefreshAt c) k = (if refresh_times k c = [] then None else Some (last (refresh_times k c)))"
  shows "times_ok c"
  using assms by (simp add: times_ok_def del: split_paired_All)

lemma same_times: "same_refreshes c c' \<Longrightarrow> times_ok c' = times_ok c"
  unfolding times_ok_def refresh_times_def same_refreshes_def by simp

lemma same_ok:
  assumes "same_refreshes c c'" "cred_ok c"
  shows "cred_ok c'"
proof (rule cred_okI)
  show "times_ok c'" using assms same_times cred_okD(1) by blast
  fix k u
  assume "map_of (cc_inflight c') k = Some u"
  with assms show "task_sound c' k u" using cred_okD(2) by (simp add: same_sound) (simp add: same_refreshes_def)
qed

lemma put_task_ok:
  assumes "times_ok c" "\<And>k u. map_of (cc_inflight c) k = Some u \<Longrightarrow> k \<noteq> key \<Longrightarrow> task_sound c k u" "task_sound c key t"
  shows "cred_ok (c\<lparr> cc_inflight := AList.update key t (cc_inflight c) \<rparr>)"
proof (rule cred_okI)
  let ?c = "c\<lparr> cc_inflight := AList.update key t (cc_inflight c) \<rparr>"
  have sound: "task_sound ?c k u = task_sound c k u" for k u unfolding task_sound_def by simp
  show "times_ok ?c" using assms(1) unfolding times_ok_def refresh_times_def by simp
  show "task_sound ?c k u" if "map_of (cc_inflight ?c) k = Some u" for k u
    using that assms(2,3) unfolding sound by (cases "k = key") (simp_all add: update_conv')
qed

lemma cooled_snoc:
  assumes "cooled ts" "ts \<noteq> [] \<Longrightarrow> t - last ts \<ge> REFRESH_COOLDOWN_MS"
  shows "cooled (ts @ [t])"
proof (cases ts rule: rev_cases)
  case (snoc us u)
  have "t - a \<ge> REFRESH_COOLDOWN_MS" if "a \<in> set us" for a
    using that assms snoc by (force simp: cooled_def sorted_wrt_append REFRESH_COOLDOWN_MS_def)
  with assms snoc show ?thesis by (auto simp: cooled_def sorted_wrt_append)
qed (simp add: cooled_def)

lemma advance_ok:
  assumes ok: "cred_ok c" and t: "map_of (cc_inflight c) key = Some t" and adv: "advance deps t c = (phase, c')"
  shows "cred_ok (c'\<lparr> cc_inflight := AList.update key (t\<lparr> rt_phase := phase \<rparr>) (cc_inflight c') \<rparr>)"
proof -
  from cred_okD(2)[OF ok t] have sound: "task_sound c key t" and key: "key = cred_key (rt_provider t) (rt_identity t)"
    by (simp_all add: task_sound_def)
  note start = adv[unfolded advance_def Let_def key[symmetric]]
  have same: ?thesis if "same_refreshes c c'" "task_sound c key (t\<lparr> rt_phase := phase \<rparr>)"
  proof (rule put_task_ok)
    show "times_ok c'" using that(1) ok same_times cred_okD(1) by blast
    show "task_sound c' k u" if "map_of (cc_inflight c') k = Some u" "k \<noteq> key" for k u
      using that(1) cred_okD(2)[OF ok] \<open>same_refreshes c c'\<close> by (simp add: same_sound) (simp add: same_refreshes_def)
    show "task_sound c' key (t\<lparr> rt_phase := phase \<rparr>)" using that by (simp add: same_sound)
  qed
  show ?thesis
  proof (cases "rt_phase t")
    case Reading
    obtain r c1 where r: "reload_cred deps (rt_provider t) (rt_identity t) c = (r, c1)" by (cases rule: prod.exhaust)
    note eq = reload_same[OF r, unfolded same_refreshes_def]
    from start Reading r have "c' = c1" by (auto split: sum.splits if_splits)
    moreover have "task_sound c key (t\<lparr> rt_phase := phase \<rparr>)"
      using start Reading r key eq by (auto simp: task_sound_def not_less split: sum.splits if_splits)
    ultimately show ?thesis using reload_same[OF r] by (intro same) simp_all
  next
    case (Refreshing now)
    obtain r w where r: "cd_refresh deps (rt_provider t) (rt_identity t) (rt_stale t) (cc_world c) = (r, w)" by (cases rule: prod.exhaust)
    show ?thesis
    proof (cases "\<exists>res. r = Inr res \<and> rr_outcome res = Refreshed")
      case False
      then have "c' = c\<lparr> cc_world := w \<rparr>" using start Refreshing r by (auto split: sum.splits)
      moreover have "task_sound c key (t\<lparr> rt_phase := phase \<rparr>)"
        using start Refreshing r key by (auto simp: task_sound_def split: sum.splits)
      ultimately show ?thesis by (intro same) (simp_all add: same_refreshes_def)
    next
      case True
      then obtain res where res: "r = Inr res" "rr_outcome res = Refreshed" by blast
      have c': "c' = c\<lparr> cc_world := w, cc_lastRefreshAt := AList.update key now (cc_lastRefreshAt c), cc_done := cc_done c @ [(key, now)] \<rparr>"
        and phase: "phase = Rereading res"
        using start Refreshing r res by auto
      have times: "refresh_times k c' = refresh_times k c @ (if k = key then [now] else [])" for k
        by (simp add: c' refresh_times_def)
      note before = cred_okD(1)[OF ok] note past = times_okD[OF before]
      have gap: "refresh_times key c \<noteq> [] \<Longrightarrow> now - last (refresh_times key c) \<ge> REFRESH_COOLDOWN_MS"
        using sound past(2)[of key] Refreshing by (auto simp: task_sound_def)
      have "cooled (refresh_times k c')" for k
        using past(1) cooled_snoc[OF past(1) gap] by (cases "k = key") (simp_all add: times)
      moreover have "map_of (cc_lastRefreshAt c') k = (if refresh_times k c' = [] then None else Some (last (refresh_times k c')))" for k
        unfolding times using past(2)[of k] by (simp add: c' update_conv')
      ultimately have "times_ok c'" by (rule times_okI)
      moreover have "task_sound c' k u" if "map_of (cc_inflight c') k = Some u" "k \<noteq> key" for k u
      proof -
        from cred_okD(2)[OF ok] that(1) have "task_sound c k u" by (simp add: c')
        moreover from that(2) have "map_of (cc_lastRefreshAt c') k = map_of (cc_lastRefreshAt c) k" by (simp add: c' update_conv')
        ultimately show ?thesis unfolding task_sound_def by simp
      qed
      moreover have "task_sound c' key (t\<lparr> rt_phase := phase \<rparr>)" using key phase by (simp add: task_sound_def)
      ultimately show ?thesis by (rule put_task_ok)
    qed
  next
    case (Rereading res)
    obtain r c1 where r: "reload_cred deps (rt_provider t) (rt_identity t) c = (r, c1)" by (cases rule: prod.exhaust)
    from start Rereading r have "c' = c1" by (auto split: sum.splits if_splits)
    moreover have "task_sound c key (t\<lparr> rt_phase := phase \<rparr>)"
      using start Rereading r key by (auto simp: task_sound_def split: sum.splits if_splits)
    ultimately show ?thesis using reload_same[OF r] by (intro same) simp_all
  next
    case (Settled r)
    with start have "c' = c" "phase = rt_phase t" by auto
    with sound show ?thesis by (intro same) (simp_all add: same_refreshes_def)
  qed
qed

lemma cred_ok_step: "cred_ok c \<Longrightarrow> cred_ok (cred_step deps e c)"
proof -
  assume ok: "cred_ok c"
  show ?thesis
  proof (cases e)
    case (Ask p n stale)
    show ?thesis
    proof (cases "\<exists>i. ad_refreshable (adapterFor p) \<and> resolve_cred deps p n (cc_world c) = Inr i \<and> map_of (cc_inflight c) (cred_key p i) = None")
      case True
      then obtain i where i: "ad_refreshable (adapterFor p)" "resolve_cred deps p n (cc_world c) = Inr i"
        "map_of (cc_inflight c) (cred_key p i) = None" by blast
      have "cred_ok (c\<lparr> cc_inflight := AList.update (cred_key p i)
          \<lparr> rt_provider = p, rt_identity = i, rt_stale = stale, rt_phase = Reading \<rparr> (cc_inflight c) \<rparr>)"
        using cred_okD[OF ok] by (intro put_task_ok) (simp_all add: task_sound_def)
      with i Ask show ?thesis by (simp add: refreshAfter401_def Let_def)
    next
      case False
      then have "cred_step deps e c = c"
        unfolding Ask by (auto simp: refreshAfter401_def Let_def split: sum.splits)
      with ok show ?thesis by simp
    qed
  next
    case (Step key)
    with ok advance_ok[OF ok] show ?thesis by (auto split: option.splits prod.splits)
  next
    case (Leave key)
    let ?c = "c\<lparr> cc_inflight := AList.delete key (cc_inflight c) \<rparr>"
    have "cred_ok ?c"
    proof (rule cred_okI)
      show "times_ok ?c" using cred_okD(1)[OF ok] unfolding times_ok_def refresh_times_def by simp
      have sound: "task_sound ?c k u = task_sound c k u" for k u unfolding task_sound_def by simp
      show "task_sound ?c k u" if "map_of (cc_inflight ?c) k = Some u" for k u
        using that cred_okD(2)[OF ok] unfolding sound by (simp add: delete_conv' split: if_splits)
    qed
    with ok Leave show ?thesis by simp
  next
    case (Get p n)
    obtain r c' where "get_cred deps p n c = (r, c')" by (cases rule: prod.exhaust)
    with same_ok[OF get_same] ok Get show ?thesis by auto
  next
    case (World f)
    with same_ok[of c "c\<lparr> cc_world := f (cc_world c) \<rparr>"] ok show ?thesis by (simp add: same_refreshes_def)
  qed
qed

lemma reach_cred_ok: "cred_reach deps c \<Longrightarrow> cred_ok c"
proof (induction rule: cred_reach.induct)
  case (start w)
  show ?case by (simp add: cred_ok_def times_ok_def refresh_times_def cooled_def)
next
  case (step c e)
  then show ?case by (simp add: cred_ok_step)
qed


text \<open>
  A login whose refresh gives a new token, refused again a second later: the world is the token in the
  file and the clock.
\<close>

definition example_creds :: "(string \<times> rat) cred_deps" where
  "example_creds = \<lparr>
     cd_resolve = (\<lambda>p n w. Some (Some \<lparr> i_name = n, i_label = n, i_description = None, i_configDir = ''/c'', i_directories = None,
       i_aliases = None, i_colour = None, i_env = None, i_retired = None, i_retiredAt = None, i_unretiredAt = None,
       i_swapPool = None \<rparr>)),
     cd_signature = (\<lambda>p i w. Some (fst w)),
     cd_read = (\<lambda>p i w. Some \<lparr> pc_identity = i_name i, pc_accessToken = fst w, pc_accountId = None, pc_expiresAtMs = None \<rparr>),
     cd_refresh = (\<lambda>p i stale w. (Inr \<lparr> rr_outcome = Refreshed, rr_readError = False \<rparr>, (stale @ ''+'', snd w))),
     cd_now = snd, cd_pause = (\<lambda>w. w) \<rparr>"

definition example_key :: hold_key where
  "example_key = (G_Claude, ''a'')"

definition example_history :: "(string \<times> rat) cred_event list" where
  "example_history = [Ask G_Claude ''a'' ''t'', Step example_key, Step example_key, Step example_key, Leave example_key,
     World (\<lambda>w. (fst w, snd w + 1000)), Get G_Claude ''a'', Ask G_Claude ''a'' ''t+'', Step example_key]"

definition example_cache :: "(string \<times> rat) cred_cache" where
  "example_cache = foldl (\<lambda>c e. cred_step example_creds e c)
     \<lparr> cc_entries = [], cc_lastRefreshAt = [], cc_inflight = [], cc_world = (''t'', 0), cc_done = [] \<rparr> example_history"

lemma cred_reach_run: "cred_reach deps c \<Longrightarrow> cred_reach deps (foldl (\<lambda>c e. cred_step deps e c) c evs)"
  by (induction evs arbitrary: c) (auto intro: cred_reach.step)


section \<open>Owner alerts\<close>

datatype alert_kind = Refresh_Alert | Ledger_Drop

type_synonym alert_id = "alert_kind \<times> string"

text \<open>The alerts that are open, and those the notifier has been given, in order.\<close>

record alerter =
  al_open :: "alert_id list"
  al_sent :: "alert_id list"

definition raise_alert :: "alert_id \<Rightarrow> alerter \<Rightarrow> alerter" where
  "raise_alert x a = (if x \<in> set (al_open a) then a else a\<lparr> al_open := al_open a @ [x], al_sent := al_sent a @ [x] \<rparr>)"

definition recover_alert :: "alert_id \<Rightarrow> alerter \<Rightarrow> alerter" where
  "recover_alert x a = a\<lparr> al_open := removeAll x (al_open a) \<rparr>"

text \<open>One look of \<open>watchLedger\<close>, given the drops and the depth of the ledger and the drops seen before.\<close>

definition watchLedger :: "nat \<Rightarrow> nat \<Rightarrow> nat \<times> alerter \<Rightarrow> nat \<times> alerter" where
  "watchLedger dropped d s =
     (dropped,
      if dropped > fst s then raise_alert (Ledger_Drop, ''ledger'') (snd s)
      else if d = 0 then recover_alert (Ledger_Drop, ''ledger'') (snd s)
      else snd s)"

text \<open>The wrappers of \<open>serve.ts\<close>; \<open>failed\<close> remembers the token a failed refresh was for.\<close>

definition login_key :: "gateway_provider \<Rightarrow> string \<Rightarrow> string" where
  "login_key p n = provider_text p @ ''/'' @ n"

type_synonym failed_tokens = "(string \<times> string) list"

definition refresh_failed :: "string \<Rightarrow> string option \<Rightarrow> failed_tokens \<times> alerter \<Rightarrow> failed_tokens \<times> alerter" where
  "refresh_failed key expected s =
     ((case expected of Some t \<Rightarrow> AList.update key t (fst s) | None \<Rightarrow> fst s), raise_alert (Refresh_Alert, key) (snd s))"

definition refresh_done :: "string \<Rightarrow> failed_tokens \<times> alerter \<Rightarrow> failed_tokens \<times> alerter" where
  "refresh_done key s = (AList.delete key (fst s), recover_alert (Refresh_Alert, key) (snd s))"

definition instrumentRefresh :: "gateway_provider \<Rightarrow> identity \<Rightarrow> string option \<Rightarrow> refresh_error + refresh_result \<Rightarrow>
    failed_tokens \<times> alerter \<Rightarrow> failed_tokens \<times> alerter" where
  "instrumentRefresh p i expected answer s =
     (let key = login_key p (i_name i) in
      case answer of
        Inl _ \<Rightarrow> refresh_failed key expected s
      | Inr r \<Rightarrow>
          if rr_outcome r \<in> {Refresh_Broken, No_Grant, Skipped_Revoked} then refresh_failed key expected s
          else if rr_outcome r = Refreshed then refresh_done key s
          else s)"

definition recoverOnSuccess :: "usage_row \<Rightarrow> alerter \<Rightarrow> alerter" where
  "recoverOnSuccess row a =
     (if 200 \<le> ur_httpStatus row \<and> ur_httpStatus row < 300
      then recover_alert (Refresh_Alert, login_key (ur_provider row) (ur_identity row)) a else a)"

definition watchCredentialReads :: "gateway_provider \<Rightarrow> provider_cred \<Rightarrow> failed_tokens \<times> alerter \<Rightarrow> failed_tokens \<times> alerter" where
  "watchCredentialReads p cred s =
     (let key = login_key p (pc_identity cred) in
      if \<exists>stale \<in> set_option (map_of (fst s) key). pc_accessToken cred \<noteq> stale then refresh_done key s else s)"

text \<open>Between two alerts of one kind and key lies a recovery: what is open has been sent, and is not sent again.\<close>

lemma raise_sent:
  "al_sent (raise_alert x a) = al_sent a @ (if x \<in> set (al_open a) then [] else [x]) \<and> x \<in> set (al_open (raise_alert x a))"
  by (simp add: raise_alert_def)

lemma raise_twice: "raise_alert x (raise_alert y (raise_alert x a)) = raise_alert y (raise_alert x a)"
  by (simp add: raise_alert_def)

lemma recover_other: "x \<noteq> y \<Longrightarrow> y \<in> set (al_open (recover_alert x a)) \<longleftrightarrow> y \<in> set (al_open a)"
  by (simp add: recover_alert_def)

text \<open>A repaired login clears its alert: once the file holds another token than the one that failed.\<close>

lemma repaired_login_recovers:
  assumes "instrumentRefresh p i (Some stale) (Inl err) s = s'" "pc_identity cred = i_name i" "pc_accessToken cred \<noteq> stale"
  shows "(Refresh_Alert, login_key p (i_name i)) \<in> set (al_open (snd s'))"
    and "(Refresh_Alert, login_key p (i_name i)) \<notin> set (al_open (snd (watchCredentialReads p cred s')))"
  using assms
  by (auto simp: instrumentRefresh_def Let_def refresh_failed_def raise_alert_def watchCredentialReads_def refresh_done_def
      recover_alert_def update_conv')

end
