(* ===== verification/Gateway_Cache.thy ===== *)
theory Gateway_Cache
  imports Gateway_Access
begin

text \<open>
  The gateway's cached view of apps and tokens (\<open>CachedGatewayStore\<close> of \<open>src/gateway/cache-store.ts\<close>)
  as a machine. A write goes to the store behind the cache and lands in the cache when that has
  answered; a warm-up reads the list of apps and then the tokens of each, one answer at a time. Writes
  and warm-ups overlap as they like, and other instances write to the same store.
\<close>

section \<open>The cache\<close>

record app_cache =
  ac_apps :: "(string \<times> gateway_app) list"
  ac_tokens :: "(string \<times> token_record list) list"
  ac_version :: nat
  ac_loaded :: bool

definition empty_cache :: app_cache where
  "empty_cache = \<lparr> ac_apps = [], ac_tokens = [], ac_version = 0, ac_loaded = False \<rparr>"

definition cache_getApp :: "string \<Rightarrow> app_cache \<Rightarrow> gateway_app option" where
  "cache_getApp name c = map_of (ac_apps c) name"

definition cache_listApps :: "app_cache \<Rightarrow> gateway_app list" where
  "cache_listApps c = map snd (ac_apps c)"

definition cache_tokensFor :: "string \<Rightarrow> app_cache \<Rightarrow> token_record list" where
  "cache_tokensFor app c = default [] (map_of (ac_tokens c) app)"

text \<open>What a write does to the cache once the store has answered.\<close>

definition cache_putApp :: "gateway_app \<Rightarrow> app_cache \<Rightarrow> app_cache" where
  "cache_putApp app c = c\<lparr> ac_version := ac_version c + 1, ac_apps := AList.update (ga_name app) app (ac_apps c),
     ac_tokens := (if map_of (ac_tokens c) (ga_name app) = None then AList.update (ga_name app) [] (ac_tokens c) else ac_tokens c) \<rparr>"

definition cache_addToken :: "token_record \<Rightarrow> app_cache \<Rightarrow> app_cache" where
  "cache_addToken rec c = c\<lparr> ac_version := ac_version c + 1,
     ac_tokens := AList.update (tr_app rec) (cache_tokensFor (tr_app rec) c @ [rec]) (ac_tokens c) \<rparr>"

definition cache_expireTokens :: "string \<Rightarrow> string \<Rightarrow> app_cache \<Rightarrow> app_cache" where
  "cache_expireTokens app instant c = c\<lparr> ac_version := ac_version c + 1,
     ac_tokens := AList.update app
       (map (\<lambda>t. if tr_expiresAt t = None then t\<lparr> tr_expiresAt := Some instant \<rparr> else t) (cache_tokensFor app c)) (ac_tokens c) \<rparr>"

definition cache_revokeApp :: "string \<Rightarrow> app_cache \<Rightarrow> app_cache" where
  "cache_revokeApp name c = c\<lparr> ac_version := ac_version c + 1,
     ac_apps := (case cache_getApp name c of
       None \<Rightarrow> ac_apps c
     | Some a \<Rightarrow> AList.update name (a\<lparr> ga_active := False \<rparr>) (ac_apps c)) \<rparr>"

section \<open>Writes and warm-ups in flight\<close>

datatype app_write = W_Put gateway_app | W_Token token_record | W_Expire string string | W_Revoke string

fun write_store :: "app_write \<Rightarrow> gateway_store \<Rightarrow> gateway_store" where
  "write_store (W_Put a) = putApp a"
| "write_store (W_Token t) = addToken t"
| "write_store (W_Expire n e) = expireTokens n e"
| "write_store (W_Revoke n) = revokeApp n"

fun write_cache :: "app_write \<Rightarrow> app_cache \<Rightarrow> app_cache" where
  "write_cache (W_Put a) = cache_putApp a"
| "write_cache (W_Token t) = cache_addToken t"
| "write_cache (W_Expire n e) = cache_expireTokens n e"
| "write_cache (W_Revoke n) = cache_revokeApp n"

text \<open>A warm-up: the version it saw, the apps once they are read, and the tokens read so far.\<close>

record warm_task =
  wt_seen :: nat
  wt_apps :: "gateway_app list option"
  wt_tokens :: "(string \<times> token_record list) list"

record cache_system =
  cy_store :: gateway_store
  cy_cache :: app_cache
  cy_writes :: "app_write list"
  cy_warms :: "warm_task list"

definition warm_begin :: "app_cache \<Rightarrow> warm_task" where
  "warm_begin c = \<lparr> wt_seen = ac_version c, wt_apps = None, wt_tokens = [] \<rparr>"

definition warm_read :: "gateway_store \<Rightarrow> warm_task \<Rightarrow> warm_task" where
  "warm_read st w =
     (case wt_apps w of
        None \<Rightarrow> w\<lparr> wt_apps := Some (listApps st) \<rparr>
      | Some apps \<Rightarrow>
          if length (wt_tokens w) < length apps
          then (let n = ga_name (apps ! length (wt_tokens w)) in w\<lparr> wt_tokens := wt_tokens w @ [(n, tokensFor n st)] \<rparr>)
          else w)"

definition warm_complete :: "warm_task \<Rightarrow> bool" where
  "warm_complete w \<longleftrightarrow> (\<exists>apps \<in> set_option (wt_apps w). length (wt_tokens w) = length apps)"

text \<open>A JavaScript \<open>Map\<close> of a list of entries: the last one of a key counts.\<close>

definition map_of_entries :: "('k \<times> 'v) list \<Rightarrow> ('k \<times> 'v) list" where
  "map_of_entries es = foldl (\<lambda>m (k, v). AList.update k v m) [] es"

definition warm_end :: "warm_task \<Rightarrow> app_cache \<Rightarrow> app_cache" where
  "warm_end w c =
     (if ac_version c \<noteq> wt_seen w \<and> ac_loaded c then c
      else c\<lparr> ac_apps := map_of_entries (map (\<lambda>a. (ga_name a, a)) (default [] (wt_apps w))),
              ac_tokens := map_of_entries (wt_tokens w), ac_loaded := True \<rparr>)"

definition drop_at :: "nat \<Rightarrow> 'a list \<Rightarrow> 'a list" where
  "drop_at i xs = take i xs @ drop (Suc i) xs"

text \<open>
  \<open>Elsewhere\<close> is a write of another instance, \<open>Write_Lost\<close> one whose answer was an error although the
  store had taken it.
\<close>

datatype cache_event = Write_Begin app_write | Write_Land nat | Write_Lost nat | Elsewhere app_write |
  Warm_Begin | Warm_Read nat | Warm_End nat | Warm_Fail nat

fun cache_step :: "cache_event \<Rightarrow> cache_system \<Rightarrow> cache_system" where
  "cache_step (Write_Begin w) s = s\<lparr> cy_store := write_store w (cy_store s), cy_writes := cy_writes s @ [w] \<rparr>"
| "cache_step (Write_Land i) s =
     (if i < length (cy_writes s)
      then s\<lparr> cy_cache := write_cache (cy_writes s ! i) (cy_cache s), cy_writes := drop_at i (cy_writes s) \<rparr> else s)"
| "cache_step (Write_Lost i) s = s\<lparr> cy_writes := drop_at i (cy_writes s) \<rparr>"
| "cache_step (Elsewhere w) s = s\<lparr> cy_store := write_store w (cy_store s) \<rparr>"
| "cache_step Warm_Begin s = s\<lparr> cy_warms := cy_warms s @ [warm_begin (cy_cache s)] \<rparr>"
| "cache_step (Warm_Read i) s =
     (if i < length (cy_warms s)
      then s\<lparr> cy_warms := (cy_warms s)[i := warm_read (cy_store s) (cy_warms s ! i)] \<rparr> else s)"
| "cache_step (Warm_End i) s =
     (if i < length (cy_warms s) \<and> warm_complete (cy_warms s ! i)
      then s\<lparr> cy_cache := warm_end (cy_warms s ! i) (cy_cache s), cy_warms := drop_at i (cy_warms s) \<rparr> else s)"
| "cache_step (Warm_Fail i) s = s\<lparr> cy_warms := drop_at i (cy_warms s) \<rparr>"

definition cache_run :: "cache_event list \<Rightarrow> cache_system \<Rightarrow> cache_system" where
  "cache_run evs s = foldl (\<lambda>s e. cache_step e s) s evs"

text \<open>The writes that an event brings into the system.\<close>

fun event_writes :: "cache_event \<Rightarrow> app_write list" where
  "event_writes (Write_Begin w) = [w]"
| "event_writes (Elsewhere w) = [w]"
| "event_writes _ = []"

section \<open>Helper facts\<close>

lemma map_of_entries_last: "map_of (map_of_entries es) k = map_of (rev es) k"
proof -
  have "map_of (foldl (\<lambda>m (k, v). AList.update k v m) m es) k = (case map_of (rev es) k of Some v \<Rightarrow> Some v | None \<Rightarrow> map_of m k)" for m
    by (induction es arbitrary: m) (auto simp: update_conv' map_add_def split: option.splits)
  from this[of "[]"] show ?thesis by (simp add: map_of_entries_def split: option.splits)
qed

lemma in_drop_at: "x \<in> set (drop_at i xs) \<Longrightarrow> x \<in> set xs"
  by (auto simp: drop_at_def dest: in_set_takeD in_set_dropD)

lemma in_alist_update: "e \<in> set (AList.update k v al) \<Longrightarrow> e = (k, v) \<or> e \<in> set al"
  by (induction al) (auto split: if_splits)

definition store_keyed :: "gateway_store \<Rightarrow> bool" where
  "store_keyed st \<longleftrightarrow> distinct (map fst (st_apps st)) \<and> (\<forall>(k, a) \<in> set (st_apps st). ga_name a = k)"

lemma store_keyed_write: "store_keyed st \<Longrightarrow> store_keyed (write_store x st)"
proof (cases x)
  case (W_Put a)
  assume "store_keyed st"
  with W_Put show ?thesis
    by (auto simp: store_keyed_def putApp_def distinct_update dest!: in_alist_update)
next
  case (W_Revoke n)
  assume k: "store_keyed st"
  show ?thesis
  proof (cases "map_of (st_apps st) n")
    case (Some a)
    then have "(n, a) \<in> set (st_apps st)" by (rule map_of_SomeD)
    with k have "ga_name a = n" by (auto simp: store_keyed_def)
    with W_Revoke Some k show ?thesis
      by (auto simp: store_keyed_def revokeApp_def distinct_update dest!: in_alist_update)
  qed (use W_Revoke k in \<open>simp add: revokeApp_def\<close>)
qed (auto simp: store_keyed_def addToken_def expireTokens_def)

lemma keyed_listApps:
  assumes "store_keyed st" "a \<in> set (listApps st)"
  shows "getApp (ga_name a) st = Some a"
proof -
  from assms obtain k where "(k, a) \<in> set (st_apps st)" by (auto simp: listApps_def)
  with assms(1) show ?thesis by (auto simp: store_keyed_def getApp_def intro!: map_of_is_SomeI)
qed

lemma getApp_write:
  "getApp n (putApp a st) = (if ga_name a = n then Some a else getApp n st)"
  "getApp n (revokeApp m st) = (if m = n then map_option (\<lambda>a. a\<lparr> ga_active := False \<rparr>) (getApp n st) else getApp n st)"
  by (auto simp: getApp_def putApp_def revokeApp_def update_conv' split: option.splits)

lemma tokensFor_write:
  "tokensFor n (putApp a st) = tokensFor n st" "tokensFor n (revokeApp m st) = tokensFor n st"
  "tokensFor n (addToken t st) = tokensFor n st @ (if tr_app t = n then [t] else [])"
  by (auto simp: tokensFor_def putApp_def revokeApp_def addToken_def split: option.splits)

lemma cache_write:
  "cache_getApp n (cache_putApp a c) = (if ga_name a = n then Some a else cache_getApp n c)"
  "cache_getApp n (cache_revokeApp m c) = (if m = n then map_option (\<lambda>a. a\<lparr> ga_active := False \<rparr>) (cache_getApp n c) else cache_getApp n c)"
  "cache_getApp n (cache_addToken t c) = cache_getApp n c" "cache_getApp n (cache_expireTokens m e c) = cache_getApp n c"
  "cache_tokensFor n (cache_putApp a c) = cache_tokensFor n c" "cache_tokensFor n (cache_revokeApp m c) = cache_tokensFor n c"
  "cache_tokensFor n (cache_addToken t c) = cache_tokensFor n c @ (if tr_app t = n then [t] else [])"
  "cache_tokensFor n (cache_expireTokens m e c) =
     (if m = n then map (\<lambda>t. if tr_expiresAt t = None then t\<lparr> tr_expiresAt := Some e \<rparr> else t) (cache_tokensFor n c)
      else cache_tokensFor n c)"
  by (auto simp: cache_getApp_def cache_tokensFor_def cache_putApp_def cache_revokeApp_def cache_addToken_def
      cache_expireTokens_def update_conv' split: option.splits)

lemma version_write [simp]: "ac_version (write_cache x c) = ac_version c + 1" "ac_loaded (write_cache x c) = ac_loaded c"
  by (cases x; simp add: cache_putApp_def cache_addToken_def cache_expireTokens_def cache_revokeApp_def)+

lemma version_warm_end [simp]: "ac_version (warm_end w c) = ac_version c" "ac_loaded c \<Longrightarrow> ac_loaded (warm_end w c)"
  by (simp_all add: warm_end_def)

lemma map_of_rev_distinct: "distinct (map fst xs) \<Longrightarrow> map_of (rev xs) = map_of xs"
proof (induction xs)
  case (Cons e xs)
  then have "map_of (rev xs) = map_of xs" "map_of xs (fst e) = None" by (auto simp: map_of_eq_None_iff)
  then show ?case by (cases e) (auto simp: map_add_def split: option.splits)
qed simp

section \<open>A write that sticks\<close>

text \<open>
  What a landed write promises of one app and of its tokens: the store and the cache have it once the
  write is done there, no write but the undoing ones takes it away, and nothing at all has it.
\<close>

locale sticky_write =
  fixes n :: string and w :: app_write and QA :: "gateway_app option \<Rightarrow> bool" and QT :: "token_record list \<Rightarrow> bool"
    and undoes :: "app_write \<Rightarrow> bool"
  assumes in_store: "QA (getApp n (write_store w st)) \<and> QT (tokensFor n (write_store w st))"
    and in_cache: "QA (cache_getApp n (write_cache w c)) \<and> QT (cache_tokensFor n (write_cache w c))"
    and kept_store: "\<not> undoes x \<Longrightarrow> QA (getApp n st) \<and> QT (tokensFor n st) \<Longrightarrow>
      QA (getApp n (write_store x st)) \<and> QT (tokensFor n (write_store x st))"
    and kept_cache: "\<not> undoes x \<Longrightarrow> QA (cache_getApp n c) \<and> QT (cache_tokensFor n c) \<Longrightarrow>
      QA (cache_getApp n (write_cache x c)) \<and> QT (cache_tokensFor n (write_cache x c))"
    and nothing_held: "QA None \<and> QT []"
begin

definition task_ok :: "warm_task \<Rightarrow> bool" where
  "task_ok t \<longleftrightarrow> (\<forall>apps \<in> set_option (wt_apps t). \<forall>a \<in> set apps. ga_name a = n \<longrightarrow> QA (Some a)) \<and>
     (\<forall>e \<in> set (wt_tokens t). fst e = n \<longrightarrow> QT (snd e))"

definition begun :: "cache_system \<Rightarrow> bool" where
  "begun s \<longleftrightarrow> store_keyed (cy_store s) \<and> QA (getApp n (cy_store s)) \<and> QT (tokensFor n (cy_store s)) \<and>
     (\<forall>x \<in> set (cy_writes s). \<not> undoes x) \<and> ac_loaded (cy_cache s) \<and>
     (\<forall>t \<in> set (cy_warms s). wt_seen t \<le> ac_version (cy_cache s))"

definition landed :: "cache_system \<Rightarrow> bool" where
  "landed s \<longleftrightarrow> begun s \<and> QA (cache_getApp n (cy_cache s)) \<and> QT (cache_tokensFor n (cy_cache s)) \<and>
     (\<forall>t \<in> set (cy_warms s). wt_seen t < ac_version (cy_cache s) \<or> task_ok t)"

lemma task_read:
  assumes "begun s" "task_ok t"
  shows "task_ok (warm_read (cy_store s) t)"
proof (cases "wt_apps t")
  case None
  have "QA (Some a)" if "a \<in> set (listApps (cy_store s))" "ga_name a = n" for a
    using keyed_listApps[OF _ that(1)] that(2) assms(1) by (auto simp: begun_def)
  with None assms(2) show ?thesis by (auto simp: warm_read_def task_ok_def)
next
  case (Some apps)
  with assms show ?thesis by (auto simp: warm_read_def task_ok_def Let_def begun_def)
qed

lemma task_installed:
  assumes "task_ok t"
  shows "QA (map_of (map_of_entries (map (\<lambda>a. (ga_name a, a)) (default [] (wt_apps t)))) n) \<and>
    QT (default [] (map_of (map_of_entries (wt_tokens t)) n))"
proof -
  have "QA (map_of (rev (map (\<lambda>a. (ga_name a, a)) (default [] (wt_apps t)))) n)"
  proof (cases "map_of (rev (map (\<lambda>a. (ga_name a, a)) (default [] (wt_apps t)))) n")
    case (Some a)
    then have "ga_name a = n \<and> a \<in> set (default [] (wt_apps t))" by (auto dest!: map_of_SomeD)
    with assms Some show ?thesis by (cases "wt_apps t") (auto simp: task_ok_def)
  next
    case None
    show ?thesis unfolding None using nothing_held by blast
  qed
  moreover have "QT (default [] (map_of (rev (wt_tokens t)) n))"
  proof (cases "map_of (rev (wt_tokens t)) n")
    case (Some ts)
    then have "(n, ts) \<in> set (wt_tokens t)" by (auto dest!: map_of_SomeD)
    with assms Some show ?thesis by (force simp: task_ok_def)
  qed (use nothing_held in auto)
  ultimately show ?thesis by (simp add: map_of_entries_last)
qed

lemma begun_step:
  assumes "begun s" "\<forall>x \<in> set (event_writes e). \<not> undoes x"
  shows "begun (cache_step e s)"
proof (cases e)
  case (Warm_Read i)
  have "wt_seen (warm_read st t) = wt_seen t" for st t by (auto simp: warm_read_def Let_def split: option.splits)
  with Warm_Read assms show ?thesis
    by (auto simp: begun_def dest!: set_update_subset_insert[THEN subsetD])
next
  case (Write_Land i)
  with assms show ?thesis by (auto simp: begun_def intro: le_SucI dest: in_drop_at)
qed (use assms kept_store store_keyed_write in \<open>auto simp: begun_def warm_begin_def dest: in_drop_at\<close>)

lemma landed_step:
  assumes "landed s" "\<forall>x \<in> set (event_writes e). \<not> undoes x"
  shows "landed (cache_step e s)"
proof -
  from assms have b: "begun s" "begun (cache_step e s)" using begun_step by (auto simp: landed_def)
  show ?thesis
  proof (cases e)
    case (Write_Land i)
    show ?thesis
    proof (cases "i < length (cy_writes s)")
      case True
      with b(1) have "\<not> undoes (cy_writes s ! i)" by (auto simp: begun_def)
      from kept_cache[OF this] True Write_Land assms(1) b show ?thesis by (auto simp: landed_def)
    qed (use assms Write_Land in simp)
  next
    case (Warm_Read i)
    show ?thesis
    proof (cases "i < length (cy_warms s)")
      case True
      define t where "t = cy_warms s ! i"
      from True have "t \<in> set (cy_warms s)" by (simp add: t_def)
      with assms(1) have "wt_seen t < ac_version (cy_cache s) \<or> task_ok t" by (auto simp: landed_def)
      moreover have "wt_seen (warm_read (cy_store s) t) = wt_seen t" by (auto simp: warm_read_def Let_def split: option.splits)
      ultimately have "wt_seen (warm_read (cy_store s) t) < ac_version (cy_cache s) \<or> task_ok (warm_read (cy_store s) t)"
        using task_read[OF b(1)] by auto
      with True Warm_Read assms(1) b(2) show ?thesis
        by (auto simp: landed_def t_def dest!: set_update_subset_insert[THEN subsetD])
    qed (use assms Warm_Read in simp)
  next
    case (Warm_End i)
    show ?thesis
    proof (cases "i < length (cy_warms s) \<and> warm_complete (cy_warms s ! i)")
      case True
      define t where "t = cy_warms s ! i"
      from True have "t \<in> set (cy_warms s)" by (simp add: t_def)
      with assms(1) have "wt_seen t < ac_version (cy_cache s) \<or> task_ok t" by (auto simp: landed_def)
      then have "QA (cache_getApp n (warm_end t (cy_cache s))) \<and> QT (cache_tokensFor n (warm_end t (cy_cache s)))"
        using task_installed[of t] assms(1)
        by (auto simp: warm_end_def cache_getApp_def cache_tokensFor_def landed_def begun_def)
      with True Warm_End assms(1) b(2) show ?thesis by (auto simp: landed_def t_def dest: in_drop_at)
    next
      case False
      with assms(1) Warm_End show ?thesis by (simp only: cache_step.simps if_False)
    qed
  next
    case Warm_Begin
    with assms b show ?thesis by (auto simp: landed_def warm_begin_def task_ok_def)
  qed (use assms b in \<open>auto simp: landed_def dest: in_drop_at\<close>)
qed

lemma begun_run: "begun s \<Longrightarrow> \<forall>e \<in> set evs. \<forall>x \<in> set (event_writes e). \<not> undoes x \<Longrightarrow> begun (cache_run evs s)"
  by (induction evs arbitrary: s) (simp_all add: cache_run_def begun_step)

lemma landed_run: "landed s \<Longrightarrow> \<forall>e \<in> set evs. \<forall>x \<in> set (event_writes e). \<not> undoes x \<Longrightarrow> landed (cache_run evs s)"
  by (induction evs arbitrary: s) (simp_all add: cache_run_def landed_step)

lemma land:
  assumes "begun s" "i < length (cy_writes s)" "cy_writes s ! i = w"
  shows "landed (cache_step (Write_Land i) s)"
  using assms begun_step[OF assms(1), of "Write_Land i"] in_cache[of "cy_cache s"]
  by (auto simp: landed_def begun_def less_Suc_eq_le)

lemma sticks:
  assumes "store_keyed (cy_store s)" "\<forall>x \<in> set (w # cy_writes s). \<not> undoes x" "ac_loaded (cy_cache s)"
    and "\<forall>t \<in> set (cy_warms s). wt_seen t \<le> ac_version (cy_cache s)"
    and "\<forall>e \<in> set (evs @ evs'). \<forall>x \<in> set (event_writes e). \<not> undoes x"
    and "s' = cache_run (Write_Begin w # evs) s" "i < length (cy_writes s')" "cy_writes s' ! i = w"
    and "c = cy_cache (cache_run (Write_Land i # evs') s')"
  shows "QA (cache_getApp n c) \<and> QT (cache_tokensFor n c)"
proof -
  have "begun (cache_step (Write_Begin w) s)"
    using assms(1-4) in_store store_keyed_write by (auto simp: begun_def)
  with begun_run[of "cache_step (Write_Begin w) s" evs] assms(5,6) have "begun s'" by (auto simp: cache_run_def)
  from landed_run[OF land[OF this assms(7,8)], of evs'] assms(5,9) have "landed (cache_run (Write_Land i # evs') s')"
    by (auto simp: cache_run_def simp del: cache_step.simps)
  with assms(9) show ?thesis by (simp add: landed_def)
qed

end

section \<open>Revocation and rotation stick\<close>

definition inactive :: "gateway_app option \<Rightarrow> bool" where
  "inactive a \<longleftrightarrow> (\<forall>x \<in> set_option a. \<not> ga_active x)"

definition all_expire :: "token_record list \<Rightarrow> bool" where
  "all_expire ts \<longleftrightarrow> (\<forall>t \<in> set ts. tr_expiresAt t \<noteq> None)"

text \<open>The writes that undo another: the app is put again, or gets a new token.\<close>

fun undoing :: "app_write \<Rightarrow> app_write \<Rightarrow> bool" where
  "undoing (W_Revoke n) (W_Put a) = (ga_name a = n)"
| "undoing (W_Expire n e) (W_Token t) = (tr_app t = n)"
| "undoing _ _ = False"

interpretation revoking: sticky_write n "W_Revoke n" inactive "\<lambda>_. True" "undoing (W_Revoke n)" for n
proof
  show "inactive (getApp n (write_store x st)) \<and> True"
    if "\<not> undoing (W_Revoke n) x" "inactive (getApp n st) \<and> True" for x st
    using that by (cases x) (auto simp: getApp_write inactive_def)
  show "inactive (cache_getApp n (write_cache x c)) \<and> True"
    if "\<not> undoing (W_Revoke n) x" "inactive (cache_getApp n c) \<and> True" for x c
    using that by (cases x) (auto simp: cache_write inactive_def)
qed (auto simp: inactive_def getApp_write cache_write)

interpretation rotating: sticky_write n "W_Expire n e" "\<lambda>_. True" all_expire "undoing (W_Expire n e)" for n e
proof
  show "True \<and> all_expire (tokensFor n (write_store x st))"
    if "\<not> undoing (W_Expire n e) x" "True \<and> all_expire (tokensFor n st)" for x st
    using that by (cases x) (auto simp: tokensFor_write tokensFor_expire all_expire_def)
  show "True \<and> all_expire (cache_tokensFor n (write_cache x c))"
    if "\<not> undoing (W_Expire n e) x" "True \<and> all_expire (cache_tokensFor n c)" for x c
    using that by (cases x) (auto simp: cache_write all_expire_def)
qed (auto simp: tokensFor_expire cache_write all_expire_def)

text \<open>A gateway as it starts, and what every history of it keeps.\<close>

definition start_system :: "gateway_store \<Rightarrow> cache_system" where
  "start_system st = \<lparr> cy_store = st, cy_cache = empty_cache, cy_writes = [], cy_warms = [] \<rparr>"

definition cache_ok :: "cache_system \<Rightarrow> bool" where
  "cache_ok s \<longleftrightarrow> store_keyed (cy_store s) \<and> (\<forall>t \<in> set (cy_warms s). wt_seen t \<le> ac_version (cy_cache s))"

lemma cache_ok_step: "cache_ok s \<Longrightarrow> cache_ok (cache_step e s)"
proof (cases e)
  case (Warm_Read i)
  have "wt_seen (warm_read st t) = wt_seen t" for st t by (auto simp: warm_read_def Let_def split: option.splits)
  moreover assume "cache_ok s"
  ultimately show ?thesis using Warm_Read by (auto simp: cache_ok_def dest!: set_update_subset_insert[THEN subsetD])
qed (auto simp: cache_ok_def store_keyed_write warm_begin_def le_SucI dest: in_drop_at)

lemma cache_ok_run: "cache_ok s \<Longrightarrow> cache_ok (cache_run evs s)"
  by (induction evs arbitrary: s) (simp_all add: cache_run_def cache_ok_step)

text \<open>What the gateway checks a token against: the cached apps and tokens.\<close>

definition cached_view :: "app_cache \<Rightarrow> gateway_store" where
  "cached_view c = empty_store\<lparr> st_apps := ac_apps c, st_tokens := concat (map snd (ac_tokens c)) \<rparr>"


text \<open>
  A revocation that overlaps with a warm-up: the warm-up has read the app as active, and would bring
  it back when it ends.
\<close>

definition example_tokens :: gateway_store where
  "example_tokens = addToken \<lparr> tr_app = ''shop'', tr_prefix = ''aaaaaaaa'', tr_hash = ''00'', tr_createdAt = '''', tr_expiresAt = None \<rparr>
     (putApp \<lparr> ga_name = ''shop'', ga_owner = ''ops'', ga_namespace = ''prod'', ga_provider = G_Claude, ga_style = Anthropic,
        ga_target = Pin ''a'', ga_models = None, ga_dailyTokens = None, ga_reservePercent = None, ga_active = True,
        ga_createdAt = '''', ga_lastUsedAt = None \<rparr> empty_store)"

definition example_warm :: "cache_event list" where
  "example_warm = [Warm_Begin, Warm_Read 0, Warm_Read 0, Warm_End 0, Warm_Begin, Warm_Read 0]"

definition example_system :: cache_system where
  "example_system = cache_run example_warm (start_system example_tokens)"

definition opens_shop :: "cache_system \<Rightarrow> bool" where
  "opens_shop s = verifyToken (\<lambda>_. ''00'') \<lparr> ck_parse = (\<lambda>_. None), ck_iso = (\<lambda>_. '''') \<rparr> (cached_view (cy_cache s)) ''shop''
     (''aisg_aaaaaaaa_'' @ replicate 43 CHR ''A'') 0"


text \<open>
  Before the cache has been filled once the rule does not hold: the first warm-up installs what it has
  read even when a write has landed meanwhile, so the write is missing in the cache until the next
  warm-up.
\<close>

definition early_writes :: "cache_event list" where
  "early_writes = [Warm_Begin, Warm_Read 0, Write_Begin (W_Put (snd (hd (st_apps example_tokens)))), Write_Land 0,
     Write_Begin (W_Revoke ''shop''), Write_Land 0]"

lemma first_warm_loses_write:
  "inactive (cache_getApp ''shop'' (cy_cache (cache_run early_writes (start_system example_tokens)))) \<and>
   \<not> inactive (cache_getApp ''shop'' (cy_cache (cache_run (early_writes @ [Warm_Read 0, Warm_End 0]) (start_system example_tokens))))"
  by code_simp

section \<open>A warm-up that nothing interrupts\<close>

lemma warm_read_all:
  assumes "wt_apps t = Some (listApps st)" "wt_tokens t = map (\<lambda>a. (ga_name a, tokensFor (ga_name a) st)) (take k (listApps st))"
    and "k \<le> length (listApps st)"
  shows "(warm_read st ^^ (length (listApps st) - k)) t =
     t\<lparr> wt_tokens := map (\<lambda>a. (ga_name a, tokensFor (ga_name a) st)) (listApps st) \<rparr>"
  using assms
proof (induction "length (listApps st) - k" arbitrary: k t)
  case 0
  then have "t\<lparr> wt_tokens := map (\<lambda>a. (ga_name a, tokensFor (ga_name a) st)) (listApps st) \<rparr> = t" by simp
  with 0 show ?case by simp
next
  case (Suc d)
  then have k: "k < length (listApps st)" by simp
  let ?t = "warm_read st t"
  from Suc k have t: "?t = t\<lparr> wt_tokens := map (\<lambda>a. (ga_name a, tokensFor (ga_name a) st)) (take (Suc k) (listApps st)) \<rparr>"
    by (simp add: warm_read_def Let_def take_Suc_conv_app_nth)
  have "(warm_read st ^^ (length (listApps st) - Suc k)) ?t =
      ?t\<lparr> wt_tokens := map (\<lambda>a. (ga_name a, tokensFor (ga_name a) st)) (listApps st) \<rparr>"
    using Suc k by (intro Suc.hyps(1)) (auto simp: t)
  moreover have "length (listApps st) - k = Suc (length (listApps st) - Suc k)" using k by simp
  ultimately show ?case by (simp add: funpow_swap1 t)
qed

text \<open>
  After it the cache answers as the store does: the changes of other instances are picked up.
\<close>

lemma warm_refreshes:
  fixes c :: app_cache
  assumes "store_keyed st"
  defines "c' \<equiv> warm_end ((warm_read st ^^ Suc (length (listApps st))) (warm_begin c)) c"
  shows "cache_getApp n c' = getApp n st" "getApp n st \<noteq> None \<Longrightarrow> cache_tokensFor n c' = tokensFor n st"
proof -
  let ?entries = "\<lambda>f. map (\<lambda>a. (ga_name a, f a)) (listApps st)"
  have "(warm_read st ^^ Suc (length (listApps st))) (warm_begin c) =
      (warm_read st ^^ length (listApps st)) (warm_read st (warm_begin c))"
    by (simp only: funpow_Suc_right o_apply)
  also have "\<dots> = \<lparr> wt_seen = ac_version c, wt_apps = Some (listApps st), wt_tokens = ?entries (\<lambda>a. tokensFor (ga_name a) st) \<rparr>"
    using warm_read_all[of "warm_read st (warm_begin c)" st 0] by (simp add: warm_read_def warm_begin_def)
  finally have c': "c' = c\<lparr> ac_apps := map_of_entries (?entries (\<lambda>a. a)),
      ac_tokens := map_of_entries (?entries (\<lambda>a. tokensFor (ga_name a) st)), ac_loaded := True \<rparr>"
    unfolding c'_def by (simp add: warm_end_def)
  have apps: "st_apps st = ?entries (\<lambda>a. a)"
  proof -
    have "?entries (\<lambda>a. a) = map id (st_apps st)"
      unfolding listApps_def list.map_comp using assms(1) by (intro map_cong) (auto simp: store_keyed_def)
    then show ?thesis by simp
  qed
  have "map fst (st_apps st) = map ga_name (listApps st)" by (subst apps) simp
  with assms(1) have d: "distinct (map ga_name (listApps st))" by (simp add: store_keyed_def)
  have rev: "map_of (map_of_entries (?entries f)) n = map_of (?entries f) n" for f :: "gateway_app \<Rightarrow> 'a"
    unfolding map_of_entries_last using d by (simp add: map_of_rev_distinct o_def)
  show "cache_getApp n c' = getApp n st"
    using rev[of "\<lambda>a. a"] apps by (simp add: c' cache_getApp_def getApp_def)
  assume "getApp n st \<noteq> None"
  then obtain a where "(n, a) \<in> set (st_apps st)" by (auto simp: getApp_def dest: map_of_SomeD)
  with assms(1) have a: "a \<in> set (listApps st)" "ga_name a = n" by (auto simp: store_keyed_def listApps_def intro: rev_image_eqI)
  have "map_of (?entries (\<lambda>a. tokensFor (ga_name a) st)) n = Some (tokensFor n st)"
    using d a by (intro map_of_is_SomeI) (auto simp: o_def intro: rev_image_eqI)
  then show "cache_tokensFor n c' = tokensFor n st"
    using rev[of "\<lambda>a. tokensFor (ga_name a) st"] by (simp add: c' cache_tokensFor_def)
qed

end
