(* ===== verification/Gateway_Admin.thy ===== *)
theory Gateway_Admin
  imports Gateway_Cache Gateway_Provider
begin

text \<open>
  The admin routes over apps and usage (\<open>src/gateway/admin.ts\<close>); the token routes are in
  \<open>Gateway_Access\<close>. A route answers with a status and, where it has one, a value; error messages are
  left out. The state of an identity is a lookup that may throw (\<open>None\<close>).
\<close>

section \<open>Reading an app from a request\<close>

definition MAX_USAGE_DAYS :: int where
  "MAX_USAGE_DAYS = 90"

definition PROVIDERS :: "gateway_provider list" where
  "PROVIDERS = [G_Claude, G_Codex, G_Kimi, G_Grok, G_Zai, G_Ali, G_Opencode]"

definition provider_named :: "string \<Rightarrow> gateway_provider option" where
  "provider_named s = find (\<lambda>p. provider_text p = s) PROVIDERS"

definition style_named :: "string \<Rightarrow> api_style option" where
  "style_named s = (if s = ''anthropic'' then Some Anthropic else if s = ''openai'' then Some Openai else None)"

definition RESERVED_NAMES :: "string list" where
  "RESERVED_NAMES = [''healthz'', ''readyz'', ''metrics'', ''browser'']"

definition NAME_CHARS :: string where
  "NAME_CHARS = ''abcdefghijklmnopqrstuvwxyz0123456789''"

text \<open>\<open>/^[a-z0-9]([a-z0-9-]{0,61}[a-z0-9])?$/\<close>.\<close>

definition NAME :: "string \<Rightarrow> bool" where
  "NAME s \<longleftrightarrow> 1 \<le> length s \<and> length s \<le> 63 \<and> hd s \<in> set NAME_CHARS \<and> last s \<in> set NAME_CHARS \<and>
     list_all (\<lambda>c. c \<in> set NAME_CHARS \<or> c = CHR ''-'') s"

fun FIXED_STYLE :: "gateway_provider \<Rightarrow> api_style option" where
  "FIXED_STYLE G_Claude = Some Anthropic"
| "FIXED_STYLE G_Ali = Some Anthropic"
| "FIXED_STYLE G_Codex = Some Openai"
| "FIXED_STYLE G_Grok = Some Openai"
| "FIXED_STYLE G_Opencode = Some Openai"
| "FIXED_STYLE G_Kimi = None"
| "FIXED_STYLE G_Zai = None"

definition isObj :: "json option \<Rightarrow> bool" where
  "isObj v \<longleftrightarrow> (case v of Some (JObj _) \<Rightarrow> True | _ \<Rightarrow> False)"

text \<open>\<open>isStrings\<close> and \<open>isPosInt\<close>, with the value they prove.\<close>

definition as_strings :: "json \<Rightarrow> string list option" where
  "as_strings v =
     (case v of
        JArr xs \<Rightarrow>
          (if list_all (\<lambda>x. case x of JStr s \<Rightarrow> s \<noteq> [] | _ \<Rightarrow> False) xs
           then Some (map (\<lambda>x. default [] (as_string x)) xs) else None)
      | _ \<Rightarrow> None)"

definition as_pos_int :: "json \<Rightarrow> rat option" where
  "as_pos_int v = (case v of JNum (Fin q) \<Rightarrow> if q = of_int \<lfloor>q\<rfloor> \<and> q > 0 then Some q else None | _ \<Rightarrow> None)"

definition as_reserve :: "json \<Rightarrow> rat option" where
  "as_reserve v = (case v of JNum (Fin q) \<Rightarrow> if q \<ge> 1 \<and> q \<le> 100 then Some q else None | _ \<Rightarrow> None)"

text \<open>An optional field: absent, or present and valid, or the body is refused.\<close>

definition optional_field :: "(json \<Rightarrow> 'a option) \<Rightarrow> json option \<Rightarrow> 'a option option" where
  "optional_field f v = (case v of None \<Rightarrow> Some None | Some x \<Rightarrow> map_option Some (f x))"

definition filled_string :: "json option \<Rightarrow> string option" where
  "filled_string v = (case v of Some (JStr s) \<Rightarrow> if s = [] then None else Some s | _ \<Rightarrow> None)"

definition parse_target :: "json option \<Rightarrow> app_target option" where
  "parse_target v =
     (case v of
        Some (JObj t) \<Rightarrow>
          (let kind = js_get (JObj t) ''kind'' in
           if kind = Some (JStr ''pin'') then map_option Pin (filled_string (js_get (JObj t) ''identity''))
           else if kind = Some (JStr ''pool'') then map_option Pool (optional_field as_strings (js_get (JObj t) ''identities''))
           else None)
      | _ \<Rightarrow> None)"

record app_fields =
  af_owner :: string
  af_namespace :: string
  af_provider :: gateway_provider
  af_style :: api_style
  af_target :: app_target
  af_models :: "string list option"
  af_dailyTokens :: "rat option"
  af_reservePercent :: "rat option"

definition parseAppBody :: "json \<Rightarrow> app_fields option" where
  "parseAppBody raw =
     (let field = js_get raw in
      case (filled_string (field ''owner''), filled_string (field ''namespace''),
            Option.bind (Option.bind (field ''provider'') as_string) provider_named,
            Option.bind (Option.bind (field ''style'') as_string) style_named) of
        (Some owner, Some ns, Some p, Some style) \<Rightarrow>
          if (\<exists>fixed \<in> set_option (FIXED_STYLE p). style \<noteq> fixed) \<or> ad_upstreamBase (adapterFor p) style = None then None
          else
            (case (parse_target (field ''target''), optional_field as_strings (field ''models''),
                   optional_field as_pos_int (field ''dailyTokens''), optional_field as_reserve (field ''reservePercent'')) of
               (Some target, Some models, Some daily, Some reserve) \<Rightarrow>
                 Some \<lparr> af_owner = owner, af_namespace = ns, af_provider = p, af_style = style, af_target = target,
                        af_models = models, af_dailyTokens = daily, af_reservePercent = reserve \<rparr>
             | _ \<Rightarrow> None)
      | _ \<Rightarrow> None)"

section \<open>The routes\<close>

datatype identity_state = Id_Ok | Id_Missing | Id_Retired | Id_Pool

definition target_names :: "app_target \<Rightarrow> string list" where
  "target_names t = (case t of Pin i \<Rightarrow> [i] | Pool ids \<Rightarrow> default [] ids)"

text \<open>The loop over the identities of the target: the status of the refusal, if any.\<close>

fun check_identities :: "(string \<Rightarrow> identity_state option) \<Rightarrow> string list \<Rightarrow> nat option" where
  "check_identities look [] = None"
| "check_identities look (n # ns) =
     (case look n of
        None \<Rightarrow> Some 500
      | Some Id_Ok \<Rightarrow> check_identities look ns
      | Some _ \<Rightarrow> Some 400)"

datatype put_answer = Put_Refused nat | Put_App nat gateway_app

text \<open>
  \<open>PUT /apps/:name\<close>. The body is \<open>None\<close> when it is not JSON, \<open>existing\<close> what the store has under the
  name; the app of the answer is the one that is put.
\<close>

definition put_app :: "(gateway_provider \<Rightarrow> string \<Rightarrow> identity_state option) \<Rightarrow> string \<Rightarrow> string \<Rightarrow> json option \<Rightarrow> gateway_app option \<Rightarrow> put_answer" where
  "put_app look now name body existing =
     (if \<not> NAME name \<or> name \<in> set RESERVED_NAMES then Put_Refused 400
      else case Option.bind body parseAppBody of
        None \<Rightarrow> Put_Refused 400
      | Some f \<Rightarrow>
          (case check_identities (look (af_provider f)) (target_names (af_target f)) of
             Some code \<Rightarrow> Put_Refused code
           | None \<Rightarrow>
               Put_App (if existing = None then 201 else 200)
                 \<lparr> ga_name = name, ga_owner = af_owner f, ga_namespace = af_namespace f, ga_provider = af_provider f,
                   ga_style = af_style f, ga_target = af_target f, ga_models = af_models f,
                   ga_dailyTokens = af_dailyTokens f, ga_reservePercent = af_reservePercent f,
                   ga_active = default True (map_option ga_active existing),
                   ga_createdAt = default now (map_option ga_createdAt existing),
                   ga_lastUsedAt = Option.bind existing ga_lastUsedAt \<rparr>))"

text \<open>The write that the route brings into the cached store, whose answer it goes by.\<close>

definition put_events :: "(gateway_provider \<Rightarrow> string \<Rightarrow> identity_state option) \<Rightarrow> string \<Rightarrow> string \<Rightarrow> json option \<Rightarrow> cache_system \<Rightarrow> cache_event list" where
  "put_events look now name body s =
     (case put_app look now name body (cache_getApp name (cy_cache s)) of
        Put_Refused _ \<Rightarrow> []
      | Put_App _ app \<Rightarrow> [Write_Begin (W_Put app)])"

record token_view =
  tv_prefix :: string
  tv_createdAt :: string
  tv_expiresAt :: "string option"

definition tokenView :: "token_record \<Rightarrow> token_view" where
  "tokenView t = \<lparr> tv_prefix = tr_prefix t, tv_createdAt = tr_createdAt t, tv_expiresAt = tr_expiresAt t \<rparr>"

definition appView :: "gateway_store \<Rightarrow> gateway_app \<Rightarrow> gateway_app \<times> token_view list" where
  "appView st app = (app, map tokenView (tokensFor (ga_name app) st))"

text \<open>\<open>sameSecret\<close>: the digests are compared, not the secrets.\<close>

definition sameSecret :: "(string \<Rightarrow> string) \<Rightarrow> string \<Rightarrow> string \<Rightarrow> bool" where
  "sameSecret sha given expected \<longleftrightarrow> hex_bytes (sha given) = hex_bytes (sha expected)"

definition admin_bearer :: "headers \<Rightarrow> string" where
  "admin_bearer hs =
     (case Option.bind (map_option js_trim (header ''authorization'' hs)) auth_parts of
        Some (scheme, v) \<Rightarrow> if scheme = ''bearer'' then v else ''''
      | None \<Rightarrow> '''')"

definition admin_allowed :: "(string \<Rightarrow> string) \<Rightarrow> string \<Rightarrow> headers \<Rightarrow> bool" where
  "admin_allowed sha adminToken hs \<longleftrightarrow> adminToken \<noteq> '''' \<and> sameSecret sha (admin_bearer hs) adminToken"

section \<open>Usage reports\<close>

definition usage_days :: "string option \<Rightarrow> int option" where
  "usage_days days =
     (case days of
        None \<Rightarrow> Some 1
      | Some s \<Rightarrow>
          (case finite_number s of
             Some q \<Rightarrow> if q = of_int \<lfloor>q\<rfloor> \<and> 1 \<le> q \<and> \<lfloor>q\<rfloor> \<le> MAX_USAGE_DAYS then Some \<lfloor>q\<rfloor> else None
           | None \<Rightarrow> None))"

definition provider_filter :: "string option \<Rightarrow> gateway_provider option option" where
  "provider_filter p = (case p of None \<Rightarrow> Some None | Some s \<Rightarrow> map_option Some (provider_named s))"

definition provider_wanted :: "gateway_provider option \<Rightarrow> gateway_provider \<Rightarrow> bool" where
  "provider_wanted only p \<longleftrightarrow> (\<forall>q \<in> set_option only. p = q)"

definition usage_route :: "(string \<Rightarrow> int option) \<Rightarrow> int \<Rightarrow> string option \<Rightarrow> string option \<Rightarrow> string option \<Rightarrow> gateway_store \<Rightarrow>
    (string \<times> gateway_provider \<times> int) list option" where
  "usage_route parse now days app provider st =
     (case (usage_days days, provider_filter provider) of
        (Some d, Some pf) \<Rightarrow>
          Some (map (\<lambda>a. (ga_name a, ga_provider a, usageSince parse (ga_name a) (now - d * DAY_MS) st))
                 (filter (\<lambda>a. (\<forall>n \<in> set_option app. ga_name a = n) \<and> provider_wanted pf (ga_provider a)) (listApps st)))
      | _ \<Rightarrow> None)"

definition usage_identities_route :: "(string \<Rightarrow> list_model_price option) \<Rightarrow> (string \<Rightarrow> int option) \<Rightarrow> int \<Rightarrow> string option \<Rightarrow> string option \<Rightarrow>
    string option \<Rightarrow> string option \<Rightarrow> gateway_store \<Rightarrow> identity_usage_row list option" where
  "usage_identities_route price parse now sinceRaw untilRaw days provider st =
     (case (case sinceRaw of Some s \<Rightarrow> parse s | None \<Rightarrow> map_option (\<lambda>d. now - d * DAY_MS) (usage_days days)) of
        None \<Rightarrow> None
      | Some since \<Rightarrow>
          if now - since > MAX_USAGE_DAYS * DAY_MS then None
          else
            (case (case untilRaw of None \<Rightarrow> Some None | Some u \<Rightarrow> map_option Some (parse u)) of
               None \<Rightarrow> None
             | Some until \<Rightarrow>
                 (case provider_filter provider of
                    None \<Rightarrow> None
                  | Some pf \<Rightarrow> Some (filter (\<lambda>r. provider_wanted pf (iu_provider r)) (usageByIdentity price parse since until st)))))"

section \<open>What an accepted app is\<close>

lemma check_identities_ok: "check_identities look ns = None \<longleftrightarrow> (\<forall>n \<in> set ns. look n = Some Id_Ok)"
  by (induction ns) (auto split: option.splits identity_state.splits)

lemma filled_string_Some: "filled_string v = Some s \<Longrightarrow> s \<noteq> []"
  by (auto simp: filled_string_def split: option.splits json.splits if_splits)

lemma as_strings_nonempty:
  assumes "as_strings v = Some xs" "x \<in> set xs"
  shows "x \<noteq> []"
proof -
  from assms(1) obtain js where js: "list_all (\<lambda>x. case x of JStr s \<Rightarrow> s \<noteq> [] | _ \<Rightarrow> False) js"
    "xs = map (\<lambda>x. default [] (as_string x)) js"
    by (cases v) (auto simp: as_strings_def split: if_splits)
  from js(2) assms(2) obtain j where "j \<in> set js" "x = default [] (as_string j)" by auto
  moreover from this js(1) have "case j of JStr s \<Rightarrow> s \<noteq> [] | _ \<Rightarrow> False" by (auto simp: list_all_iff)
  ultimately show ?thesis by - (cases j; simp)
qed

lemma optional_field_Some:
  "optional_field f v = Some r \<Longrightarrow> r = None \<or> (\<exists>x y. f x = Some y \<and> r = Some y)"
  by (auto simp: optional_field_def split: option.splits)

lemma parse_target_names:
  assumes "parse_target v = Some t" "n \<in> set (target_names t)"
  shows "n \<noteq> []"
proof -
  from assms(1) consider (pin) i where "t = Pin i" "i \<noteq> []"
    | (pool) ids w where "t = Pool ids" "optional_field as_strings w = Some ids"
    by (auto simp: parse_target_def Let_def dest: filled_string_Some split: option.splits json.splits if_splits)
  then show ?thesis
  proof cases
    case pool
    from optional_field_Some[OF pool(2)] pool(1) assms(2) show ?thesis
      by (auto simp: target_names_def dest: as_strings_nonempty)
  qed (use assms(2) in \<open>simp add: target_names_def\<close>)
qed

lemma parseAppBody_Some:
  assumes "parseAppBody raw = Some f"
  shows "ad_upstreamBase (adapterFor (af_provider f)) (af_style f) \<noteq> None \<and> (\<forall>n \<in> set (target_names (af_target f)). n \<noteq> []) \<and>
    (\<forall>q \<in> set_option (af_dailyTokens f). q > 0) \<and> (\<forall>q \<in> set_option (af_reservePercent f). 1 \<le> q \<and> q \<le> 100)"
  using assms
  by (auto simp: parseAppBody_def Let_def as_pos_int_def as_reserve_def dest!: optional_field_Some dest: parse_target_names
      split: option.splits if_splits json.splits js_num.splits)

lemma put_app_checked:
  "put_app look now name body existing = Put_App code app \<Longrightarrow>
     check_identities (look (ga_provider app)) (target_names (ga_target app)) = None"
  by (auto simp: put_app_def split: if_splits option.splits)


definition example_body :: json where
  "example_body = JObj [(''owner'', JStr ''ops''), (''namespace'', JStr ''prod''), (''provider'', JStr ''claude''),
     (''style'', JStr ''anthropic''), (''target'', JObj [(''kind'', JStr ''pool''), (''identities'', JArr [JStr ''a'', JStr ''b''])]),
     (''reservePercent'', JNum (Fin 90))]"

definition revoked_app :: "put_answer \<Rightarrow> gateway_app option" where
  "revoked_app r = (case r of Put_App _ app \<Rightarrow> Some (app\<lparr> ga_active := False \<rparr>) | Put_Refused _ \<Rightarrow> None)"

definition example_put :: "gateway_app option \<Rightarrow> put_answer" where
  "example_put = put_app (\<lambda>_ _. Some Id_Ok) ''now'' ''shop'' (Some example_body)"


text \<open>
  The rule is about what the store behind the route says of the app. The route reads the cache, which
  knows nothing before it is filled: an app that is revoked in the store is then put as a new one.
\<close>

lemma put_before_warm_revives:
  assumes "a = revoked_app (example_put None)" "a = Some app"
    and "s = start_system (putApp app empty_store)"
    and "s' = cache_run (put_events (\<lambda>_ _. Some Id_Ok) ''later'' ''shop'' (Some example_body) s) s"
  shows "map_option ga_active (getApp ''shop'' (cy_store s)) = Some False \<and>
    map_option ga_active (getApp ''shop'' (cy_store s')) = Some True"
proof -
  have "(let app = the (revoked_app (example_put None)); s = start_system (putApp app empty_store);
      s' = cache_run (put_events (\<lambda>_ _. Some Id_Ok) ''later'' ''shop'' (Some example_body) s) s
    in map_option ga_active (getApp ''shop'' (cy_store s)) = Some False \<and>
       map_option ga_active (getApp ''shop'' (cy_store s')) = Some True)"
    by code_simp
  moreover have "app = the (revoked_app (example_put None))" using assms(1,2) by (metis option.sel)
  ultimately show ?thesis unfolding assms(3,4) Let_def by simp
qed

end
