(* ===== verification/Gateway_Sources.thy ===== *)
theory Gateway_Sources
  imports Gateway_Credentials Gateway_Admin
begin

text \<open>
  What the gateway reads between requests: usage figures (\<open>src/gateway/usage-source.ts\<close>) and, of
  \<open>src/gateway/serve.ts\<close>, canonical names, pool members and the state of an identity. Reading the
  registry or asking for usage may throw, which is \<open>None\<close>.
\<close>

section \<open>Usage figures\<close>

definition USAGE_TTL_MS :: rat where
  "USAGE_TTL_MS = 45000"

record usage_source =
  uo_entries :: "(hold_key \<times> pool_usage option \<times> rat) list"
  uo_inflight :: "hold_key list"

text \<open>\<open>refresh\<close> joins a fetch under way or begins one.\<close>

definition usage_refresh :: "hold_key \<Rightarrow> usage_source \<Rightarrow> usage_source" where
  "usage_refresh key s = (if key \<in> set (uo_inflight s) then s else s\<lparr> uo_inflight := uo_inflight s @ [key] \<rparr>)"

text \<open>The end of a fetch: the answer, or \<open>None\<close> when it threw.\<close>

definition usage_fetched :: "hold_key \<Rightarrow> pool_usage option option \<Rightarrow> rat \<Rightarrow> usage_source \<Rightarrow> usage_source" where
  "usage_fetched key answer now s =
     (let kept = Option.bind (map_of (uo_entries s) key) fst;
          v = (case answer of
                 None \<Rightarrow> kept
               | Some u \<Rightarrow> if \<exists>x \<in> set_option u. pu_status x \<noteq> Unavailable then u else None)
      in s\<lparr> uo_entries := AList.update key (v, now) (uo_entries s), uo_inflight := removeAll key (uo_inflight s) \<rparr>)"

definition usage_get :: "rat \<Rightarrow> rat \<Rightarrow> hold_key \<Rightarrow> usage_source \<Rightarrow> pool_usage option \<times> usage_source" where
  "usage_get ttl now key s =
     (case map_of (uo_entries s) key of
        None \<Rightarrow> (None, usage_refresh key s)
      | Some (v, read) \<Rightarrow> (v, if now - read \<ge> ttl then usage_refresh key s else s))"

text \<open>The figures come from the tools that have a pool adapter for them; the others have none.\<close>

definition fetchPoolUsage :: "(gateway_provider \<Rightarrow> identity list option) \<Rightarrow> (gateway_provider \<Rightarrow> identity \<Rightarrow> pool_usage option option) \<Rightarrow>
    gateway_provider \<Rightarrow> string \<Rightarrow> pool_usage option option" where
  "fetchPoolUsage registry ask provider ident =
     (if provider \<notin> {G_Claude, G_Codex, G_Kimi} then Some None
      else case registry provider of
        None \<Rightarrow> None
      | Some ids \<Rightarrow> (case findIdentityByNameOrAlias ids ident of None \<Rightarrow> Some None | Some i \<Rightarrow> ask provider i))"

datatype usage_event = Usage_Get rat hold_key | Usage_Fetched hold_key "pool_usage option option" rat

fun usage_source_step :: "rat \<Rightarrow> usage_event \<Rightarrow> usage_source \<Rightarrow> usage_source" where
  "usage_source_step ttl (Usage_Get now key) s = snd (usage_get ttl now key s)"
| "usage_source_step ttl (Usage_Fetched key answer now) s =
     (if key \<in> set (uo_inflight s) then usage_fetched key answer now s else s)"

text \<open>One fetch per identity at a time, and a request never waits for it.\<close>

lemma usage_single_flight: "distinct (uo_inflight s) \<Longrightarrow> distinct (uo_inflight (usage_source_step ttl e s))"
  by (cases e) (auto simp: usage_get_def usage_refresh_def usage_fetched_def Let_def distinct_removeAll split: option.splits)

lemma usage_get_serves: "fst (usage_get ttl now key s) = Option.bind (map_of (uo_entries s) key) fst"
  by (auto simp: usage_get_def split: option.splits)

text \<open>A failed fetch keeps the figure and lets the next one wait for the time to live.\<close>

lemma failed_fetch_keeps:
  assumes "0 < ttl"
  shows "fst (usage_get ttl now key (usage_fetched key None now s)) = fst (usage_get ttl now' key s)"
    and "uo_inflight (snd (usage_get ttl now key (usage_fetched key None now s))) = removeAll key (uo_inflight s)"
  using assms by (auto simp: usage_get_def usage_fetched_def Let_def update_conv' split: option.splits)

section \<open>Canonical names\<close>

definition CANONICAL_TTL :: rat where
  "CANONICAL_TTL = 60000"

record canonical_cache =
  cn_cache :: "((gateway_provider \<times> string) \<times> string \<times> rat) list"
  cn_failedAt :: "(gateway_provider \<times> rat) list"

text \<open>The load of the registry is needed only on a miss; \<open>None\<close> when it throws.\<close>

definition canonical_resolve :: "(gateway_provider \<Rightarrow> identity list option) \<Rightarrow> gateway_provider \<Rightarrow> string \<Rightarrow> rat \<Rightarrow> canonical_cache \<Rightarrow>
    string \<times> canonical_cache" where
  "canonical_resolve reg p ident now c =
     (let hit = map_of (cn_cache c) (p, ident); known = default ident (map_option fst hit) in
      if \<exists>h \<in> set_option hit. now - snd h < CANONICAL_TTL then (known, c)
      else if \<exists>f \<in> set_option (map_of (cn_failedAt c) p). now - f < CANONICAL_TTL then (known, c)
      else case reg p of
        None \<Rightarrow> (known, c\<lparr> cn_failedAt := AList.update p now (cn_failedAt c) \<rparr>)
      | Some ids \<Rightarrow>
          (let n = default ident (map_option i_name (findIdentityByNameOrAlias ids ident))
           in (n, c\<lparr> cn_failedAt := AList.delete p (cn_failedAt c), cn_cache := AList.update (p, ident) (n, now) (cn_cache c) \<rparr>)))"

text \<open>A failing registry is read at most once a minute, and the last known name is used meanwhile.\<close>

lemma canonical_backs_off:
  assumes "canonical_resolve reg p ident now c = (n, c')" "reg p = None" "0 \<le> d" "d < CANONICAL_TTL"
  shows "canonical_resolve reg' p ident' (now + d) c' =
    (default ident' (map_option fst (map_of (cn_cache c') (p, ident'))), c') \<or>
    (\<exists>f \<in> set_option (map_of (cn_failedAt c) p). now - f < CANONICAL_TTL) \<or>
    (\<exists>h \<in> set_option (map_of (cn_cache c) (p, ident)). now - snd h < CANONICAL_TTL)"
  using assms by (auto simp: canonical_resolve_def Let_def update_conv' split: if_splits)

section \<open>Members and identities of the registry\<close>

definition defaultPoolMembers :: "(gateway_provider \<Rightarrow> identity list option) \<Rightarrow> gateway_provider \<Rightarrow> string list option" where
  "defaultPoolMembers registry p = map_option (\<lambda>ids. map i_name (filter (\<lambda>i. \<not> isRetired i) ids)) (registry p)"

definition browserPoolMemberNames :: "host_env \<Rightarrow> identities_file \<Rightarrow> string \<Rightarrow> string list option" where
  "browserPoolMemberNames h f pool =
     map_option (\<lambda>found. filter (\<lambda>n. \<not> (\<exists>m \<in> set_option (findIdentityByNameOrAlias (f_identities f) n). isRetired m))
       (allowedAccounts found)) (findPool h f pool)"

text \<open>The loops over the registries of all tools, in the order of the tool table.\<close>

fun defaultBrowserPoolMembers :: "host_env \<Rightarrow> string \<Rightarrow> identities_file option list \<Rightarrow> string list option option" where
  "defaultBrowserPoolMembers h pool [] = Some None"
| "defaultBrowserPoolMembers h pool (None # fs) = None"
| "defaultBrowserPoolMembers h pool (Some f # fs) =
     (case browserPoolMemberNames h f pool of
        Some names \<Rightarrow> Some (Some names)
      | None \<Rightarrow> defaultBrowserPoolMembers h pool fs)"

fun defaultBrowserIdentityExists :: "string \<Rightarrow> identities_file option list \<Rightarrow> string option option" where
  "defaultBrowserIdentityExists n [] = Some None"
| "defaultBrowserIdentityExists n (None # fs) = None"
| "defaultBrowserIdentityExists n (Some f # fs) =
     (case findIdentityByNameOrAlias (f_identities f) n of
        Some found \<Rightarrow>
          if \<not> isRetired found \<and> \<not> isSwapPool found then Some (Some (i_name found))
          else defaultBrowserIdentityExists n fs
      | None \<Rightarrow> defaultBrowserIdentityExists n fs)"

lemma defaultBrowserIdentityExists_sound:
  "defaultBrowserIdentityExists n fs = Some (Some m) \<Longrightarrow>
     \<exists>f i. Some f \<in> set fs \<and> i \<in> set (f_identities f) \<and> i_name i = m \<and> n \<in> set (keys_of i) \<and> \<not> isRetired i \<and> \<not> isSwapPool i"
proof (induction n fs rule: defaultBrowserIdentityExists.induct)
  case (3 n f fs)
  then show ?case
    by (fastforce split: option.splits if_splits dest: findIdentityByNameOrAlias_Some)
qed simp_all

definition defaultIdentityState :: "(gateway_provider \<Rightarrow> identity list option) \<Rightarrow> gateway_provider \<Rightarrow> string \<Rightarrow> identity_state option" where
  "defaultIdentityState registry p n =
     map_option (\<lambda>ids. case findIdentityByNameOrAlias ids n of
         None \<Rightarrow> Id_Missing
       | Some i \<Rightarrow> if isRetired i then Id_Retired else if isSwapPool i then Id_Pool else Id_Ok) (registry p)"

text \<open>An app put with this look-up names accounts of the registry only.\<close>

lemma put_names_accounts:
  assumes "put_app (defaultIdentityState registry) name now body existing = Put_App code app"
  shows "\<forall>n \<in> set (target_names (ga_target app)). \<exists>ids i. registry (ga_provider app) = Some ids \<and> i \<in> set ids \<and>
    n \<in> set (keys_of i) \<and> \<not> isRetired i \<and> \<not> isSwapPool i"
  using put_app_checked[OF assms]
  by (fastforce simp: check_identities_ok defaultIdentityState_def split: option.splits if_splits dest: findIdentityByNameOrAlias_Some)

end
