(* ===== verification/Browser_Hub.thy ===== *)
theory Browser_Hub
  imports Gateway_Access
begin

text \<open>
  The relay between agents and browser extensions (\<open>src/gateway/browser/hub.ts\<close>), the choice of the
  browser for a call (\<open>routing.ts\<close>) and the wire types of \<open>src/browser/protocol.ts\<close>. A socket is a
  number that is used once. The hub is a machine: its events are what sockets, agents, timers and the
  token check do; the check of a token is split from its answer, so anything may happen in between.
\<close>

section \<open>Results\<close>

definition BROWSER_TOOLS :: "string list" where
  "BROWSER_TOOLS = [''list_browsers'', ''tabs_context'', ''tabs_create'', ''adopt_tab'', ''navigate'', ''screenshot'', ''read_page'',
     ''find'', ''click'', ''type'', ''key'', ''scroll'', ''hover'', ''form_input'', ''javascript'', ''get_console'', ''get_network'',
     ''wait'', ''resize'', ''close_tab'']"

definition BROWSER_ERROR_CODES :: "string list" where
  "BROWSER_ERROR_CODES = [''paused_by_user'', ''stopped_by_user'', ''no_browser'', ''ambiguous_browser'', ''forbidden_tab'',
     ''tab_closed'', ''tab_hidden'', ''timeout'', ''browser_disconnected'', ''bad_args'', ''internal'']"

definition MAX_ERROR_MESSAGE :: nat where
  "MAX_ERROR_MESSAGE = 1000"

definition DEFAULT_CALL_TIMEOUT_MS :: nat where
  "DEFAULT_CALL_TIMEOUT_MS = 30000"

definition WAIT_CALL_TIMEOUT_MS :: nat where
  "WAIT_CALL_TIMEOUT_MS = 120000"

datatype content_item = Text_Item string | Image_Item string string

datatype call_result = Call_Ok string "content_item list" | Call_Failed string string string

fun result_id :: "call_result \<Rightarrow> string" where
  "result_id (Call_Ok i _) = i"
| "result_id (Call_Failed i _ _) = i"

definition content_item_of :: "json \<Rightarrow> content_item option" where
  "content_item_of c =
     (case (js_get c ''type'', js_get c ''text'', js_get c ''mimeType'', js_get c ''data'') of
        (Some (JStr ty), text, mime, data) \<Rightarrow>
          if ty = ''text'' \<and> (\<exists>s. text = Some (JStr s)) then map_option Text_Item (Option.bind text as_string)
          else if ty = ''image'' \<and> (mime = Some (JStr ''image/jpeg'') \<or> mime = Some (JStr ''image/png''))
          then (case (Option.bind mime as_string, Option.bind data as_string) of
                  (Some m, Some d) \<Rightarrow> Some (Image_Item m d)
                | _ \<Rightarrow> None)
          else None
      | _ \<Rightarrow> None)"

fun content_items :: "json list \<Rightarrow> content_item list option" where
  "content_items [] = Some []"
| "content_items (c # cs) =
     (case (content_item_of c, content_items cs) of
        (Some x, Some xs) \<Rightarrow> Some (x # xs)
      | _ \<Rightarrow> None)"

definition sanitiseResult :: "json \<Rightarrow> call_result option" where
  "sanitiseResult r =
     (case (js_get r ''id'', js_get r ''ok'') of
        (Some (JStr i), Some (JBool True)) \<Rightarrow>
          (case js_get r ''content'' of
             Some (JArr cs) \<Rightarrow> map_option (Call_Ok i) (content_items cs)
           | _ \<Rightarrow> None)
      | (Some (JStr i), Some (JBool False)) \<Rightarrow>
          (let code = (case js_get r ''error'' of Some (JStr e) \<Rightarrow> if e \<in> set BROWSER_ERROR_CODES then e else ''internal'' | _ \<Rightarrow> ''internal'');
               message = (case js_get r ''message'' of Some (JStr m) \<Rightarrow> take MAX_ERROR_MESSAGE m | _ \<Rightarrow> '''')
           in Some (Call_Failed i code message))
      | _ \<Rightarrow> None)"

section \<open>State\<close>

record session_info =
  se_id :: string
  se_identity :: string
  se_label :: string

record call_request =
  cr_id :: string
  cr_session :: session_info
  cr_tool :: string
  cr_args :: json

datatype to_extension = Welcome string browser_target | Pong | Call_Frame call_request | Abort_Frame string

record conn =
  cn_binding :: "browser_binding option"
  cn_paused :: bool
  cn_authenticating :: bool

text \<open>
  \<open>hb_sent\<close> and \<open>hb_closed\<close> are what has gone out on the sockets, \<open>hb_answers\<close> the results that calls
  have been given; \<open>hb_calls\<close> lists the calls that were made.
\<close>

record hub =
  hb_conns :: "(nat \<times> conn) list"
  hb_byBinding :: "(string \<times> nat) list"
  hb_pending :: "(string \<times> nat) list"
  hb_sessions :: "(string \<times> rat) list"
  hb_sent :: "(nat \<times> to_extension) list"
  hb_closed :: "(nat \<times> int) list"
  hb_answers :: "call_result list"
  hb_calls :: "string list"

definition empty_hub :: hub where
  "empty_hub = \<lparr> hb_conns = [], hb_byBinding = [], hb_pending = [], hb_sessions = [], hb_sent = [], hb_closed = [],
     hb_answers = [], hb_calls = [] \<rparr>"

definition conn_of :: "nat \<Rightarrow> hub \<Rightarrow> conn option" where
  "conn_of ws h = map_of (hb_conns h) ws"

definition put_conn :: "nat \<Rightarrow> conn \<Rightarrow> hub \<Rightarrow> hub" where
  "put_conn ws c h = h\<lparr> hb_conns := AList.update ws c (hb_conns h) \<rparr>"

definition send_frame :: "nat \<Rightarrow> to_extension \<Rightarrow> hub \<Rightarrow> hub" where
  "send_frame ws m h = h\<lparr> hb_sent := hb_sent h @ [(ws, m)] \<rparr>"

section \<open>Operations\<close>

definition settle :: "string \<Rightarrow> call_result \<Rightarrow> hub \<Rightarrow> hub" where
  "settle i r h =
     (if map_of (hb_pending h) i = None then h
      else h\<lparr> hb_pending := AList.delete i (hb_pending h), hb_answers := hb_answers h @ [r] \<rparr>)"

definition disconnected :: "string \<Rightarrow> call_result" where
  "disconnected i = Call_Failed i ''browser_disconnected'' ''The browser disconnected during the call.''"

definition detach :: "nat \<Rightarrow> hub \<Rightarrow> hub" where
  "detach ws h =
     (case conn_of ws h of
        None \<Rightarrow> h
      | Some c \<Rightarrow>
          (let h1 = h\<lparr> hb_conns := AList.delete ws (hb_conns h),
                 hb_byBinding := (case cn_binding c of
                   Some b \<Rightarrow> if map_of (hb_byBinding h) (bd_name b) = Some ws then AList.delete (bd_name b) (hb_byBinding h) else hb_byBinding h
                 | None \<Rightarrow> hb_byBinding h) \<rparr>
           in foldl (\<lambda>h e. if snd e = ws then settle (fst e) (disconnected (fst e)) h else h) h1 (hb_pending h1)))"

definition drop_conn :: "nat \<Rightarrow> int \<Rightarrow> hub \<Rightarrow> hub" where
  "drop_conn ws code h = (let h1 = detach ws h in h1\<lparr> hb_closed := hb_closed h1 @ [(ws, code)] \<rparr>)"

definition open_socket :: "nat \<Rightarrow> hub \<Rightarrow> hub" where
  "open_socket ws = put_conn ws \<lparr> cn_binding = None, cn_paused = False, cn_authenticating = False \<rparr>"

definition attach :: "nat \<Rightarrow> browser_binding \<Rightarrow> hub \<Rightarrow> hub" where
  "attach ws b h =
     (let c = default \<lparr> cn_binding = None, cn_paused = False, cn_authenticating = False \<rparr> (conn_of ws h);
          h1 = put_conn ws c h;
          h2 = (case map_of (hb_byBinding h1) (bd_name b) of
                  Some old \<Rightarrow> if old \<noteq> ws then drop_conn old 4409 h1 else h1
                | None \<Rightarrow> h1)
      in put_conn ws (c\<lparr> cn_binding := Some b \<rparr>) (h2\<lparr> hb_byBinding := AList.update (bd_name b) ws (hb_byBinding h2) \<rparr>))"

text \<open>
  A frame from a socket, as what \<open>JSON.parse\<close> makes of it. A valid \<open>hello\<close> begins the check of its
  token, which is the second component of the answer.
\<close>

definition is_true :: "json option \<Rightarrow> bool" where
  "is_true v \<longleftrightarrow> v = Some (JBool True)"

definition hub_message :: "nat \<Rightarrow> json option \<Rightarrow> hub \<Rightarrow> (string \<times> bool) option \<times> hub" where
  "hub_message ws raw h =
     (case conn_of ws h of
        None \<Rightarrow> (None, h)
      | Some c \<Rightarrow>
          (case Option.bind raw (\<lambda>m. map_option (\<lambda>t. (m, t)) (Option.bind (js_get m ''t'') as_string)) of
             None \<Rightarrow> (None, drop_conn ws 4400 h)
           | Some (m, t) \<Rightarrow>
               if cn_binding c = None then
                 (if cn_authenticating c then (None, h)
                  else case (if t = ''hello'' then Option.bind (js_get m ''token'') as_string else None) of
                    None \<Rightarrow> (None, drop_conn ws 4401 h)
                  | Some token \<Rightarrow> (Some (token, is_true (js_get m ''paused'')), put_conn ws (c\<lparr> cn_authenticating := True \<rparr>) h))
               else if t = ''ping'' then (None, send_frame ws Pong h)
               else if t = ''state'' then (None, put_conn ws (c\<lparr> cn_paused := is_true (js_get m ''paused'') \<rparr>) h)
               else if t = ''result'' then
                 (None, case Option.bind (js_get m ''result'') sanitiseResult of
                    Some r \<Rightarrow> if map_of (hb_pending h) (result_id r) = Some ws then settle (result_id r) r h else h
                  | None \<Rightarrow> h)
               else (None, h)))"

text \<open>The answer of the token check: \<open>None\<close> when it threw.\<close>

definition hub_checked :: "nat \<Rightarrow> bool \<Rightarrow> browser_binding option option \<Rightarrow> hub \<Rightarrow> hub" where
  "hub_checked ws paused answer h =
     (case answer of
        None \<Rightarrow> drop_conn ws 1011 h
      | Some None \<Rightarrow> drop_conn ws 4401 h
      | Some (Some b) \<Rightarrow>
          (case conn_of ws h of
             None \<Rightarrow> h
           | Some c \<Rightarrow>
               send_frame ws (Welcome (bd_name b) (bd_target b))
                 (attach ws b (put_conn ws (c\<lparr> cn_paused := paused, cn_authenticating := False \<rparr>) h))))"

definition hub_connected :: "hub \<Rightarrow> browser_binding list" where
  "hub_connected h = List.map_filter (\<lambda>e. Option.bind (conn_of (snd e) h) cn_binding) (hb_byBinding h)"

definition SESSION_TTL_MS :: rat where
  "SESSION_TTL_MS = 600000"

definition activeSessions :: "rat \<Rightarrow> hub \<Rightarrow> nat \<times> hub" where
  "activeSessions now h =
     (let kept = filter (\<lambda>e. \<not> snd e < now - SESSION_TTL_MS) (hb_sessions h)
      in (length kept, h\<lparr> hb_sessions := kept \<rparr>))"

definition hub_abort :: "string \<Rightarrow> hub \<Rightarrow> hub" where
  "hub_abort i h =
     (case map_of (hb_pending h) i of
        None \<Rightarrow> h
      | Some ws \<Rightarrow> settle i (Call_Failed i ''timeout'' ''The caller went away.'') (send_frame ws (Abort_Frame i) h))"

text \<open>\<open>sent\<close> says whether the socket took the frame. An answer given at once goes to \<open>hb_answers\<close> too.\<close>

definition hub_call :: "rat \<Rightarrow> string \<Rightarrow> call_request \<Rightarrow> bool \<Rightarrow> hub \<Rightarrow> hub" where
  "hub_call now binding req sent h =
     (let i = cr_id req; h1 = snd (activeSessions now h);
          h2 = h1\<lparr> hb_sessions := AList.update (se_id (cr_session req)) now (hb_sessions h1), hb_calls := hb_calls h1 @ [i] \<rparr>;
          answer = (\<lambda>code m. h2\<lparr> hb_answers := hb_answers h2 @ [Call_Failed i code m] \<rparr>)
      in case Option.bind (map_of (hb_byBinding h2) binding) (\<lambda>ws. map_option (\<lambda>c. (ws, c)) (conn_of ws h2)) of
           None \<Rightarrow> answer ''no_browser'' ''That browser is not connected.''
         | Some (ws, c) \<Rightarrow>
             if cn_paused c then answer ''paused_by_user'' ''The user paused browser control.''
             else
               let h3 = h2\<lparr> hb_pending := AList.update i ws (hb_pending h2) \<rparr>
               in if sent then send_frame ws (Call_Frame req) h3
                  else settle i (Call_Failed i ''browser_disconnected'' ''The browser connection failed.'') h3)"

fun decimal :: "nat \<Rightarrow> string" where
  "decimal n = (if n < 10 then [char_of (48 + n)] else decimal (n div 10) @ [char_of (48 + n mod 10)])"

declare decimal.simps [simp del]

text \<open>The timer of a call with \<open>ms\<close> to run; \<open>Math.round(ms / 1000)\<close> is written out on whole numbers.\<close>

definition call_timeout :: "string \<Rightarrow> nat \<Rightarrow> nat \<Rightarrow> hub \<Rightarrow> hub" where
  "call_timeout i ms ws h =
     settle i (Call_Failed i ''timeout'' (''No result within '' @ decimal ((ms + 500) div 1000) @ '' s.'')) (send_frame ws (Abort_Frame i) h)"

definition hub_revoke :: "string \<Rightarrow> hub \<Rightarrow> hub" where
  "hub_revoke binding h =
     (case map_of (hb_byBinding h) binding of
        Some ws \<Rightarrow> drop_conn ws 4401 h
      | None \<Rightarrow> h)"

definition closeAll :: "int \<Rightarrow> hub \<Rightarrow> hub" where
  "closeAll code h = foldl (\<lambda>h e. drop_conn (fst e) code h) h (hb_conns h)"

section \<open>The machine\<close>

text \<open>\<open>authBrowserToken\<close> of \<open>auth.ts\<close>, on the store it reads.\<close>

definition authBrowserToken :: "(string \<Rightarrow> string) \<Rightarrow> gateway_store \<Rightarrow> string \<Rightarrow> browser_binding option" where
  "authBrowserToken sha st token =
     (case parseToken token of
        None \<Rightarrow> None
      | Some parsed \<Rightarrow>
          (case browserTokenByPrefix (fst parsed) st of
             None \<Rightarrow> None
           | Some rec \<Rightarrow>
               if \<not> sameHash sha (tr_hash rec) (snd parsed) then None
               else (case getBrowserBinding (tr_app rec) st of
                       Some b \<Rightarrow> if bd_active b then Some b else None
                     | None \<Rightarrow> None)))"

text \<open>A check under way, and the state of the whole: \<open>hs_used\<close> are the sockets there have been and
  \<open>hs_verified\<close> what the token checks have found. A check has its socket, the \<open>paused\<close> of the \<open>hello\<close>, the token, and the answer once there is one.\<close>

record token_check =
  tk_socket :: nat
  tk_paused :: bool
  tk_token :: string
  tk_answer :: "browser_binding option option option"

record hub_system =
  hs_hub :: hub
  hs_store :: gateway_store
  hs_checks :: "token_check list"
  hs_used :: "nat list"
  hs_verified :: "(nat \<times> browser_binding) list"

datatype hub_event =
    Open nat | Frame nat "json option" | Check_Read nat | Check_Fails nat | Check_Done nat
  | Call rat string call_request bool | Caller_Gone string | Call_Timeout string nat
  | Socket_Closed nat | Socket_Silent nat | Revoke_Hub string | Shut_Down int | Store_Changes gateway_store

definition at_check :: "nat \<Rightarrow> (token_check \<Rightarrow> hub_system \<Rightarrow> hub_system) \<Rightarrow> hub_system \<Rightarrow> hub_system" where
  "at_check k f s = (if k < length (hs_checks s) then f (hs_checks s ! k) s else s)"

definition remove_nth :: "nat \<Rightarrow> 'a list \<Rightarrow> 'a list" where
  "remove_nth k xs = take k xs @ drop (Suc k) xs"

fun hub_step :: "(string \<Rightarrow> string) \<Rightarrow> hub_event \<Rightarrow> hub_system \<Rightarrow> hub_system" where
  "hub_step sha (Open ws) s =
     (if ws \<in> set (hs_used s) then s else s\<lparr> hs_hub := open_socket ws (hs_hub s), hs_used := ws # hs_used s \<rparr>)"
| "hub_step sha (Frame ws raw) s =
     (case hub_message ws raw (hs_hub s) of
        (None, h) \<Rightarrow> s\<lparr> hs_hub := h \<rparr>
      | (Some (token, paused), h) \<Rightarrow> s\<lparr> hs_hub := h, hs_checks := hs_checks s @
          [\<lparr> tk_socket = ws, tk_paused = paused, tk_token = token, tk_answer = None \<rparr>] \<rparr>)"
| "hub_step sha (Check_Read k) s =
     at_check k (\<lambda>c s. if tk_answer c \<noteq> None then s
         else let found = authBrowserToken sha (hs_store s) (tk_token c)
              in s\<lparr> hs_checks := (hs_checks s)[k := c\<lparr> tk_answer := Some (Some found) \<rparr>],
                   hs_verified := (case found of Some b \<Rightarrow> [(tk_socket c, b)] | None \<Rightarrow> []) @ hs_verified s \<rparr>) s"
| "hub_step sha (Check_Fails k) s =
     at_check k (\<lambda>c s. if tk_answer c \<noteq> None then s
         else s\<lparr> hs_checks := (hs_checks s)[k := c\<lparr> tk_answer := Some None \<rparr>] \<rparr>) s"
| "hub_step sha (Check_Done k) s =
     at_check k (\<lambda>c s. case tk_answer c of
         None \<Rightarrow> s
       | Some a \<Rightarrow> s\<lparr> hs_hub := hub_checked (tk_socket c) (tk_paused c) a (hs_hub s), hs_checks := remove_nth k (hs_checks s) \<rparr>) s"
| "hub_step sha (Call now b req sent) s =
     (if cr_id req \<in> set (hb_calls (hs_hub s)) then s else s\<lparr> hs_hub := hub_call now b req sent (hs_hub s) \<rparr>)"
| "hub_step sha (Caller_Gone i) s = s\<lparr> hs_hub := hub_abort i (hs_hub s) \<rparr>"
| "hub_step sha (Call_Timeout i ms) s =
     (case map_of (hb_pending (hs_hub s)) i of
        None \<Rightarrow> s
      | Some ws \<Rightarrow> s\<lparr> hs_hub := call_timeout i ms ws (hs_hub s) \<rparr>)"
| "hub_step sha (Socket_Closed ws) s = s\<lparr> hs_hub := detach ws (hs_hub s) \<rparr>"
| "hub_step sha (Socket_Silent ws) s = s\<lparr> hs_hub := drop_conn ws 4408 (hs_hub s) \<rparr>"
| "hub_step sha (Revoke_Hub n) s = s\<lparr> hs_hub := hub_revoke n (hs_hub s) \<rparr>"
| "hub_step sha (Shut_Down code) s = s\<lparr> hs_hub := closeAll code (hs_hub s) \<rparr>"
| "hub_step sha (Store_Changes st) s = s\<lparr> hs_store := st \<rparr>"

inductive hub_reach :: "(string \<Rightarrow> string) \<Rightarrow> hub_system \<Rightarrow> bool" for sha where
  hub_start: "hub_reach sha \<lparr> hs_hub = empty_hub, hs_store = st, hs_checks = [], hs_used = [], hs_verified = [] \<rparr>"
| hub_next: "hub_reach sha s \<Longrightarrow> hub_reach sha (hub_step sha e s)"

section \<open>The invariant\<close>

text \<open>Sockets and bindings belong together one to one, and a call waits on a socket that is bound.\<close>

definition bound_to :: "hub \<Rightarrow> nat \<Rightarrow> string \<Rightarrow> bool" where
  "bound_to h ws n \<longleftrightarrow> (\<exists>c b. conn_of ws h = Some c \<and> cn_binding c = Some b \<and> bd_name b = n)"

definition sockets_ok :: "hub \<Rightarrow> bool" where
  "sockets_ok h \<longleftrightarrow> (\<forall>ws n. map_of (hb_byBinding h) n = Some ws \<longleftrightarrow> bound_to h ws n) \<and>
     (\<forall>i ws. map_of (hb_pending h) i = Some ws \<longrightarrow> (\<exists>n. bound_to h ws n))"

lemma sockets_okD:
  assumes "sockets_ok h"
  shows "map_of (hb_byBinding h) n = Some ws \<longleftrightarrow> bound_to h ws n" "map_of (hb_pending h) i = Some ws \<Longrightarrow> \<exists>n. bound_to h ws n"
  using assms unfolding sockets_ok_def by blast+

text \<open>Every call made is waiting, or has been answered once.\<close>

definition answers_to :: "hub \<Rightarrow> string \<Rightarrow> nat" where
  "answers_to h i = length (filter (\<lambda>r. result_id r = i) (hb_answers h))"

definition calls_ok :: "hub \<Rightarrow> bool" where
  "calls_ok h \<longleftrightarrow> (\<forall>i. answers_to h i = (if i \<in> set (hb_calls h) \<and> map_of (hb_pending h) i = None then 1 else 0)) \<and>
     (\<forall>i. map_of (hb_pending h) i \<noteq> None \<longrightarrow> i \<in> set (hb_calls h))"

definition hub_ok :: "hub \<Rightarrow> bool" where
  "hub_ok h \<longleftrightarrow> sockets_ok h \<and> calls_ok h"

lemma settle_calls: "calls_ok h \<Longrightarrow> result_id r = i \<Longrightarrow> calls_ok (settle i r h)"
  by (auto simp: calls_ok_def settle_def answers_to_def delete_conv')

lemma settle_same [simp]:
  "hb_conns (settle i r h) = hb_conns h" "hb_byBinding (settle i r h) = hb_byBinding h" "hb_calls (settle i r h) = hb_calls h"
  "hb_pending (settle i r h) = AList.delete i (hb_pending h)"
  by (auto simp: settle_def delete_id map_of_eq_None_iff)

lemma settle_sockets: "sockets_ok h \<Longrightarrow> sockets_ok (settle i r h)"
  by (auto simp: sockets_ok_def bound_to_def conn_of_def delete_conv' split: if_splits)

lemma settle_ok: "hub_ok h \<Longrightarrow> result_id r = i \<Longrightarrow> hub_ok (settle i r h)"
  by (simp add: hub_ok_def settle_sockets settle_calls)

lemma send_same [simp]:
  "sockets_ok (send_frame ws m h) = sockets_ok h" "calls_ok (send_frame ws m h) = calls_ok h"
  "conn_of w (send_frame ws m h) = conn_of w h" "hb_pending (send_frame ws m h) = hb_pending h"
  by (simp_all add: sockets_ok_def calls_ok_def bound_to_def conn_of_def answers_to_def send_frame_def)

text \<open>Leaving: the loop of \<open>detach\<close> settles what waits on the socket and nothing else.\<close>

abbreviation settle_loop :: "nat \<Rightarrow> hub \<Rightarrow> (string \<times> nat) list \<Rightarrow> hub" where
  "settle_loop ws \<equiv> foldl (\<lambda>h e. if snd e = ws then settle (fst e) (disconnected (fst e)) h else h)"

lemma settle_loop_same:
  "hb_conns (settle_loop ws h es) = hb_conns h \<and> hb_byBinding (settle_loop ws h es) = hb_byBinding h \<and>
   hb_calls (settle_loop ws h es) = hb_calls h \<and>
   hb_pending (settle_loop ws h es) = filter (\<lambda>e. \<forall>x \<in> set es. snd x = ws \<longrightarrow> fst x \<noteq> fst e) (hb_pending h)"
proof (induction es arbitrary: h)
  case (Cons e es)
  have "hb_pending (if snd e = ws then settle (fst e) (disconnected (fst e)) h else h) =
      filter (\<lambda>x. snd e = ws \<longrightarrow> fst e \<noteq> fst x) (hb_pending h)"
    by (auto simp: AList.delete_eq intro: filter_cong)
  with Cons show ?case by (auto intro!: filter_cong)
qed simp

lemma settle_loop_calls: "calls_ok h \<Longrightarrow> calls_ok (settle_loop ws h es)"
  by (induction es arbitrary: h) (simp_all add: settle_calls disconnected_def)

lemma map_of_filter_keys: "map_of (filter (\<lambda>e. Q (fst e)) xs) k = (if Q k then map_of xs k else None)"
  by (induction xs) auto

lemma detach_effect:
  assumes "sockets_ok h"
  shows "(\<forall>w. conn_of w (detach ws h) = (if w = ws then None else conn_of w h)) \<and>
    (\<forall>n. map_of (hb_byBinding (detach ws h)) n = (if map_of (hb_byBinding h) n = Some ws then None else map_of (hb_byBinding h) n)) \<and>
    (\<forall>i w. map_of (hb_pending (detach ws h)) i = Some w \<longrightarrow> map_of (hb_pending h) i = Some w \<and> w \<noteq> ws)"
proof (cases "conn_of ws h")
  case None
  have "\<not> bound_to h ws n" for n using None by (simp add: bound_to_def)
  then have "map_of (hb_byBinding h) n \<noteq> Some ws" "map_of (hb_pending h) i \<noteq> Some ws" for n i
    using sockets_okD[OF assms] by blast+
  with None show ?thesis by (auto simp: detach_def)
next
  case (Some c)
  define h1 where "h1 = h\<lparr> hb_conns := AList.delete ws (hb_conns h),
     hb_byBinding := (case cn_binding c of
       Some b \<Rightarrow> if map_of (hb_byBinding h) (bd_name b) = Some ws then AList.delete (bd_name b) (hb_byBinding h) else hb_byBinding h
     | None \<Rightarrow> hb_byBinding h) \<rparr>"
  have d: "detach ws h = settle_loop ws h1 (hb_pending h)" by (simp add: detach_def Some h1_def Let_def)
  note same = settle_loop_same[of ws h1 "hb_pending h", folded d]
  have conns: "conn_of w (detach ws h) = (if w = ws then None else conn_of w h)" for w
    using same by (simp add: conn_of_def h1_def delete_conv')
  have own: "map_of (hb_byBinding h) n = Some ws \<longleftrightarrow> (\<exists>b. cn_binding c = Some b \<and> bd_name b = n)" for n
    using sockets_okD(1)[OF assms, of n ws] Some by (simp add: bound_to_def)
  have "map_of (hb_byBinding h1) n = (if map_of (hb_byBinding h) n = Some ws then None else map_of (hb_byBinding h) n)" for n
    using own[of n] by (auto simp: h1_def delete_conv' split: option.splits)
  with same have binds: "map_of (hb_byBinding (detach ws h)) n = (if map_of (hb_byBinding h) n = Some ws then None else map_of (hb_byBinding h) n)" for n
    by simp
  have waits: "map_of (hb_pending h) i = Some w \<and> w \<noteq> ws" if "map_of (hb_pending (detach ws h)) i = Some w" for i w
  proof -
    have "map_of (hb_pending (detach ws h)) i =
        (if \<forall>x \<in> set (hb_pending h). snd x = ws \<longrightarrow> fst x \<noteq> i then map_of (hb_pending h) i else None)"
      using same map_of_filter_keys[of "\<lambda>k. \<forall>x \<in> set (hb_pending h). snd x = ws \<longrightarrow> fst x \<noteq> k" "hb_pending h" i]
      by (simp add: h1_def)
    with that have "map_of (hb_pending h) i = Some w" "\<forall>x \<in> set (hb_pending h). snd x = ws \<longrightarrow> fst x \<noteq> i"
      by (auto split: if_splits)
    moreover from this(1) have "(i, w) \<in> set (hb_pending h)" by (rule map_of_SomeD)
    ultimately show ?thesis by auto
  qed
  from conns binds waits show ?thesis by blast
qed

lemma bound_detach: "sockets_ok h \<Longrightarrow> bound_to (detach ws h) w n \<longleftrightarrow> w \<noteq> ws \<and> bound_to h w n"
  using detach_effect[of h ws] by (auto simp: bound_to_def)

lemma calls_ok_cong:
  "hb_calls h' = hb_calls h \<Longrightarrow> hb_pending h' = hb_pending h \<Longrightarrow> hb_answers h' = hb_answers h \<Longrightarrow> calls_ok h' = calls_ok h"
  by (simp add: calls_ok_def answers_to_def)

lemma detach_calls:
  assumes "calls_ok h"
  shows "calls_ok (detach ws h)"
proof -
  have "calls_ok (settle_loop ws (h\<lparr> hb_conns := cs, hb_byBinding := bs \<rparr>) es)" for cs bs es
    using assms calls_ok_cong[of "h\<lparr> hb_conns := cs, hb_byBinding := bs \<rparr>" h] by (intro settle_loop_calls) simp
  with assms show ?thesis unfolding detach_def Let_def by (auto split: option.split)
qed

lemma bound_unique: "sockets_ok h \<Longrightarrow> bound_to h w n \<Longrightarrow> bound_to h w' n \<Longrightarrow> w = w'"
  unfolding sockets_ok_def by (metis option.inject)

lemma detach_ok:
  assumes "hub_ok h"
  shows "hub_ok (detach ws h)"
proof -
  from assms have s: "sockets_ok h" and c: "calls_ok h" by (simp_all add: hub_ok_def)
  note e = detach_effect[OF s, of ws]
  have "map_of (hb_byBinding (detach ws h)) n = Some w \<longleftrightarrow> bound_to (detach ws h) w n" for w n
    using e s bound_unique[OF s] unfolding bound_detach[OF s] by (auto simp: sockets_ok_def)
  moreover have "\<exists>n. bound_to (detach ws h) w n" if "map_of (hb_pending (detach ws h)) i = Some w" for i w
    using e sockets_okD(2)[OF s, of i w] that unfolding bound_detach[OF s] by blast
  ultimately show ?thesis using detach_calls[OF c] by (simp add: hub_ok_def sockets_ok_def)
qed

lemma drop_same [simp]:
  "hub_ok (drop_conn ws code h) = hub_ok (detach ws h)" "conn_of w (drop_conn ws code h) = conn_of w (detach ws h)"
  "bound_to (drop_conn ws code h) w n = bound_to (detach ws h) w n"
  "hb_byBinding (drop_conn ws code h) = hb_byBinding (detach ws h)" "hb_pending (drop_conn ws code h) = hb_pending (detach ws h)"
  by (simp_all add: drop_conn_def Let_def hub_ok_def sockets_ok_def calls_ok_def bound_to_def conn_of_def answers_to_def)

lemma conn_of_put [simp]: "conn_of w (put_conn ws c h) = (if w = ws then Some c else conn_of w h)"
  by (simp add: conn_of_def put_conn_def update_conv')

lemma conn_of_update [simp]: "conn_of w (h\<lparr> hb_byBinding := bs \<rparr>) = conn_of w h" "conn_of w (h\<lparr> hb_pending := ps \<rparr>) = conn_of w h"
  by (simp_all add: conn_of_def)

lemma put_conn_same [simp]:
  "hb_byBinding (put_conn ws c h) = hb_byBinding h" "hb_pending (put_conn ws c h) = hb_pending h"
  "calls_ok (put_conn ws c h) = calls_ok h"
  by (simp_all add: put_conn_def calls_ok_def answers_to_def)

lemma calls_ok_update [simp]: "calls_ok (h\<lparr> hb_byBinding := bs \<rparr>) = calls_ok h" "calls_ok (h\<lparr> hb_sessions := ss \<rparr>) = calls_ok h"
  by (rule calls_ok_cong; simp)+

text \<open>Changing a socket but not what it is bound to.\<close>

lemma put_conn_ok:
  assumes "hub_ok h" "map_option cn_binding (conn_of ws h) = Some (cn_binding c) \<or> (conn_of ws h = None \<and> cn_binding c = None)"
  shows "hub_ok (put_conn ws c h)"
proof -
  have "bound_to (put_conn ws c h) w n = bound_to h w n" for w n
    using assms(2) by (auto simp: bound_to_def)
  with assms(1) show ?thesis by (simp add: hub_ok_def sockets_ok_def)
qed

lemma attach_ok:
  assumes "hub_ok h" "conn_of ws h = Some c" "cn_binding c = None"
  shows "hub_ok (attach ws b h)"
proof -
  define h2 where "h2 = (case map_of (hb_byBinding h) (bd_name b) of
    Some old \<Rightarrow> if old \<noteq> ws then drop_conn old 4409 (put_conn ws c h) else put_conn ws c h | None \<Rightarrow> put_conn ws c h)"
  have a: "attach ws b h = put_conn ws (c\<lparr> cn_binding := Some b \<rparr>) (h2\<lparr> hb_byBinding := AList.update (bd_name b) ws (hb_byBinding h2) \<rparr>)"
    using assms(2) by (simp add: attach_def Let_def h2_def)
  have ok1: "hub_ok (put_conn ws c h)" using assms by (intro put_conn_ok) auto
  then have ok2: "hub_ok h2" unfolding h2_def by (auto split: option.splits intro: detach_ok)
  have free: "map_of (hb_byBinding h) n \<noteq> Some ws" for n
    using assms by (auto simp: hub_ok_def sockets_ok_def bound_to_def)
  have c2: "conn_of ws h2 = Some c"
    using free detach_effect[of "put_conn ws c h"] ok1 unfolding h2_def by (auto simp: hub_ok_def split: option.splits)
  have gone: "map_of (hb_byBinding h2) (bd_name b) = None"
    using free detach_effect[of "put_conn ws c h"] ok1 unfolding h2_def by (auto simp: hub_ok_def split: option.splits)
  have bound: "bound_to (attach ws b h) w n \<longleftrightarrow> (if w = ws then n = bd_name b else bound_to h2 w n)" for w n
    unfolding a by (auto simp: bound_to_def)
  have unbound: "\<not> bound_to h2 ws n" for n using c2 assms(3) by (simp add: bound_to_def)
  have "map_of (hb_byBinding (attach ws b h)) n = Some w \<longleftrightarrow> bound_to (attach ws b h) w n" for w n
  proof -
    have s2: "map_of (hb_byBinding h2) m = Some w \<longleftrightarrow> bound_to h2 w m" for m using ok2 sockets_okD(1) by (auto simp: hub_ok_def)
    have "\<not> bound_to h2 w (bd_name b)" using s2[of "bd_name b"] gone by simp
    with s2 unbound show ?thesis unfolding bound by (auto simp: a update_conv')
  qed
  moreover have "\<exists>n. bound_to (attach ws b h) w n" if "map_of (hb_pending (attach ws b h)) i = Some w" for i w
    using ok2 sockets_okD(2)[of h2 i w] that unfolding bound by (auto simp: a hub_ok_def)
  moreover have "calls_ok (attach ws b h)" using ok2 unfolding a by (simp add: hub_ok_def)
  ultimately show ?thesis by (simp add: hub_ok_def sockets_ok_def)
qed

lemma hub_message_ok:
  assumes ok: "hub_ok h" and run: "hub_message ws raw h = (out, h')"
  shows "hub_ok h'"
proof (cases "conn_of ws h")
  case None
  with run ok show ?thesis by (simp add: hub_message_def)
next
  case (Some c)
  have put: "hub_ok (put_conn ws (c\<lparr> cn_authenticating := True \<rparr>) h)" "hub_ok (put_conn ws (c\<lparr> cn_paused := p \<rparr>) h)" for p
    using ok Some by (auto intro!: put_conn_ok)
  have frame: "hub_ok (send_frame ws m h)" for m using ok by (simp add: hub_ok_def)
  have settle: "hub_ok (settle (result_id r) r h)" for r using ok by (simp add: settle_ok)
  have drop: "hub_ok (drop_conn ws code h)" for code using detach_ok[OF ok] by simp
  from run Some ok put frame settle drop show ?thesis
    by (auto simp: hub_message_def split: option.splits if_splits prod.splits)
qed

lemma hub_checked_ok:
  assumes "hub_ok h" "\<forall>c \<in> set_option (conn_of ws h). cn_binding c = None"
  shows "hub_ok (hub_checked ws paused answer h)"
proof -
  have "hub_ok (attach ws b (put_conn ws (c\<lparr> cn_paused := paused, cn_authenticating := False \<rparr>) h))" if "conn_of ws h = Some c" for c b
    using assms that by (intro attach_ok[of _ _ "c\<lparr> cn_paused := paused, cn_authenticating := False \<rparr>"] put_conn_ok) auto
  then have "hub_ok (send_frame ws m (attach ws b (put_conn ws (c\<lparr> cn_paused := paused, cn_authenticating := False \<rparr>) h)))"
    if "conn_of ws h = Some c" for c b m
    using that by (simp add: hub_ok_def)
  with detach_ok[OF assms(1)] assms(1) show ?thesis by (auto simp: hub_checked_def split: option.splits)
qed

lemma sockets_ok_cong:
  assumes "hb_conns h' = hb_conns h" "hb_byBinding h' = hb_byBinding h" "hb_pending h' = hb_pending h"
  shows "sockets_ok h' = sockets_ok h"
proof -
  have "bound_to h' = bound_to h" by (simp add: fun_eq_iff bound_to_def conn_of_def assms(1))
  then show ?thesis by (simp add: sockets_ok_def assms(2,3))
qed

lemma sockets_ok_waiting:
  assumes "sockets_ok h" "map_of (hb_byBinding h) b = Some ws"
    "hb_conns h' = hb_conns h" "hb_byBinding h' = hb_byBinding h" "hb_pending h' = AList.update i ws (hb_pending h)"
  shows "sockets_ok h'"
proof -
  have same: "bound_to h' = bound_to h" by (simp add: fun_eq_iff bound_to_def conn_of_def assms(3))
  have "bound_to h ws b" using assms(1,2) sockets_okD(1) by blast
  with assms(1) show ?thesis by (auto simp: sockets_ok_def same assms(4,5) update_conv')
qed

lemma hub_call_ok:
  assumes ok: "hub_ok h" and fresh: "cr_id req \<notin> set (hb_calls h)"
  shows "hub_ok (hub_call now b req sent h)"
proof -
  define i where "i = cr_id req"
  define h1 where "h1 = snd (activeSessions now h)"
  define h2 where "h2 = h1\<lparr> hb_sessions := AList.update (se_id (cr_session req)) now (hb_sessions h1), hb_calls := hb_calls h1 @ [i] \<rparr>"
  have field: "hb_conns h2 = hb_conns h" "hb_byBinding h2 = hb_byBinding h" "hb_pending h2 = hb_pending h"
      "hb_answers h2 = hb_answers h" "hb_calls h2 = hb_calls h @ [i]"
    by (simp_all add: h2_def h1_def activeSessions_def Let_def)
  have same: "conn_of w h2 = conn_of w h" for w by (simp add: conn_of_def field)
  have new: "answers_to h i = 0" "map_of (hb_pending h) i = None"
    using ok fresh unfolding hub_ok_def calls_ok_def i_def by auto
  have call: "hub_call now b req sent h = (case Option.bind (map_of (hb_byBinding h2) b) (\<lambda>ws. map_option (\<lambda>c. (ws, c)) (conn_of ws h2)) of
      None \<Rightarrow> h2\<lparr> hb_answers := hb_answers h2 @ [Call_Failed i ''no_browser'' ''That browser is not connected.''] \<rparr>
    | Some (ws, c) \<Rightarrow>
        if cn_paused c then h2\<lparr> hb_answers := hb_answers h2 @ [Call_Failed i ''paused_by_user'' ''The user paused browser control.''] \<rparr>
        else if sent then send_frame ws (Call_Frame req) (h2\<lparr> hb_pending := AList.update i ws (hb_pending h2) \<rparr>)
        else settle i (Call_Failed i ''browser_disconnected'' ''The browser connection failed.'')
               (h2\<lparr> hb_pending := AList.update i ws (hb_pending h2) \<rparr>))"
    unfolding hub_call_def Let_def h2_def h1_def i_def by (rule refl)
  have answered: "hub_ok (h2\<lparr> hb_answers := hb_answers h2 @ [Call_Failed i code m] \<rparr>)" for code m
    using ok new sockets_ok_cong[of "h2\<lparr> hb_answers := hb_answers h2 @ [Call_Failed i code m] \<rparr>" h]
    by (auto simp: hub_ok_def calls_ok_def field answers_to_def)
  have waiting: "hub_ok (h2\<lparr> hb_pending := AList.update i ws (hb_pending h2) \<rparr>)"
    if "map_of (hb_byBinding h2) b = Some ws" for ws
    using ok new that sockets_ok_waiting[of h b ws "h2\<lparr> hb_pending := AList.update i ws (hb_pending h2) \<rparr>" i]
    by (auto simp: hub_ok_def calls_ok_def field answers_to_def update_conv')
  show ?thesis
  proof (cases "Option.bind (map_of (hb_byBinding h2) b) (\<lambda>ws. map_option (\<lambda>c. (ws, c)) (conn_of ws h2))")
    case None
    with answered show ?thesis by (simp add: call)
  next
    case (Some e)
    then obtain ws c where e: "e = (ws, c)" "map_of (hb_byBinding h2) b = Some ws"
      by (cases "map_of (hb_byBinding h2) b") auto
    from waiting[OF e(2)] answered Some e show ?thesis
      by (auto simp: call settle_ok hub_ok_def[of "send_frame _ _ _"] hub_ok_def[of "h2\<lparr> hb_pending := _ \<rparr>"])
  qed
qed

lemma closeAll_ok: "hub_ok h \<Longrightarrow> hub_ok (closeAll code h)"
proof -
  have "hub_ok h \<Longrightarrow> hub_ok (foldl (\<lambda>h e. drop_conn (fst e) code h) h es)" for es
    by (induction es arbitrary: h) (simp_all add: detach_ok)
  then show "hub_ok h \<Longrightarrow> hub_ok (closeAll code h)" by (simp add: closeAll_def)
qed

section \<open>The whole machine\<close>

text \<open>Sockets may leave, but what is known of those that stay is as before.\<close>

definition keeps :: "hub \<Rightarrow> hub \<Rightarrow> bool" where
  "keeps h h' \<longleftrightarrow> (\<forall>w c'. conn_of w h' = Some c' \<longrightarrow>
     (\<exists>c. conn_of w h = Some c \<and> cn_binding c' = cn_binding c \<and> cn_authenticating c' = cn_authenticating c))"

named_theorems kept

lemma keeps_trans: "keeps h h1 \<Longrightarrow> keeps h1 h2 \<Longrightarrow> keeps h h2"
  unfolding keeps_def by metis

lemma keeps_same [kept]: "hb_conns h' = hb_conns h \<Longrightarrow> keeps h h'"
  by (simp add: keeps_def conn_of_def)

lemma conn_of_detach: "conn_of w (detach ws h) = (if w = ws then None else conn_of w h)"
  by (auto simp: detach_def Let_def conn_of_def settle_loop_same delete_conv' split: option.split)

lemma keeps_drop [kept]: "keeps h (detach ws h)" "keeps h (drop_conn ws code h)"
  by (simp_all add: keeps_def conn_of_detach)

lemma keeps_send [kept]: "keeps h (send_frame ws m h)"
  by (simp add: keeps_def)

lemma keeps_settle [kept]: "keeps h (settle i r h)"
  by (simp add: keeps_same)

lemma keeps_put [kept]: "conn_of ws h = Some c \<Longrightarrow> keeps h (put_conn ws (c\<lparr> cn_paused := p \<rparr>) h)"
  by (simp add: keeps_def)

lemma keeps_abort: "keeps h (hub_abort i h)" "keeps h (call_timeout i ms ws h)" "keeps h (hub_revoke n h)"
  by (auto simp: hub_abort_def call_timeout_def hub_revoke_def keeps_drop intro: kept keeps_trans[OF keeps_send]
      split: option.split)

lemma keeps_call: "keeps h (hub_call now b req sent h)"
proof -
  have "hb_conns (send_frame ws m h') = hb_conns h'" for ws m h' by (simp add: send_frame_def)
  then have "hb_conns (hub_call now b req sent h) = hb_conns h"
    by (simp add: hub_call_def activeSessions_def Let_def split: option.split)
  then show ?thesis by (rule keeps_same)
qed

lemma keeps_closeAll: "keeps h (closeAll code h)"
proof -
  have "keeps h (foldl (\<lambda>h e. drop_conn (fst e) code h) h es)" for es
    by (induction es arbitrary: h) (auto intro: keeps_same keeps_trans[OF keeps_drop(2)])
  then show ?thesis by (simp add: closeAll_def)
qed

lemma hub_message_keeps: "hub_message ws raw h = (None, h') \<Longrightarrow> keeps h h'"
  by (auto simp: hub_message_def split: option.splits if_splits intro: kept)

lemma hub_message_check:
  assumes "hub_message ws raw h = (Some tp, h')"
  obtains c where "conn_of ws h = Some c" "cn_binding c = None" "\<not> cn_authenticating c" "h' = put_conn ws (c\<lparr> cn_authenticating := True \<rparr>) h"
  using assms by (auto simp: hub_message_def split: option.splits if_splits)

lemma attach_conn:
  "conn_of w (attach ws b h) = Some c' \<Longrightarrow> conn_of ws h = Some c \<Longrightarrow>
   if w = ws then cn_binding c' = Some b else conn_of w h = Some c'"
  by (auto simp: attach_def Let_def conn_of_detach split: option.splits if_splits)

lemma hub_checked_conn:
  assumes "conn_of w (hub_checked ws paused a h) = Some c'"
  shows "if w = ws then conn_of ws h \<noteq> None \<and> (\<exists>b. a = Some (Some b) \<and> cn_binding c' = Some b) else conn_of w h = Some c'"
proof (cases "conn_of ws h")
  case None
  with assms show ?thesis by (auto simp: hub_checked_def conn_of_detach split: option.splits if_splits)
next
  case (Some c)
  define h1 where "h1 = put_conn ws (c\<lparr> cn_paused := paused, cn_authenticating := False \<rparr>) h"
  have there: "conn_of ws h1 = Some (c\<lparr> cn_paused := paused, cn_authenticating := False \<rparr>)" by (simp add: h1_def)
  have other: "conn_of w h1 = conn_of w h" if "w \<noteq> ws" using that by (simp add: h1_def)
  show ?thesis
  proof (cases "\<exists>b. a = Some (Some b)")
    case True
    then obtain b where b: "a = Some (Some b)" by blast
    with assms Some have "conn_of w (attach ws b h1) = Some c'" by (simp add: hub_checked_def h1_def)
    from attach_conn[OF this there] other Some b show ?thesis by (simp split: if_splits)
  next
    case False
    with assms Some show ?thesis by (auto simp: hub_checked_def conn_of_detach split: option.splits if_splits)
  qed
qed

lemma hub_checked_other:
  assumes "w \<noteq> ws"
  shows "conn_of w (hub_checked ws paused a h) = None \<or> conn_of w (hub_checked ws paused a h) = conn_of w h"
proof (cases "conn_of w (hub_checked ws paused a h)")
  case (Some c)
  with hub_checked_conn[OF this] assms show ?thesis by simp
qed simp

text \<open>What else holds of the whole: a socket has at most one check, which is of a socket that waits for it,
  and every binding of a socket was found by a token check for that socket.\<close>

definition check_ok :: "hub_system \<Rightarrow> token_check \<Rightarrow> bool" where
  "check_ok s k \<longleftrightarrow> tk_socket k \<in> set (hs_used s) \<and>
     (\<forall>c. conn_of (tk_socket k) (hs_hub s) = Some c \<longrightarrow> cn_binding c = None \<and> cn_authenticating c) \<and>
     (\<forall>b. tk_answer k = Some (Some (Some b)) \<longrightarrow> (tk_socket k, b) \<in> set (hs_verified s))"

definition conn_ok :: "hub_system \<Rightarrow> nat \<Rightarrow> conn \<Rightarrow> bool" where
  "conn_ok s w c \<longleftrightarrow> w \<in> set (hs_used s) \<and> (\<forall>b. cn_binding c = Some b \<longrightarrow> (w, b) \<in> set (hs_verified s))"

definition system_ok :: "hub_system \<Rightarrow> bool" where
  "system_ok s \<longleftrightarrow> hub_ok (hs_hub s) \<and> distinct (map tk_socket (hs_checks s)) \<and>
     (\<forall>k \<in> set (hs_checks s). check_ok s k) \<and> (\<forall>w c. conn_of w (hs_hub s) = Some c \<longrightarrow> conn_ok s w c)"

lemma system_ok_keeps:
  assumes "system_ok s" "hub_ok h'" "keeps (hs_hub s) h'"
  shows "system_ok (s\<lparr> hs_hub := h' \<rparr>)"
proof -
  have "check_ok (s\<lparr> hs_hub := h' \<rparr>) k" if "check_ok s k" for k
    using that assms(3) unfolding check_ok_def keeps_def by fastforce
  moreover have "conn_ok (s\<lparr> hs_hub := h' \<rparr>) w c" if "conn_of w h' = Some c" for w c
  proof -
    from assms(3) that obtain c0 where "conn_of w (hs_hub s) = Some c0" "cn_binding c = cn_binding c0"
      unfolding keeps_def by blast
    with assms(1) have "conn_ok s w c0" by (simp add: system_ok_def)
    with \<open>cn_binding c = cn_binding c0\<close> show ?thesis by (simp add: conn_ok_def)
  qed
  ultimately show ?thesis using assms(1,2) by (simp add: system_ok_def)
qed

lemma system_ok_open:
  assumes "system_ok s" "ws \<notin> set (hs_used s)"
  shows "system_ok (s\<lparr> hs_hub := open_socket ws (hs_hub s), hs_used := ws # hs_used s \<rparr>)"
proof -
  have new: "conn_of ws (hs_hub s) = None" using assms unfolding system_ok_def conn_ok_def by (cases "conn_of ws (hs_hub s)") auto
  have "hub_ok (open_socket ws (hs_hub s))"
    using assms new unfolding open_socket_def by (intro put_conn_ok) (auto simp: system_ok_def)
  with assms new show ?thesis by (auto simp: system_ok_def check_ok_def conn_ok_def open_socket_def)
qed

lemma system_ok_hello:
  assumes "system_ok s" "conn_of ws (hs_hub s) = Some c" "cn_binding c = None" "\<not> cn_authenticating c"
  shows "system_ok (s\<lparr> hs_hub := put_conn ws (c\<lparr> cn_authenticating := True \<rparr>) (hs_hub s), hs_checks := hs_checks s @
    [\<lparr> tk_socket = ws, tk_paused = p, tk_token = t, tk_answer = None \<rparr>] \<rparr>)"
proof -
  have "hub_ok (put_conn ws (c\<lparr> cn_authenticating := True \<rparr>) (hs_hub s))"
    using assms by (intro put_conn_ok) (auto simp: system_ok_def)
  moreover have "tk_socket k \<noteq> ws" if "k \<in> set (hs_checks s)" for k
    using assms that by (auto simp: system_ok_def check_ok_def)
  moreover have "conn_ok s ws c" using assms by (simp add: system_ok_def)
  ultimately show ?thesis using assms(1,3) by (auto simp: system_ok_def check_ok_def conn_ok_def)
qed

lemma set_remove_nth: "set (remove_nth k xs) \<subseteq> set xs"
  by (auto simp: remove_nth_def dest: in_set_takeD in_set_dropD)

lemma distinct_remove_nth:
  assumes "distinct (map f xs)" "k < length xs"
  shows "distinct (map f (remove_nth k xs)) \<and> f (xs ! k) \<notin> f ` set (remove_nth k xs)"
proof -
  have "xs = take k xs @ xs ! k # drop (Suc k) xs" using assms(2) by (rule id_take_nth_drop)
  with assms(1) have "distinct (map f (take k xs @ xs ! k # drop (Suc k) xs))" by simp
  then show ?thesis by (auto simp: remove_nth_def)
qed

lemma system_ok_answer:
  assumes "system_ok s" "k < length (hs_checks s)" "set (hs_verified s) \<subseteq> set vs"
    "\<forall>b. a = Some (Some b) \<longrightarrow> (tk_socket (hs_checks s ! k), b) \<in> set vs"
  shows "system_ok (s\<lparr> hs_checks := (hs_checks s)[k := (hs_checks s ! k)\<lparr> tk_answer := Some a \<rparr>], hs_verified := vs \<rparr>)"
proof -
  have "map tk_socket ((hs_checks s)[k := (hs_checks s ! k)\<lparr> tk_answer := Some a \<rparr>]) = map tk_socket (hs_checks s)"
    using assms(2) by (simp add: map_update list_update_same_conv)
  moreover have "check_ok s (hs_checks s ! k)" using assms(1,2) by (simp add: system_ok_def)
  ultimately show ?thesis using assms
    by (auto simp: system_ok_def check_ok_def conn_ok_def dest!: set_update_subset_insert[THEN subsetD])
qed

corollary system_ok_no_answer:
  assumes "system_ok s" "k < length (hs_checks s)" "\<forall>b. a \<noteq> Some (Some b)"
  shows "system_ok (s\<lparr> hs_checks := (hs_checks s)[k := (hs_checks s ! k)\<lparr> tk_answer := Some a \<rparr>] \<rparr>)"
  using system_ok_answer[of s k "hs_verified s" a] assms by simp

lemma system_ok_done:
  assumes "system_ok s" "k < length (hs_checks s)" and t: "hs_checks s ! k = t" and a: "tk_answer t = Some a"
  shows "system_ok (s\<lparr> hs_hub := hub_checked (tk_socket t) (tk_paused t) a (hs_hub s), hs_checks := remove_nth k (hs_checks s) \<rparr>)"
    (is "system_ok (s\<lparr> hs_hub := ?h, hs_checks := _ \<rparr>)")
proof -
  have t_ok: "check_ok s t" using assms by (auto simp: system_ok_def)
  have hub: "hub_ok ?h" using assms(1) t_ok by (intro hub_checked_ok) (auto simp: system_ok_def check_ok_def)
  have dist: "distinct (map tk_socket (remove_nth k (hs_checks s)))" and free: "tk_socket t \<notin> tk_socket ` set (remove_nth k (hs_checks s))"
    using distinct_remove_nth[of tk_socket "hs_checks s" k] assms by (simp_all add: system_ok_def)
  have moved: "check_ok (s\<lparr> hs_hub := ?h, hs_checks := cs \<rparr>) x" if "check_ok s x" "tk_socket x \<noteq> tk_socket t" for x cs
  proof -
    have "conn_of (tk_socket x) ?h = None \<or> conn_of (tk_socket x) ?h = conn_of (tk_socket x) (hs_hub s)"
      using \<open>tk_socket x \<noteq> tk_socket t\<close> by (rule hub_checked_other)
    with \<open>check_ok s x\<close> show ?thesis by (elim disjE) (simp_all add: check_ok_def)
  qed
  have conns: "conn_ok (s\<lparr> hs_hub := ?h, hs_checks := cs \<rparr>) w c" if "conn_of w ?h = Some c" for w c cs
  proof (cases "w = tk_socket t")
    case True
    with hub_checked_conn[OF that] obtain b where "a = Some (Some b)" "cn_binding c = Some b" by auto
    with True t_ok a show ?thesis by (simp add: check_ok_def conn_ok_def)
  next
    case False
    with hub_checked_conn[OF that] assms(1) have "conn_ok s w c" by (simp add: system_ok_def)
    then show ?thesis by (simp add: conn_ok_def)
  qed
  have stay: "check_ok s x \<and> tk_socket x \<noteq> tk_socket t" if "x \<in> set (remove_nth k (hs_checks s))" for x
  proof -
    from that have "x \<in> set (hs_checks s)" by (rule subsetD[OF set_remove_nth])
    with assms(1) have "check_ok s x" by (simp add: system_ok_def)
    moreover from that have "tk_socket x \<in> tk_socket ` set (remove_nth k (hs_checks s))" by (rule imageI)
    ultimately show ?thesis using free by metis
  qed
  with hub dist conns moved show ?thesis by (simp add: system_ok_def)
qed

lemma at_check_ok:
  "system_ok s \<Longrightarrow> (k < length (hs_checks s) \<Longrightarrow> system_ok (f (hs_checks s ! k) s)) \<Longrightarrow> system_ok (at_check k f s)"
  by (simp add: at_check_def)

lemma hub_abort_ok:
  assumes "hub_ok h"
  shows "hub_ok (hub_abort i h)" "hub_ok (call_timeout i ms ws h)" "hub_ok (hub_revoke n h)"
proof -
  have frame: "hub_ok (send_frame ws m h)" for ws m using assms by (simp add: hub_ok_def)
  show "hub_ok (hub_abort i h)" "hub_ok (call_timeout i ms ws h)" "hub_ok (hub_revoke n h)"
    using assms detach_ok[OF assms] frame
    by (simp_all add: hub_abort_def call_timeout_def hub_revoke_def settle_ok split: option.split)
qed

lemma system_ok_step: "system_ok s \<Longrightarrow> system_ok (hub_step sha e s)"
proof (cases e)
  case (Frame ws raw)
  assume s: "system_ok s"
  then have h: "hub_ok (hs_hub s)" by (simp add: system_ok_def)
  obtain out h' where m: "hub_message ws raw (hs_hub s) = (out, h')" by fastforce
  show ?thesis
  proof (cases out)
    case None
    with s h m hub_message_ok[OF h m] hub_message_keeps[of ws raw "hs_hub s" h'] system_ok_keeps[OF s] show ?thesis
      by (simp add: Frame)
  next
    case (Some tp)
    with m obtain c where "conn_of ws (hs_hub s) = Some c" "cn_binding c = None" "\<not> cn_authenticating c"
        "h' = put_conn ws (c\<lparr> cn_authenticating := True \<rparr>) (hs_hub s)"
      using hub_message_check by metis
    with s m Some system_ok_hello[OF s] show ?thesis by (cases tp) (simp add: Frame)
  qed
next
  case (Check_Done k)
  assume "system_ok s"
  with Check_Done show ?thesis by (auto intro!: at_check_ok system_ok_done split: option.split)
next
  case (Check_Read k)
  assume "system_ok s"
  with Check_Read show ?thesis
    by (auto intro!: at_check_ok system_ok_answer system_ok_no_answer simp: Let_def split: option.split)
next
  case (Check_Fails k)
  assume "system_ok s"
  with Check_Fails show ?thesis by (auto intro!: at_check_ok system_ok_no_answer)
next
  case (Store_Changes st)
  assume "system_ok s"
  with Store_Changes show ?thesis by (simp add: system_ok_def check_ok_def conn_ok_def)
next
  case (Call now b req sent)
  assume s: "system_ok s"
  with Call hub_call_ok[of "hs_hub s" req now b sent] keeps_call show ?thesis
    by (auto intro!: system_ok_keeps simp: system_ok_def[of s])
next
  case (Socket_Closed ws)
  assume s: "system_ok s"
  with Socket_Closed detach_ok keeps_drop(1) show ?thesis by (auto intro!: system_ok_keeps simp: system_ok_def[of s])
next
  case (Socket_Silent ws)
  assume s: "system_ok s"
  with Socket_Silent detach_ok keeps_drop(2) show ?thesis by (auto intro!: system_ok_keeps simp: system_ok_def[of s])
qed (auto intro!: system_ok_open system_ok_keeps hub_abort_ok keeps_abort closeAll_ok keeps_closeAll
  simp: system_ok_def[of s] split: option.split)

lemma reach_system_ok: "hub_reach sha s \<Longrightarrow> system_ok s"
proof (induction rule: hub_reach.induct)
  case (hub_start st)
  show ?case
    by (simp add: system_ok_def hub_ok_def sockets_ok_def calls_ok_def bound_to_def conn_of_def answers_to_def empty_hub_def)
qed (rule system_ok_step)

section \<open>The promise\<close>

text \<open>Property C14. Whatever sockets, agents, timers, token checks and the store do: a binding has at most
  one live socket and a bound socket is the one its binding names, it was bound because a token check
  of that very socket found the binding, a call waits only on a bound socket, and every call that was
  made is either still waiting or has been answered exactly once.
\<close>

theorem hub_answers_once:
  assumes "hub_reach sha s"
  shows "(\<forall>n ws. map_of (hb_byBinding (hs_hub s)) n = Some ws \<longleftrightarrow> bound_to (hs_hub s) ws n) \<and>
    (\<forall>ws c b. conn_of ws (hs_hub s) = Some c \<and> cn_binding c = Some b \<longrightarrow> (ws, b) \<in> set (hs_verified s)) \<and>
    (\<forall>i ws. map_of (hb_pending (hs_hub s)) i = Some ws \<longrightarrow> (\<exists>n. map_of (hb_byBinding (hs_hub s)) n = Some ws)) \<and>
    (\<forall>i \<in> set (hb_calls (hs_hub s)). answers_to (hs_hub s) i = (if map_of (hb_pending (hs_hub s)) i = None then 1 else 0))"
proof -
  from reach_system_ok[OF assms] have ok: "sockets_ok (hs_hub s)" "calls_ok (hs_hub s)"
    and conns: "\<And>w c. conn_of w (hs_hub s) = Some c \<Longrightarrow> conn_ok s w c"
    by (simp_all add: system_ok_def hub_ok_def)
  show ?thesis
  proof (intro conjI allI impI)
    show "(ws, b) \<in> set (hs_verified s)" if "conn_of ws (hs_hub s) = Some c \<and> cn_binding c = Some b" for ws c b
      using conns[of ws c] that by (simp add: conn_ok_def)
    show "\<exists>n. map_of (hb_byBinding (hs_hub s)) n = Some ws" if "map_of (hb_pending (hs_hub s)) i = Some ws" for i ws
      using sockets_okD[OF ok(1)] that by blast
  qed (use ok sockets_okD(1) in \<open>auto simp: calls_ok_def\<close>)
qed

lemma hub_reach_run: "hub_reach sha (foldl (\<lambda>s e. hub_step sha e s) \<lparr> hs_hub = empty_hub, hs_store = st, hs_checks = [], hs_used = [], hs_verified = [] \<rparr> es)"
  by (induction es rule: rev_induct) (auto intro: hub_reach.intros)

text \<open>A browser with a token of its own (the hash is the identity here) says hello and is given a call.\<close>

definition example_binding :: browser_binding where
  "example_binding = \<lparr> bd_name = ''desk'', bd_target = Browser_Identity ''me'', bd_profileLabel = ''Desk'', bd_active = True,
     bd_createdAt = ''2026'', bd_lastSeenAt = None \<rparr>"

definition example_browser_token :: generated_token where
  "example_browser_token = generateToken (\<lambda>s. s) (replicate 8 0) (replicate 32 0)"

definition example_hub_store :: gateway_store where
  "example_hub_store = addBrowserToken ''desk'' (gt_prefix example_browser_token) (gt_hash example_browser_token) ''2026''
     (putBrowserBinding example_binding empty_store)"

definition example_browser_call :: call_request where
  "example_browser_call = \<lparr> cr_id = ''c1'', cr_session = \<lparr> se_id = ''s'', se_identity = ''me'', se_label = ''tab'' \<rparr>, cr_tool = ''screenshot'',
     cr_args = JObj [] \<rparr>"

definition hello_frame :: json where
  "hello_frame = JObj [(''t'', JStr ''hello''), (''token'', JStr (gt_token example_browser_token)), (''paused'', JBool False)]"

definition example_start :: hub_system where
  "example_start = \<lparr> hs_hub = empty_hub, hs_store = example_hub_store, hs_checks = [], hs_used = [], hs_verified = [] \<rparr>"

lemma example_token_parsed: "parseToken (gt_token example_browser_token) = Some (gt_prefix example_browser_token, gt_hash example_browser_token)"
  using parse_generated[of "replicate 8 0" "replicate 32 0"] by (simp add: example_browser_token_def generateToken_def Let_def)

lemmas example_store_simps = example_token_parsed authBrowserToken_def example_hub_store_def addBrowserToken_def putBrowserBinding_def
  browserTokenByPrefix_def getBrowserBinding_def revokeBrowserBinding_def empty_store_def sameHash_def example_binding_def

lemma example_token_checks: "authBrowserToken (\<lambda>s. s) example_hub_store (gt_token example_browser_token) = Some example_binding"
  by (simp add: example_store_simps)

lemmas hub_example_simps = example_start_def hub_message_def hello_frame_def put_conn_def conn_of_def open_socket_def
  empty_hub_def is_true_def at_check_def example_token_checks hub_checked_def attach_def send_frame_def remove_nth_def
  hub_call_def activeSessions_def Let_def example_browser_call_def

theorem hub_answers_once_witness:
  "(let s = foldl (\<lambda>s e. hub_step (\<lambda>s. s) e s) example_start
        [Open 1, Frame 1 (Some hello_frame), Check_Read 0, Check_Done 0, Call 0 ''desk'' example_browser_call True]
    in map_of (hb_pending (hs_hub s)) ''c1'' = Some 1 \<and> bound_to (hs_hub s) 1 ''desk'' \<and>
       answers_to (hs_hub s) ''c1'' = 0)"
proof -
  let ?es = "[Open 1, Frame 1 (Some hello_frame), Check_Read 0, Check_Done 0, Call 0 ''desk'' example_browser_call True]"
  define s where "s = foldl (\<lambda>s e. hub_step (\<lambda>s. s) e s) example_start ?es"
  have "hub_reach (\<lambda>s. s) s" unfolding s_def example_start_def by (rule hub_reach_run)
  note ok = hub_answers_once[OF this]
  have p: "map_of (hb_pending (hs_hub s)) ''c1'' = Some 1" "''c1'' \<in> set (hb_calls (hs_hub s))"
      "map_of (hb_byBinding (hs_hub s)) ''desk'' = Some 1"
    by (simp_all add: s_def hub_example_simps example_binding_def)
  from ok p show ?thesis unfolding s_def[symmetric] Let_def by auto
qed

text \<open>
  A token check reads the store and only then attaches the socket. A binding that is revoked in between
  is not found among the live sockets by the revocation, and is attached all the same: it stays
  connected, and calls reach it, until the socket closes.
\<close>

lemma revoked_binding_stays_connected:
  "(let s = foldl (\<lambda>s e. hub_step (\<lambda>s. s) e s) example_start
        [Open 1, Frame 1 (Some hello_frame), Check_Read 0, Store_Changes (revokeBrowserBinding ''desk'' example_hub_store),
         Revoke_Hub ''desk'', Check_Done 0, Call 0 ''desk'' example_browser_call True]
    in map_option bd_active (getBrowserBinding ''desk'' (hs_store s)) = Some False \<and>
       authBrowserToken (\<lambda>s. s) (hs_store s) (gt_token example_browser_token) = None \<and>
       map_of (hb_byBinding (hs_hub s)) ''desk'' = Some 1 \<and> map_of (hb_pending (hs_hub s)) ''c1'' = Some 1)"
proof -
  have "getBrowserBinding ''desk'' (revokeBrowserBinding ''desk'' example_hub_store) = Some (example_binding\<lparr> bd_active := False \<rparr>)"
    by (simp add: example_store_simps)
  moreover have "authBrowserToken (\<lambda>s. s) (revokeBrowserBinding ''desk'' example_hub_store) (gt_token example_browser_token) = None"
    by (simp add: example_store_simps)
  ultimately show ?thesis
    by (simp add: hub_example_simps hub_revoke_def example_binding_def)
qed

end
