(* ===== verification/Pair_Limiter.thy ===== *)
theory Pair_Limiter
  imports Browser_Hub Gateway_Admin
begin

text \<open>
  The parts of the pairing routes that stand on their own (\<open>src/gateway/browser/pair.ts\<close> and
  \<open>admin.ts\<close>): the sliding-window limiter and what it promises, the pairing code, the client's address,
  the bounded body, the name made from a label. Times are whole milliseconds.
\<close>

section \<open>The limiter\<close>

definition PAIRING_TTL_MS :: int where
  "PAIRING_TTL_MS = 600000"

definition PAIR_LIMIT :: nat where
  "PAIR_LIMIT = 10"

definition PAIR_WINDOW_MS :: int where
  "PAIR_WINDOW_MS = 60000"

record limiter =
  li_hits :: "(string \<times> int list) list"
  li_lastSweep :: int

definition new_limiter :: limiter where
  "new_limiter = \<lparr> li_hits = [], li_lastSweep = 0 \<rparr>"

definition sweep :: "int \<Rightarrow> int \<Rightarrow> limiter \<Rightarrow> limiter" where
  "sweep window t l =
     (if t - li_lastSweep l \<ge> window
      then l\<lparr> li_lastSweep := t,
              li_hits := filter (\<lambda>e. \<not> t - (if snd e = [] then 0 else last (snd e)) \<ge> window) (li_hits l) \<rparr>
      else l)"

definition allow :: "nat \<Rightarrow> int \<Rightarrow> int \<Rightarrow> string \<Rightarrow> limiter \<Rightarrow> bool \<times> limiter" where
  "allow limit window t key l =
     (let l1 = sweep window t l;
          mine = filter (\<lambda>x. t - x < window) (default [] (map_of (li_hits l1) key))
      in if length mine \<ge> limit then (False, l1\<lparr> li_hits := AList.update key mine (li_hits l1) \<rparr>)
         else (True, l1\<lparr> li_hits := AList.update key (mine @ [t]) (li_hits l1) \<rparr>))"

fun answers :: "nat \<Rightarrow> int \<Rightarrow> limiter \<Rightarrow> (int \<times> string) list \<Rightarrow> bool list" where
  "answers limit window l [] = []"
| "answers limit window l (c # cs) =
     (case allow limit window (fst c) (snd c) l of (a, l') \<Rightarrow> a # answers limit window l' cs)"

text \<open>The promise: a call is let through exactly when fewer than \<open>limit\<close> calls of its key were let through
  within the last \<open>window\<close> milliseconds. \<open>past\<close> are the calls let through so far.\<close>

definition recent :: "int \<Rightarrow> int \<Rightarrow> string \<Rightarrow> (int \<times> string) list \<Rightarrow> int list" where
  "recent window t key past = filter (\<lambda>x. t - x < window) (map fst (filter (\<lambda>c. snd c = key) past))"

fun wanted_answers :: "nat \<Rightarrow> int \<Rightarrow> (int \<times> string) list \<Rightarrow> (int \<times> string) list \<Rightarrow> bool list" where
  "wanted_answers limit window past [] = []"
| "wanted_answers limit window past (c # cs) =
     (let a = length (recent window (fst c) (snd c) past) < limit
      in a # wanted_answers limit window (if a then past @ [c] else past) cs)"

text \<open>The state stands for the calls of the past as far as any later time can see.\<close>

definition stands_for :: "int \<Rightarrow> int \<Rightarrow> limiter \<Rightarrow> (int \<times> string) list \<Rightarrow> bool" where
  "stands_for window now l past \<longleftrightarrow> distinct (map fst (li_hits l)) \<and>
     (\<forall>key t. now \<le> t \<longrightarrow> filter (\<lambda>x. t - x < window) (default [] (map_of (li_hits l) key)) = recent window t key past) \<and>
     (\<forall>e \<in> set (li_hits l). sorted (snd e) \<and> (\<forall>x \<in> set (snd e). x \<le> now))"

lemma map_of_filter_distinct:
  "distinct (map fst xs) \<Longrightarrow> map_of (filter P xs) k = (case map_of xs k of Some v \<Rightarrow> if P (k, v) then Some v else None | None \<Rightarrow> None)"
  by (induction xs) (auto split: option.splits dest: map_of_SomeD intro: rev_image_eqI)

lemma sorted_last_ge: "sorted v \<Longrightarrow> x \<in> set v \<Longrightarrow> x \<le> last v"
  by (induction v) auto

lemma sweep_stands_for:
  assumes "stands_for window now l past" "now \<le> t"
  shows "stands_for window t (sweep window t l) past"
proof -
  have later: "stands_for window t l past" using assms unfolding stands_for_def by (meson order_trans)
  show ?thesis
  proof (cases "t - li_lastSweep l \<ge> window")
    case True
    let ?P = "\<lambda>e :: string \<times> int list. \<not> t - (if snd e = [] then 0 else last (snd e)) \<ge> window"
    have "filter (\<lambda>x. t' - x < window) (default [] (map_of (filter ?P (li_hits l)) key)) =
        filter (\<lambda>x. t' - x < window) (default [] (map_of (li_hits l) key))" if "t \<le> t'" for key t'
    proof (cases "map_of (li_hits l) key")
      case None
      with later show ?thesis by (simp add: map_of_filter_distinct stands_for_def)
    next
      case (Some v)
      then have v: "sorted v" using later map_of_SomeD[OF Some] by (auto simp: stands_for_def)
      have "\<not> t' - x < window" if "\<not> ?P (key, v)" "x \<in> set v" for x
      proof -
        from that(2) have "v \<noteq> []" by auto
        from v that(2) have "x \<le> last v" by (rule sorted_last_ge)
        with that(1) \<open>v \<noteq> []\<close> \<open>t \<le> t'\<close> show ?thesis by simp
      qed
      then show ?thesis using later Some by (auto simp: map_of_filter_distinct stands_for_def filter_empty_conv)
    qed
    with later True show ?thesis
      by (auto simp: stands_for_def sweep_def distinct_map_filter)
  next
    case False
    with later show ?thesis by (simp add: sweep_def)
  qed
qed

lemma recent_snoc: "recent window t key (past @ [(t0, k)]) = recent window t key past @ (if k = key \<and> t - t0 < window then [t0] else [])"
  by (simp add: recent_def)

lemma allow_stands_for:
  assumes "stands_for window now l past" "now \<le> t" "allow limit window t key l = (a, l')"
  shows "a \<longleftrightarrow> length (recent window t key past) < limit"
    "stands_for window t l' (if a then past @ [(t, key)] else past)"
proof -
  define l1 where "l1 = sweep window t l"
  define mine where "mine = filter (\<lambda>x. t - x < window) (default [] (map_of (li_hits l1) key))"
  have s: "stands_for window t l1 past" unfolding l1_def using assms(1,2) by (rule sweep_stands_for)
  then have m: "mine = recent window t key past" by (simp add: stands_for_def mine_def)
  from assms(3) have al: "a \<longleftrightarrow> length mine < limit" "l' = l1\<lparr> li_hits := AList.update key (if a then mine @ [t] else mine) (li_hits l1) \<rparr>"
    by (auto simp: allow_def Let_def l1_def mine_def split: if_splits)
  from al m show "a \<longleftrightarrow> length (recent window t key past) < limit" by simp
  have again: "filter (\<lambda>x. t' - x < window) mine = recent window t' key past" if "t \<le> t'" for t'
  proof -
    have "filter (\<lambda>x. t' - x < window) (filter (\<lambda>x. t - x < window) xs) = filter (\<lambda>x. t' - x < window) xs" for xs
      using that by (auto intro: filter_cong)
    then show ?thesis by (simp add: m recent_def)
  qed
  have mine_ok: "sorted mine \<and> (\<forall>x \<in> set mine. x \<le> t)"
  proof (cases "map_of (li_hits l1) key")
    case (Some v)
    from s map_of_SomeD[OF this] have "sorted v \<and> (\<forall>x \<in> set v. x \<le> t)" by (auto simp: stands_for_def)
    with Some show ?thesis by (simp add: mine_def sorted_wrt_filter)
  qed (simp add: mine_def)
  have "distinct (map fst (li_hits l'))" using s by (simp add: al(2) stands_for_def distinct_update)
  moreover have "filter (\<lambda>x. t' - x < window) (default [] (map_of (li_hits l') k)) = recent window t' k (if a then past @ [(t, key)] else past)"
    if "t \<le> t'" for k t'
    using s that again[OF that] by (simp add: al(2) update_conv' stands_for_def recent_snoc)
  moreover have "sorted (snd e) \<and> (\<forall>x \<in> set (snd e). x \<le> t)" if "e \<in> set (li_hits l')" for e
  proof (cases "e \<in> set (li_hits l1)")
    case True
    with s show ?thesis by (simp add: stands_for_def)
  next
    case False
    with that have "snd e = (if a then mine @ [t] else mine)"
      unfolding al(2) by (auto dest!: in_alist_update)
    with mine_ok show ?thesis by (auto simp: sorted_append)
  qed
  ultimately show "stands_for window t l' (if a then past @ [(t, key)] else past)" by (simp add: stands_for_def)
qed

lemma answers_wanted:
  "stands_for window now l past \<Longrightarrow> \<forall>c \<in> set cs. now \<le> fst c \<Longrightarrow> sorted (map fst cs) \<Longrightarrow>
   answers limit window l cs = wanted_answers limit window past cs"
proof (induction cs arbitrary: l now past)
  case (Cons c cs)
  obtain a l' where al: "allow limit window (fst c) (snd c) l = (a, l')" by fastforce
  from Cons.prems have "now \<le> fst c" by simp
  note step = allow_stands_for[OF Cons.prems(1) this al]
  have "answers limit window l' cs = wanted_answers limit window (if a then past @ [c] else past) cs"
    using step(2) Cons.prems by (intro Cons.IH[of "fst c"]) auto
  with al step(1) show ?case by (simp add: Let_def)
qed simp

definition in_span :: "int \<Rightarrow> int \<Rightarrow> string \<Rightarrow> (int \<times> string) list \<Rightarrow> (int \<times> string) list" where
  "in_span window t key cs = filter (\<lambda>c. snd c = key \<and> fst c \<le> t \<and> t - fst c < window) cs"

definition let_through :: "(int \<times> string) list \<Rightarrow> bool list \<Rightarrow> (int \<times> string) list" where
  "let_through cs as = map fst (filter snd (zip cs as))"

lemma filter_length_mono: "(\<And>x. P x \<Longrightarrow> Q x) \<Longrightarrow> length (filter P xs) \<le> length (filter Q xs)"
  by (induction xs) auto

lemma wanted_bounded:
  assumes "\<forall>t key. length (in_span window t key past) \<le> limit" "\<forall>p \<in> set past. \<forall>c \<in> set cs. fst p \<le> fst c" "sorted (map fst cs)"
  shows "length (in_span window t key (past @ let_through cs (wanted_answers limit window past cs))) \<le> limit"
  using assms
proof (induction cs arbitrary: past)
  case (Cons c cs)
  let ?a = "length (recent window (fst c) (snd c) past) < limit"
  let ?past = "if ?a then past @ [c] else past"
  have "length (in_span window t key ?past) \<le> limit" for t key
  proof (cases "?a \<and> snd c = key \<and> fst c \<le> t \<and> t - fst c < window")
    case True
    then have "length (in_span window t key past) \<le> length (recent window (fst c) key past)"
      unfolding in_span_def recent_def filter_map length_map filter_filter by (intro filter_length_mono) auto
    with True show ?thesis by (auto simp: in_span_def)
  next
    case False
    then have "in_span window t key ?past = in_span window t key past" by (auto simp: in_span_def)
    with Cons.prems(1) show ?thesis by simp
  qed
  then have "length (in_span window t key (?past @ let_through cs (wanted_answers limit window ?past cs))) \<le> limit"
    using Cons.prems by (intro Cons.IH) auto
  then show ?case by (auto simp: let_through_def Let_def split: if_splits)
qed (simp add: let_through_def)

text \<open>Property C17. The limiter with its swept, filtered lists answers as the plain rule does: a call is let
  through exactly when fewer than \<open>limit\<close> calls of its key were let through in the last \<open>window\<close>
  milliseconds. So whatever the calls, at no time have more than \<open>limit\<close> calls of a key been let
  through within one window.
\<close>

theorem limiter_exact:
  assumes "sorted (map fst cs)"
  shows "answers limit window new_limiter cs = wanted_answers limit window [] cs \<and>
    length (in_span window t key (let_through cs (answers limit window new_limiter cs))) \<le> limit"
proof -
  define start where "start = (case cs of [] \<Rightarrow> 0 | c # _ \<Rightarrow> fst c)"
  have "stands_for window start new_limiter []" by (simp add: stands_for_def new_limiter_def recent_def)
  moreover have "\<forall>c \<in> set cs. start \<le> fst c" using assms by (cases cs) (auto simp: start_def)
  ultimately have "answers limit window new_limiter cs = wanted_answers limit window [] cs" using assms by (rule answers_wanted)
  moreover have "length (in_span window t key (let_through cs (wanted_answers limit window [] cs))) \<le> limit"
    using wanted_bounded[of window "[]" limit cs] assms by (simp add: in_span_def)
  ultimately show ?thesis by simp
qed

theorem limiter_exact_witness:
  "answers 2 10 new_limiter [(0, ''a''), (1, ''a''), (5, ''a''), (5, ''b''), (11, ''a''), (12, ''a''), (12, ''a'')] =
     [True, True, False, True, True, True, False] \<and>
   wanted_answers 2 10 [] [(0, ''a''), (1, ''a''), (5, ''a''), (5, ''b''), (11, ''a''), (12, ''a''), (12, ''a'')] =
     [True, True, False, True, True, True, False]"
proof -
  let ?cs = "[(0, ''a''), (1, ''a''), (5, ''a''), (5, ''b''), (11, ''a''), (12, ''a''), (12, ''a'')] :: (int \<times> string) list"
  have w: "wanted_answers 2 10 [] ?cs = [True, True, False, True, True, True, False]" by code_simp
  have "sorted (map fst ?cs)" by simp
  from limiter_exact[OF this, of 2 10, THEN conjunct1, unfolded w] w show ?thesis by blast
qed

section \<open>The pairing code\<close>

definition CODE_ALPHABET :: string where
  "CODE_ALPHABET = ''ABCDEFGHJKMNPQRSTUVWXYZ23456789''"

definition CODE_LEN :: nat where
  "CODE_LEN = 8"

definition CODE_LIMIT :: nat where
  "CODE_LIMIT = 256 - 256 mod length CODE_ALPHABET"

text \<open>The bytes that \<open>getRandomValues\<close> delivers, sixteen at a time; \<open>None\<close> when those given do not suffice.\<close>

fun code_bytes :: "string \<Rightarrow> nat list \<Rightarrow> string" where
  "code_bytes out [] = out"
| "code_bytes out (b # bs) =
     code_bytes (if b < CODE_LIMIT \<and> length out < CODE_LEN then out @ [CODE_ALPHABET ! (b mod length CODE_ALPHABET)] else out) bs"

fun pairing_code :: "string \<Rightarrow> nat list list \<Rightarrow> string option" where
  "pairing_code out chunks =
     (if length out \<ge> CODE_LEN then Some out
      else case chunks of [] \<Rightarrow> None | c # cs \<Rightarrow> pairing_code (code_bytes out c) cs)"

definition generatePairingCode :: "nat list list \<Rightarrow> string option" where
  "generatePairingCode chunks = pairing_code '''' chunks"

declare pairing_code.simps [simp del]

lemma code_bytes_filter:
  "length out \<le> CODE_LEN \<Longrightarrow> code_bytes out bs = take CODE_LEN (out @ map (\<lambda>b. CODE_ALPHABET ! (b mod length CODE_ALPHABET)) (filter (\<lambda>b. b < CODE_LIMIT) bs))"
proof (induction bs arbitrary: out)
  case (Cons b bs)
  show ?case
  proof (cases "b < CODE_LIMIT \<and> length out < CODE_LEN")
    case True
    with Cons show ?thesis by (simp add: take_Cons')
  next
    case False
    with Cons show ?thesis by auto
  qed
qed simp

lemma take_take_append: "take n (take n xs @ ys) = take n (xs @ ys)"
  by (cases "length xs \<le> n") simp_all

text \<open>The code is made of the accepted bytes in order, and every character has as many bytes that give it.\<close>

lemma pairing_code_accepted:
  "length out \<le> CODE_LEN \<Longrightarrow>
   pairing_code out chunks = Some code \<Longrightarrow>
   length code = CODE_LEN \<and> code = take CODE_LEN (out @ map (\<lambda>b. CODE_ALPHABET ! (b mod length CODE_ALPHABET)) (filter (\<lambda>b. b < CODE_LIMIT) (concat chunks)))"
proof (induction chunks arbitrary: out)
  case Nil
  then show ?case by (auto simp: pairing_code.simps[of out] split: if_splits)
next
  case (Cons c cs)
  show ?case
  proof (cases "length out \<ge> CODE_LEN")
    case True
    with Cons.prems show ?thesis by (simp add: pairing_code.simps[of out])
  next
    case False
    let ?acc = "\<lambda>bs. map (\<lambda>b. CODE_ALPHABET ! (b mod length CODE_ALPHABET)) (filter (\<lambda>b. b < CODE_LIMIT) bs)"
    define d where "d = take CODE_LEN (out @ ?acc c)"
    have d: "length d \<le> CODE_LEN" by (simp add: d_def)
    from False Cons.prems have "pairing_code d cs = Some code"
      by (simp add: pairing_code.simps[of out] code_bytes_filter d_def)
    from Cons.IH[OF d this] have "length code = CODE_LEN" "code = take CODE_LEN (d @ ?acc (concat cs))" by blast+
    moreover have "take CODE_LEN (d @ ?acc (concat cs)) = take CODE_LEN (out @ ?acc (concat (c # cs)))"
      unfolding d_def take_take_append by simp
    ultimately show ?thesis by metis
  qed
qed

lemma even_spread:
  assumes "distinct xs" "i < length xs"
  shows "length (filter (\<lambda>b. xs ! (b mod length xs) = xs ! i) [0..<k * length xs]) = k"
proof (induction k)
  case (Suc k)
  let ?n = "length xs"
  have "[0..<Suc k * ?n] = [0..<k * ?n] @ map (\<lambda>j. j + k * ?n) [0..<?n]"
    using upt_add_eq_append[of 0 "k * ?n" ?n] by (simp add: map_add_upt add.commute)
  moreover have "filter (\<lambda>j. xs ! ((j + k * ?n) mod ?n) = xs ! i) [0..<?n] = filter (\<lambda>j. j = i) [0..<?n]"
    using assms by (intro filter_cong) (auto simp: nth_eq_iff_index_eq)
  moreover have "i < m \<Longrightarrow> filter (\<lambda>j. j = i) [0..<m] = [i]" for m
    by (induction m) (auto simp: less_Suc_eq filter_empty_conv)
  ultimately show ?case using Suc assms(2) by (simp add: filter_map comp_def)
qed simp

lemma code_characters_even:
  assumes "i < length CODE_ALPHABET"
  shows "length (filter (\<lambda>b. CODE_ALPHABET ! (b mod length CODE_ALPHABET) = CODE_ALPHABET ! i) [0..<CODE_LIMIT]) = 8"
proof -
  have "distinct CODE_ALPHABET" "CODE_LIMIT = 8 * length CODE_ALPHABET" by (simp_all add: CODE_ALPHABET_def CODE_LIMIT_def)
  then show ?thesis using even_spread[of CODE_ALPHABET i 8] assms by (simp only:)
qed

section \<open>The client and its body\<close>

text \<open>The last entry of \<open>x-forwarded-for\<close>, else the address of the connection.\<close>

definition clientIp :: "string option \<Rightarrow> string option \<Rightarrow> string" where
  "clientIp forwarded ip =
     (let last_hop = (case forwarded of None \<Rightarrow> '''' | Some f \<Rightarrow> js_trim (last (split_on CHR '','' f)))
      in if last_hop \<noteq> '''' then last_hop
         else case ip of Some a \<Rightarrow> if a \<noteq> '''' then a else ''unknown'' | None \<Rightarrow> ''unknown'')"

definition MAX_BODY_BYTES :: nat where
  "MAX_BODY_BYTES = 4096"

fun pair_chunks :: "nat list list \<Rightarrow> nat list \<Rightarrow> nat list option" where
  "pair_chunks [] acc = Some acc"
| "pair_chunks (c # cs) acc = (if length acc + length c > MAX_BODY_BYTES then None else pair_chunks cs (acc @ c))"

datatype read_body = Too_Large | Not_An_Object | Body_Object json

text \<open>\<open>declared\<close> is the \<open>content-length\<close> header, \<open>parse\<close> what \<open>JSON.parse\<close> makes of the bytes.\<close>

definition readJson :: "(nat list \<Rightarrow> json option) \<Rightarrow> string option \<Rightarrow> nat list list \<Rightarrow> read_body" where
  "readJson parse declared chunks =
     (if \<exists>q \<in> set_option (finite_number (default ''0'' declared)). q > of_nat MAX_BODY_BYTES then Too_Large
      else case pair_chunks chunks [] of
        None \<Rightarrow> Too_Large
      | Some bytes \<Rightarrow> (case parse bytes of Some (JObj kvs) \<Rightarrow> Body_Object (JObj kvs) | _ \<Rightarrow> Not_An_Object))"

lemma read_chunks_bounded: "length acc \<le> MAX_BODY_BYTES \<Longrightarrow> pair_chunks cs acc = Some bs \<Longrightarrow> bs = acc @ concat cs \<and> length bs \<le> MAX_BODY_BYTES"
proof (induction cs arbitrary: acc)
  case (Cons c cs)
  from Cons.prems have "length (acc @ c) \<le> MAX_BODY_BYTES" "pair_chunks cs (acc @ c) = Some bs" by (simp_all split: if_splits)
  from Cons.IH[OF this] show ?case by (metis append_assoc concat.simps(2))
qed simp

section \<open>Names\<close>

text \<open>\<open>replace(/[^a-z0-9]+/g, "-")\<close>: every run of other characters becomes one dash.\<close>

fun dashed :: "bool \<Rightarrow> string \<Rightarrow> string" where
  "dashed in_run [] = []"
| "dashed in_run (c # cs) =
     (if c \<in> set NAME_CHARS then c # dashed False cs
      else if in_run then dashed True cs else CHR ''-'' # dashed True cs)"

definition strip_dashes_end :: "string \<Rightarrow> string" where
  "strip_dashes_end s = rev (dropWhile (\<lambda>c. c = CHR ''-'') (rev s))"

definition slug :: "string \<Rightarrow> string" where
  "slug label =
     (let s = strip_dashes_end (take 40 (strip_dashes_end (dropWhile (\<lambda>c. c = CHR ''-'') (dashed False (toLowerCase label)))))
      in if s = '''' then ''browser'' else s)"

abbreviation name_char :: "char \<Rightarrow> bool" where
  "name_char c \<equiv> c \<in> set NAME_CHARS \<or> c = CHR ''-''"

lemma dashed_chars: "c \<in> set (dashed r s) \<Longrightarrow> name_char c"
  by (induction r s rule: dashed.induct) (auto split: if_splits)

lemma strip_end_Nil [simp]: "strip_dashes_end [] = []"
  by (simp add: strip_dashes_end_def)

lemma strip_end_last: "strip_dashes_end s \<noteq> [] \<Longrightarrow> last (strip_dashes_end s) \<noteq> CHR ''-''"
  using hd_dropWhile[of "\<lambda>c. c = CHR ''-''" "rev s"] by (auto simp: strip_dashes_end_def last_rev)

lemma strip_end_prefix: "\<exists>t. s = strip_dashes_end s @ t"
proof -
  have "rev s = takeWhile (\<lambda>c. c = CHR ''-'') (rev s) @ dropWhile (\<lambda>c. c = CHR ''-'') (rev s)" by simp
  then show ?thesis unfolding strip_dashes_end_def by (metis rev_append rev_rev_ident)
qed

lemma strip_end_hd: "strip_dashes_end s \<noteq> [] \<Longrightarrow> hd (strip_dashes_end s) = hd s"
  using strip_end_prefix[of s] by (metis hd_append2)

lemma strip_end_set: "c \<in> set (strip_dashes_end s) \<Longrightarrow> c \<in> set s"
  using strip_end_prefix[of s] by (metis Un_iff set_append)

lemma strip_end_length: "length (strip_dashes_end s) \<le> length s"
  by (simp add: strip_dashes_end_def length_dropWhile_le[THEN order_trans])

text \<open>The name made from any label is a valid name of at most forty characters.\<close>

lemma slug_valid: "NAME (slug label) \<and> length (slug label) \<le> 40"
proof -
  define a where "a = dropWhile (\<lambda>c. c = CHR ''-'') (dashed False (toLowerCase label))"
  define b where "b = strip_dashes_end (take 40 (strip_dashes_end a))"
  have slug: "slug label = (if b = [] then ''browser'' else b)" by (simp add: slug_def Let_def a_def b_def)
  show ?thesis
  proof (cases "b = []")
    case True
    have "NAME ''browser''" by (simp add: NAME_def NAME_CHARS_def)
    with True slug show ?thesis by simp
  next
    case False
    have chars: "\<forall>c \<in> set a. name_char c" using dashed_chars unfolding a_def by (blast dest: set_dropWhileD)
    have sub: "set b \<subseteq> set a" unfolding b_def by (auto dest!: strip_end_set in_set_takeD)
    have "a \<noteq> []" using False unfolding b_def by (metis strip_end_Nil take_Nil)
    then have "hd a \<noteq> CHR ''-''" using hd_dropWhile[of "\<lambda>c. c = CHR ''-''"] by (auto simp: a_def)
    moreover have "hd b = hd a"
    proof -
      from False have t: "take 40 (strip_dashes_end a) \<noteq> []" unfolding b_def by (metis strip_end_Nil)
      then have "hd b = hd (take 40 (strip_dashes_end a))" using False unfolding b_def by (simp add: strip_end_hd)
      also have "\<dots> = hd (strip_dashes_end a)" using t by (simp add: hd_take)
      also have "\<dots> = hd a" using t by (auto simp: strip_end_hd)
      finally show ?thesis .
    qed
    moreover have "last b \<noteq> CHR ''-''" using False unfolding b_def by (rule strip_end_last)
    moreover have "hd b \<in> set a" "last b \<in> set a" using sub False by auto
    ultimately have "hd b \<in> set NAME_CHARS" "last b \<in> set NAME_CHARS" using chars by auto
    moreover have "length b \<le> 40" unfolding b_def using strip_end_length[of "take 40 (strip_dashes_end a)"] by simp
    moreover have "list_all name_char b" using sub chars by (auto simp: list_all_iff)
    ultimately show ?thesis using False slug by (simp add: NAME_def Suc_le_eq)
  qed
qed

end
