(* ===== verification/Browser_Routing.thy ===== *)
theory Browser_Routing
  imports Browser_Hub Gateway_Admin
begin

text \<open>
  The agent's side of the browser relay: agent tokens (\<open>src/gateway/browser/auth.ts\<close>), which browsers an
  identity may drive and the route that sends a call to one of them (\<open>routing.ts\<close>), and the name a session
  is shown by (\<open>src/browser/session-label.ts\<close>). The members of a pool, the fresh call id and
  \<open>JSON.stringify\<close> are parameters.
\<close>

section \<open>Who asks\<close>

definition authAgentToken :: "(string \<Rightarrow> string) \<Rightarrow> gateway_store \<Rightarrow> string \<Rightarrow> string option" where
  "authAgentToken sha st token =
     (case parseToken token of
        None \<Rightarrow> None
      | Some parsed \<Rightarrow>
          (case agentTokenByPrefix (fst parsed) st of
             None \<Rightarrow> None
           | Some r \<Rightarrow> if sameHash sha (at_hash r) (snd parsed) then Some (at_identity r) else None))"

text \<open>\<open>/^Bearer (.+)$/i\<close>; a header value has no line breaks.\<close>

definition agent_bearer :: "string option \<Rightarrow> string option" where
  "agent_bearer auth =
     (case auth of
        None \<Rightarrow> None
      | Some a \<Rightarrow> if toLowerCase (take 7 a) = ''bearer '' \<and> drop 7 a \<noteq> [] then Some (js_trim (drop 7 a)) else None)"

section \<open>What it may use\<close>

definition target_allows :: "(string \<Rightarrow> string list option) \<Rightarrow> browser_target \<Rightarrow> string \<Rightarrow> bool" where
  "target_allows members target identity =
     (case target of
        Browser_Identity i \<Rightarrow> i = identity
      | Browser_Pool p \<Rightarrow> identity \<in> set (default [] (members p)))"

definition allowedBindings :: "(string \<Rightarrow> string list option) \<Rightarrow> string \<Rightarrow> browser_binding list \<Rightarrow> browser_binding list" where
  "allowedBindings members identity live = filter (\<lambda>b. target_allows members (bd_target b) identity) live"

text \<open>\<open>/^[0-9a-f]{8}-[0-9a-f]{4}-/i\<close>\<close>

definition uuid_like :: "string \<Rightarrow> bool" where
  "uuid_like s \<longleftrightarrow> length s \<ge> 14 \<and> list_all is_hex (take 8 s) \<and> s ! 8 = CHR ''-'' \<and> list_all is_hex (take 4 (drop 9 s)) \<and> s ! 13 = CHR ''-''"

definition shortSessionId :: "string \<Rightarrow> string" where
  "shortSessionId i = (if uuid_like i then take 6 i else take 12 i)"

definition forwardedSession :: "browser_binding \<Rightarrow> string \<Rightarrow> string \<Rightarrow> string \<Rightarrow> session_info" where
  "forwardedSession b identity i label =
     (case bd_target b of
        Browser_Pool p \<Rightarrow> \<lparr> se_id = i, se_identity = ''pool:'' @ p, se_label = take 80 (p @ '' / '' @ shortSessionId i) \<rparr>
      | Browser_Identity _ \<Rightarrow> \<lparr> se_id = i, se_identity = identity, se_label = label \<rparr>)"

section \<open>The route\<close>

datatype route_answer = Http nat string | Answer call_result | Forward string call_request nat

record call_body =
  cb_session :: string
  cb_label :: string
  cb_tool :: string
  cb_args :: json
  cb_browser :: "string option"

definition call_body_of :: "json option \<Rightarrow> string + call_body" where
  "call_body_of body =
     (let field = (\<lambda>k. Option.bind body (\<lambda>b. js_get b k)); session = field ''session'';
          sid = Option.bind session (\<lambda>s. js_get s ''id'')
      in if \<not> isObj body \<or> \<not> isObj session then Inl ''session.id is required''
         else case Option.bind sid as_string of
           None \<Rightarrow> Inl ''session.id is required''
         | Some i \<Rightarrow>
             if i = '''' \<or> length i > 128 then Inl ''session.id is required''
             else case Option.bind (field ''tool'') as_string of
               None \<Rightarrow> Inl ''unknown tool''
             | Some tool \<Rightarrow>
                 if tool \<notin> set BROWSER_TOOLS then Inl ''unknown tool''
                 else if field ''args'' \<noteq> None \<and> \<not> isObj (field ''args'') then Inl ''args must be an object''
                 else if field ''browser'' \<noteq> None \<and> Option.bind (field ''browser'') as_string = None then Inl ''browser must be a string''
                 else Inr \<lparr> cb_session = i,
                   cb_label = (case Option.bind session (\<lambda>s. js_get s ''label'') of Some (JStr l) \<Rightarrow> take 80 l | _ \<Rightarrow> ''''),
                   cb_tool = tool, cb_args = default (JObj []) (field ''args''),
                   cb_browser = Option.bind (field ''browser'') as_string \<rparr>)"

definition target_json :: "browser_target \<Rightarrow> json" where
  "target_json t =
     (case t of
        Browser_Identity i \<Rightarrow> JObj [(''kind'', JStr ''identity''), (''identity'', JStr i)]
      | Browser_Pool p \<Rightarrow> JObj [(''kind'', JStr ''pool''), (''pool'', JStr p)])"

definition binding_summary :: "browser_binding \<Rightarrow> json" where
  "binding_summary b = JObj [(''name'', JStr (bd_name b)), (''profileLabel'', JStr (bd_profileLabel b)), (''target'', target_json (bd_target b))]"

text \<open>The browser of a call, or the answer given instead.\<close>

definition choose_browser :: "string \<Rightarrow> string option \<Rightarrow> browser_binding list \<Rightarrow> browser_binding list \<Rightarrow> route_answer + browser_binding" where
  "choose_browser uid browser live allowed =
     (case browser of
        Some n \<Rightarrow>
          (case find (\<lambda>b. bd_name b = n) allowed of
             Some b \<Rightarrow> Inr b
           | None \<Rightarrow>
               if list_ex (\<lambda>b. bd_name b = n) live then Inl (Http 403 ''browser not available to this identity'')
               else Inl (Answer (Call_Failed uid ''no_browser'' ''That browser is not connected.'')))
      | None \<Rightarrow>
          (case allowed of
             [] \<Rightarrow> Inl (Answer (Call_Failed uid ''no_browser'' ''No browser is bound to this identity and connected.''))
           | [b] \<Rightarrow> Inr b
           | _ \<Rightarrow> Inl (Answer (Call_Failed uid ''ambiguous_browser''
                (''Several browsers are connected ('' @ join_with '', '' (map bd_name allowed) @ ''); pass `browser`.'')))))"

definition call_route :: "(string \<Rightarrow> string) \<Rightarrow> (json \<Rightarrow> string) \<Rightarrow> (string \<Rightarrow> string list option) \<Rightarrow> gateway_store \<Rightarrow> browser_binding list \<Rightarrow>
    string option \<Rightarrow> json option \<Rightarrow> string \<Rightarrow> route_answer" where
  "call_route sha stringify members st live auth body uid =
     (case Option.bind (agent_bearer auth) (authAgentToken sha st) of
        None \<Rightarrow> Http 401 ''unauthorised''
      | Some identity \<Rightarrow>
          if body = None then Http 400 ''invalid JSON''
          else case call_body_of body of
            Inl problem \<Rightarrow> Http 400 problem
          | Inr c \<Rightarrow>
              let allowed = allowedBindings members identity live
              in if cb_tool c = ''list_browsers''
                 then Answer (Call_Ok uid [Text_Item (stringify (JArr (map binding_summary allowed)))])
                 else case choose_browser uid (cb_browser c) live allowed of
                   Inl answer \<Rightarrow> answer
                 | Inr b \<Rightarrow> Forward (bd_name b)
                     \<lparr> cr_id = uid, cr_session = forwardedSession b identity (cb_session c) (cb_label c), cr_tool = cb_tool c, cr_args = cb_args c \<rparr>
                     (if cb_tool c = ''wait'' then WAIT_CALL_TIMEOUT_MS + 5000 else DEFAULT_CALL_TIMEOUT_MS))"

section \<open>Laws\<close>

lemma choose_browser_allowed: "choose_browser uid browser live allowed = Inr b \<Longrightarrow> b \<in> set allowed"
  by (auto simp: choose_browser_def find_Some_iff split: option.splits list.splits if_splits)

lemma call_route_forward:
  assumes "call_route sha stringify members st live auth body uid = Forward name req ms"
  obtains token identity b where "agent_bearer auth = Some token" "authAgentToken sha st token = Some identity" "b \<in> set live"
    "bd_name b = name" "target_allows members (bd_target b) identity" "cr_id req = uid" "cr_tool req \<in> set BROWSER_TOOLS"
    "\<exists>i l. cr_session req = forwardedSession b identity i l"
proof -
  from assms obtain identity c where c: "Option.bind (agent_bearer auth) (authAgentToken sha st) = Some identity"
      "call_body_of body = Inr c"
    by (auto simp: call_route_def Let_def split: option.splits sum.splits if_splits)
  from c(2) have "cb_tool c \<in> set BROWSER_TOOLS"
    by (auto simp: call_body_of_def Let_def split: option.splits if_splits)
  moreover from assms c obtain b where
      "choose_browser uid (cb_browser c) live (allowedBindings members identity live) = Inr b \<and> name = bd_name b \<and>
       cr_id req = uid \<and> cr_tool req = cb_tool c \<and> cr_session req = forwardedSession b identity (cb_session c) (cb_label c)"
    by (auto simp: call_route_def Let_def choose_browser_def split: option.splits sum.splits if_splits list.splits)
  moreover from this have "b \<in> set live" "target_allows members (bd_target b) identity"
    using choose_browser_allowed by (fastforce simp: allowedBindings_def)+
  moreover from c(1) obtain token where "agent_bearer auth = Some token" "authAgentToken sha st token = Some identity"
    by (cases "agent_bearer auth") auto
  ultimately show thesis by (intro that[of token identity b]) auto
qed

text \<open>What a call waits on after the hub has taken it.\<close>

lemma hub_call_pending:
  assumes "map_of (hb_pending (hub_call now name req sent h)) (cr_id req) = Some ws" "cr_id req \<notin> set (hb_calls h)" "hub_ok h"
  shows "map_of (hb_byBinding h) name = Some ws"
proof -
  have "map_of (hb_pending h) (cr_id req) = None" using assms(2,3) by (auto simp: hub_ok_def calls_ok_def)
  with assms(1) show ?thesis
    by (auto simp: hub_call_def activeSessions_def Let_def delete_conv' update_conv' bind_eq_Some_conv split: option.splits if_splits)
qed

lemma connected_bound:
  assumes "b \<in> set (hub_connected h)"
  obtains ws c where "conn_of ws h = Some c" "cn_binding c = Some b"
  using assms by (auto simp: hub_connected_def map_filter_set bind_eq_Some_conv)


text \<open>The browser of the hub's example, and an agent of the identity it is bound to.\<close>

definition example_agent_store :: gateway_store where
  "example_agent_store = addAgentToken \<lparr> at_identity = ''me'', at_prefix = gt_prefix example_browser_token, at_hash = gt_hash example_browser_token,
     at_createdAt = ''2026'', at_revokedAt = None \<rparr> example_hub_store"

definition example_call_body :: json where
  "example_call_body = JObj [(''session'', JObj [(''id'', JStr ''s'')]), (''tool'', JStr ''screenshot'')]"

definition example_connected :: hub_system where
  "example_connected = foldl (\<lambda>s e. hub_step (\<lambda>s. s) e s) example_start [Open 1, Frame 1 (Some hello_frame), Check_Read 0, Check_Done 0]"

lemma example_agent_checks: "authAgentToken (\<lambda>s. s) example_agent_store (gt_token example_browser_token) = Some ''me''"
  by (simp add: authAgentToken_def example_agent_store_def addAgentToken_def agentTokenByPrefix_def example_store_simps)

lemma example_bearer: "agent_bearer (Some (''Bearer '' @ gt_token example_browser_token)) = Some (gt_token example_browser_token)"
  by code_simp

lemma example_route:
  "call_route (\<lambda>s. s) stringify members example_agent_store [example_binding] (Some (''Bearer '' @ gt_token example_browser_token))
     (Some example_call_body) ''c1'' = Forward ''desk'' (example_browser_call\<lparr> cr_session := \<lparr> se_id = ''s'', se_identity = ''me'', se_label = [] \<rparr> \<rparr>) 30000"
proof -
  have "call_body_of (Some example_call_body) = Inr \<lparr> cb_session = ''s'', cb_label = [], cb_tool = ''screenshot'', cb_args = JObj [], cb_browser = None \<rparr>"
    by (simp add: call_body_of_def example_call_body_def isObj_def BROWSER_TOOLS_def)
  then show ?thesis unfolding call_route_def example_bearer
    by (simp add: example_agent_checks allowedBindings_def target_allows_def example_binding_def choose_browser_def forwardedSession_def
        DEFAULT_CALL_TIMEOUT_MS_def example_browser_call_def)
qed

lemma example_live: "hub_connected (hs_hub example_connected) = [example_binding]"
  by (simp add: example_connected_def hub_example_simps hub_connected_def example_binding_def map_filter_simps)


end
