(* ===== verification/Browser_Pairing.thy ===== *)
theory Browser_Pairing
  imports Pair_Limiter Browser_Routing
begin

text \<open>
  Pairing a browser: the routes of \<open>src/gateway/browser/pair.ts\<close> and \<open>admin.ts\<close> as tasks that stop at every
  answer of the store, so any other request may run in between. A poll and an approval are each a stage
  that is carried on by one step at a time; a third stage is an administrator's revocation. The clock, the
  hash, the identity and pool look-ups and the random bytes are parameters. Polls that are refused by the
  limiter or by the body reader (\<open>Pair_Limiter\<close>) never start.
\<close>

section \<open>The parts of a request\<close>

definition MAX_LABEL :: nat where
  "MAX_LABEL = 80"

definition MAX_IDENTITY :: nat where
  "MAX_IDENTITY = 200"

definition label_of :: "json option \<Rightarrow> string option" where
  "label_of body =
     (case Option.bind body (\<lambda>b. js_get b ''profileLabel'') of
        Some (JStr l) \<Rightarrow> if js_trim l = '''' \<or> length l > MAX_LABEL then None else Some (js_trim l)
      | _ \<Rightarrow> None)"

text \<open>A new code: a draw that is taken is drawn again, at most five times.\<close>

fun pick_code :: "nat \<Rightarrow> gateway_store \<Rightarrow> string list \<Rightarrow> string option" where
  "pick_code n st [] = None"
| "pick_code n st (c # cs) = (if n > 0 \<and> getPairing c st \<noteq> None then pick_code (n - 1) st cs else Some c)"

definition pairing_made :: "(string \<Rightarrow> string) \<Rightarrow> clock \<Rightarrow> int \<Rightarrow> string \<Rightarrow> string \<Rightarrow> string \<Rightarrow> browser_pairing" where
  "pairing_made sha ck now label code secret =
     \<lparr> bp_code = code, bp_profileLabel = label, bp_createdAt = ck_iso ck now, bp_expiresAt = ck_iso ck (now + PAIRING_TTL_MS),
       bp_pollSecretHash = sha secret, bp_approvedBinding = None \<rparr>"

definition pairing_expired :: "clock \<Rightarrow> int \<Rightarrow> browser_pairing \<Rightarrow> bool" where
  "pairing_expired ck now p \<longleftrightarrow> (\<exists>t \<in> set_option (ck_parse ck (bp_expiresAt p)). t \<le> now)"

text \<open>\<open>look\<close> is \<open>browserIdentityExists\<close>, which may be missing, \<open>members\<close> is \<open>browserPoolMembers\<close>.\<close>

definition parseBrowserTarget :: "(string \<Rightarrow> string option) option \<Rightarrow> (string \<Rightarrow> string list option) \<Rightarrow> json option \<Rightarrow> string + browser_target" where
  "parseBrowserTarget look members raw =
     (if \<not> isObj raw then Inl ''target is required''
      else
        let field = (\<lambda>k. Option.bind raw (\<lambda>t. js_get t k)); kind = field ''kind'' in
        if kind = Some (JStr ''identity'') then
          (case field ''identity'' of
             Some (JStr i) \<Rightarrow>
               if i = '''' \<or> length i > MAX_IDENTITY then Inl ''target.identity is required''
               else (case (case look of Some f \<Rightarrow> f i | None \<Rightarrow> Some i) of
                       None \<Rightarrow> Inl (''identity '' @ [CHR 34] @ i @ [CHR 34] @ '' is not a known identity'')
                     | Some c \<Rightarrow> Inr (Browser_Identity c))
           | _ \<Rightarrow> Inl ''target.identity is required'')
        else if kind = Some (JStr ''pool'') then
          (case field ''pool'' of
             Some (JStr p) \<Rightarrow>
               if p = '''' \<or> length p > MAX_IDENTITY then Inl ''target.pool is required''
               else if members p = None then Inl ([CHR 34] @ p @ [CHR 34] @ '' is not a known swap pool'')
               else Inr (Browser_Pool p)
           | _ \<Rightarrow> Inl ''target.pool is required'')
        else Inl ''target.kind must be identity or pool'')"

definition nameTaken :: "string \<Rightarrow> gateway_store \<Rightarrow> bool" where
  "nameTaken n st = (\<exists>b \<in> set_option (getBrowserBinding n st). bd_active b)"

section \<open>A poll\<close>

datatype poll_answer = Poll_Error nat string | Poll_Pending | Poll_Token string string browser_target

datatype poll_stage =
    Poll_Start | Poll_Binding string | Poll_Claim browser_binding | Poll_Hand browser_binding
  | Poll_Drop poll_answer | Poll_Answered poll_answer

record poll =
  po_code :: string
  po_secret :: string
  po_stage :: poll_stage

definition poll_next :: "(string \<Rightarrow> string) \<Rightarrow> clock \<Rightarrow> int \<Rightarrow> generated_token \<Rightarrow> poll \<Rightarrow> gateway_store \<Rightarrow> poll_stage \<times> gateway_store" where
  "poll_next sha ck now t p st =
     (case po_stage p of
        Poll_Start \<Rightarrow>
          (case getPairing (po_code p) st of
             None \<Rightarrow> (Poll_Answered (Poll_Error 404 ''no such pairing''), st)
           | Some r \<Rightarrow>
               if \<not> sameHash sha (bp_pollSecretHash r) (po_secret p) then (Poll_Answered (Poll_Error 404 ''no such pairing''), st)
               else if pairing_expired ck now r then (Poll_Drop (Poll_Error 410 ''pairing expired''), st)
               else (case bp_approvedBinding r of
                       None \<Rightarrow> (Poll_Answered Poll_Pending, st)
                     | Some n \<Rightarrow> (Poll_Binding n, st)))
      | Poll_Binding n \<Rightarrow>
          (case getBrowserBinding n st of
             None \<Rightarrow> (Poll_Drop (Poll_Error 410 ''binding revoked''), st)
           | Some b \<Rightarrow> if bd_active b then (Poll_Claim b, st) else (Poll_Drop (Poll_Error 410 ''binding revoked''), st))
      | Poll_Drop a \<Rightarrow> (Poll_Answered a, deletePairing (po_code p) st)
      | Poll_Claim b \<Rightarrow>
          (case claimPairing (po_code p) st of
             (None, st') \<Rightarrow> (Poll_Answered (Poll_Error 404 ''no such pairing''), st')
           | (Some _, st') \<Rightarrow> (Poll_Hand b, st'))
      | Poll_Hand b \<Rightarrow>
          (Poll_Answered (Poll_Token (bd_name b) (gt_token t) (bd_target b)),
           addBrowserToken (bd_name b) (gt_prefix t) (gt_hash t) (ck_iso ck now) st)
      | Poll_Answered a \<Rightarrow> (Poll_Answered a, st))"

section \<open>An approval\<close>

datatype approve_answer = Approve_Error nat string | Approved browser_binding

datatype approve_stage =
    Approve_Start
  | Approve_Given browser_pairing browser_target string
  | Approve_Search browser_pairing browser_target string nat
  | Approve_Clear browser_pairing browser_target string
  | Approve_Bind browser_pairing browser_target string
  | Approve_Put browser_pairing browser_binding
  | Approve_Answered approve_answer

record approval =
  ap_code :: string
  ap_body :: "json option"
  ap_stage :: approve_stage

text \<open>The names that are tried in turn when none is given: the base, then \<open>base-2\<close>, \<open>base-3\<close> and so on.\<close>

definition candidate :: "string \<Rightarrow> nat \<Rightarrow> string" where
  "candidate base i = (if i < 2 then base else base @ ''-'' @ decimal i)"

definition approve_start :: "(string \<Rightarrow> string option) option \<Rightarrow> (string \<Rightarrow> string list option) \<Rightarrow> clock \<Rightarrow> int \<Rightarrow> approval \<Rightarrow> gateway_store \<Rightarrow> approve_stage" where
  "approve_start look members ck now a st =
     (let raw = ap_body a; field = (\<lambda>k. Option.bind raw (\<lambda>b. js_get b k)) in
      if raw = None then Approve_Answered (Approve_Error 400 ''body is not valid JSON'')
      else if \<not> isObj raw then Approve_Answered (Approve_Error 400 ''body must be a JSON object'')
      else case getPairing (ap_code a) st of
        None \<Rightarrow> Approve_Answered (Approve_Error 404 ''no such pairing'')
      | Some p \<Rightarrow>
          if pairing_expired ck now p then Approve_Answered (Approve_Error 410 ''pairing expired'')
          else if bp_approvedBinding p \<noteq> None then Approve_Answered (Approve_Error 409 ''pairing already approved'')
          else case parseBrowserTarget look members (field ''target'') of
            Inl e \<Rightarrow> Approve_Answered (Approve_Error 400 e)
          | Inr t \<Rightarrow>
              (case field ''name'' of
                 None \<Rightarrow> Approve_Search p t (slug (bp_profileLabel p)) 1
               | Some v \<Rightarrow>
                   (case as_string v of
                      Some n \<Rightarrow> if NAME n then Approve_Given p t n
                        else Approve_Answered (Approve_Error 400 ''name must be 1 to 63 lowercase letters, digits or -, start and end with a letter or digit'')
                    | None \<Rightarrow> Approve_Answered (Approve_Error 400 ''name must be 1 to 63 lowercase letters, digits or -, start and end with a letter or digit''))))"

definition approve_next :: "(string \<Rightarrow> string option) option \<Rightarrow> (string \<Rightarrow> string list option) \<Rightarrow> clock \<Rightarrow> int \<Rightarrow> approval \<Rightarrow> gateway_store \<Rightarrow> approve_stage \<times> gateway_store" where
  "approve_next look members ck now a st =
     (case ap_stage a of
        Approve_Start \<Rightarrow> (approve_start look members ck now a st, st)
      | Approve_Given p t n \<Rightarrow>
          (if nameTaken n st then Approve_Answered (Approve_Error 409 ''a binding with that name exists'') else Approve_Clear p t n, st)
      | Approve_Search p t base i \<Rightarrow>
          (if nameTaken (candidate base i) st then Approve_Search p t base (i + 1) else Approve_Clear p t (candidate base i), st)
      | Approve_Clear p t n \<Rightarrow> (Approve_Bind p t n, deleteBrowserTokens n st)
      | Approve_Bind p t n \<Rightarrow>
          (let b = \<lparr> bd_name = n, bd_target = t, bd_profileLabel = bp_profileLabel p, bd_active = True, bd_createdAt = ck_iso ck now,
                     bd_lastSeenAt = None \<rparr>
           in (Approve_Put p b, putBrowserBinding b st))
      | Approve_Put p b \<Rightarrow> (Approve_Answered (Approved b), putPairing (p\<lparr> bp_approvedBinding := Some (bd_name b) \<rparr>) st)
      | Approve_Answered r \<Rightarrow> (Approve_Answered r, st))"

section \<open>Agent tokens\<close>

text \<open>Issuing revokes what the identity had; \<open>None\<close> is a refusal with its status.\<close>

definition issue_agent_token :: "(string \<Rightarrow> string option) option \<Rightarrow> clock \<Rightarrow> int \<Rightarrow> generated_token \<Rightarrow> string \<Rightarrow> gateway_store \<Rightarrow> (nat + string) \<times> gateway_store" where
  "issue_agent_token look ck now t identity st =
     (if identity = '''' \<or> length identity > MAX_IDENTITY then (Inl 400, st)
      else case (case look of Some f \<Rightarrow> f identity | None \<Rightarrow> Some identity) of
        None \<Rightarrow> (Inl 404, st)
      | Some c \<Rightarrow> (Inr (gt_token t), addAgentToken \<lparr> at_identity = c, at_prefix = gt_prefix t, at_hash = gt_hash t,
            at_createdAt = ck_iso ck now, at_revokedAt = None \<rparr> (revokeAgentTokens c (ck_iso ck now) st)))"

definition drop_agent_tokens :: "(string \<Rightarrow> string option) option \<Rightarrow> string \<Rightarrow> string \<Rightarrow> gateway_store \<Rightarrow> gateway_store" where
  "drop_agent_tokens look now given st =
     (let c = default given (Option.bind look (\<lambda>f. f given)); st1 = revokeAgentTokens c now st
      in if c \<noteq> given then revokeAgentTokens given now st1 else st1)"

section \<open>The machine\<close>

text \<open>
  \<open>bs_created\<close> are the codes with the hash of their secret, \<open>bs_approved\<close> the names an approval has written
  for a code, \<open>bs_handed\<close> the tokens handed out: code, secret shown, name of the binding.
\<close>

record browser_system =
  bs_store :: gateway_store
  bs_polls :: "poll list"
  bs_approvals :: "approval list"
  bs_created :: "(string \<times> string) list"
  bs_approved :: "(string \<times> string) list"
  bs_handed :: "(string \<times> string \<times> string) list"

datatype browser_event =
    Pair_Sweep int | Pair_New int "json option" "string list" string | Poll_Begin string string | Poll_Step nat int generated_token
  | Approve_Begin string "json option" | Approve_Step nat int | Binding_Revoked string | Binding_Seen string string

definition handed_by :: "poll \<Rightarrow> (string \<times> string \<times> string) list" where
  "handed_by p = (case po_stage p of Poll_Hand b \<Rightarrow> [(po_code p, po_secret p, bd_name b)] | _ \<Rightarrow> [])"

definition approved_by :: "approval \<Rightarrow> (string \<times> string) list" where
  "approved_by a = (case ap_stage a of Approve_Put p b \<Rightarrow> [(ap_code a, bd_name b)] | _ \<Rightarrow> [])"

text \<open>A code of eight random characters is taken not to come up a second time.\<close>

fun browser_step :: "(string \<Rightarrow> string) \<Rightarrow> clock \<Rightarrow> (string \<Rightarrow> string option) option \<Rightarrow> (string \<Rightarrow> string list option) \<Rightarrow> browser_event \<Rightarrow> browser_system \<Rightarrow> browser_system" where
  "browser_step sha ck look members (Pair_Sweep now) s = s\<lparr> bs_store := deleteExpiredPairings (ck_parse ck) now (bs_store s) \<rparr>"
| "browser_step sha ck look members (Pair_New now body draws secret) s =
     (case (label_of body, pick_code 5 (bs_store s) draws) of
        (Some label, Some code) \<Rightarrow>
          if code \<in> fst ` set (bs_created s) then s
          else s\<lparr> bs_store := putPairing (pairing_made sha ck now label code secret) (bs_store s),
                  bs_created := (code, sha secret) # bs_created s \<rparr>
      | _ \<Rightarrow> s)"
| "browser_step sha ck look members (Poll_Begin code secret) s =
     s\<lparr> bs_polls := bs_polls s @ [\<lparr> po_code = code, po_secret = secret, po_stage = Poll_Start \<rparr>] \<rparr>"
| "browser_step sha ck look members (Poll_Step k now t) s =
     (if k < length (bs_polls s) then
        case poll_next sha ck now t (bs_polls s ! k) (bs_store s) of
          (stage, st) \<Rightarrow> s\<lparr> bs_store := st, bs_polls := (bs_polls s)[k := (bs_polls s ! k)\<lparr> po_stage := stage \<rparr>],
                            bs_handed := handed_by (bs_polls s ! k) @ bs_handed s \<rparr>
      else s)"
| "browser_step sha ck look members (Approve_Begin code body) s =
     s\<lparr> bs_approvals := bs_approvals s @ [\<lparr> ap_code = code, ap_body = body, ap_stage = Approve_Start \<rparr>] \<rparr>"
| "browser_step sha ck look members (Approve_Step k now) s =
     (if k < length (bs_approvals s) then
        case approve_next look members ck now (bs_approvals s ! k) (bs_store s) of
          (stage, st) \<Rightarrow> s\<lparr> bs_store := st, bs_approvals := (bs_approvals s)[k := (bs_approvals s ! k)\<lparr> ap_stage := stage \<rparr>],
                            bs_approved := approved_by (bs_approvals s ! k) @ bs_approved s \<rparr>
      else s)"
| "browser_step sha ck look members (Binding_Revoked n) s = s\<lparr> bs_store := revokeBrowserBinding n (bs_store s) \<rparr>"
| "browser_step sha ck look members (Binding_Seen n at') s = s\<lparr> bs_store := touchBrowserBinding n at' (bs_store s) \<rparr>"

definition browser_run :: "(string \<Rightarrow> string) \<Rightarrow> clock \<Rightarrow> (string \<Rightarrow> string option) option \<Rightarrow> (string \<Rightarrow> string list option) \<Rightarrow> browser_event list \<Rightarrow> browser_system" where
  "browser_run sha ck look members es = fold (browser_step sha ck look members) es
     \<lparr> bs_store = empty_store, bs_polls = [], bs_approvals = [], bs_created = [], bs_approved = [], bs_handed = [] \<rparr>"

section \<open>What a step does to the store\<close>

definition store_fine :: "gateway_store \<Rightarrow> bool" where
  "store_fine st \<longleftrightarrow> distinct (map fst (st_pairings st)) \<and> (\<forall>n b. getBrowserBinding n st = Some b \<longrightarrow> bd_name b = n)"

definition shrinks :: "gateway_store \<Rightarrow> gateway_store \<Rightarrow> bool" where
  "shrinks st st' \<longleftrightarrow> store_fine st' \<and> (\<forall>c p. getPairing c st' = Some p \<longrightarrow> getPairing c st = Some p)"

lemma getPairing_put [simp]: "getPairing c (putPairing p st) = (if c = bp_code p then Some p else getPairing c st)"
  by (simp add: getPairing_def putPairing_def update_conv')

lemma getPairing_delete [simp]: "getPairing c (deletePairing d st) = (if c = d then None else getPairing c st)"
  by (simp add: getPairing_def deletePairing_def delete_conv')

lemma getBrowserBinding_other [simp]:
  "getBrowserBinding n (putPairing p st) = getBrowserBinding n st" "getBrowserBinding n (deletePairing d st) = getBrowserBinding n st"
  "getBrowserBinding n (putBrowserBinding b st) = (if n = bd_name b then Some b else getBrowserBinding n st)"
  "st_pairings (putPairing p st) = AList.update (bp_code p) p (st_pairings st)" "st_pairings (deletePairing d st) = AList.delete d (st_pairings st)"
  by (simp_all add: getBrowserBinding_def putPairing_def deletePairing_def putBrowserBinding_def update_conv')

lemma store_fine_put: "store_fine st \<Longrightarrow> store_fine (putPairing p st)"
  by (simp add: store_fine_def distinct_update)

text \<open>\<open>shrinks\<close> of every operation that only removes pairings or leaves them alone.\<close>

named_theorems shrinking

lemma shrinks_refl [shrinking]: "store_fine st \<Longrightarrow> shrinks st st"
  by (simp add: shrinks_def)

lemma shrinks_same:
  "store_fine st \<Longrightarrow> st_pairings st' = st_pairings st \<Longrightarrow> \<forall>n b. getBrowserBinding n st' = Some b \<longrightarrow> bd_name b = n \<Longrightarrow> shrinks st st'"
  by (simp add: shrinks_def store_fine_def getPairing_def)

lemma shrinks_delete [shrinking]: "store_fine st \<Longrightarrow> shrinks st (deletePairing c st)"
  by (simp add: shrinks_def store_fine_def distinct_delete)

lemma shrinks_expired [shrinking]: "store_fine st \<Longrightarrow> shrinks st (deleteExpiredPairings parse now st)"
  by (auto simp: shrinks_def store_fine_def deleteExpiredPairings_def getPairing_def getBrowserBinding_def distinct_map_filter
      map_of_filter_distinct split: option.splits if_splits)

lemma shrinks_bindings [shrinking]:
  assumes "store_fine st"
  shows "shrinks st (putBrowserBinding b st)" "shrinks st (revokeBrowserBinding n st)" "shrinks st (touchBrowserBinding n t st)"
    "shrinks st (deleteBrowserTokens n st)" "shrinks st (addBrowserToken n x y t st)"
  using assms
  by (auto intro!: shrinks_same simp: store_fine_def getBrowserBinding_def putBrowserBinding_def revokeBrowserBinding_def touchBrowserBinding_def
      deleteBrowserTokens_def addBrowserToken_def update_conv' split: option.split if_splits)

section \<open>The invariant\<close>

text \<open>What is known of a task that works for the binding \<open>n\<close>: the secret fits the code and \<open>n\<close> was approved for it.\<close>

definition entitled :: "(string \<Rightarrow> string) \<Rightarrow> browser_system \<Rightarrow> string \<Rightarrow> string \<Rightarrow> string \<Rightarrow> bool" where
  "entitled sha s code secret n \<longleftrightarrow>
     (\<exists>h. (code, h) \<in> set (bs_created s) \<and> sameHash sha h secret) \<and> (code, n) \<in> set (bs_approved s)"

definition approved_pairing :: "browser_pairing option \<Rightarrow> bool" where
  "approved_pairing r \<longleftrightarrow> (\<exists>p n. r = Some p \<and> bp_approvedBinding p = Some n)"

definition pairing_ok :: "browser_system \<Rightarrow> string \<Rightarrow> browser_pairing \<Rightarrow> bool" where
  "pairing_ok s c p \<longleftrightarrow> bp_code p = c \<and> (c, bp_pollSecretHash p) \<in> set (bs_created s) \<and>
     (\<forall>n. bp_approvedBinding p = Some n \<longrightarrow> (c, n) \<in> set (bs_approved s))"

definition stage_pairing :: "approve_stage \<Rightarrow> browser_pairing option" where
  "stage_pairing g = (case g of Approve_Given p _ _ \<Rightarrow> Some p | Approve_Search p _ _ _ \<Rightarrow> Some p | Approve_Clear p _ _ \<Rightarrow> Some p
     | Approve_Bind p _ _ \<Rightarrow> Some p | Approve_Put p _ \<Rightarrow> Some p | _ \<Rightarrow> None)"

definition approval_ok :: "browser_system \<Rightarrow> approval \<Rightarrow> bool" where
  "approval_ok s a \<longleftrightarrow> (\<forall>p. stage_pairing (ap_stage a) = Some p \<longrightarrow> bp_code p = ap_code a \<and> (ap_code a, bp_pollSecretHash p) \<in> set (bs_created s))"

definition stage_name :: "poll_stage \<Rightarrow> string option" where
  "stage_name g = (case g of Poll_Binding n \<Rightarrow> Some n | Poll_Claim b \<Rightarrow> Some (bd_name b) | Poll_Hand b \<Rightarrow> Some (bd_name b) | _ \<Rightarrow> None)"

definition is_hand :: "poll_stage \<Rightarrow> bool" where
  "is_hand g \<longleftrightarrow> (\<exists>b. g = Poll_Hand b)"

definition poll_ok :: "(string \<Rightarrow> string) \<Rightarrow> browser_system \<Rightarrow> poll \<Rightarrow> bool" where
  "poll_ok sha s p \<longleftrightarrow> (\<forall>n. stage_name (po_stage p) = Some n \<longrightarrow> entitled sha s (po_code p) (po_secret p) n \<and>
     (\<not> is_hand (po_stage p) \<and> getPairing (po_code p) (bs_store s) \<noteq> None \<longrightarrow> approved_pairing (getPairing (po_code p) (bs_store s))))"

text \<open>For every code: tokens handed out, about to be handed out and still to be claimed, against approvals.\<close>

definition tally :: "string \<Rightarrow> (string \<times> 'a) list \<Rightarrow> nat" where
  "tally c xs = length (filter (\<lambda>e. fst e = c) xs)"

definition hands :: "string \<Rightarrow> poll list \<Rightarrow> nat" where
  "hands c ps = length (filter (\<lambda>p. po_code p = c \<and> is_hand (po_stage p)) ps)"

definition count_ok :: "browser_system \<Rightarrow> string \<Rightarrow> bool" where
  "count_ok s c \<longleftrightarrow> tally c (bs_handed s) + hands c (bs_polls s) + (if approved_pairing (getPairing c (bs_store s)) then 1 else 0)
     \<le> tally c (bs_approved s)"

definition pair_ok :: "(string \<Rightarrow> string) \<Rightarrow> browser_system \<Rightarrow> bool" where
  "pair_ok sha s \<longleftrightarrow> store_fine (bs_store s) \<and> distinct (map fst (bs_created s)) \<and>
     (\<forall>c p. getPairing c (bs_store s) = Some p \<longrightarrow> pairing_ok s c p) \<and>
     (\<forall>a \<in> set (bs_approvals s). approval_ok s a) \<and> (\<forall>p \<in> set (bs_polls s). poll_ok sha s p) \<and>
     (\<forall>e \<in> set (bs_handed s). entitled sha s (fst e) (fst (snd e)) (snd (snd e))) \<and> (\<forall>c. count_ok s c)"

lemmas pair_ok_defs = pair_ok_def pairing_ok_def approval_ok_def poll_ok_def entitled_def count_ok_def

lemma length_filter_update:
  "k < length xs \<Longrightarrow> length (filter P (xs[k := y])) + (if P (xs ! k) then 1 else 0) = length (filter P xs) + (if P y then 1 else 0)"
proof (induction xs arbitrary: k)
  case (Cons x xs)
  then show ?case using Cons.IH[of "k - 1"] by (cases k) auto
qed simp

lemma hands_update:
  "k < length ps \<Longrightarrow> hands c (ps[k := q]) + (if po_code (ps ! k) = c \<and> is_hand (po_stage (ps ! k)) then 1 else 0) =
    hands c ps + (if po_code q = c \<and> is_hand (po_stage q) then 1 else 0)"
  unfolding hands_def by (rule length_filter_update)

lemma approved_pairing_shrinks: "shrinks st st' \<Longrightarrow> approved_pairing (getPairing c st') \<Longrightarrow> approved_pairing (getPairing c st)"
  by (auto simp: shrinks_def approved_pairing_def)

lemma pair_ok_shrinks:
  assumes "pair_ok sha s" "shrinks (bs_store s) st'"
  shows "pair_ok sha (s\<lparr> bs_store := st' \<rparr>)"
proof -
  have "count_ok (s\<lparr> bs_store := st' \<rparr>) c" for c
  proof -
    have "count_ok s c" using assms(1) by (simp add: pair_ok_def)
    with approved_pairing_shrinks[OF assms(2), of c] show ?thesis by (auto simp: count_ok_def split: if_splits)
  qed
  moreover have "poll_ok sha (s\<lparr> bs_store := st' \<rparr>) p" if "p \<in> set (bs_polls s)" for p
  proof -
    have "poll_ok sha s p" using assms(1) that by (simp add: pair_ok_def)
    moreover have "getPairing (po_code p) st' = None \<or> getPairing (po_code p) (bs_store s) = getPairing (po_code p) st'"
      using assms(2) by (cases "getPairing (po_code p) st'") (auto simp: shrinks_def)
    ultimately show ?thesis by (elim disjE) (simp_all add: poll_ok_def entitled_def)
  qed
  ultimately show ?thesis using assms by (simp add: pair_ok_def shrinks_def pairing_ok_def approval_ok_def entitled_def)
qed

text \<open>A step of a poll: what the new stage must satisfy, and the balance of its code.\<close>

definition present :: "string \<Rightarrow> gateway_store \<Rightarrow> nat" where
  "present c st = (if approved_pairing (getPairing c st) then 1 else 0)"

definition hand :: "poll_stage \<Rightarrow> nat" where
  "hand g = (if is_hand g then 1 else 0)"

lemma tally_handed_by: "tally c (handed_by p) = (if po_code p = c then hand (po_stage p) else 0)"
  by (cases "po_stage p") (auto simp: tally_def handed_by_def hand_def is_hand_def)

lemma tally_append: "tally c (xs @ ys) = tally c xs + tally c ys"
  by (simp add: tally_def)

lemma pair_ok_poll:
  assumes ok: "pair_ok sha s" and k: "k < length (bs_polls s)" and p: "p = bs_polls s ! k"
    and store: "shrinks (bs_store s) st'"
    and stage: "poll_ok sha (s\<lparr> bs_store := st' \<rparr>) (p\<lparr> po_stage := g \<rparr>)"
    and balance: "hand g + present (po_code p) st' \<le> present (po_code p) (bs_store s)"
  shows "pair_ok sha (s\<lparr> bs_store := st', bs_polls := (bs_polls s)[k := p\<lparr> po_stage := g \<rparr>], bs_handed := handed_by p @ bs_handed s \<rparr>)"
    (is "pair_ok sha ?s")
proof -
  from pair_ok_shrinks[OF ok store] have ok': "pair_ok sha (s\<lparr> bs_store := st' \<rparr>)" .
  have old: "poll_ok sha s p" using ok k p by (simp add: pair_ok_def)
  have "count_ok ?s c" for c
  proof -
    have "present c st' \<le> present c (bs_store s)"
      using approved_pairing_shrinks[OF store, of c] by (simp add: present_def)
    moreover have "tally c (bs_handed s) + hands c (bs_polls s) + present c (bs_store s) \<le> tally c (bs_approved s)"
      using ok by (simp add: pair_ok_def count_ok_def present_def)
    moreover have "hands c (bs_polls ?s) + (if po_code p = c then hand (po_stage p) else 0) = hands c (bs_polls s) + (if po_code p = c then hand g else 0)"
      using hands_update[OF k, of c "p\<lparr> po_stage := g \<rparr>"] p by (auto simp: hand_def split: if_splits)
    ultimately have "tally c (bs_handed ?s) + hands c (bs_polls ?s) + present c st' \<le> tally c (bs_approved s)"
      using balance by (auto simp: tally_append tally_handed_by split: if_splits)
    then show ?thesis by (simp add: count_ok_def present_def)
  qed
  moreover have "poll_ok sha ?s q" if "q \<in> set (bs_polls ?s)" for q
  proof -
    from that have "q = p\<lparr> po_stage := g \<rparr> \<or> q \<in> set (bs_polls s)" using set_update_subset_insert by fastforce
    with stage ok' show ?thesis by (auto simp: pair_ok_def poll_ok_def entitled_def)
  qed
  moreover have "entitled sha ?s (fst e) (fst (snd e)) (snd (snd e))" if "e \<in> set (bs_handed ?s)" for e
    using that old ok by (auto simp: handed_by_def pair_ok_def poll_ok_def entitled_def stage_name_def split: poll_stage.splits)
  ultimately show ?thesis using ok' by (simp add: pair_ok_def pairing_ok_def approval_ok_def)
qed

lemma poll_next_ok:
  assumes ok: "pair_ok sha s" and k: "k < length (bs_polls s)" and p: "p = bs_polls s ! k"
    and run: "poll_next sha ck now t p (bs_store s) = (g, st')"
  shows "pair_ok sha (s\<lparr> bs_store := st', bs_polls := (bs_polls s)[k := p\<lparr> po_stage := g \<rparr>], bs_handed := handed_by p @ bs_handed s \<rparr>)"
proof (rule pair_ok_poll[OF ok k p])
  have fine: "store_fine (bs_store s)" and old: "poll_ok sha s p" using ok k p by (simp_all add: pair_ok_def)
  show "shrinks (bs_store s) st'"
    using run fine by (auto simp: poll_next_def claimPairing_def split: poll_stage.splits option.splits if_splits intro: shrinking)
  show "hand g + present (po_code p) st' \<le> present (po_code p) (bs_store s)"
    using run old
    by (auto simp: poll_next_def claimPairing_def hand_def is_hand_def present_def approved_pairing_def poll_ok_def stage_name_def getPairing_def
        addBrowserToken_def deletePairing_def delete_conv' split: poll_stage.splits option.splits if_splits)
  show "poll_ok sha (s\<lparr> bs_store := st' \<rparr>) (p\<lparr> po_stage := g \<rparr>)"
  proof (cases "po_stage p")
    case Poll_Start
    show ?thesis
    proof (cases "stage_name g")
      case None
      then show ?thesis by (simp add: poll_ok_def)
    next
      case (Some n)
      with run Poll_Start obtain r where r: "getPairing (po_code p) (bs_store s) = Some r" "sameHash sha (bp_pollSecretHash r) (po_secret p)"
          "bp_approvedBinding r = Some n" "g = Poll_Binding n" "st' = bs_store s"
        by (auto simp: poll_next_def stage_name_def split: option.splits if_splits)
      with ok have "pairing_ok s (po_code p) r" by (simp add: pair_ok_def)
      with r show ?thesis by (auto simp: poll_ok_def entitled_def pairing_ok_def stage_name_def approved_pairing_def)
    qed
  next
    case (Poll_Binding n)
    with run old fine show ?thesis
      by (auto simp: poll_next_def poll_ok_def stage_name_def entitled_def store_fine_def is_hand_def split: option.splits if_splits)
  next
    case (Poll_Claim b)
    with run old show ?thesis
      by (auto simp: poll_next_def poll_ok_def stage_name_def entitled_def is_hand_def split: option.splits prod.splits)
  next
    case (Poll_Answered a)
    with run have "g = Poll_Answered a" by (simp add: poll_next_def)
    then show ?thesis by (simp add: poll_ok_def stage_name_def)
  qed (use run in \<open>auto simp: poll_next_def poll_ok_def stage_name_def\<close>)
qed

text \<open>A step of an approval: only the last one adds anything, an approval with the pairing it wrote.\<close>

lemma pair_ok_approval:
  assumes "pair_ok sha s" "\<forall>a \<in> set as. approval_ok s a"
  shows "pair_ok sha (s\<lparr> bs_approvals := as \<rparr>)"
  using assms by (simp add: pair_ok_def pairing_ok_def approval_ok_def poll_ok_def entitled_def count_ok_def)

lemma pair_ok_put:
  assumes ok: "pair_ok sha s" and c: "bp_code p = c" "(c, bp_pollSecretHash p) \<in> set (bs_created s)"
  shows "pair_ok sha (s\<lparr> bs_store := putPairing (p\<lparr> bp_approvedBinding := Some n \<rparr>) (bs_store s), bs_approved := (c, n) # bs_approved s \<rparr>)"
    (is "pair_ok sha ?s")
proof -
  have "count_ok ?s x" for x
  proof -
    have "count_ok s x" using ok by (simp add: pair_ok_def)
    then show ?thesis using c(1) by (auto simp: count_ok_def tally_def approved_pairing_def split: if_splits)
  qed
  moreover have "poll_ok sha ?s q" if "q \<in> set (bs_polls s)" for q
  proof -
    have "poll_ok sha s q" using ok that by (simp add: pair_ok_def)
    then show ?thesis using c(1) by (auto simp: poll_ok_def entitled_def approved_pairing_def)
  qed
  moreover have "pairing_ok ?s x q" if "getPairing x (bs_store ?s) = Some q" for x q
    using that ok c by (auto simp: pair_ok_def pairing_ok_def split: if_splits)
  moreover have "approval_ok ?s a" if "a \<in> set (bs_approvals s)" for a
    using ok that by (auto simp: pair_ok_def approval_ok_def)
  moreover have "entitled sha ?s (fst e) (fst (snd e)) (snd (snd e))" if "e \<in> set (bs_handed s)" for e
    using ok that by (auto simp: pair_ok_def entitled_def)
  ultimately show ?thesis using ok by (simp add: pair_ok_def store_fine_put)
qed

lemma approve_next_stage:
  assumes "pair_ok sha s" "approval_ok s a" "approve_next look members ck now a (bs_store s) = (g, st')"
  shows "approval_ok s (a\<lparr> ap_stage := g \<rparr>)"
proof (cases "ap_stage a")
  case Approve_Start
  show ?thesis
  proof (cases "stage_pairing g")
    case None
    then show ?thesis by (simp add: approval_ok_def)
  next
    case (Some p)
    with assms(3) Approve_Start have "getPairing (ap_code a) (bs_store s) = Some p"
      by (auto simp: approve_next_def approve_start_def Let_def stage_pairing_def split: option.splits sum.splits if_splits)
    with assms(1) have "pairing_ok s (ap_code a) p" by (simp add: pair_ok_def)
    with Some show ?thesis by (simp add: approval_ok_def pairing_ok_def)
  qed
next
  case (Approve_Answered r)
  with assms(3) have "g = Approve_Answered r" by (simp add: approve_next_def)
  then show ?thesis by (simp add: approval_ok_def stage_pairing_def)
qed (use assms(2,3) in \<open>auto simp: approve_next_def approval_ok_def stage_pairing_def Let_def split: if_splits\<close>)

lemma approve_next_ok:
  assumes ok: "pair_ok sha s" and k: "k < length (bs_approvals s)" and a: "a = bs_approvals s ! k"
    and run: "approve_next look members ck now a (bs_store s) = (g, st')"
  shows "pair_ok sha (s\<lparr> bs_store := st', bs_approvals := (bs_approvals s)[k := a\<lparr> ap_stage := g \<rparr>], bs_approved := approved_by a @ bs_approved s \<rparr>)"
proof -
  have old: "approval_ok s a" using ok k a by (simp add: pair_ok_def)
  have "\<forall>x \<in> set ((bs_approvals s)[k := a\<lparr> ap_stage := g \<rparr>]). approval_ok s x"
    using approve_next_stage[OF ok old run] ok set_update_subset_insert by (fastforce simp: pair_ok_def)
  from pair_ok_approval[OF ok this] have ok': "pair_ok sha (s\<lparr> bs_approvals := (bs_approvals s)[k := a\<lparr> ap_stage := g \<rparr>] \<rparr>)" .
  have swap: "s\<lparr> bs_store := x, bs_approvals := y, bs_approved := z \<rparr> = s\<lparr> bs_approvals := y, bs_store := x, bs_approved := z \<rparr>" for x y z
    by (cases s) simp
  show ?thesis
  proof (cases "\<exists>p b. ap_stage a = Approve_Put p b")
    case True
    then obtain p b where p: "ap_stage a = Approve_Put p b" by blast
    with old have "bp_code p = ap_code a" "(ap_code a, bp_pollSecretHash p) \<in> set (bs_created s)"
      by (simp_all add: approval_ok_def stage_pairing_def)
    with pair_ok_put[OF ok', of p "ap_code a" "bd_name b"] p run show ?thesis
      unfolding swap by (auto simp: approve_next_def approved_by_def)
  next
    case False
    have "store_fine (bs_store s)" using ok by (simp add: pair_ok_def)
    with run False have "shrinks (bs_store s) st'" "approved_by a = []"
      by (auto simp: approve_next_def approved_by_def Let_def split: approve_stage.splits if_splits intro: shrinking)
    with pair_ok_shrinks[OF ok', of st'] show ?thesis unfolding swap by simp
  qed
qed

lemma pair_ok_new:
  assumes ok: "pair_ok sha s" and new: "c \<notin> fst ` set (bs_created s)"
  shows "pair_ok sha (s\<lparr> bs_store := putPairing (pairing_made sha ck now label c secret) (bs_store s), bs_created := (c, sha secret) # bs_created s \<rparr>)"
    (is "pair_ok sha ?s")
proof -
  have "count_ok ?s x" for x
  proof -
    have "count_ok s x" using ok by (simp add: pair_ok_def)
    then show ?thesis by (auto simp: count_ok_def approved_pairing_def pairing_made_def split: if_splits)
  qed
  moreover have "poll_ok sha ?s q" if "q \<in> set (bs_polls s)" for q
  proof (cases "stage_name (po_stage q)")
    case (Some n)
    have q: "poll_ok sha s q" using ok that by (simp add: pair_ok_def)
    with Some new have "po_code q \<noteq> c" by (force simp: poll_ok_def entitled_def)
    with q Some show ?thesis by (auto simp: poll_ok_def entitled_def pairing_made_def)
  qed (simp add: poll_ok_def)
  moreover have "pairing_ok ?s x q" if "getPairing x (bs_store ?s) = Some q" for x q
    using that ok by (auto simp: pair_ok_def pairing_ok_def pairing_made_def split: if_splits)
  moreover have "approval_ok ?s a" if "a \<in> set (bs_approvals s)" for a
    using ok that by (auto simp: pair_ok_def approval_ok_def)
  moreover have "entitled sha ?s (fst e) (fst (snd e)) (snd (snd e))" if "e \<in> set (bs_handed s)" for e
    using ok that by (auto simp: pair_ok_def entitled_def)
  ultimately show ?thesis using ok new by (simp add: pair_ok_def store_fine_put)
qed

lemma browser_step_ok: "pair_ok sha s \<Longrightarrow> pair_ok sha (browser_step sha ck look members e s)"
proof (cases e)
  case (Poll_Step k now t)
  assume ok: "pair_ok sha s"
  obtain g st' where "poll_next sha ck now t (bs_polls s ! k) (bs_store s) = (g, st')" by fastforce
  with poll_next_ok[OF ok _ refl this] ok show ?thesis by (simp add: Poll_Step)
next
  case (Approve_Step k now)
  assume ok: "pair_ok sha s"
  obtain g st' where "approve_next look members ck now (bs_approvals s ! k) (bs_store s) = (g, st')" by fastforce
  with approve_next_ok[OF ok _ refl this] ok show ?thesis by (simp add: Approve_Step)
next
  case (Pair_New now body draws secret)
  assume "pair_ok sha s"
  with Pair_New show ?thesis by (auto split: option.split intro: pair_ok_new)
next
  case (Approve_Begin code body)
  assume ok: "pair_ok sha s"
  have "approval_ok s \<lparr> ap_code = code, ap_body = body, ap_stage = Approve_Start \<rparr>" by (simp add: approval_ok_def stage_pairing_def)
  with pair_ok_approval[OF ok] ok show ?thesis by (simp add: Approve_Begin pair_ok_def)
next
  case (Poll_Begin code secret)
  assume "pair_ok sha s"
  with Poll_Begin show ?thesis
    by (auto simp: pair_ok_defs stage_name_def hands_def is_hand_def)
qed (auto intro!: pair_ok_shrinks shrinking simp: pair_ok_def[of sha s])

lemma browser_run_ok: "pair_ok sha (browser_run sha ck look members es)"
proof -
  have "pair_ok sha s \<Longrightarrow> pair_ok sha (fold (browser_step sha ck look members) es s)" for s
    by (induction es arbitrary: s) (simp_all add: browser_step_ok)
  moreover have "pair_ok sha \<lparr> bs_store = empty_store, bs_polls = [], bs_approvals = [], bs_created = [], bs_approved = [], bs_handed = [] \<rparr>"
    by (simp add: pair_ok_def store_fine_def empty_store_def getPairing_def getBrowserBinding_def count_ok_def tally_def hands_def approved_pairing_def)
  ultimately show ?thesis by (simp add: browser_run_def)
qed

section \<open>The promise\<close>

text \<open>Property C16. However requests of browsers and administrators interleave: a token is handed out only to a
  poll whose secret fits the hash that the code was created with, for a binding that an approval has written
  for that very code, and a code hands out at most as many tokens as it has had approvals. A code has one
  hash.
\<close>

theorem tokens_only_for_approvals:
  assumes "s = browser_run sha ck look members es"
  shows "(\<forall>(code, secret, n) \<in> set (bs_handed s). (\<exists>h. (code, h) \<in> set (bs_created s) \<and> sameHash sha h secret) \<and> (code, n) \<in> set (bs_approved s)) \<and>
    distinct (map fst (bs_created s)) \<and> (\<forall>code. tally code (bs_handed s) \<le> tally code (bs_approved s))"
proof -
  have ok: "pair_ok sha s" unfolding assms by (rule browser_run_ok)
  have "tally code (bs_handed s) \<le> tally code (bs_approved s)" for code
  proof -
    from ok have "count_ok s code" by (simp add: pair_ok_def)
    then show ?thesis by (simp add: count_ok_def)
  qed
  moreover have "(\<exists>h. (code, h) \<in> set (bs_created s) \<and> sameHash sha h secret) \<and> (code, n) \<in> set (bs_approved s)"
    if "(code, secret, n) \<in> set (bs_handed s)" for code secret n
    using ok bspec[OF _ that, of "\<lambda>e. entitled sha s (fst e) (fst (snd e)) (snd (snd e))"]
    by (simp add: pair_ok_def entitled_def)
  ultimately show ?thesis using ok by (auto simp: pair_ok_def)
qed

definition example_pair_clock :: clock where
  "example_pair_clock = \<lparr> ck_parse = (\<lambda>_. None), ck_iso = (\<lambda>_. ''t'') \<rparr>"

definition example_approval :: json where
  "example_approval = JObj [(''target'', JObj [(''kind'', JStr ''identity''), (''identity'', JStr ''me'')]), (''name'', JStr ''desk'')]"

definition example_pairing_events :: "browser_event list" where
  "example_pairing_events = [Pair_New 0 (Some (JObj [(''profileLabel'', JStr ''Desk'')])) [''CODE''] ''aa'',
     Approve_Begin ''CODE'' (Some example_approval), Poll_Begin ''CODE'' ''aa'', Poll_Begin ''CODE'' ''bb'',
     Approve_Step 0 0, Approve_Step 0 0, Approve_Step 0 0, Approve_Step 0 0, Approve_Step 0 0]"

definition poll_round :: "nat \<Rightarrow> browser_event list" where
  "poll_round k = map (\<lambda>t. Poll_Step k t example_browser_token) [1, 2, 3, 4]"

lemmas pairing_example_simps = browser_run_def example_pairing_events_def poll_round_def label_of_def js_trim_def is_space_def MAX_LABEL_def
  poll_next_def approve_next_def approve_start_def Let_def example_approval_def isObj_def parseBrowserTarget_def MAX_IDENTITY_def NAME_def NAME_CHARS_def
  nameTaken_def pairing_made_def pairing_expired_def example_pair_clock_def handed_by_def approved_by_def claimPairing_def getBrowserBinding_def
  sameHash_def deleteBrowserTokens_def addBrowserToken_def putBrowserBinding_def getPairing_def putPairing_def deletePairing_def empty_store_def

text \<open>One browser pairs and gets its token; a poll with another secret gets nothing, nor does a second poll.\<close>

theorem tokens_only_for_approvals_witness:
  "(let s = browser_run (\<lambda>s. s) example_pair_clock None (\<lambda>_. None) (example_pairing_events @ poll_round 0 @ poll_round 1)
    in bs_handed s = [(''CODE'', ''aa'', ''desk'')] \<and> tally ''CODE'' (bs_approved s) = 1 \<and> tally ''CODE'' (bs_handed s) \<le> 1)"
proof -
  define s where "s = browser_run (\<lambda>s. s) example_pair_clock None (\<lambda>_. None) (example_pairing_events @ poll_round 0 @ poll_round 1)"
  have e: "bs_handed s = [(''CODE'', ''aa'', ''desk'')]" "bs_approved s = [(''CODE'', ''desk'')]"
    unfolding s_def by (simp_all add: pairing_example_simps)
  have "\<forall>code. tally code (bs_handed s) \<le> tally code (bs_approved s)" using tokens_only_for_approvals[OF s_def] by blast
  then have "tally ''CODE'' (bs_handed s) \<le> tally ''CODE'' (bs_approved s)" by blast
  with e show ?thesis unfolding s_def[symmetric] Let_def by (simp add: tally_def)
qed

text \<open>
  An approval checks that the pairing is not approved yet and then writes back the record it read. Two
  approvals that run at once both pass; the later one brings back a pairing whose token was already
  claimed, and the same secret is given a second token, for another binding.
\<close>

definition example_second_approval :: json where
  "example_second_approval = JObj [(''target'', JObj [(''kind'', JStr ''identity''), (''identity'', JStr ''you'')]), (''name'', JStr ''mine'')]"

lemma late_approval_revives_pairing:
  "(let s = browser_run (\<lambda>s. s) example_pair_clock None (\<lambda>_. None)
        ([Pair_New 0 (Some (JObj [(''profileLabel'', JStr ''Desk'')])) [''CODE''] ''aa'', Approve_Begin ''CODE'' (Some example_approval),
          Approve_Begin ''CODE'' (Some example_second_approval), Poll_Begin ''CODE'' ''aa'', Poll_Begin ''CODE'' ''aa'',
          Approve_Step 0 0, Approve_Step 1 0, Approve_Step 0 0, Approve_Step 0 0, Approve_Step 0 0, Approve_Step 0 0] @
         poll_round 0 @ [Approve_Step 1 0, Approve_Step 1 0, Approve_Step 1 0, Approve_Step 1 0] @ poll_round 1)
    in bs_handed s = [(''CODE'', ''aa'', ''mine''), (''CODE'', ''aa'', ''desk'')])"
  unfolding Let_def by (simp add: pairing_example_simps example_second_approval_def)

section \<open>Names and agent tokens\<close>

lemma decimal_single: "n < 10 \<Longrightarrow> decimal n = [char_of (48 + n)]"
  by (subst decimal.simps) simp

lemma decimal_more: "\<not> n < 10 \<Longrightarrow> decimal n = decimal (n div 10) @ [char_of (48 + n mod 10)]"
  by (subst decimal.simps) simp

lemma decimal_not_Nil [simp]: "decimal n \<noteq> []"
  by (cases "n < 10") (simp_all add: decimal_single decimal_more)

lemma Nil_not_decimal [simp]: "[] \<noteq> decimal n"
  by (metis decimal_not_Nil)

lemma digit_char_inj: "i < 10 \<Longrightarrow> j < 10 \<Longrightarrow> (char_of (48 + i :: nat) :: char) = char_of (48 + j) \<Longrightarrow> i = j"
  by (simp add: char_of_eq_iff take_bit_eq_mod)

lemma last_decimal: "last (decimal n) = char_of (48 + n mod 10)"
  by (cases "n < 10") (simp_all add: decimal_single decimal_more)

lemma butlast_decimal: "butlast (decimal n) = (if n < 10 then [] else decimal (n div 10))"
  by (cases "n < 10") (simp_all add: decimal_single decimal_more)

lemma decimal_inj: "decimal m = decimal n \<Longrightarrow> m = n"
proof (induction m arbitrary: n rule: less_induct)
  case (less m)
  then have "m mod 10 = n mod 10" using last_decimal[of m] last_decimal[of n] digit_char_inj[of "m mod 10" "n mod 10"] by simp
  moreover have b: "butlast (decimal m) = butlast (decimal n)" using less.prems by simp
  have "m div 10 = n div 10"
  proof (cases "m < 10")
    case True
    with b show ?thesis by (simp add: butlast_decimal split: if_splits)
  next
    case False
    with b have "decimal (m div 10) = decimal (n div 10)" by (simp add: butlast_decimal split: if_splits)
    moreover from False have "m div 10 < m" by simp
    ultimately show ?thesis by (rule less.IH[rotated])
  qed
  ultimately show "m = n" by (metis div_mult_mod_eq)
qed

lemma candidate_inj: "inj_on (candidate base) {1..}"
  by (rule inj_onI) (auto simp: candidate_def split: if_splits dest: decimal_inj)

text \<open>The search for a free name ends: among one more names than there are bindings, one is free.\<close>

lemma name_search_ends: "\<exists>i \<in> {1..length (st_bindings st) + 1}. \<not> nameTaken (candidate base i) st"
proof (rule ccontr)
  let ?I = "{1..length (st_bindings st) + 1}"
  assume "\<not> ?thesis"
  then have "candidate base ` ?I \<subseteq> fst ` set (st_bindings st)"
    by (force simp: nameTaken_def getBrowserBinding_def dest: map_of_SomeD)
  then have "card (candidate base ` ?I) \<le> card (fst ` set (st_bindings st))" by (intro card_mono) auto
  also have "\<dots> \<le> length (st_bindings st)" using card_length[of "map fst (st_bindings st)"] by simp
  finally show False using candidate_inj[of base] by (subst (asm) card_image) (auto intro: inj_on_subset)
qed

text \<open>A new agent token replaces those its identity had.\<close>

lemma issued_agent_token_replaces:
  assumes "issue_agent_token look ck now t identity st = (Inr tok, st')" "authAgentToken sha st' other = Some c"
    "parseToken other = Some parsed" "fst parsed \<noteq> gt_prefix t"
  shows "Some c \<noteq> (case look of Some f \<Rightarrow> f identity | None \<Rightarrow> Some identity)"
proof
  assume c: "Some c = (case look of Some f \<Rightarrow> f identity | None \<Rightarrow> Some identity)"
  define st1 where "st1 = revokeAgentTokens c (ck_iso ck now) st"
  from assms(1) c[symmetric] have st': "st' = addAgentToken \<lparr> at_identity = c, at_prefix = gt_prefix t, at_hash = gt_hash t,
      at_createdAt = ck_iso ck now, at_revokedAt = None \<rparr> st1"
    by (auto simp: issue_agent_token_def st1_def split: if_splits)
  from assms(2,3) obtain r where r: "agentTokenByPrefix (fst parsed) st' = Some r" "at_identity r = c"
    by (auto simp: authAgentToken_def split: option.splits if_splits)
  have "find P (xs @ [y]) = (case find P xs of Some x \<Rightarrow> Some x | None \<Rightarrow> if P y then Some y else None)" for P xs and y :: agent_token
    by (induction xs) auto
  with r(1) st' assms(4) have "agentTokenByPrefix (fst parsed) st1 = Some r"
    by (auto simp: agentTokenByPrefix_def addAgentToken_def split: option.splits)
  with revoked_agent_tokens[of "fst parsed" c "ck_iso ck now" st r] r(2) show False by (simp add: st1_def)
qed

end
