(* ===== verification/Spend_State.thy ===== *)
theory Spend_State
  imports Gateway_Limit
begin

text \<open>
  The spend guard's view of an account (\<open>src/spend/state.ts\<close>, \<open>config.ts\<close>, \<open>cache.ts\<close>), the mapping
  from identities to AWS accounts (\<open>src/identities/aws-profile.ts\<close>) and the gate every launch passes
  (\<open>src/spend/gate.ts\<close>). Dollars are exact rationals, instants milliseconds; the local calendar and the
  order of \<open>localeCompare\<close> are parameters. The cached states are JSON values, because the gate reads them
  unchecked. The texts shown to the user are left out.
\<close>

section \<open>Numbers and truth in JavaScript\<close>

text \<open>\<open>Number(v)\<close>; \<open>None\<close> is \<open>NaN\<close> for the result and \<open>undefined\<close> for the argument.\<close>

fun json_number :: "json \<Rightarrow> js_num option" where
  "json_number JNull = Some (Fin 0)"
| "json_number (JBool b) = Some (Fin (if b then 1 else 0))"
| "json_number (JNum q) = Some q"
| "json_number (JStr s) = js_number s"
| "json_number (JArr []) = Some (Fin 0)"
| "json_number (JArr [JNull]) = Some (Fin 0)"
| "json_number (JArr [JNum q]) = Some q"
| "json_number (JArr [JStr s]) = js_number s"
| "json_number (JArr [JArr xs]) = json_number (JArr xs)"
| "json_number (JArr _) = None"
| "json_number (JObj _) = None"

definition finite_json :: "json option \<Rightarrow> rat option" where
  "finite_json v = (case Option.bind v json_number of Some (Fin q) \<Rightarrow> Some q | _ \<Rightarrow> None)"

definition js_truthy :: "json option \<Rightarrow> bool" where
  "js_truthy v =
     (case v of
        None \<Rightarrow> False
      | Some JNull \<Rightarrow> False
      | Some (JBool b) \<Rightarrow> b
      | Some (JNum q) \<Rightarrow> q \<noteq> Fin 0
      | Some (JStr s) \<Rightarrow> s \<noteq> ''''
      | Some _ \<Rightarrow> True)"

section \<open>Configuration\<close>

datatype guard_mode = Warn | Enforce

record guard_config =
  gc_intervalS :: int
  gc_killGraceS :: int
  gc_mode :: guard_mode

definition DEFAULT_SPEND_GUARD_INTERVAL_S :: int where
  "DEFAULT_SPEND_GUARD_INTERVAL_S = 300"

definition DEFAULT_KILL_GRACE_S :: int where
  "DEFAULT_KILL_GRACE_S = 10"

definition MIN_SPEND_GUARD_INTERVAL_S :: int where
  "MIN_SPEND_GUARD_INTERVAL_S = 30"

definition parseSpendGuardConfig :: "json option \<Rightarrow> guard_config" where
  "parseSpendGuardConfig raw =
     (let field = (\<lambda>k. Option.bind raw (\<lambda>r. js_get r k));
          interval = finite_json (field ''intervalS''); grace = finite_json (field ''killGraceS'')
      in \<lparr> gc_intervalS = (case interval of Some q \<Rightarrow> if q > 0 then max MIN_SPEND_GUARD_INTERVAL_S \<lfloor>q\<rfloor> else DEFAULT_SPEND_GUARD_INTERVAL_S
             | None \<Rightarrow> DEFAULT_SPEND_GUARD_INTERVAL_S),
           gc_killGraceS = (case grace of Some q \<Rightarrow> if q \<ge> 0 then min \<lfloor>q\<rfloor> 120 else DEFAULT_KILL_GRACE_S | None \<Rightarrow> DEFAULT_KILL_GRACE_S),
           gc_mode = (if field ''mode'' = Some (JStr ''enforce'') then Enforce else Warn) \<rparr>)"

lemma parsed_config_bounds:
  "gc_intervalS (parseSpendGuardConfig raw) \<ge> 30 \<and> 0 \<le> gc_killGraceS (parseSpendGuardConfig raw) \<and> gc_killGraceS (parseSpendGuardConfig raw) \<le> 120"
  by (auto simp: parseSpendGuardConfig_def Let_def DEFAULT_SPEND_GUARD_INTERVAL_S_def DEFAULT_KILL_GRACE_S_def MIN_SPEND_GUARD_INTERVAL_S_def
      split: option.split)

section \<open>The state of an account\<close>

record budget_wire =
  bw_name :: "string option"
  bw_type :: "string option"
  bw_timeUnit :: "string option"
  bw_limit :: "string option"
  bw_actual :: "string option"

record budget_snapshot =
  bs_name :: string
  bs_limitUsd :: rat
  bs_actualUsd :: rat
  bs_timeUnit :: "string option"

fun budgetSnapshotsFromWires :: "budget_wire list \<Rightarrow> budget_snapshot list" where
  "budgetSnapshotsFromWires [] = []"
| "budgetSnapshotsFromWires (w # ws) =
     (let others = budgetSnapshotsFromWires ws in
      if bw_type w \<noteq> Some ''COST'' then others
      else case (if truthy (bw_name w) then Option.bind (bw_limit w) finite_number else None) of
        None \<Rightarrow> others
      | Some limit \<Rightarrow>
          \<lparr> bs_name = default '''' (bw_name w), bs_limitUsd = limit,
            bs_actualUsd = (case bw_actual w of None \<Rightarrow> 0 | Some a \<Rightarrow> default 0 (finite_number a)),
            bs_timeUnit = (if truthy (bw_timeUnit w) then bw_timeUnit w else None) \<rparr> # others)"

text \<open>The first of the sorted budgets: the largest limit, then the first name.\<close>

definition budget_before :: "(string \<Rightarrow> string \<Rightarrow> int) \<Rightarrow> budget_snapshot \<Rightarrow> budget_snapshot \<Rightarrow> bool" where
  "budget_before cmp a b \<longleftrightarrow> bs_limitUsd a > bs_limitUsd b \<or> (bs_limitUsd a = bs_limitUsd b \<and> cmp (bs_name a) (bs_name b) < 0)"

definition chooseBudget :: "(string \<Rightarrow> string \<Rightarrow> int) \<Rightarrow> budget_snapshot list \<Rightarrow> budget_snapshot option" where
  "chooseBudget cmp bs =
     (case bs of [] \<Rightarrow> None | b # rest \<Rightarrow> Some (foldl (\<lambda>best x. if budget_before cmp x best then x else best) b rest))"

text \<open>The local calendar: the parts of an instant, \<open>new Date(year, month, day)\<close> and the ISO text.\<close>

record calendar =
  cal_year :: "int \<Rightarrow> int"
  cal_month :: "int \<Rightarrow> int"
  cal_date :: "int \<Rightarrow> int"
  cal_day :: "int \<Rightarrow> int"
  cal_make :: "int \<Rightarrow> int \<Rightarrow> int \<Rightarrow> int"
  cal_iso :: "int \<Rightarrow> string"
  cal_parse :: "string \<Rightarrow> int option"

definition periodStartForTimeUnit :: "calendar \<Rightarrow> string option \<Rightarrow> int \<Rightarrow> int" where
  "periodStartForTimeUnit cal unit now =
     (let year = cal_year cal now; month = cal_month cal now in
      if unit = Some ''DAILY'' then cal_make cal year month (cal_date cal now)
      else if unit = Some ''WEEKLY'' then cal_make cal year month (cal_date cal now - cal_day cal now)
      else if unit = Some ''MONTHLY'' then cal_make cal year month 1
      else if unit = Some ''QUARTERLY'' then cal_make cal year (month - month mod 3) 1
      else if unit = Some ''ANNUALLY'' then cal_make cal year 0 1
      else cal_make cal year month 1)"

definition resetDateForTimeUnit :: "calendar \<Rightarrow> string option \<Rightarrow> int \<Rightarrow> int option" where
  "resetDateForTimeUnit cal unit now =
     (let year = cal_year cal now; month = cal_month cal now in
      if unit = Some ''DAILY'' then Some (cal_make cal year month (cal_date cal now + 1))
      else if unit = Some ''MONTHLY'' then Some (cal_make cal year (month + 1) 1)
      else if unit = Some ''QUARTERLY'' then Some (cal_make cal year (month + (3 - month mod 3)) 1)
      else if unit = Some ''ANNUALLY'' then Some (cal_make cal (year + 1) 0 1)
      else None)"

record spend_input =
  in_accountId :: string
  in_profile :: string
  in_region :: "string option"
  in_budgets :: "budget_snapshot list"
  in_budgetError :: "string option"
  in_localEstimateUsd :: rat
  in_realReportedUsd :: "rat option"
  in_identities :: "string list"

record account_state =
  as_accountId :: string
  as_profile :: string
  as_region :: "string option"
  as_budget :: "budget_snapshot option"
  as_periodStart :: "int option"
  as_periodEnd :: "int option"
  as_localEstimateUsd :: rat
  as_realReportedUsd :: "rat option"
  as_effectiveUsd :: rat
  as_breached :: bool
  as_enforced :: bool
  as_degraded :: bool
  as_reason :: "string option"
  as_identities :: "string list"
  as_computedAt :: int

text \<open>\<open>fixed\<close> is \<open>toFixed(2)\<close>.\<close>

definition computeAccountState :: "(string \<Rightarrow> string \<Rightarrow> int) \<Rightarrow> calendar \<Rightarrow> (rat \<Rightarrow> string) \<Rightarrow> spend_input \<Rightarrow> int \<Rightarrow> account_state" where
  "computeAccountState cmp cal fixed input now =
     (case chooseBudget cmp (in_budgets input) of
        None \<Rightarrow>
          \<lparr> as_accountId = in_accountId input, as_profile = in_profile input, as_region = in_region input, as_budget = None,
            as_periodStart = None, as_periodEnd = None, as_localEstimateUsd = in_localEstimateUsd input, as_realReportedUsd = None,
            as_effectiveUsd = in_localEstimateUsd input, as_breached = False, as_enforced = False, as_degraded = True,
            as_reason = Some (default (''no AWS COST budget with a parseable limit in account ...'' @
              drop (length (in_accountId input) - 4) (in_accountId input) @ '' - nothing to enforce against'') (in_budgetError input)),
            as_identities = in_identities input, as_computedAt = now \<rparr>
      | Some b \<Rightarrow>
          (let effective = list_max ([in_localEstimateUsd input, bs_actualUsd b] @
                 (case in_realReportedUsd input of Some r \<Rightarrow> [r] | None \<Rightarrow> []));
               breached = (effective \<ge> bs_limitUsd b)
           in \<lparr> as_accountId = in_accountId input, as_profile = in_profile input, as_region = in_region input, as_budget = Some b,
                as_periodStart = Some (periodStartForTimeUnit cal (bs_timeUnit b) now), as_periodEnd = resetDateForTimeUnit cal (bs_timeUnit b) now,
                as_localEstimateUsd = in_localEstimateUsd input, as_realReportedUsd = in_realReportedUsd input,
                as_effectiveUsd = effective, as_breached = breached, as_enforced = True, as_degraded = False,
                as_reason = (if breached then Some (''spend '' @ fixed effective @ '' reached cap '' @ fixed (bs_limitUsd b) @ '' ('' @ bs_name b @ '')'')
                  else None),
                as_identities = in_identities input, as_computedAt = now \<rparr>))"

text \<open>The state before is read back from the cache after a restart, so it is a JSON value.\<close>

definition was_breached :: "json option \<Rightarrow> bool" where
  "was_breached previous \<longleftrightarrow> Option.bind previous (\<lambda>p. js_get p ''breached'') = Some (JBool True)"

definition enteredBreach :: "json option \<Rightarrow> account_state \<Rightarrow> bool" where
  "enteredBreach previous current \<longleftrightarrow> as_breached current \<and> as_enforced current \<and> \<not> was_breached previous"

section \<open>The cache\<close>

definition opt_field :: "string \<Rightarrow> json option \<Rightarrow> (string \<times> json) list" where
  "opt_field k v = (case v of Some j \<Rightarrow> [(k, j)] | None \<Rightarrow> [])"

abbreviation jrat :: "rat \<Rightarrow> json" where
  "jrat q \<equiv> JNum (Fin q)"

definition encode_state :: "calendar \<Rightarrow> account_state \<Rightarrow> json" where
  "encode_state cal s = JObj
     ([(''accountId'', JStr (as_accountId s)), (''profile'', JStr (as_profile s))] @
      opt_field ''region'' (map_option JStr (if truthy (as_region s) then as_region s else None)) @
      (case as_budget s of None \<Rightarrow> []
       | Some b \<Rightarrow> [(''budgetName'', JStr (bs_name b)), (''budgetLimitUsd'', jrat (bs_limitUsd b)), (''budgetActualUsd'', jrat (bs_actualUsd b))] @
           opt_field ''budgetTimeUnit'' (map_option JStr (bs_timeUnit b))) @
      opt_field ''periodStart'' (map_option (\<lambda>t. JStr (cal_iso cal t)) (as_periodStart s)) @
      opt_field ''periodEnd'' (map_option (\<lambda>t. JStr (cal_iso cal t)) (as_periodEnd s)) @
      [(''localEstimateUsd'', jrat (as_localEstimateUsd s))] @
      opt_field ''realReportedUsd'' (map_option jrat (as_realReportedUsd s)) @
      [(''effectiveUsd'', jrat (as_effectiveUsd s)), (''breached'', JBool (as_breached s)), (''enforced'', JBool (as_enforced s)),
       (''degraded'', JBool (as_degraded s))] @
      opt_field ''reason'' (map_option JStr (as_reason s)) @
      [(''identities'', JArr (map JStr (as_identities s))), (''computedAt'', JStr (cal_iso cal (as_computedAt s)))])"

record spend_cache =
  sc_updatedAt :: string
  sc_accounts :: json
  sc_recentKills :: "json list"

definition SPEND_GUARD_CACHE_MAX_KILLS :: nat where
  "SPEND_GUARD_CACHE_MAX_KILLS = 20"

definition parseSpendGuardCache :: "calendar \<Rightarrow> json option \<Rightarrow> spend_cache option" where
  "parseSpendGuardCache cal parsed =
     (case parsed of
        Some (JObj kvs) \<Rightarrow>
          (let c = JObj kvs in
           if js_get c ''version'' \<noteq> Some (jrat 1) then None
           else Some \<lparr> sc_updatedAt = (case js_get c ''updatedAt'' of Some (JStr t) \<Rightarrow> t | _ \<Rightarrow> cal_iso cal 0),
                  sc_accounts = (case js_get c ''accounts'' of None \<Rightarrow> JObj [] | Some JNull \<Rightarrow> JObj [] | Some a \<Rightarrow> a),
                  sc_recentKills = (case js_get c ''recentKills'' of Some (JArr ks) \<Rightarrow> ks | _ \<Rightarrow> []) \<rparr>)
      | _ \<Rightarrow> None)"

definition last_n :: "nat \<Rightarrow> 'a list \<Rightarrow> 'a list" where
  "last_n n xs = drop (length xs - n) xs"

definition writeSpendGuardCache :: "spend_cache \<Rightarrow> json" where
  "writeSpendGuardCache c = JObj [(''version'', jrat 1), (''updatedAt'', JStr (sc_updatedAt c)), (''accounts'', sc_accounts c),
     (''recentKills'', JArr (last_n SPEND_GUARD_CACHE_MAX_KILLS (sc_recentKills c)))]"

text \<open>In seconds; milliseconds divided by a thousand.\<close>

definition cacheAgeS :: "calendar \<Rightarrow> spend_cache option \<Rightarrow> int \<Rightarrow> rat option" where
  "cacheAgeS cal cache now =
     Option.bind cache (\<lambda>c. map_option (\<lambda>ms. max 0 (of_int (now - ms) / 1000)) (cal_parse cal (sc_updatedAt c)))"

definition isCacheFresh :: "calendar \<Rightarrow> spend_cache option \<Rightarrow> int \<Rightarrow> rat \<Rightarrow> bool" where
  "isCacheFresh cal cache now intervalS \<longleftrightarrow> (\<exists>age. cacheAgeS cal cache now = Some age \<and> age \<le> intervalS)"

section \<open>Identity to account\<close>

record aws_section =
  aw_region :: "string option"
  aw_accountId :: "string option"

record aws_target =
  at_profile :: string
  at_region :: "string option"
  at_accountId :: "string option"

text \<open>\<open>/^\[(?:profile\s+)?([^\]]+)\]$/\<close> on the trimmed line, with the captured name trimmed.\<close>

definition aws_section_name :: "string \<Rightarrow> string option" where
  "aws_section_name line =
     (let l = js_trim line; inner = butlast (tl l); rest = drop 7 inner in
      if length l < 3 \<or> hd l \<noteq> CHR ''['' \<or> last l \<noteq> CHR '']'' \<or> CHR '']'' \<in> set inner then None
      else if starts_with inner ''profile'' \<and> length rest \<ge> 2 \<and> is_space (hd rest) then Some (js_trim rest)
      else Some (js_trim inner))"

text \<open>\<open>/^(region|sso_account_id)\s*=\s*(.*?)\s*$/\<close>\<close>

definition aws_key_value :: "string \<Rightarrow> (string \<times> string) option" where
  "aws_key_value line =
     (let try_key = (\<lambda>k. if starts_with line k
          then (case dropWhile is_space (drop (length k) line) of
                  CHR ''='' # v \<Rightarrow> if CHR 0x0D \<in> set (js_trim v) then None else Some (k, js_trim v)
                | _ \<Rightarrow> None)
          else None)
      in case try_key ''region'' of Some kv \<Rightarrow> Some kv | None \<Rightarrow> try_key ''sso_account_id'')"

definition aws_line :: "string \<Rightarrow> string option \<times> (string \<times> aws_section) list \<Rightarrow> string option \<times> (string \<times> aws_section) list" where
  "aws_line line st =
     (case aws_section_name line of
        Some n \<Rightarrow> (if starts_with n ''sso-session'' then None else Some n, snd st)
      | None \<Rightarrow>
          (if \<not> truthy (fst st) \<or> (line \<noteq> [] \<and> is_space (hd line)) then st
           else case aws_key_value line of
             None \<Rightarrow> st
           | Some (k, v) \<Rightarrow>
               (let cur = default '''' (fst st);
                    entry = default \<lparr> aw_region = None, aw_accountId = None \<rparr> (map_of (snd st) cur)
                in (fst st, AList.update cur (if k = ''region'' then entry\<lparr> aw_region := Some v \<rparr> else entry\<lparr> aw_accountId := Some v \<rparr>) (snd st)))))"

definition strip_cr :: "string \<Rightarrow> string" where
  "strip_cr l = (if l \<noteq> [] \<and> last l = CHR 0x0D then butlast l else l)"

text \<open>\<open>text.split(/\r?\n/)\<close>: every line but the last loses one carriage return at its end.\<close>

definition text_lines :: "string \<Rightarrow> string list" where
  "text_lines t = (let ls = split_on CHR 0x0A t in map strip_cr (butlast ls) @ [last ls])"

definition parseAwsConfig :: "string \<Rightarrow> (string \<times> aws_section) list" where
  "parseAwsConfig text = snd (fold aws_line (text_lines text) (None, []))"

definition loadAwsProfileMapping :: "(string \<Rightarrow> json option) \<Rightarrow> string option \<Rightarrow> string + (string \<times> string) list" where
  "loadAwsProfileMapping parse text =
     (case text of
        None \<Rightarrow> Inr []
      | Some t \<Rightarrow>
          (case parse t of
             None \<Rightarrow> Inl ''Invalid AWS profiles config''
           | Some f \<Rightarrow>
               (case (js_get f ''version'' = Some (jrat 1), js_get f ''identities'') of
                  (True, Some (JObj ids)) \<Rightarrow>
                    Inr (List.map_filter (\<lambda>(n, e). map_option (Pair n) (Option.bind (js_get e ''profile'') as_string)) ids)
                | _ \<Rightarrow> Inl ''expected version 1 with an identities object'')))"

text \<open>What the two files hold; \<open>None\<close> is a file that cannot be read.\<close>

record aws_files =
  af_mapping :: "string option"
  af_config :: "string option"

definition resolveAwsProfileForIdentity :: "(string \<Rightarrow> json option) \<Rightarrow> aws_files \<Rightarrow> identity \<Rightarrow> string + aws_target option" where
  "resolveAwsProfileForIdentity parse fs ident =
     (let own = Option.bind (i_env ident) (\<lambda>e. map_of e ''AWS_PROFILE'');
          profile = (if truthy own then Inr own
                     else map_r (\<lambda>m. map_of m (i_name ident)) (loadAwsProfileMapping parse (af_mapping fs)))
      in case profile of
           Inl e \<Rightarrow> Inl e
         | Inr p \<Rightarrow>
             (if \<not> truthy p then Inr None
              else let name = default '''' p; sec = Option.bind (af_config fs) (\<lambda>t. map_of (parseAwsConfig t) name)
                   in Inr (Some \<lparr> at_profile = name,
                        at_region = Option.bind sec (\<lambda>s. if truthy (aw_region s) then aw_region s else None),
                        at_accountId = Option.bind sec (\<lambda>s. if truthy (aw_accountId s) then aw_accountId s else None) \<rparr>)))"

section \<open>The gate\<close>

datatype gate_notice = Invalid_Mapping string | Breach_Warning json | Unenforced "json option" | Not_Cached rat

record gate_outcome =
  go_applies :: bool
  go_block :: bool
  go_state :: "json option"
  go_notice :: "gate_notice option"
  go_refresh :: bool

definition not_applied :: "gate_notice option \<Rightarrow> gate_outcome" where
  "not_applied n = \<lparr> go_applies = False, go_block = False, go_state = None, go_notice = n, go_refresh = False \<rparr>"

text \<open>\<open>target\<close> is what the resolution of the profile gave, \<open>inline\<close> the estimate computed on the spot.\<close>

definition evaluateLaunchGate :: "calendar \<Rightarrow> rat \<Rightarrow> guard_mode \<Rightarrow> (int \<Rightarrow> rat) \<Rightarrow> spend_cache option \<Rightarrow> string + aws_target option \<Rightarrow> int \<Rightarrow> gate_outcome" where
  "evaluateLaunchGate cal intervalS mode inline cache target now =
     (case target of
        Inl e \<Rightarrow> not_applied (Some (Invalid_Mapping e))
      | Inr None \<Rightarrow> not_applied None
      | Inr (Some t) \<Rightarrow>
          if \<not> truthy (at_accountId t) then not_applied None
          else
            let account = default '''' (at_accountId t);
                state = Option.bind cache (\<lambda>c. js_get (sc_accounts c) account);
                refresh = \<not> isCacheFresh cal cache now intervalS;
                field = (\<lambda>k. Option.bind state (\<lambda>s. js_get s k));
                allowed = (\<lambda>s n. \<lparr> go_applies = True, go_block = False, go_state = s, go_notice = n, go_refresh = refresh \<rparr>)
            in if js_truthy state then
                 (if js_truthy (field ''enforced'') \<and> js_truthy (field ''breached'') then
                    (if mode \<noteq> Enforce then allowed state (map_option Breach_Warning state)
                     else \<lparr> go_applies = True, go_block = True, go_state = state, go_notice = None, go_refresh = refresh \<rparr>)
                  else if js_truthy (field ''degraded'') then allowed state (Some (Unenforced (field ''reason'')))
                  else allowed state None)
               else \<lparr> go_applies = True, go_block = False, go_state = None,
                      go_notice = Some (Not_Cached (inline (periodStartForTimeUnit cal (Some ''MONTHLY'') now))), go_refresh = True \<rparr>)"

text \<open>\<open>runLaunchGate\<close>: the profile is resolved for a bare record that has the identity's name and nothing else.\<close>

definition bare_identity :: "string \<Rightarrow> identity" where
  "bare_identity name = \<lparr> i_name = name, i_label = name, i_description = None, i_configDir = [], i_directories = None, i_aliases = None,
     i_colour = None, i_env = None, i_retired = None, i_retiredAt = None, i_unretiredAt = None, i_swapPool = None \<rparr>"

definition base_name :: "string \<Rightarrow> string" where
  "base_name dir = (case filter (\<lambda>s. s \<noteq> []) (split_on CHR ''/'' dir) of [] \<Rightarrow> [] | ss \<Rightarrow> last ss)"

definition LAUNCH_GATE_FRESHNESS_FALLBACK_S :: rat where
  "LAUNCH_GATE_FRESHNESS_FALLBACK_S = 300"

definition runLaunchGate :: "calendar \<Rightarrow> (string \<Rightarrow> json option) \<Rightarrow> aws_files \<Rightarrow> (int \<Rightarrow> rat) \<Rightarrow> json option \<Rightarrow> json option \<Rightarrow> identity option \<Rightarrow> string \<Rightarrow> int \<Rightarrow> gate_outcome" where
  "runLaunchGate cal parse fs inline cache_file config_file ident configDir now =
     (let name = (case ident of Some i \<Rightarrow> i_name i | None \<Rightarrow> base_name configDir)
      in evaluateLaunchGate cal LAUNCH_GATE_FRESHNESS_FALLBACK_S (gc_mode (parseSpendGuardConfig config_file)) inline
           (parseSpendGuardCache cal cache_file) (resolveAwsProfileForIdentity parse fs (bare_identity name)) now)"

section \<open>Laws\<close>

text \<open>Whether the maximum of a list reaches a limit.\<close>

lemma list_max_reaches: "xs \<noteq> [] \<Longrightarrow> l \<le> list_max xs \<longleftrightarrow> (\<exists>x \<in> set xs. l \<le> x)"
  using list_max_ge list_max_in by (metis order_trans)

lemma chooseBudget_largest:
  assumes "chooseBudget cmp bs = Some b"
  shows "b \<in> set bs \<and> (\<forall>x \<in> set bs. bs_limitUsd x \<le> bs_limitUsd b)"
proof -
  let ?step = "\<lambda>best x. if budget_before cmp x best then x else best"
  have "foldl ?step b0 xs \<in> insert b0 (set xs) \<and> (\<forall>x \<in> insert b0 (set xs). bs_limitUsd x \<le> bs_limitUsd (foldl ?step b0 xs))" for b0 xs
  proof (induction xs arbitrary: b0)
    case (Cons x xs)
    have "bs_limitUsd b0 \<le> bs_limitUsd (?step b0 x)" "bs_limitUsd x \<le> bs_limitUsd (?step b0 x)"
      by (auto simp: budget_before_def)
    with Cons.IH[of "?step b0 x"] show ?case by (auto intro: order_trans)
  qed simp
  with assms show ?thesis by (auto simp: chooseBudget_def split: list.splits)
qed

text \<open>
  The state of an account is enforced exactly when a budget is known and degraded exactly
  when it is not. It is judged on a budget of the largest limit, and it is breached exactly when the local
  estimate, the budget's own figure or the reported spend, where there is one, reaches that limit.
\<close>

theorem account_state_sound:
  assumes s_def: "s = computeAccountState cmp cal fixed input now"
  shows "(as_enforced s \<longleftrightarrow> in_budgets input \<noteq> []) \<and> (as_degraded s \<longleftrightarrow> \<not> as_enforced s) \<and> (as_breached s \<longrightarrow> as_enforced s) \<and>
    (as_enforced s \<longrightarrow> (\<exists>b. as_budget s = Some b \<and> b \<in> set (in_budgets input) \<and> (\<forall>x \<in> set (in_budgets input). bs_limitUsd x \<le> bs_limitUsd b) \<and>
       (as_breached s \<longleftrightarrow> bs_limitUsd b \<le> in_localEstimateUsd input \<or> bs_limitUsd b \<le> bs_actualUsd b \<or>
          (\<exists>r. in_realReportedUsd input = Some r \<and> bs_limitUsd b \<le> r))))"
proof (cases "chooseBudget cmp (in_budgets input)")
  case None
  then have "in_budgets input = []" by (simp add: chooseBudget_def split: list.splits)
  with None show ?thesis by (simp add: s_def computeAccountState_def)
next
  case (Some b)
  then have "in_budgets input \<noteq> []" by (auto simp: chooseBudget_def)
  with Some chooseBudget_largest[OF Some] show ?thesis
    by (cases "in_realReportedUsd input") (simp_all add: s_def computeAccountState_def Let_def list_max_reaches)
qed

definition example_calendar :: calendar where
  "example_calendar = \<lparr> cal_year = (\<lambda>_. 2026), cal_month = (\<lambda>_. 4), cal_date = (\<lambda>_. 2), cal_day = (\<lambda>_. 6),
     cal_make = (\<lambda>y m d. y * 372 + m * 31 + d), cal_iso = (\<lambda>_. ''t''), cal_parse = (\<lambda>_. Some 0) \<rparr>"

definition example_spend :: spend_input where
  "example_spend = \<lparr> in_accountId = ''1234'', in_profile = ''p'', in_region = None,
     in_budgets = [\<lparr> bs_name = ''small'', bs_limitUsd = 5, bs_actualUsd = 1, bs_timeUnit = None \<rparr>, \<lparr> bs_name = ''big'', bs_limitUsd = 20, bs_actualUsd = 3, bs_timeUnit = Some ''MONTHLY'' \<rparr>],
     in_budgetError = None, in_localEstimateUsd = 12, in_realReportedUsd = Some 20, in_identities = [''work''] \<rparr>"

theorem account_state_sound_witness:
  "as_breached (computeAccountState (\<lambda>_ _. 0) example_calendar (\<lambda>_. ''x'') example_spend 0) \<and>
   map_option bs_name (as_budget (computeAccountState (\<lambda>_ _. 0) example_calendar (\<lambda>_. ''x'') example_spend 0)) = Some ''big''"
proof -
  have c: "chooseBudget (\<lambda>_ _. 0) (in_budgets example_spend) =
      Some \<lparr> bs_name = ''big'', bs_limitUsd = 20, bs_actualUsd = 3, bs_timeUnit = Some ''MONTHLY'' \<rparr>"
    by (simp add: chooseBudget_def example_spend_def budget_before_def)
  show ?thesis
    using account_state_sound[OF refl, of "\<lambda>_ _. 0" example_calendar "\<lambda>_. ''x''" example_spend 0]
    by (simp add: computeAccountState_def c Let_def) (simp add: example_spend_def list_max_def)
qed

text \<open>A state that is written is read back as written, so the gate judges what was computed.\<close>

lemma read_written_cache:
  "parseSpendGuardCache cal (Some (writeSpendGuardCache c)) = Some (c\<lparr> sc_accounts := (if sc_accounts c = JNull then JObj [] else sc_accounts c),
     sc_recentKills := last_n SPEND_GUARD_CACHE_MAX_KILLS (sc_recentKills c) \<rparr>)"
  by (cases "sc_accounts c") (simp_all add: parseSpendGuardCache_def writeSpendGuardCache_def Let_def)

lemma map_of_opt_field [simp]: "map_of (opt_field k v) x = (if x = k then v else None)"
  by (simp add: opt_field_def split: option.split)

lemma map_of_opt_field_append [simp]: "map_of (opt_field k v @ xs) x = (if x = k \<and> v \<noteq> None then v else map_of xs x)"
  by (auto simp: opt_field_def split: option.split)

lemma encoded_state_fields:
  "js_get (encode_state cal s) ''enforced'' = Some (JBool (as_enforced s))" "js_get (encode_state cal s) ''breached'' = Some (JBool (as_breached s))"
  "js_get (encode_state cal s) ''degraded'' = Some (JBool (as_degraded s))" "js_truthy (Some (encode_state cal s))"
  by (auto simp: encode_state_def js_truthy_def map_add_def split: option.split)

text \<open>What the gate decides over a state it finds in the cache.\<close>

lemma gate_on_cached:
  assumes "at_accountId t = Some a" "a \<noteq> []" "js_get (sc_accounts c) a = Some (encode_state cal s)"
  shows "go_block (evaluateLaunchGate cal intervalS mode inline (Some c) (Inr (Some t)) now) \<longleftrightarrow> mode = Enforce \<and> as_enforced s \<and> as_breached s"
  using assms encoded_state_fields[of cal s]
  by (cases mode) (auto simp: evaluateLaunchGate_def truthy_def default_def js_truthy_def Let_def)

lemma gate_without_state:
  assumes "\<not> js_truthy (Option.bind cache (\<lambda>c. js_get (sc_accounts c) a))" "at_accountId t = Some a"
  shows "\<not> go_block (evaluateLaunchGate cal intervalS mode inline cache (Inr (Some t)) now)"
  using assms by (auto simp: evaluateLaunchGate_def truthy_def default_def Let_def not_applied_def)

text \<open>
  The gate resolves the profile for a record that has the identity's name only, so an \<open>AWS_PROFILE\<close> in the
  identity's registry entry - the first step of the documented order, and the one the guard counts the
  identity by - does not make the gate apply.
\<close>

lemma gate_ignores_registry_profile:
  assumes "i_env ident = Some [(''AWS_PROFILE'', p)]" "p \<noteq> []" "af_mapping fs = None"
    "af_config fs = Some config" "map_of (parseAwsConfig config) p = Some sec" "aw_accountId sec = Some a" "a \<noteq> []"
  shows "(\<exists>t. resolveAwsProfileForIdentity parse fs ident = Inr (Some t) \<and> at_accountId t = Some a) \<and>
    runLaunchGate cal parse fs inline cache_file config_file (Some ident) dir now = not_applied None"
  using assms
  by (simp add: resolveAwsProfileForIdentity_def runLaunchGate_def bare_identity_def Let_def truthy_def default_def
      loadAwsProfileMapping_def evaluateLaunchGate_def map_r_def)

end
