(* ===== verification/Spend_Guard.thy ===== *)
theory Spend_Guard
  imports Spend_State
begin

text \<open>
  The guard's cycle over all AWS accounts (\<open>src/spend/accounts.ts\<close>, \<open>compute.ts\<close>) and the daemon that acts
  on it (\<open>src/server/spend-guard.ts\<close>). The registries, what AWS answers, the estimate of local spend, the
  process list and what becomes of a signalled process are parameters. Timers and log lines are left out;
  overlapping ticks are collapsed by the code, so a tick is one step.
\<close>

section \<open>Accounts\<close>

record guard_account =
  gu_accountId :: string
  gu_profile :: string
  gu_region :: "string option"
  gu_identities :: "(tool_name \<times> identity) list"

definition account_step :: "(string \<Rightarrow> json option) \<Rightarrow> aws_files \<Rightarrow> tool_name \<times> identity \<Rightarrow>
    (string \<times> guard_account) list \<times> (tool_name \<times> identity \<times> string) list \<Rightarrow> (string \<times> guard_account) list \<times> (tool_name \<times> identity \<times> string) list" where
  "account_step parse fs ti st =
     (case resolveAwsProfileForIdentity parse fs (snd ti) of
        Inl e \<Rightarrow> (fst st, snd st @ [(fst ti, snd ti, e)])
      | Inr None \<Rightarrow> st
      | Inr (Some t) \<Rightarrow>
          (case at_accountId t of
             None \<Rightarrow> st
           | Some a \<Rightarrow>
               let acc = default \<lparr> gu_accountId = a, gu_profile = at_profile t, gu_region = at_region t, gu_identities = [] \<rparr> (map_of (fst st) a)
               in (AList.update a (acc\<lparr> gu_identities := gu_identities acc @ [ti] \<rparr>) (fst st), snd st)))"

definition resolveGuardAccounts :: "(string \<Rightarrow> json option) \<Rightarrow> aws_files \<Rightarrow> (tool_name \<times> identity list) list \<Rightarrow>
    guard_account list \<times> (tool_name \<times> identity \<times> string) list" where
  "resolveGuardAccounts parse fs loaded =
     (let r = fold (account_step parse fs) (concat (map (\<lambda>(t, is). map (Pair t) is) loaded)) ([], []) in (map snd (fst r), snd r))"

section \<open>One cycle\<close>

text \<open>What the cycle asks of AWS and of the session logs; \<open>None\<close> and an error text are failures.\<close>

record spend_sources =
  ss_budgets :: "guard_account \<Rightarrow> budget_wire list \<times> string option"
  ss_reported :: "guard_account \<Rightarrow> int \<Rightarrow> int \<Rightarrow> rat option"
  ss_local :: "tool_name \<Rightarrow> string \<Rightarrow> int \<Rightarrow> rat"

definition account_input :: "(string \<Rightarrow> string \<Rightarrow> int) \<Rightarrow> calendar \<Rightarrow> spend_sources \<Rightarrow> int \<Rightarrow> guard_account \<Rightarrow> spend_input" where
  "account_input cmp cal src now a =
     (let fetched = ss_budgets src a; snapshots = budgetSnapshotsFromWires (fst fetched);
          start = periodStartForTimeUnit cal (Option.bind (chooseBudget cmp snapshots) bs_timeUnit) now;
          end_of = cal_make cal (cal_year cal now) (cal_month cal now) (cal_date cal now + 1)
      in \<lparr> in_accountId = gu_accountId a, in_profile = gu_profile a, in_region = gu_region a, in_budgets = snapshots,
           in_budgetError = snd fetched,
           in_localEstimateUsd = sum_list (map (\<lambda>ti. ss_local src (fst ti) (i_configDir (snd ti)) start) (gu_identities a)),
           in_realReportedUsd = (if snd fetched = None then ss_reported src a start end_of else None),
           in_identities = map (\<lambda>ti. i_name (snd ti)) (gu_identities a) \<rparr>)"

definition live_account :: "guard_account \<Rightarrow> bool" where
  "live_account a \<longleftrightarrow> list_ex (\<lambda>ti. \<not> isRetired (snd ti)) (gu_identities a)"

definition runSpendGuardCycle :: "(string \<Rightarrow> string \<Rightarrow> int) \<Rightarrow> calendar \<Rightarrow> (rat \<Rightarrow> string) \<Rightarrow> spend_sources \<Rightarrow> int \<Rightarrow> guard_account list \<Rightarrow> (string \<times> account_state) list" where
  "runSpendGuardCycle cmp cal fixed src now accounts =
     map (\<lambda>a. (gu_accountId a, computeAccountState cmp cal fixed (account_input cmp cal src now a) now)) (filter live_account accounts)"

section \<open>The daemon\<close>

record process =
  pr_pid :: int
  pr_tool :: "string option"
  pr_identity :: "string option"
  pr_wrapped :: bool
  pr_command :: string

datatype kill_signal = Sigterm | Sigkill | Already_Gone

fun signal_text :: "kill_signal \<Rightarrow> string" where
  "signal_text Sigterm = ''SIGTERM''"
| "signal_text Sigkill = ''SIGKILL''"
| "signal_text Already_Gone = ''ALREADY-GONE''"

definition kill_record :: "string \<Rightarrow> account_state \<Rightarrow> process \<Rightarrow> kill_signal \<Rightarrow> string \<Rightarrow> json" where
  "kill_record a s p outcome at' = JObj
     [(''pid'', JNum (Fin (of_int (pr_pid p)))), (''tool'', JStr (default ''unknown'' (pr_tool p))), (''identity'', JStr (default ''unknown'' (pr_identity p))),
      (''accountId'', JStr a), (''command'', JStr (pr_command p)),
      (''reason'', JStr (default (''account ...'' @ last_n 4 a @ '' is over its spend cap'') (as_reason s))), (''at'', JStr at'),
      (''signal'', JStr (signal_text outcome))]"

text \<open>What becomes of a process: whether the first signal is delivered, whether it is alive at each look, whether
  the second signal is delivered.\<close>

record fate =
  fa_term_ok :: bool
  fa_alive :: "nat \<Rightarrow> bool"
  fa_kill_ok :: bool

definition grace_rounds :: "guard_config \<Rightarrow> nat" where
  "grace_rounds cfg = nat ((gc_killGraceS cfg * 1000 + 499) div 500)"

fun gone_within :: "(nat \<Rightarrow> bool) \<Rightarrow> nat \<Rightarrow> nat \<Rightarrow> bool" where
  "gone_within alive i 0 \<longleftrightarrow> False"
| "gone_within alive i (Suc n) \<longleftrightarrow> (if \<not> alive i then True else gone_within alive (Suc i) n)"

text \<open>The signals sent, and what the record says.\<close>

definition terminate :: "guard_config \<Rightarrow> fate \<Rightarrow> kill_signal list \<times> kill_signal" where
  "terminate cfg f =
     (let n = grace_rounds cfg in
      if \<not> fa_term_ok f then ([Sigterm], Already_Gone)
      else if gone_within (fa_alive f) 0 n then ([Sigterm], Sigterm)
      else if fa_alive f n then ([Sigterm, Sigkill], if fa_kill_ok f then Sigkill else Already_Gone)
      else ([Sigterm], Already_Gone))"

record guard =
  gd_stopped :: bool
  gd_last :: json
  gd_cycleAt :: "int option"
  gd_error :: "string option"
  gd_kills :: "json list"
  gd_file :: "json option"
  gd_signals :: "(int \<times> kill_signal \<times> string) list"

definition new_guard :: "json option \<Rightarrow> guard" where
  "new_guard cache = \<lparr> gd_stopped = False, gd_last = JObj [], gd_cycleAt = None, gd_error = None, gd_kills = [], gd_file = cache,
     gd_signals = [] \<rparr>"

definition hydrate :: "calendar \<Rightarrow> guard \<Rightarrow> guard" where
  "hydrate cal g = (case parseSpendGuardCache cal (gd_file g) of None \<Rightarrow> g | Some c \<Rightarrow> g\<lparr> gd_last := sc_accounts c, gd_kills := sc_recentKills c \<rparr>)"

definition kill_candidates :: "int \<Rightarrow> account_state \<Rightarrow> process list \<Rightarrow> process list" where
  "kill_candidates self s ps =
     filter (\<lambda>p. pr_wrapped p \<and> (\<exists>i \<in> set_option (pr_identity p). i \<in> set (as_identities s)) \<and> pr_pid p \<noteq> self) ps"

definition terminate_one :: "guard_config \<Rightarrow> (int \<Rightarrow> fate) \<Rightarrow> string \<Rightarrow> string \<Rightarrow> account_state \<Rightarrow> process \<Rightarrow> guard \<Rightarrow> guard" where
  "terminate_one cfg fates at' a s p g =
     (case terminate cfg (fates (pr_pid p)) of
        (sent, outcome) \<Rightarrow> g\<lparr> gd_kills := gd_kills g @ [kill_record a s p outcome at'],
          gd_signals := gd_signals g @ map (\<lambda>x. (pr_pid p, x, a)) sent \<rparr>)"

definition killAccountSessions :: "guard_config \<Rightarrow> int \<Rightarrow> (int \<Rightarrow> fate) \<Rightarrow> string \<Rightarrow> string \<Rightarrow> account_state \<Rightarrow> process list \<Rightarrow> guard \<Rightarrow> guard" where
  "killAccountSessions cfg self fates at' a s ps g = fold (terminate_one cfg fates at' a s) (kill_candidates self s ps) g"

text \<open>The loop over the states; a scan that throws ends it. \<open>scan\<close> is what the scan for an account finds.\<close>

fun enforce_states :: "guard_config \<Rightarrow> int \<Rightarrow> (string \<Rightarrow> process list option) \<Rightarrow> (int \<Rightarrow> fate) \<Rightarrow> string \<Rightarrow> (string \<times> account_state) list \<Rightarrow> guard \<Rightarrow> bool \<times> guard" where
  "enforce_states cfg self scan fates at' [] g = (True, g)"
| "enforce_states cfg self scan fates at' ((a, s) # rest) g =
     (if \<not> enteredBreach (js_get (gd_last g) a) s then enforce_states cfg self scan fates at' rest g
      else if gc_mode cfg \<noteq> Enforce then enforce_states cfg self scan fates at' rest g
      else case scan a of
        None \<Rightarrow> (False, g)
      | Some ps \<Rightarrow> enforce_states cfg self scan fates at' rest (killAccountSessions cfg self fates at' a s ps g))"

definition encode_states :: "calendar \<Rightarrow> (string \<times> account_state) list \<Rightarrow> json" where
  "encode_states cal states = JObj (map (\<lambda>(a, s). (a, encode_state cal s)) states)"

definition persist :: "calendar \<Rightarrow> bool \<Rightarrow> int \<Rightarrow> (string \<times> account_state) list \<Rightarrow> guard \<Rightarrow> guard" where
  "persist cal write_ok computed states g =
     (if write_ok
      then g\<lparr> gd_file := Some (writeSpendGuardCache \<lparr> sc_updatedAt = cal_iso cal computed, sc_accounts = encode_states cal states,
        sc_recentKills = last_n 20 (gd_kills g) \<rparr>) \<rparr>
      else g)"

record cycle_result =
  cy_states :: "(string \<times> account_state) list"
  cy_errors :: "string list"
  cy_computedAt :: int

definition guard_tick :: "calendar \<Rightarrow> guard_config \<Rightarrow> int \<Rightarrow> (string \<Rightarrow> process list option) \<Rightarrow> (int \<Rightarrow> fate) \<Rightarrow> bool \<Rightarrow> int \<Rightarrow>
    string + cycle_result \<Rightarrow> guard \<Rightarrow> guard" where
  "guard_tick cal cfg self scan fates write_ok now cycle g =
     (if gd_stopped g then g
      else case cycle of
        Inl e \<Rightarrow> g\<lparr> gd_error := Some e \<rparr>
      | Inr c \<Rightarrow>
          (case enforce_states cfg self scan fates (cal_iso cal now) (cy_states c)
               (g\<lparr> gd_cycleAt := Some (cy_computedAt c), gd_error := (if cy_errors c = [] then None else Some (join_with ''; '' (cy_errors c))) \<rparr>) of
             (False, g1) \<Rightarrow> g1\<lparr> gd_error := Some ''scan failed'' \<rparr>
           | (True, g1) \<Rightarrow> persist cal write_ok (cy_computedAt c) (cy_states c) (g1\<lparr> gd_last := encode_states cal (cy_states c) \<rparr>)))"

section \<open>Laws\<close>

lemma terminate_signals: "set (fst (terminate cfg f)) \<subseteq> {Sigterm, Sigkill} \<and> length (fst (terminate cfg f)) \<le> 2"
  by (simp add: terminate_def Let_def)

lemma gone_within_iff: "gone_within alive i n \<longleftrightarrow> (\<exists>j < n. \<not> alive (i + j))"
proof (induction n arbitrary: i)
  case (Suc n)
  have "(\<exists>j < Suc n. \<not> alive (i + j)) \<longleftrightarrow> \<not> alive i \<or> (\<exists>j < n. \<not> alive (Suc i + j))"
    by (auto simp: less_Suc_eq_0_disj)
  with Suc show ?case by simp
qed simp

text \<open>A process is killed hard only when it was seen alive at every look of its grace.\<close>

lemma sigkill_after_grace:
  assumes "Sigkill \<in> set (fst (terminate cfg f))"
  shows "\<forall>i \<le> grace_rounds cfg. fa_alive f i"
  using assms by (auto simp: terminate_def Let_def gone_within_iff le_less split: if_splits)

lemma kill_all_signals:
  "fold (terminate_one cfg fates at' a s) ps g = g\<lparr>
     gd_kills := gd_kills g @ map (\<lambda>p. kill_record a s p (snd (terminate cfg (fates (pr_pid p)))) at') ps,
     gd_signals := gd_signals g @ concat (map (\<lambda>p. map (\<lambda>x. (pr_pid p, x, a)) (fst (terminate cfg (fates (pr_pid p))))) ps) \<rparr>"
  by (induction ps arbitrary: g) (simp_all add: terminate_one_def split_beta)

definition justified :: "guard_config \<Rightarrow> int \<Rightarrow> (string \<Rightarrow> process list option) \<Rightarrow> (string \<times> account_state) list \<Rightarrow> json \<Rightarrow> int \<times> kill_signal \<times> string \<Rightarrow> bool" where
  "justified cfg self scan states before e \<longleftrightarrow> gc_mode cfg = Enforce \<and>
     (\<exists>s p ps. (snd (snd e), s) \<in> set states \<and> as_breached s \<and> as_enforced s \<and> \<not> was_breached (js_get before (snd (snd e))) \<and>
        scan (snd (snd e)) = Some ps \<and> p \<in> set ps \<and> pr_pid p = fst e \<and> pr_wrapped p \<and> pr_pid p \<noteq> self \<and>
        (\<exists>i. pr_identity p = Some i \<and> i \<in> set (as_identities s)))"

lemma justifiedI:
  assumes "gc_mode cfg = Enforce" "(a, s) \<in> set states" "enteredBreach (js_get before a) s" "scan a = Some ps" "p \<in> set (kill_candidates self s ps)"
  shows "justified cfg self scan states before (pr_pid p, x, a)"
proof -
  from assms(5) obtain i where "pr_identity p = Some i" "i \<in> set (as_identities s)" "p \<in> set ps" "pr_wrapped p" "pr_pid p \<noteq> self"
    by (auto simp: kill_candidates_def)
  with assms(1-4) show ?thesis unfolding justified_def enteredBreach_def fst_conv snd_conv by blast
qed

lemma enforce_states_effect:
  "enforce_states cfg self scan fates at' states g = (r, g') \<Longrightarrow>
   gd_last g' = gd_last g \<and> gd_file g' = gd_file g \<and> gd_stopped g' = gd_stopped g \<and>
   (\<exists>new. gd_signals g' = gd_signals g @ new \<and> (\<forall>e \<in> set new. justified cfg self scan states (gd_last g) e))"
proof (induction states arbitrary: g)
  case (Cons e rest)
  obtain a s where e: "e = (a, s)" by (cases e)
  have more: "justified cfg self scan rest l x \<Longrightarrow> justified cfg self scan (e # rest) l x" for l x
    unfolding justified_def by fastforce
  show ?case
  proof (cases "enteredBreach (js_get (gd_last g) a) s \<and> gc_mode cfg = Enforce")
    case False
    with Cons.prems e have "enforce_states cfg self scan fates at' rest g = (r, g')" by (auto split: if_splits)
    from Cons.IH[OF this] more show ?thesis by blast
  next
    case True
    show ?thesis
    proof (cases "scan a")
      case None
      with True Cons.prems e show ?thesis by auto
    next
      case (Some ps)
      define g1 where "g1 = killAccountSessions cfg self fates at' a s ps g"
      define new1 where "new1 = concat (map (\<lambda>p. map (\<lambda>x. (pr_pid p, x, a)) (fst (terminate cfg (fates (pr_pid p))))) (kill_candidates self s ps))"
      have g1: "gd_last g1 = gd_last g" "gd_file g1 = gd_file g" "gd_stopped g1 = gd_stopped g" "gd_signals g1 = gd_signals g @ new1"
        by (simp_all add: g1_def killAccountSessions_def kill_all_signals new1_def)
      have "justified cfg self scan (e # rest) (gd_last g) x" if "x \<in> set new1" for x
        using that True Some by (auto simp: new1_def e intro: justifiedI)
      moreover from True Some Cons.prems e have "enforce_states cfg self scan fates at' rest g1 = (r, g')" by (simp add: g1_def)
      note IH = Cons.IH[OF this]
      then obtain new2 where "gd_signals g' = gd_signals g1 @ new2" "\<forall>x \<in> set new2. justified cfg self scan rest (gd_last g1) x" by blast
      with g1 more have "gd_signals g' = gd_signals g @ (new1 @ new2)" "\<forall>x \<in> set new2. justified cfg self scan (e # rest) (gd_last g) x" by auto
      ultimately show ?thesis using IH g1 by (metis Un_iff set_append)
    qed
  qed
qed auto

text \<open>What a tick sends is justified by the cycle and by what was known before.\<close>

lemma guard_tick_signals:
  assumes "guard_tick cal cfg self scan fates write_ok now cycle g = g'"
  shows "\<exists>new. gd_signals g' = gd_signals g @ new \<and>
    (\<forall>e \<in> set new. \<exists>c. cycle = Inr c \<and> \<not> gd_stopped g \<and> justified cfg self scan (cy_states c) (gd_last g) e)"
proof (cases "gd_stopped g \<or> (\<exists>e. cycle = Inl e)")
  case True
  with assms show ?thesis by (auto simp: guard_tick_def split: sum.splits)
next
  case False
  then obtain c where c: "cycle = Inr c" "\<not> gd_stopped g" by (cases cycle) auto
  let ?g = "g\<lparr> gd_cycleAt := Some (cy_computedAt c), gd_error := (if cy_errors c = [] then None else Some (join_with ''; '' (cy_errors c))) \<rparr>"
  obtain r g1 where e: "enforce_states cfg self scan fates (cal_iso cal now) (cy_states c) ?g = (r, g1)" by fastforce
  with assms c have "gd_signals g' = gd_signals g1" by (cases r) (auto simp: guard_tick_def persist_def)
  with enforce_states_effect[OF e] c show ?thesis by auto
qed

text \<open>A tick that runs to its end: what it leaves as the last states, and in the file when it could write it.\<close>

lemma map_of_encode_states: "map_of (map (\<lambda>(a, s). (a, encode_state cal s)) states) a = map_option (encode_state cal) (map_of states a)"
  by (induction states) auto

definition tick_done :: "guard_config \<Rightarrow> int \<Rightarrow> (string \<Rightarrow> process list option) \<Rightarrow> guard \<Rightarrow> cycle_result \<Rightarrow> bool" where
  "tick_done cfg self scan g c \<longleftrightarrow> \<not> gd_stopped g \<and> (gc_mode cfg = Enforce \<longrightarrow> (\<forall>e \<in> set (cy_states c). scan (fst e) \<noteq> None))"

lemma enforce_states_done:
  "gc_mode cfg = Enforce \<longrightarrow> (\<forall>e \<in> set states. scan (fst e) \<noteq> None) \<Longrightarrow> fst (enforce_states cfg self scan fates at' states g)"
  by (induction cfg self scan fates at' states g rule: enforce_states.induct) auto

lemma persist_same:
  "gd_last (persist cal w t states g) = gd_last g" "gd_stopped (persist cal w t states g) = gd_stopped g"
  "w \<Longrightarrow> parseSpendGuardCache cal (gd_file (persist cal w t states g)) =
     Some \<lparr> sc_updatedAt = cal_iso cal t, sc_accounts = encode_states cal states, sc_recentKills = last_n SPEND_GUARD_CACHE_MAX_KILLS (last_n 20 (gd_kills g)) \<rparr>"
  by (simp_all add: persist_def read_written_cache encode_states_def)

lemma guard_tick_done:
  assumes "tick_done cfg self scan g c" "guard_tick cal cfg self scan fates write_ok now (Inr c) g = g'"
  shows "gd_last g' = encode_states cal (cy_states c) \<and> gd_stopped g' = gd_stopped g \<and>
    (write_ok \<longrightarrow> (\<exists>f. parseSpendGuardCache cal (gd_file g') = Some f \<and> sc_accounts f = encode_states cal (cy_states c)))"
proof -
  let ?g = "g\<lparr> gd_cycleAt := Some (cy_computedAt c), gd_error := (if cy_errors c = [] then None else Some (join_with ''; '' (cy_errors c))) \<rparr>"
  obtain r g1 where e: "enforce_states cfg self scan fates (cal_iso cal now) (cy_states c) ?g = (r, g1)" by fastforce
  with enforce_states_done[of cfg "cy_states c" scan self fates "cal_iso cal now" ?g] assms(1) have r by (simp add: tick_done_def)
  with assms e have "g' = persist cal write_ok (cy_computedAt c) (cy_states c) (g1\<lparr> gd_last := encode_states cal (cy_states c) \<rparr>)"
    by (simp add: guard_tick_def tick_done_def)
  with enforce_states_effect[OF e] show ?thesis by (simp add: persist_same)
qed

text \<open>An account was found over its cap by the tick before, which this daemon or the one before it made.\<close>

definition found_before :: "calendar \<Rightarrow> int \<Rightarrow> guard \<Rightarrow> string \<Rightarrow> bool" where
  "found_before cal self g a \<longleftrightarrow> (\<exists>cfg scan fates now g0 c s. tick_done cfg self scan g0 c \<and> map_of (cy_states c) a = Some s \<and> as_breached s \<and>
     (g = guard_tick cal cfg self scan fates True now (Inr c) g0 \<or>
      g = hydrate cal (new_guard (gd_file (guard_tick cal cfg self scan fates True now (Inr c) g0)))))"

lemma found_before_last:
  assumes "found_before cal self g a"
  shows "was_breached (js_get (gd_last g) a)"
proof -
  from assms obtain cfg scan fates now g0 c s where d: "tick_done cfg self scan g0 c" and s: "map_of (cy_states c) a = Some s" "as_breached s"
    and g: "g = guard_tick cal cfg self scan fates True now (Inr c) g0 \<or>
      g = hydrate cal (new_guard (gd_file (guard_tick cal cfg self scan fates True now (Inr c) g0)))" unfolding found_before_def by blast
  define g1 where "g1 = guard_tick cal cfg self scan fates True now (Inr c) g0"
  from guard_tick_done[OF d, of cal fates True now, OF refl] obtain f where
    f: "gd_last g1 = encode_states cal (cy_states c)" "parseSpendGuardCache cal (gd_file g1) = Some f" "sc_accounts f = encode_states cal (cy_states c)"
    unfolding g1_def by blast
  from g have "g = g1 \<or> g = hydrate cal (new_guard (gd_file g1))" by (simp add: g1_def)
  with f have "gd_last g = encode_states cal (cy_states c)" by (elim disjE) (simp_all add: hydrate_def new_guard_def)
  with s show ?thesis by (simp add: encode_states_def map_of_encode_states was_breached_def encoded_state_fields)
qed


text \<open>An account over its cap with one session, seen twice.\<close>

definition example_state :: account_state where
  "example_state = computeAccountState (\<lambda>_ _. 0) example_calendar (\<lambda>_. ''x'') example_spend 0"

definition example_config :: guard_config where
  "example_config = \<lparr> gc_intervalS = 300, gc_killGraceS = 10, gc_mode = Enforce \<rparr>"

definition example_session :: "string \<Rightarrow> process" where
  "example_session tool = \<lparr> pr_pid = 7, pr_tool = Some tool, pr_identity = Some ''work'', pr_wrapped = True, pr_command = tool \<rparr>"

definition example_cycle :: cycle_result where
  "example_cycle = \<lparr> cy_states = [(''1234'', example_state)], cy_errors = [], cy_computedAt = 0 \<rparr>"

definition example_guard_tick :: "string \<Rightarrow> guard \<Rightarrow> guard" where
  "example_guard_tick tool = guard_tick example_calendar example_config 1 (\<lambda>_. Some [example_session tool])
     (\<lambda>_. \<lparr> fa_term_ok = True, fa_alive = (\<lambda>_. False), fa_kill_ok = True \<rparr>) True 0 (Inr example_cycle)"

lemma example_state_breached: "as_breached example_state" "as_enforced example_state" "as_identities example_state = [''work'']"
proof -
  have "chooseBudget (\<lambda>_ _. 0) (in_budgets example_spend) =
      Some \<lparr> bs_name = ''big'', bs_limitUsd = 20, bs_actualUsd = 3, bs_timeUnit = Some ''MONTHLY'' \<rparr>"
    by (simp add: chooseBudget_def example_spend_def budget_before_def)
  then show "as_breached example_state" "as_enforced example_state" "as_identities example_state = [''work'']"
    by (simp_all add: example_state_def computeAccountState_def Let_def) (simp_all add: example_spend_def list_max_def)
qed

lemma example_first_tick: "gd_signals (example_guard_tick tool (new_guard None)) = [(7, Sigterm, ''1234'')]"
proof -
  have "grace_rounds example_config = 20" by (simp add: grace_rounds_def example_config_def)
  then have "fst (terminate example_config \<lparr> fa_term_ok = True, fa_alive = (\<lambda>_. False), fa_kill_ok = True \<rparr>) = [Sigterm]"
    by (simp add: terminate_def gone_within_iff)
  moreover have "kill_candidates 1 example_state [example_session tool] = [example_session tool]"
    by (simp add: kill_candidates_def example_session_def example_state_breached)
  ultimately show ?thesis
    by (simp add: example_guard_tick_def guard_tick_def new_guard_def example_cycle_def enteredBreach_def was_breached_def example_state_breached
        killAccountSessions_def terminate_one_def split_beta persist_def) (simp add: example_config_def example_session_def)
qed


text \<open>
  The sessions of an account are found by the name of the identity alone. Names are unique per tool only, so
  a session of another tool whose identity has the same name, and does not belong to the account, is killed.
\<close>

lemma kills_namesake_of_other_tool:
  "(7, Sigterm, ''1234'') \<in> set (gd_signals (example_guard_tick ''claude'' (new_guard None)))"
  by (simp add: example_first_tick)

section \<open>Guard and gate\<close>


definition example_target :: aws_target where
  "example_target = \<lparr> at_profile = ''p'', at_region = None, at_accountId = Some ''1234'' \<rparr>"


end
