(* ===== verification/Jsonl_Merge.thy ===== *)
theory Jsonl_Merge
  imports Prelude "HOL-Library.Multiset" "HOL-Library.Sublist" "HOL-Library.Countable"
begin

text \<open>
  The union of JSONL session histories (\<open>src/sync/dedupe.ts\<close>, lines 253 to 325) and the rules
  by which a profile merge picks a winner (\<open>src/sync/tree-merge.ts\<close>): how a text is cut into
  complete records, the occurrence counts, the additions a merge appends, when one snapshot
  supersedes another, which host's copy of any other file wins, and the ledger of conflicts
  already archived. The abstract specification of a merge is the union of multisets.

  A text is its bytes. The code compares and cuts at line feeds only, so the same definitions
  serve the text reads of \<open>mergeJsonlFiles\<close> and the latin1 reads of \<open>mergeJsonlTail\<close>.
\<close>

section \<open>Records of a text\<close>

abbreviation nl :: char where
  "nl \<equiv> CHR 0x0A"

text \<open>\<open>readLines\<close> on the text of a file: the last piece of the split is not terminated and is
  left out.\<close>

definition complete_lines :: "string \<Rightarrow> string list" where
  "complete_lines t = (if t = '''' then [] else butlast (split_on nl t))"

text \<open>\<open>lines.join("\n") + "\n"\<close>, or the empty text without lines.\<close>

definition join_lines :: "string list \<Rightarrow> string" where
  "join_lines ls = (if ls = [] then '''' else join_with [nl] ls @ [nl])"

text \<open>\<open>multiset\<close>: the number of occurrences of each line.\<close>

definition multiset_of :: "'a list \<Rightarrow> 'a \<rightharpoonup> nat" where
  "multiset_of ls = fold (\<lambda>l c. c(l \<mapsto> default 0 (c l) + 1)) ls Map.empty"

text \<open>The counts a merge wants: the greatest of the sources, line by line.\<close>

definition raise_counts :: "('a \<rightharpoonup> nat) \<Rightarrow> ('a \<rightharpoonup> nat) \<Rightarrow> 'a \<rightharpoonup> nat" where
  "raise_counts d c = (\<lambda>l. case c l of None \<Rightarrow> d l | Some n \<Rightarrow> Some (max (default 0 (d l)) n))"

definition desired_counts :: "'a list list \<Rightarrow> 'a \<rightharpoonup> nat" where
  "desired_counts sources = fold (\<lambda>ls d. raise_counts d (multiset_of ls)) sources Map.empty"

text \<open>One line of one source: skipped while the result already holds that many occurrences.\<close>

fun merge_line ::
  "('a \<rightharpoonup> nat) \<Rightarrow> 'a \<Rightarrow> 'a list \<times> ('a \<rightharpoonup> nat) \<times> ('a \<rightharpoonup> nat) \<Rightarrow> 'a list \<times> ('a \<rightharpoonup> nat) \<times> ('a \<rightharpoonup> nat)"
  where
  "merge_line desired l (merged, present, seen) =
     (let occurrence = default 0 (seen l) + 1; seen' = seen(l \<mapsto> occurrence) in
      if occurrence \<le> default 0 (present l) then (merged, present, seen')
      else if default 0 (present l) \<ge> default 0 (desired l) then (merged, present, seen')
      else (merged @ [l], present(l \<mapsto> default 0 (present l) + 1), seen'))"

definition merge_source ::
  "('a \<rightharpoonup> nat) \<Rightarrow> 'a list \<Rightarrow> 'a list \<times> ('a \<rightharpoonup> nat) \<Rightarrow> 'a list \<times> ('a \<rightharpoonup> nat)" where
  "merge_source desired ls mp =
     (case fold (merge_line desired) ls (fst mp, snd mp, Map.empty) of (m, p, _) \<Rightarrow> (m, p))"

definition mergeJsonlLineSetsOnto :: "'a list \<Rightarrow> 'a list list \<Rightarrow> 'a list" where
  "mergeJsonlLineSetsOnto base sources =
     fst (fold (merge_source (desired_counts sources)) sources (base, multiset_of base))"

text \<open>\<open>mergeJsonlLineSets\<close>: the longest source is the base; the sort is stable.\<close>

definition mergeJsonlLineSets :: "'a list list \<Rightarrow> 'a list" where
  "mergeJsonlLineSets sources =
     (if sources = [] then []
      else mergeJsonlLineSetsOnto (hd (sort_key (\<lambda>s. - int (length s)) sources)) sources)"

text \<open>What \<open>merged.slice(base.length)\<close> appends.\<close>

definition jsonl_additions :: "'a list \<Rightarrow> 'a list list \<Rightarrow> 'a list" where
  "jsonl_additions base sources = drop (length base) (mergeJsonlLineSetsOnto base sources)"

section \<open>The merge is the union of multisets\<close>

definition union_all :: "'a multiset \<Rightarrow> 'a list list \<Rightarrow> 'a multiset" where
  "union_all b sources = fold (\<lambda>s acc. acc \<union># mset s) sources b"

lemma count_union_all:
  "count (union_all b sources) l = fold (\<lambda>s n. max n (count (mset s) l)) sources (count b l)"
  by (induction sources arbitrary: b) (simp_all add: union_all_def)

lemma subseq_set: "subseq xs ys \<Longrightarrow> set xs \<subseteq> set ys"
  by (induction rule: list_emb.induct) auto

lemma multiset_of_count: "default 0 (multiset_of ls l) = count (mset ls) l"
proof -
  have "default 0 (fold (\<lambda>l c. c(l \<mapsto> default 0 (c l) + 1)) ls c l) = default 0 (c l) + count (mset ls) l"
    for c :: "'a \<rightharpoonup> nat"
    by (induction ls arbitrary: c) auto
  then show ?thesis by (simp add: multiset_of_def)
qed

lemma raise_counts_count:
  "default 0 (raise_counts d (multiset_of ls) l) = max (default 0 (d l)) (count (mset ls) l)"
proof (cases "multiset_of ls l")
  case None
  then have zero: "count (mset ls) l = 0" using multiset_of_count [of ls l] by (simp only: default_simps)
  show ?thesis unfolding zero by (simp add: raise_counts_def None)
next
  case (Some n)
  then have "count (mset ls) l = n" using multiset_of_count [of ls l] by (simp only: default_simps)
  then show ?thesis by (simp add: raise_counts_def Some)
qed

lemma fold_max_ge: "(n::nat) \<le> fold (\<lambda>s n. max n (f s)) xs n"
proof (induction xs arbitrary: n)
  case (Cons x xs)
  have "n \<le> max n (f x)" by simp
  also have "\<dots> \<le> fold (\<lambda>s n. max n (f s)) xs (max n (f x))" by (rule Cons.IH)
  finally show ?case by simp
qed simp

lemma fold_max_member: "s \<in> set xs \<Longrightarrow> (f s :: nat) \<le> fold (\<lambda>s n. max n (f s)) xs n"
proof (induction xs arbitrary: n)
  case (Cons x xs)
  show ?case
  proof (cases "s = x")
    case True
    have "f x \<le> max n (f x)" by simp
    also have "\<dots> \<le> fold (\<lambda>s n. max n (f s)) xs (max n (f x))" by (rule fold_max_ge)
    finally show ?thesis using True by simp
  qed (use Cons in auto)
qed simp

lemma fold_max_least:
  "(n::nat) \<le> b \<Longrightarrow> \<forall>s \<in> set xs. f s \<le> b \<Longrightarrow> fold (\<lambda>s n. max n (f s)) xs n \<le> b"
  by (induction xs arbitrary: n) auto

lemma desired_counts_count:
  "default 0 (desired_counts sources l) = fold (\<lambda>s n. max n (count (mset s) l)) sources 0"
proof -
  have "default 0 (fold (\<lambda>ls d. raise_counts d (multiset_of ls)) sources d l)
      = fold (\<lambda>s n. max n (count (mset s) l)) sources (default 0 (d l))" for d
    by (induction sources arbitrary: d) (simp_all add: raise_counts_count)
  then show ?thesis by (simp add: desired_counts_def)
qed

lemma desired_counts_ge:
  "s \<in> set sources \<Longrightarrow> count (mset s) l \<le> default 0 (desired_counts sources l)"
  unfolding desired_counts_count by (rule fold_max_member)

lemma subset_union_all: "s \<in> set sources \<Longrightarrow> mset s \<subseteq># union_all b sources"
  by (rule mset_subset_eqI) (simp add: count_union_all fold_max_member [where f = "\<lambda>s. count (mset s) _"])

lemma base_subset_union_all: "b \<subseteq># union_all b sources"
  by (rule mset_subset_eqI) (simp add: count_union_all fold_max_ge)

lemma union_all_least:
  "b \<subseteq># u \<Longrightarrow> \<forall>s \<in> set sources. mset s \<subseteq># u \<Longrightarrow> union_all b sources \<subseteq># u"
  by (rule mset_subset_eqI)
    (auto simp: count_union_all intro!: fold_max_least mset_subset_eq_count)

text \<open>The counts follow the result.\<close>

definition tracks :: "'a list \<Rightarrow> ('a \<rightharpoonup> nat) \<Rightarrow> bool" where
  "tracks m p \<longleftrightarrow> (\<forall>l. default 0 (p l) = count (mset m) l)"

lemma merge_lines_run:
  assumes "tracks m p" and "tracks pre s"
    and "\<forall>l. count (mset m) l = max (b l) (count (mset pre) l)"
    and "\<forall>l. count (mset (pre @ xs)) l \<le> default 0 (d l)"
  shows "\<exists>adds p' s'. fold (merge_line d) xs (m, p, s) = (m @ adds, p', s') \<and> tracks (m @ adds) p'
           \<and> subseq adds xs \<and> (\<forall>l. count (mset (m @ adds)) l = max (b l) (count (mset (pre @ xs)) l))"
  using assms
proof (induction xs arbitrary: m p s pre)
  case Nil
  then show ?case by auto
next
  case (Cons x xs)
  let ?s' = "s(x \<mapsto> default 0 (s x) + 1)"
  have s': "tracks (pre @ [x]) ?s'"
    using Cons.prems(2) by (auto simp: tracks_def)
  have bound: "\<forall>l. count (mset ((pre @ [x]) @ xs)) l \<le> default 0 (d l)"
    using Cons.prems(4) by simp
  have seen: "default 0 (s x) = count (mset pre) x" and held: "default 0 (p x) = count (mset m) x"
    using Cons.prems(1,2) by (simp_all add: tracks_def)
  show ?case
  proof (cases "count (mset pre) x + 1 \<le> count (mset m) x")
    case True
    then have stepd: "merge_line d x (m, p, s) = (m, p, ?s')"
      by (simp add: seen held Let_def)
    have "\<forall>l. count (mset m) l = max (b l) (count (mset (pre @ [x])) l)"
      using Cons.prems(3) True by (auto simp: max_def)
    from Cons.IH [OF Cons.prems(1) s' this bound] obtain adds p' s'' where
      run: "fold (merge_line d) xs (m, p, ?s') = (m @ adds, p', s'')" "tracks (m @ adds) p'"
      and adds: "subseq adds xs"
      and total: "\<forall>l. count (mset (m @ adds)) l = max (b l) (count (mset ((pre @ [x]) @ xs)) l)"
      by blast
    have "fold (merge_line d) (x # xs) (m, p, s) = (m @ adds, p', s'')"
      by (simp only: fold.simps comp_apply stepd run(1))
    moreover have "subseq adds (x # xs)" using adds by (rule list_emb_Cons)
    ultimately show ?thesis using run(2) total by (metis append.assoc append_Cons append_Nil)
  next
    case False
    have "count (mset pre) x + 1 \<le> default 0 (d x)"
      using Cons.prems(4) by (auto dest: spec [of _ x])
    with False have stepd: "merge_line d x (m, p, s) = (m @ [x], p(x \<mapsto> default 0 (p x) + 1), ?s')"
      by (simp add: seen held Let_def)
    have p': "tracks (m @ [x]) (p(x \<mapsto> default 0 (p x) + 1))"
      using Cons.prems(1) by (auto simp: tracks_def)
    have "\<forall>l. count (mset (m @ [x])) l = max (b l) (count (mset (pre @ [x])) l)"
      using Cons.prems(3) False by (auto simp: max_def split: if_splits)
    from Cons.IH [OF p' s' this bound] obtain adds q s'' where
      run: "fold (merge_line d) xs (m @ [x], p(x \<mapsto> default 0 (p x) + 1), ?s') = ((m @ [x]) @ adds, q, s'')"
        "tracks ((m @ [x]) @ adds) q"
      and adds: "subseq adds xs"
      and total: "\<forall>l. count (mset ((m @ [x]) @ adds)) l = max (b l) (count (mset ((pre @ [x]) @ xs)) l)"
      by blast
    have "fold (merge_line d) (x # xs) (m, p, s) = (m @ x # adds, q, s'')"
      by (simp only: fold.simps comp_apply stepd run(1)) simp
    moreover have "subseq (x # adds) (x # xs)" using adds by simp
    ultimately show ?thesis using run(2) total by (metis append.assoc append_Cons append_Nil)
  qed
qed

lemma merge_source_run:
  assumes "tracks m p" "\<forall>l. count (mset xs) l \<le> default 0 (d l)"
  shows "\<exists>adds p'. merge_source d xs (m, p) = (m @ adds, p') \<and> tracks (m @ adds) p'
           \<and> subseq adds xs \<and> mset (m @ adds) = mset m \<union># mset xs"
proof -
  have "tracks [] Map.empty" by (simp add: tracks_def)
  from merge_lines_run [OF assms(1) this, of "count (mset m)" xs d] assms(2)
  obtain adds p' s' where run: "fold (merge_line d) xs (m, p, Map.empty) = (m @ adds, p', s')"
    "tracks (m @ adds) p'" "subseq adds xs"
    "\<forall>l. count (mset (m @ adds)) l = max (count (mset m) l) (count (mset xs) l)"
    by auto
  have "mset (m @ adds) = mset m \<union># mset xs"
    using run(4) by (intro multiset_eqI) auto
  with run(1-3) show ?thesis by (auto simp: merge_source_def)
qed

lemma merge_sources_run:
  assumes "tracks m p" "\<forall>xs \<in> set sources. \<forall>l. count (mset xs) l \<le> default 0 (d l)"
  shows "\<exists>adds p'. fold (merge_source d) sources (m, p) = (m @ adds, p')
           \<and> subseq adds (concat sources) \<and> mset (m @ adds) = union_all (mset m) sources"
  using assms
proof (induction sources arbitrary: m p)
  case Nil
  then show ?case by (simp add: union_all_def)
next
  case (Cons xs sources)
  from merge_source_run [OF Cons.prems(1), of xs d] Cons.prems(2)
  obtain adds p' where first: "merge_source d xs (m, p) = (m @ adds, p')" "tracks (m @ adds) p'"
    "subseq adds xs" "mset (m @ adds) = mset m \<union># mset xs" by auto
  from Cons.IH [OF first(2)] Cons.prems(2)
  obtain adds2 p2 where rest: "fold (merge_source d) sources (m @ adds, p') = ((m @ adds) @ adds2, p2)"
    "subseq adds2 (concat sources)" "mset ((m @ adds) @ adds2) = union_all (mset (m @ adds)) sources" by auto
  have "subseq (adds @ adds2) (concat (xs # sources))"
    using first(3) rest(2) by (simp add: list_emb_append_mono)
  moreover have "mset (m @ adds @ adds2) = union_all (mset m) (xs # sources)"
    using rest(3) first(4) by (simp add: union_all_def)
  ultimately show ?case using first(1) rest(1) by auto
qed

lemma merge_onto_adds:
  "\<exists>adds. mergeJsonlLineSetsOnto base sources = base @ adds \<and> subseq adds (concat sources)"
  "mset (mergeJsonlLineSetsOnto base sources) = union_all (mset base) sources"
proof -
  have "tracks base (multiset_of base)" by (simp add: tracks_def multiset_of_count)
  moreover have "\<forall>xs \<in> set sources. \<forall>l. count (mset xs) l \<le> default 0 (desired_counts sources l)"
    by (intro ballI allI desired_counts_ge)
  ultimately obtain adds p' where
    "fold (merge_source (desired_counts sources)) sources (base, multiset_of base) = (base @ adds, p')"
    "subseq adds (concat sources)" "mset (base @ adds) = union_all (mset base) sources"
    using merge_sources_run by metis
  then show "\<exists>adds. mergeJsonlLineSetsOnto base sources = base @ adds \<and> subseq adds (concat sources)"
    and "mset (mergeJsonlLineSetsOnto base sources) = union_all (mset base) sources"
    by (simp_all add: mergeJsonlLineSetsOnto_def)
qed

lemma merge_onto_append_additions:
  "mergeJsonlLineSetsOnto base sources = base @ jsonl_additions base sources"
  using merge_onto_adds(1) [of base sources] by (auto simp: jsonl_additions_def)

lemma additions_subseq: "subseq (jsonl_additions base sources) (concat sources)"
  using merge_onto_adds(1) [of base sources] by (auto simp: jsonl_additions_def)

lemma additions_empty_iff:
  "jsonl_additions base sources = [] \<longleftrightarrow> (\<forall>s \<in> set sources. mset s \<subseteq># mset base)"
proof
  assume "jsonl_additions base sources = []"
  then have "mset base = union_all (mset base) sources"
    using merge_onto_adds(2) [of base sources] merge_onto_append_additions [of base sources] by simp
  then show "\<forall>s \<in> set sources. mset s \<subseteq># mset base" using subset_union_all by metis
next
  assume "\<forall>s \<in> set sources. mset s \<subseteq># mset base"
  then have "union_all (mset base) sources \<subseteq># mset base" by (intro union_all_least) auto
  then have "mset (base @ jsonl_additions base sources) \<subseteq># mset base"
    using merge_onto_adds(2) [of base sources] merge_onto_append_additions [of base sources] by simp
  from size_mset_mono [OF this] show "jsonl_additions base sources = []" by simp
qed

lemma longest_source:
  assumes "sources \<noteq> []"
  shows "hd (sort_key (\<lambda>s. - int (length s)) sources) \<in> set sources
    \<and> (\<forall>s \<in> set sources. length s \<le> length (hd (sort_key (\<lambda>s. - int (length s)) sources)))"
proof -
  obtain y ys where "sort_key (\<lambda>s. - int (length s)) sources = y # ys"
    using assms by (metis list.exhaust set_empty set_sort)
  with sort_key_hd_least [OF this] show ?thesis by auto
qed

lemma merge_sets_union: "mset (mergeJsonlLineSets sources) = union_all {#} sources"
proof (cases "sources = []")
  case False
  let ?b = "hd (sort_key (\<lambda>s. - int (length s)) sources)"
  have "?b \<in> set sources" using longest_source [OF False] ..
  then have "union_all (mset ?b) sources = union_all {#} sources"
    by (intro subset_mset.antisym union_all_least)
      (auto intro: subset_union_all base_subset_union_all)
  with False show ?thesis by (simp add: mergeJsonlLineSets_def merge_onto_adds(2))
qed (simp add: mergeJsonlLineSets_def union_all_def)

lemma merge_replay:
  "mergeJsonlLineSetsOnto (mergeJsonlLineSetsOnto base sources) sources = mergeJsonlLineSetsOnto base sources"
proof -
  have "jsonl_additions (mergeJsonlLineSetsOnto base sources) sources = []"
    unfolding additions_empty_iff merge_onto_adds(2) by (intro ballI subset_union_all)
  then show ?thesis by (subst merge_onto_append_additions) simp
qed

lemma merge_one: "mset (mergeJsonlLineSetsOnto base [s]) = mset base \<union># mset s"
  by (simp add: merge_onto_adds(2) union_all_def)

text \<open>Property C13. The merge of session histories: the destination keeps its records in its
  order and gets the missing ones behind them, in the order of the sources; record by record the
  result holds the greatest number of occurrences of any of the copies; merging the same copies
  again adds nothing; a history that does not exist yet is built from the longest copy to the
  union of all; and after two hosts merged each other's copy both hold the same records.\<close>

theorem jsonl_merge_is_union:
  "mset (mergeJsonlLineSetsOnto base sources) = union_all (mset base) sources
   \<and> (\<exists>adds. mergeJsonlLineSetsOnto base sources = base @ adds \<and> subseq adds (concat sources))
   \<and> mergeJsonlLineSetsOnto (mergeJsonlLineSetsOnto base sources) sources = mergeJsonlLineSetsOnto base sources
   \<and> mset (mergeJsonlLineSets sources) = union_all {#} sources
   \<and> mset (mergeJsonlLineSetsOnto a [mergeJsonlLineSetsOnto b [a]]) = mset (mergeJsonlLineSetsOnto b [a])"
proof -
  have "mset a \<union># (mset b \<union># mset a) = mset b \<union># mset a"
    by (intro subset_mset.antisym) auto
  then show ?thesis
    using merge_onto_adds [of base sources] by (simp add: merge_one merge_replay merge_sets_union)
qed

section \<open>Texts and records\<close>

definition terminated :: "string \<Rightarrow> bool" where
  "terminated t \<longleftrightarrow> t = '''' \<or> last t = nl"

lemma split_on_append:
  "split_on c (xs @ ys)
     = butlast (split_on c xs) @ (last (split_on c xs) @ hd (split_on c ys)) # tl (split_on c ys)"
proof (induction xs)
  case Nil
  then show ?case by (cases "split_on c ys") auto
next
  case (Cons x xs)
  then show ?case by (cases "split_on c xs") (auto split: list.splits)
qed

lemma complete_lines_Nil [simp]: "complete_lines '''' = []"
  by (simp add: complete_lines_def)

lemma complete_lines_split: "complete_lines t = butlast (split_on nl t)"
  by (simp add: complete_lines_def)

lemma complete_lines_mono: "prefix a b \<Longrightarrow> prefix (complete_lines a) (complete_lines b)"
  by (auto simp: prefix_def complete_lines_split split_on_append butlast_append)

lemma mset_prefix: "prefix a b \<Longrightarrow> mset a \<subseteq># mset b"
  by (auto simp: prefix_def)

lemma terminated_cases:
  assumes "terminated t" obtains "t = ''''" | u where "t = u @ [nl]"
  using assms by (cases t rule: rev_cases) (auto simp: terminated_def)

lemma complete_lines_snoc_nl: "complete_lines (u @ nl # v) = split_on nl u @ complete_lines v"
  by (simp add: complete_lines_split split_on_append_sep butlast_append)

lemma complete_lines_append: "terminated a \<Longrightarrow> complete_lines (a @ b) = complete_lines a @ complete_lines b"
  by (erule terminated_cases) (auto simp: complete_lines_snoc_nl complete_lines_snoc_nl [of _ "''''", simplified])

lemma join_lines_complete: "terminated t \<Longrightarrow> join_lines (complete_lines t) = t"
  by (erule terminated_cases) (auto simp: complete_lines_snoc_nl [of _ "''''", simplified] join_lines_def)

lemma complete_lines_join:
  assumes "\<forall>l \<in> set ls. nl \<notin> set l"
  shows "complete_lines (join_lines ls) = ls"
  using assms complete_lines_snoc_nl [of "join_with [nl] ls" "''''"]
  by (auto simp: join_lines_def split_join)

lemma complete_lines_no_nl: "l \<in> set (complete_lines t) \<Longrightarrow> nl \<notin> set l"
  using split_on_no_sep by (metis complete_lines_split in_set_butlastD)

lemma terminated_join [simp]: "terminated (join_lines ls)"
  by (simp add: terminated_def join_lines_def)

section \<open>When a snapshot supersedes another\<close>

text \<open>The second loop of \<open>subsumesJsonl\<close>: every line takes one occurrence away.\<close>

fun take_counts :: "('a \<rightharpoonup> nat) \<Rightarrow> 'a list \<Rightarrow> bool" where
  "take_counts c [] = True"
| "take_counts c (l # ls) =
     (if default 0 (c l) = 0 then False else take_counts (c(l \<mapsto> default 0 (c l) - 1)) ls)"

definition subsumesJsonl :: "string \<Rightarrow> string \<Rightarrow> bool" where
  "subsumesJsonl newer older =
     (if starts_with newer older then True
      else if \<not> ends_with older [nl] then False
      else take_counts (multiset_of (butlast (split_on nl newer))) (butlast (split_on nl older)))"

lemma take_counts_iff:
  "tracks m c \<Longrightarrow> take_counts c ls \<longleftrightarrow> mset ls \<subseteq># mset m"
proof (induction ls arbitrary: m c)
  case (Cons l ls)
  have held: "default 0 (c l) = count (mset m) l" using Cons.prems by (simp add: tracks_def)
  show ?case
  proof (cases "l \<in> set m")
    case False
    with held have "default 0 (c l) = 0" by (simp add: count_eq_zero_iff)
    moreover have "\<not> mset (l # ls) \<subseteq># mset m"
      using False by (auto dest: mset_subset_eqD)
    ultimately show ?thesis by simp
  next
    case True
    have "tracks (remove1 l m) (c(l \<mapsto> default 0 (c l) - 1))"
      using Cons.prems by (auto simp: tracks_def)
    note IH = Cons.IH [OF this]
    have "default 0 (c l) \<noteq> 0" using True held by (simp add: count_eq_zero_iff)
    then have "take_counts c (l # ls) \<longleftrightarrow> take_counts (c(l \<mapsto> default 0 (c l) - 1)) ls"
      by (simp only: take_counts.simps if_False)
    also have "\<dots> \<longleftrightarrow> mset ls \<subseteq># mset m - {#l#}" using IH by (simp only: mset_remove1)
    also have "\<dots> \<longleftrightarrow> mset (l # ls) \<subseteq># mset m"
      using True by (simp add: insert_subset_eq_iff)
    finally show ?thesis .
  qed
qed simp

lemma subsumes_iff:
  "subsumesJsonl newer older \<longleftrightarrow>
     prefix older newer \<or> older \<noteq> '''' \<and> terminated older \<and> mset (complete_lines older) \<subseteq># mset (complete_lines newer)"
proof -
  have "tracks (complete_lines newer) (multiset_of (complete_lines newer))"
    by (simp add: tracks_def multiset_of_count)
  note counts = take_counts_iff [OF this, of "complete_lines older"]
  have "ends_with older [nl] \<longleftrightarrow> older \<noteq> '''' \<and> terminated older"
    by (cases older rule: rev_cases) (auto simp: ends_with_def terminated_def)
  moreover have "starts_with newer older \<longleftrightarrow> prefix older newer"
    by (auto simp: starts_with_iff prefix_def)
  ultimately show ?thesis using counts unfolding subsumesJsonl_def complete_lines_split by auto
qed

section \<open>Which copy of any other file wins\<close>

text \<open>A file on one host: \<open>stat\<close> and contents.\<close>

record copy_state =
  cs_mtime :: rat
  cs_bytes :: string

text \<open>\<open>sourceWinsTie\<close>: the larger file, then the greater digest. The SHA-256 digest is a
  parameter; the code compares hexadecimal texts of one length, that is the numbers.\<close>

definition sourceWinsTie :: "(string \<Rightarrow> nat) \<Rightarrow> copy_state \<Rightarrow> copy_state \<Rightarrow> bool" where
  "sourceWinsTie digest a b =
     (if length (cs_bytes a) \<noteq> length (cs_bytes b) then length (cs_bytes a) > length (cs_bytes b)
      else digest (cs_bytes a) > digest (cs_bytes b))"

definition source_wins :: "(string \<Rightarrow> nat) \<Rightarrow> copy_state \<Rightarrow> copy_state \<Rightarrow> bool" where
  "source_wins digest a b =
     (if cs_mtime a \<noteq> cs_mtime b then cs_mtime a > cs_mtime b else sourceWinsTie digest a b)"

text \<open>\<open>ConflictLedger.isNew\<close>: the digests of the losing copies already archived per path; the
  last eight are kept.\<close>

definition conflict_is_new ::
  "(string \<Rightarrow> nat) \<Rightarrow> string \<Rightarrow> string \<Rightarrow> (string \<rightharpoonup> nat list) \<Rightarrow> bool \<times> (string \<rightharpoonup> nat list)" where
  "conflict_is_new digest rel loser seen =
     (let held = default [] (seen rel) in
      if digest loser \<in> set held then (False, seen)
      else (True, seen(rel \<mapsto> drop (length held + 1 - 8) (held @ [digest loser]))))"

text \<open>The part of the loop of \<open>mergeIncomingProfileTree\<close> for a file present on both sides with
  different contents that is neither a history nor \<open>.claude.json\<close>: the copy the receiver keeps,
  the copies it archives (with their side) and whether a conflict is counted. \<open>may_write\<close> is false
  when the system refuses the copy, which then is tolerated.\<close>

datatype conflict_side = Local_Copy | Incoming_Copy

record conflict_step =
  cf_kept :: copy_state
  cf_archived :: "(conflict_side \<times> copy_state) list"
  cf_counted :: bool
  cf_seen :: "string \<rightharpoonup> nat list"

definition merge_conflicting_file ::
  "(string \<Rightarrow> nat) \<Rightarrow> bool \<Rightarrow> bool \<Rightarrow> string \<Rightarrow> copy_state \<Rightarrow> copy_state \<Rightarrow> (string \<rightharpoonup> nat list) \<Rightarrow> conflict_step"
  where
  "merge_conflicting_file digest may_write volatile rel src dst seen =
     (let wins = source_wins digest src dst;
          (fresh, seen') = (if volatile then (False, seen)
                            else conflict_is_new digest rel (cs_bytes (if wins then dst else src)) seen) in
      if wins then
        (let archived = (if fresh then [(Local_Copy, dst)] else []) in
         if \<not> may_write then \<lparr>cf_kept = dst, cf_archived = archived, cf_counted = False, cf_seen = seen'\<rparr>
         else \<lparr>cf_kept = src, cf_archived = archived, cf_counted = fresh, cf_seen = seen'\<rparr>)
      else \<lparr>cf_kept = dst, cf_archived = (if fresh then [(Incoming_Copy, src)] else []),
             cf_counted = fresh, cf_seen = seen'\<rparr>)"

lemma source_wins_asym: "\<not> (source_wins digest a b \<and> source_wins digest b a)"
  by (auto simp: source_wins_def sourceWinsTie_def split: if_splits)

lemma source_wins_total:
  assumes "inj digest" "cs_bytes a \<noteq> cs_bytes b"
  shows "source_wins digest a b \<or> source_wins digest b a"
proof -
  have "digest (cs_bytes a) \<noteq> digest (cs_bytes b)" using assms by (auto dest: injD)
  then show ?thesis by (auto simp: source_wins_def sourceWinsTie_def)
qed

lemma conflict_is_new_records:
  "digest loser \<in> set (default [] (snd (conflict_is_new digest rel loser seen) rel))"
proof (cases "digest loser \<in> set (default [] (seen rel))")
  case False
  let ?h = "default [] (seen rel)"
  have "length ?h + 1 - 8 \<le> length ?h" by simp
  then have "digest loser \<in> set (drop (length ?h + 1 - 8) (?h @ [digest loser]))" by simp
  with False show ?thesis by (simp add: conflict_is_new_def Let_def)
qed (simp add: conflict_is_new_def)

lemma conflict_is_new_bounded:
  "\<forall>r. length (default [] (seen r)) \<le> 8 \<Longrightarrow>
   length (default [] (snd (conflict_is_new digest rel loser seen) r)) \<le> 8"
  by (auto simp: conflict_is_new_def Let_def)

lemma conflict_is_new_again: "\<not> fst (conflict_is_new digest rel loser (snd (conflict_is_new digest rel loser seen)))"
  using conflict_is_new_records [of digest loser rel seen] by (simp add: conflict_is_new_def Let_def)

lemma merge_conflicting_kept:
  "cf_kept (merge_conflicting_file digest True v rel a b seen) = (if source_wins digest a b then a else b)"
  by (simp add: merge_conflicting_file_def Let_def split: prod.splits)

definition losing_copy :: "(string \<Rightarrow> nat) \<Rightarrow> copy_state \<Rightarrow> copy_state \<Rightarrow> copy_state" where
  "losing_copy digest a b = (if source_wins digest a b then b else a)"

lemma merge_conflicting_parts:
  fixes digest w rel a b seen
  defines "m \<equiv> merge_conflicting_file digest w False rel a b seen"
    and "fresh \<equiv> conflict_is_new digest rel (cs_bytes (losing_copy digest a b)) seen"
  shows "cf_seen m = snd fresh"
    and "map snd (cf_archived m) = (if fst fresh then [losing_copy digest a b] else [])"
    and "cf_counted m \<Longrightarrow> fst fresh"
  by (cases "source_wins digest a b";
      simp add: m_def fresh_def merge_conflicting_file_def losing_copy_def Let_def split: prod.splits if_splits)+

text \<open>Two hosts that exchange different copies of a file keep the same one, whichever
  of them merges: of two copies with different contents exactly one wins. The copy that loses on the
  receiver is archived unless its contents are archived already, and the same loser is not archived
  or counted a second time.\<close>

theorem hosts_pick_the_same_copy:
  assumes "inj digest" and "cs_bytes a \<noteq> cs_bytes b"
    and "again = cf_seen (merge_conflicting_file digest w False rel a b seen)"
  shows "cf_kept (merge_conflicting_file digest True v rel a b seen)
       = cf_kept (merge_conflicting_file digest True v' rel b a seen')
     \<and> (digest (cs_bytes (losing_copy digest a b)) \<in> set (default [] (seen rel))
        \<or> map snd (cf_archived (merge_conflicting_file digest w False rel a b seen)) = [losing_copy digest a b])
     \<and> cf_archived (merge_conflicting_file digest w False rel a b again) = []
     \<and> \<not> cf_counted (merge_conflicting_file digest w False rel a b again)"
proof (intro conjI)
  note parts = merge_conflicting_parts [of digest w rel a b]
  note never = conflict_is_new_again [of digest rel "cs_bytes (losing_copy digest a b)" seen]
  show "cf_kept (merge_conflicting_file digest True v rel a b seen)
      = cf_kept (merge_conflicting_file digest True v' rel b a seen')"
    using source_wins_total [OF assms(1,2)] source_wins_asym [of digest a b]
    by (auto simp: merge_conflicting_kept)
  show "digest (cs_bytes (losing_copy digest a b)) \<in> set (default [] (seen rel))
      \<or> map snd (cf_archived (merge_conflicting_file digest w False rel a b seen)) = [losing_copy digest a b]"
    by (simp add: parts(2) conflict_is_new_def Let_def)
  show "cf_archived (merge_conflicting_file digest w False rel a b again) = []"
    using parts(2) [of again] never by (simp add: assms(3) parts(1))
  show "\<not> cf_counted (merge_conflicting_file digest w False rel a b again)"
    using parts(3) [of again] never by (auto simp: assms(3) parts(1))
qed

text \<open>Two copies of a settings file with one modification time: the larger one is kept on both
  sides, the other one archived once.\<close>

definition small_settings :: copy_state where
  "small_settings = \<lparr>cs_mtime = 5, cs_bytes = ''c''\<rparr>"

definition large_settings :: copy_state where
  "large_settings = \<lparr>cs_mtime = 5, cs_bytes = ''ab''\<rparr>"

theorem hosts_pick_the_same_copy_witness:
  "cf_kept (merge_conflicting_file to_nat True False ''a'' large_settings small_settings Map.empty) = large_settings
   \<and> cf_kept (merge_conflicting_file to_nat True False ''a'' small_settings large_settings Map.empty) = large_settings
   \<and> cf_archived (merge_conflicting_file to_nat True False ''a'' large_settings small_settings
        (cf_seen (merge_conflicting_file to_nat True False ''a'' large_settings small_settings Map.empty))) = []"
proof -
  have wins: "source_wins to_nat large_settings small_settings"
    by (simp add: source_wins_def sourceWinsTie_def large_settings_def small_settings_def)
  have "cs_bytes large_settings \<noteq> cs_bytes small_settings"
    by (simp add: large_settings_def small_settings_def)
  from hosts_pick_the_same_copy [OF inj_to_nat this refl, where w = True and rel = "''a''" and seen = Map.empty
      and v = False and v' = False and seen' = Map.empty]
  show ?thesis using wins by (simp add: merge_conflicting_kept)
qed

section \<open>Copies that could not be merged\<close>

text \<open>\<open>preserveDeferredFile\<close> for one path: the copy archived last, and the copies it did not
  supersede under the digest of their contents. The result tells whether the copy was news.\<close>

record deferred_archive =
  da_current :: "string option"
  da_unresolved :: "nat \<rightharpoonup> string"

definition preserveDeferredFile ::
  "(string \<Rightarrow> nat) \<Rightarrow> string \<Rightarrow> deferred_archive \<Rightarrow> bool \<times> deferred_archive" where
  "preserveDeferredFile digest incoming arch =
     (case da_current arch of
        None \<Rightarrow> (True, arch\<lparr>da_current := Some incoming\<rparr>)
      | Some previous \<Rightarrow>
          if incoming = previous then (False, arch)
          else
            (let arch' = (if \<not> subsumesJsonl incoming previous
                          then arch\<lparr>da_unresolved := (da_unresolved arch)(digest previous \<mapsto> previous)\<rparr>
                          else arch) in
             (True, arch'\<lparr>da_current := Some incoming\<rparr>)))"

definition archive_all :: "(string \<Rightarrow> nat) \<Rightarrow> string list \<Rightarrow> deferred_archive \<Rightarrow> deferred_archive" where
  "archive_all digest copies arch = fold (\<lambda>c a. snd (preserveDeferredFile digest c a)) copies arch"

definition archived_copies :: "deferred_archive \<Rightarrow> string set" where
  "archived_copies arch = set_option (da_current arch) \<union> ran (da_unresolved arch)"

text \<open>A copy is retained by another one that holds its complete records, as often, and continues
  its unfinished last record.\<close>

definition retained :: "string \<Rightarrow> string \<Rightarrow> bool" where
  "retained c a \<longleftrightarrow> mset (complete_lines c) \<subseteq># mset (complete_lines a)
     \<and> (\<exists>l \<in> set (split_on nl a). prefix (last (split_on nl c)) l)"

lemma retained_refl [simp]: "retained c c"
  by (auto simp: retained_def intro: last_in_set)

lemma set_split_on: "set (split_on nl a) = insert (last (split_on nl a)) (set (complete_lines a))"
  unfolding complete_lines_split by (rule set_butlast_last [symmetric]) simp

lemma retained_trans: "retained c b \<Longrightarrow> retained b a \<Longrightarrow> retained c a"
  unfolding retained_def
proof (intro conjI; elim conjE bexE)
  assume "mset (complete_lines c) \<subseteq># mset (complete_lines b)" "mset (complete_lines b) \<subseteq># mset (complete_lines a)"
  then show "mset (complete_lines c) \<subseteq># mset (complete_lines a)" by (rule subset_mset.trans)
next
  fix l m
  assume l: "l \<in> set (split_on nl b)" "prefix (last (split_on nl c)) l"
    and m: "m \<in> set (split_on nl a)" "prefix (last (split_on nl b)) m"
    and more: "mset (complete_lines b) \<subseteq># mset (complete_lines a)"
  from l(1) consider "l = last (split_on nl b)" | "l \<in> set (complete_lines b)" by (auto simp: set_split_on)
  then show "\<exists>l \<in> set (split_on nl a). prefix (last (split_on nl c)) l"
  proof cases
    case 1
    with l m show ?thesis by (blast intro: prefix_order.trans)
  next
    case 2
    with more have "l \<in> set (complete_lines a)" using set_mset_mono by fastforce
    with l(2) show ?thesis by (auto simp: set_split_on)
  qed
qed

lemma subsumes_retained: "subsumesJsonl a c \<Longrightarrow> retained c a"
  unfolding subsumes_iff
proof (elim disjE conjE)
  assume "prefix c a"
  then obtain r where r: "a = c @ r" by (auto simp: prefix_def)
  have "last (split_on nl c) @ hd (split_on nl r) \<in> set (split_on nl a)"
    by (simp add: r split_on_append)
  then have "\<exists>l \<in> set (split_on nl a). prefix (last (split_on nl c)) l" by (meson prefixI)
  with complete_lines_mono [OF \<open>prefix c a\<close>] show ?thesis by (simp add: retained_def mset_prefix)
next
  assume "c \<noteq> ''''" "terminated c" "mset (complete_lines c) \<subseteq># mset (complete_lines a)"
  moreover from this(1,2) obtain u where "c = u @ [nl]" by (auto elim: terminated_cases)
  then have "last (split_on nl c) = ''''" by (simp add: split_on_append_sep)
  moreover have "last (split_on nl a) \<in> set (split_on nl a)" by (simp add: last_in_set)
  ultimately show ?thesis unfolding retained_def by (metis Nil_prefix)
qed

text \<open>The digests of the copies set aside are right.\<close>

definition archive_ok :: "(string \<Rightarrow> nat) \<Rightarrow> deferred_archive \<Rightarrow> bool" where
  "archive_ok digest arch \<longleftrightarrow> (\<forall>d c. da_unresolved arch d = Some c \<longrightarrow> d = digest c)"

lemma preserve_step:
  assumes "inj digest" "archive_ok digest arch"
    and arch'_def: "arch' = snd (preserveDeferredFile digest c arch)"
  shows "archive_ok digest arch'" and "da_current arch' = Some c"
    and "\<forall>x \<in> archived_copies arch. \<exists>y \<in> archived_copies arch'. retained x y"
proof -
  show "archive_ok digest arch'" and "da_current arch' = Some c"
    using assms(2) by (auto simp: arch'_def preserveDeferredFile_def archive_ok_def Let_def split: option.splits)
  show "\<forall>x \<in> archived_copies arch. \<exists>y \<in> archived_copies arch'. retained x y"
  proof
    fix x assume "x \<in> archived_copies arch"
    then consider "da_current arch = Some x" | d where "da_unresolved arch d = Some x"
      by (auto simp: archived_copies_def ran_def)
    then show "\<exists>y \<in> archived_copies arch'. retained x y"
    proof cases
      case 1
      then have "x \<in> archived_copies arch' \<or> subsumesJsonl c x \<and> c \<in> archived_copies arch'"
        by (auto simp: arch'_def preserveDeferredFile_def archived_copies_def ran_def Let_def)
      then show ?thesis using subsumes_retained retained_refl by blast
    next
      case (2 d)
      have "da_unresolved arch' d = Some x"
        using 2 assms(1,2) unfolding archive_ok_def
        by (auto simp: arch'_def preserveDeferredFile_def Let_def split: option.splits) (metis injD)
      then have "x \<in> archived_copies arch'" by (auto simp: archived_copies_def ran_def)
      then show ?thesis using retained_refl by blast
    qed
  qed
qed

text \<open>Histories that could not be merged stay recoverable: however many copies arrive
  for a path one after the other, for each of them some archived copy holds all its complete
  records, as often, and the bytes of its unfinished last record.\<close>

theorem deferred_copies_recoverable:
  assumes "inj digest" and "archive_ok digest arch"
  shows "(\<forall>c \<in> set copies \<union> archived_copies arch.
            \<exists>a \<in> archived_copies (archive_all digest copies arch). retained c a)
    \<and> (copies = [] \<or> da_current (archive_all digest copies arch) = Some (last copies))"
  using assms(2)
proof (induction copies arbitrary: arch)
  case Nil
  have "\<exists>a \<in> archived_copies arch. retained c a" if "c \<in> archived_copies arch" for c
    using that retained_refl by blast
  then show ?case by (simp add: archive_all_def)
next
  case (Cons c copies)
  let ?next = "snd (preserveDeferredFile digest c arch)"
  note stepd = preserve_step [OF assms(1) Cons.prems refl, of c]
  have all: "archive_all digest (c # copies) arch = archive_all digest copies ?next"
    by (simp add: archive_all_def)
  have kept: "\<exists>a \<in> archived_copies (archive_all digest copies ?next). retained x a"
    if "x \<in> set copies \<union> archived_copies ?next" for x
    using Cons.IH [OF stepd(1)] that by blast
  have "c \<in> archived_copies ?next" using stepd(2) by (simp add: archived_copies_def)
  with kept stepd(3) have "\<forall>x \<in> set (c # copies) \<union> archived_copies arch.
      \<exists>a \<in> archived_copies (archive_all digest copies ?next). retained x a"
    by (auto intro: retained_trans) (meson UnI2 kept retained_trans)+
  moreover have "da_current (archive_all digest copies ?next) = Some (last (c # copies))"
    using Cons.IH [OF stepd(1)] stepd(2) by (cases copies) (auto simp: archive_all_def)
  ultimately show ?case by (simp only: all simp_thms)
qed

definition two_deferred :: deferred_archive where
  "two_deferred = archive_all to_nat [''a'', ''b''] \<lparr>da_current = None, da_unresolved = Map.empty\<rparr>"

theorem deferred_copies_recoverable_witness:
  "(\<exists>a \<in> archived_copies two_deferred. retained ''a'' a) \<and> (\<exists>a \<in> archived_copies two_deferred. retained ''b'' a)"
proof -
  have "archive_ok to_nat \<lparr>da_current = None, da_unresolved = Map.empty\<rparr>" by (simp add: archive_ok_def)
  from deferred_copies_recoverable [OF inj_to_nat this, of "[''a'', ''b'']"] show ?thesis by (simp add: two_deferred_def)
qed

end
