(* ===== verification/Jsonl_Append.thy ===== *)
theory Jsonl_Append
  imports Jsonl_Merge
begin

text \<open>
  Writing the union into a live history (\<open>src/sync/dedupe.ts\<close>, lines 337 to 513) and the
  ownership lookups in front of it (\<open>src/sync/tree-merge.ts\<close>, \<open>hasOpenOwner\<close>): every system
  call is one step, and before each of them the rest of the machine may act on the same files.

  What the system does is a parameter \<open>host\<close>: the acts of other processes before the n-th
  step, the answers of \<open>lsof\<close> or \<open>/proc\<close>, how much of a write goes through, and the decoding
  of a text read. The agents' own tools append to their histories and replace files by new
  ones; that is the hypothesis \<open>appends_only\<close> of the theorems.
\<close>

section \<open>Files\<close>

text \<open>A file is named by its device and inode; a path may lead to one.\<close>

datatype file_id = Device_Inode nat nat

record history_file =
  df_bytes :: string
  df_mtime :: int

record disk =
  dk_paths :: "string \<rightharpoonup> file_id"
  dk_files :: "file_id \<rightharpoonup> history_file"
  dk_now :: int
  dk_steps :: nat

text \<open>What \<open>sameFileSnapshot\<close> compares.\<close>

record snapshot =
  sn_id :: file_id
  sn_size :: nat
  sn_mtime :: int

datatype real_path = Real_Path string | Path_Gone | Path_Unreadable

record host =
  ho_others :: "nat \<Rightarrow> disk \<Rightarrow> disk"
  ho_realpath :: "disk \<Rightarrow> string \<Rightarrow> real_path"
  ho_owner_direct :: "disk \<Rightarrow> string \<Rightarrow> bool option"
  ho_open_paths :: "disk \<Rightarrow> (string \<Rightarrow> bool) option"
  ho_owner_before_write :: "disk \<Rightarrow> string \<Rightarrow> bool option"
  ho_may_open :: "disk \<Rightarrow> string \<Rightarrow> bool"
  ho_write :: "disk \<Rightarrow> string \<Rightarrow> nat option"
  ho_fsync :: "disk \<Rightarrow> bool"
  ho_new_id :: "disk \<Rightarrow> file_id option"
  ho_text :: "string \<Rightarrow> string"

text \<open>Time passes before a system call.\<close>

definition adv :: "host \<Rightarrow> disk \<Rightarrow> disk" where
  "adv h w = (ho_others h (dk_steps w) w)\<lparr>dk_steps := Suc (dk_steps w)\<rparr>"

definition fstat :: "disk \<Rightarrow> file_id \<Rightarrow> snapshot option" where
  "fstat w i = map_option (\<lambda>f. \<lparr>sn_id = i, sn_size = length (df_bytes f), sn_mtime = df_mtime f\<rparr>) (dk_files w i)"

definition stat :: "disk \<Rightarrow> string \<Rightarrow> snapshot option" where
  "stat w p = (case dk_paths w p of None \<Rightarrow> None | Some i \<Rightarrow> fstat w i)"

definition bytes_at :: "disk \<Rightarrow> string \<Rightarrow> string option" where
  "bytes_at w p = (case dk_paths w p of None \<Rightarrow> None | Some i \<Rightarrow> map_option df_bytes (dk_files w i))"

text \<open>A write through a descriptor opened with \<open>O_APPEND\<close>.\<close>

definition write_end :: "file_id \<Rightarrow> string \<Rightarrow> disk \<Rightarrow> disk" where
  "write_end i b w =
     w\<lparr>dk_files := (dk_files w)(i := map_option (\<lambda>f. \<lparr>df_bytes = df_bytes f @ b, df_mtime = dk_now w\<rparr>) (dk_files w i))\<rparr>"

section \<open>Who has a history open\<close>

definition PER_FILE_LOOKUPS :: nat where
  "PER_FILE_LOOKUPS = 4"

text \<open>\<open>OpenOwnerPass\<close>: the lookups spent, the one snapshot taken afterwards (which may have
  failed) and the answers settled in advance.\<close>

record owner_pass =
  op_lookups :: nat
  op_snapshot :: "(string \<Rightarrow> bool) option option"
  op_known :: "string \<rightharpoonup> bool"

definition hasOpenOwner :: "host \<Rightarrow> disk \<Rightarrow> string \<Rightarrow> owner_pass \<Rightarrow> bool option \<times> owner_pass" where
  "hasOpenOwner h w p pass =
     (case ho_realpath h w p of
        Path_Gone \<Rightarrow> (Some False, pass)
      | Path_Unreadable \<Rightarrow> (None, pass)
      | Real_Path rp \<Rightarrow>
          (case op_known pass rp of
             Some settled \<Rightarrow> (Some settled, pass)
           | None \<Rightarrow>
               (let spent = pass\<lparr>op_lookups := op_lookups pass + 1\<rparr> in
                if op_lookups pass < PER_FILE_LOOKUPS then (ho_owner_direct h w rp, spent)
                else (let snap = (case op_snapshot pass of Some s \<Rightarrow> s | None \<Rightarrow> ho_open_paths h w) in
                      (map_option (\<lambda>open_path. open_path rp) snap, spent\<lparr>op_snapshot := Some snap\<rparr>)))))"

section \<open>Appending a payload\<close>

datatype merge_result = Merged | Unchanged | Deferred | Busy

text \<open>The part of \<open>appendJsonlPayload\<close> inside its \<open>try\<close>, on the descriptor \<open>fd\<close>: every failure is
  \<open>Deferred\<close>.\<close>

definition write_checked :: "host \<Rightarrow> string \<Rightarrow> snapshot \<Rightarrow> string \<Rightarrow> file_id \<Rightarrow> disk \<Rightarrow> merge_result \<times> disk" where
  "write_checked h dest before payload fd w0 =
     (let w1 = adv h w0 in
      case ho_write h w1 payload of
        None \<Rightarrow> (Deferred, w1)
      | Some n \<Rightarrow>
          (let w2 = write_end fd (take n payload) w1 in
           if n \<noteq> length payload then (Deferred, w2)
           else
             (let w3 = adv h w2 in
              if \<not> ho_fsync h w3 then (Deferred, w3)
              else
                (let w4 = adv h w3 in
                 case fstat w4 fd of
                   None \<Rightarrow> (Deferred, w4)
                 | Some after \<Rightarrow>
                     if sn_size after \<noteq> sn_size before + n then (Deferred, w4)
                     else (let w5 = adv h w4 in
                           if stat w5 dest \<noteq> Some after then (Deferred, w5) else (Merged, w5))))))"

definition unchanged_since :: "host \<Rightarrow> string \<Rightarrow> snapshot \<Rightarrow> file_id \<Rightarrow> disk \<Rightarrow> bool \<times> disk" where
  "unchanged_since h dest before fd w0 =
     (let w1 = adv h w0 in
      if fstat w1 fd \<noteq> Some before then (False, w1)
      else (let w2 = adv h w1 in (stat w2 dest = Some before, w2)))"

text \<open>\<open>readSync\<close> of the last byte: a line feed, or there is no byte to look at.\<close>

definition last_byte_is_nl :: "snapshot \<Rightarrow> file_id \<Rightarrow> disk \<Rightarrow> bool" where
  "last_byte_is_nl before fd w =
     (sn_size before = 0 \<or>
      (case dk_files w fd of
         None \<Rightarrow> False
       | Some f \<Rightarrow> sn_size before \<le> length (df_bytes f) \<and> df_bytes f ! (sn_size before - 1) = nl))"

definition append_open :: "host \<Rightarrow> string \<Rightarrow> snapshot \<Rightarrow> string \<Rightarrow> file_id \<Rightarrow> disk \<Rightarrow> merge_result \<times> disk" where
  "append_open h dest before payload fd w0 =
     (case unchanged_since h dest before fd w0 of
        (False, w1) \<Rightarrow> (Deferred, w1)
      | (True, w1) \<Rightarrow>
          (let w2 = adv h w1 in
           if \<not> last_byte_is_nl before fd w2 then (Deferred, w2)
           else
             (let w3 = adv h w2 in
              if ho_owner_before_write h w3 dest \<noteq> Some False then (Deferred, w3)
              else
                (case unchanged_since h dest before fd w3 of
                   (False, w4) \<Rightarrow> (Deferred, w4)
                 | (True, w4) \<Rightarrow> write_checked h dest before payload fd w4))))"

text \<open>\<open>openSync\<close> for reading and appending; it fails on a missing path, a link or a file the user
  may not write.\<close>

definition open_append :: "host \<Rightarrow> disk \<Rightarrow> string \<Rightarrow> file_id option" where
  "open_append h w p =
     (case dk_paths w p of
        None \<Rightarrow> None
      | Some i \<Rightarrow> if dk_files w i \<noteq> None \<and> ho_may_open h w p then Some i else None)"

definition appendJsonlPayload ::
  "host \<Rightarrow> string \<Rightarrow> snapshot \<Rightarrow> string \<Rightarrow> owner_pass \<Rightarrow> disk \<Rightarrow> merge_result \<times> owner_pass \<times> disk" where
  "appendJsonlPayload h dest before payload pass w0 =
     (let w1 = adv h w0; (owner, pass') = hasOpenOwner h w1 dest pass in
      if owner \<noteq> Some False then (Busy, pass', w1)
      else
        (let w2 = adv h w1 in
         case open_append h w2 dest of
           None \<Rightarrow> (Deferred, pass', w2)
         | Some fd \<Rightarrow> (case append_open h dest before payload fd w2 of (r, w3) \<Rightarrow> (r, pass', w3))))"

section \<open>Merging whole histories\<close>

datatype sync_error = Sync_Io

text \<open>\<open>[...new Set(paths)]\<close>: the first occurrences in their order.\<close>

definition unique_paths :: "'a list \<Rightarrow> 'a list" where
  "unique_paths ps = rev (remdups (rev ps))"

text \<open>The reads of the sources, each at its own moment; a file that cannot be read throws.\<close>

fun read_sources :: "host \<Rightarrow> string list \<Rightarrow> disk \<Rightarrow> (sync_error + string list list) \<times> disk" where
  "read_sources h [] w = (Inr [], w)"
| "read_sources h (p # ps) w =
     (let w1 = adv h w in
      case bytes_at w1 p of
        None \<Rightarrow> (Inl Sync_Io, w1)
      | Some b \<Rightarrow>
          (case read_sources h ps w1 of
             (Inl e, w2) \<Rightarrow> (Inl e, w2)
           | (Inr rest, w2) \<Rightarrow> (Inr (complete_lines (ho_text h b) # rest), w2)))"

text \<open>The branch for a history that does not exist: exclusive creation and one write.\<close>

definition write_created :: "host \<Rightarrow> string \<Rightarrow> string \<Rightarrow> file_id \<Rightarrow> disk \<Rightarrow> (sync_error + merge_result) \<times> disk" where
  "write_created h dest payload fd w0 =
     (let w1 = adv h w0 in
      case fstat w1 fd of
        None \<Rightarrow> (Inl Sync_Io, w1)
      | Some pre \<Rightarrow>
          if sn_size pre \<noteq> 0 then (Inr Deferred, w1)
          else
            (let w2 = adv h w1 in
             case ho_write h w2 payload of
               None \<Rightarrow> (Inl Sync_Io, w2)
             | Some n \<Rightarrow>
                 (let w3 = write_end fd (take n payload) w2 in
                  if n \<noteq> length payload then (Inr Deferred, w3)
                  else
                    (let w4 = adv h w3 in
                     if \<not> ho_fsync h w4 then (Inl Sync_Io, w4)
                     else
                       (let w5 = adv h w4; w6 = adv h w5 in
                        case (fstat w5 fd, stat w6 dest) of
                          (Some created, Some there) \<Rightarrow>
                            (if sn_size created \<noteq> sn_size pre + n \<or> created \<noteq> there then (Inr Deferred, w6)
                             else (Inr Merged, w6))
                        | _ \<Rightarrow> (Inl Sync_Io, w6))))))"

text \<open>\<open>openSync\<close> with \<open>O_CREAT | O_EXCL\<close> when the path is free: the system names a new file, or
  it has no room for one.\<close>

definition create_file :: "string \<Rightarrow> file_id \<Rightarrow> disk \<Rightarrow> disk" where
  "create_file p i w =
     w\<lparr>dk_paths := (dk_paths w)(p \<mapsto> i),
       dk_files := (dk_files w)(i \<mapsto> \<lparr>df_bytes = '''', df_mtime = dk_now w\<rparr>)\<rparr>"

definition create_history ::
  "host \<Rightarrow> string \<Rightarrow> bool \<Rightarrow> string list list \<Rightarrow> disk \<Rightarrow> (sync_error + merge_result) \<times> disk" where
  "create_history h dest dryRun sources w0 =
     (if dryRun then (Inr Merged, w0)
      else
        (let w1 = adv h w0 in
         if dk_paths w1 dest \<noteq> None then (Inr Deferred, w1)
         else if \<not> ho_may_open h w1 dest then (Inl Sync_Io, w1)
         else
           (case ho_new_id h w1 of
              None \<Rightarrow> (Inl Sync_Io, w1)
            | Some i \<Rightarrow>
                write_created h dest (join_lines (mergeJsonlLineSets sources)) i (create_file dest i w1))))"

text \<open>The read of an existing destination between two equal snapshots.\<close>

datatype stable_read = Read_Failed merge_result | Read_Ok snapshot string

definition read_stable :: "host \<Rightarrow> string \<Rightarrow> disk \<Rightarrow> stable_read \<times> disk" where
  "read_stable h dest w0 =
     (let w1 = adv h w0 in
      case stat w1 dest of
        None \<Rightarrow> (Read_Failed Deferred, w1)
      | Some before \<Rightarrow>
          (let w2 = adv h w1 in
           case bytes_at w2 dest of
             None \<Rightarrow> (Read_Failed Deferred, w2)
           | Some b \<Rightarrow>
               (let w3 = adv h w2 in
                if stat w3 dest \<noteq> Some before then (Read_Failed Deferred, w3)
                else (Read_Ok before (ho_text h b), w3))))"

definition extend_history ::
  "host \<Rightarrow> string \<Rightarrow> bool \<Rightarrow> string list list \<Rightarrow> owner_pass \<Rightarrow> disk \<Rightarrow> merge_result \<times> owner_pass \<times> disk" where
  "extend_history h dest dryRun sources pass w0 =
     (case read_stable h dest w0 of
        (Read_Failed r, w1) \<Rightarrow> (r, pass, w1)
      | (Read_Ok before text, w1) \<Rightarrow>
          if text \<noteq> '''' \<and> \<not> ends_with text [nl] then (Deferred, pass, w1)
          else
            (let additions = jsonl_additions (complete_lines text) sources in
             if additions = [] then (Unchanged, pass, w1)
             else if dryRun then (Merged, pass, w1)
             else appendJsonlPayload h dest before (join_lines additions) pass w1))"

definition mergeJsonlFiles ::
  "host \<Rightarrow> string list \<Rightarrow> string \<Rightarrow> bool \<Rightarrow> owner_pass \<Rightarrow> disk \<Rightarrow> (sync_error + merge_result) \<times> owner_pass \<times> disk" where
  "mergeJsonlFiles h paths dest dryRun pass w0 =
     (let ps = unique_paths paths in
      if ps = [] then (Inr Unchanged, pass, w0)
      else
        (let w1 = adv h w0; there = stat w1 dest \<noteq> None in
         case read_sources h ps w1 of
           (Inl e, w2) \<Rightarrow> (Inl e, pass, w2)
         | (Inr sources, w2) \<Rightarrow>
             if \<not> there then (case create_history h dest dryRun sources w2 of (r, w3) \<Rightarrow> (r, pass, w3))
             else (case extend_history h dest dryRun sources pass w2 of (r, pass', w3) \<Rightarrow> (Inr r, pass', w3))))"

section \<open>Merging a tail\<close>

datatype tail_result = Tail merge_result | Diverged

text \<open>\<open>mergeJsonlTail\<close>; \<open>digest\<close> is the digest of \<open>hashPrefix\<close>, a parameter. A read into a buffer
  that meets the end of the file leaves zeros.\<close>

definition read_range :: "string \<Rightarrow> nat \<Rightarrow> nat \<Rightarrow> string" where
  "read_range b off n = (let got = take n (drop off b) in got @ replicate (n - length got) CHR 0x00)"

definition mergeJsonlTail ::
  "host \<Rightarrow> (string \<Rightarrow> 'd) \<Rightarrow> string \<Rightarrow> nat \<Rightarrow> 'd \<Rightarrow> string \<Rightarrow> owner_pass \<Rightarrow> disk \<Rightarrow> tail_result \<times> owner_pass \<times> disk" where
  "mergeJsonlTail h digest dest off pre tl_bytes pass w0 =
     (let w1 = adv h w0 in
      case stat w1 dest of
        None \<Rightarrow> (Diverged, pass, w1)
      | Some before \<Rightarrow>
          if sn_size before < off then (Diverged, pass, w1)
          else
            (let incoming = complete_lines tl_bytes;
                 w2 = (if incoming = [] then w1 else adv h w1);
                 (owner, pass') = (if incoming = [] then (Some False, pass) else hasOpenOwner h w2 dest pass) in
             if owner \<noteq> Some False then (Tail Busy, pass', w2)
             else
               (let w3 = adv h w2 in
                case bytes_at w3 dest of
                  None \<Rightarrow> (Diverged, pass', w3)
                | Some b \<Rightarrow>
                    if length b < off \<or> digest (take off b) \<noteq> pre then (Diverged, pass', w3)
                    else if incoming = [] then (Tail Unchanged, pass', w3)
                    else
                      (let w4 = adv h w3 in
                       case bytes_at w4 dest of
                         None \<Rightarrow> (Tail Deferred, pass', w4)
                       | Some b' \<Rightarrow>
                           (let extra = read_range b' off (sn_size before - off); w5 = adv h w4 in
                            if stat w5 dest \<noteq> Some before then (Tail Deferred, pass', w5)
                            else if \<not> terminated extra then (Tail Deferred, pass', w5)
                            else
                              (let additions = jsonl_additions (complete_lines extra) [incoming] in
                               if additions = [] then (Tail Unchanged, pass', w5)
                               else
                                 (case appendJsonlPayload h dest before (join_lines additions) pass' w5 of
                                    (r, pass'', w6) \<Rightarrow> (Tail r, pass'', w6))))))))"

section \<open>Histories only grow\<close>

text \<open>Between two moments every file kept its bytes, possibly with more behind them, and a path
  that leads somewhere else leads to a file that is new.\<close>

definition grown :: "disk \<Rightarrow> disk \<Rightarrow> bool" where
  "grown w w' \<longleftrightarrow>
     (\<forall>i f. dk_files w i = Some f \<longrightarrow> (\<exists>f'. dk_files w' i = Some f' \<and> prefix (df_bytes f) (df_bytes f')))"

definition appended :: "disk \<Rightarrow> disk \<Rightarrow> bool" where
  "appended w w' \<longleftrightarrow> grown w w' \<and>
     (\<forall>p i. dk_paths w' p = Some i \<longrightarrow> dk_paths w p = Some i \<or> dk_files w i = None)"

definition appends_only :: "host \<Rightarrow> bool" where
  "appends_only h \<longleftrightarrow> (\<forall>n w. appended w (ho_others h n w))"

definition new_ids_unused :: "host \<Rightarrow> bool" where
  "new_ids_unused h \<longleftrightarrow> (\<forall>w i. ho_new_id h w = Some i \<longrightarrow> dk_files w i = None)"

named_theorems grown_intros \<open>steps that only append\<close>

lemma grownD: "grown w w' \<Longrightarrow> dk_files w i = Some f \<Longrightarrow>
  \<exists>f'. dk_files w' i = Some f' \<and> prefix (df_bytes f) (df_bytes f')"
  by (simp add: grown_def)

lemma appended_grown: "appended w w' \<Longrightarrow> grown w w'"
  by (simp add: appended_def)

lemma appended_path:
  "appended w w' \<Longrightarrow> dk_paths w' p = Some i \<Longrightarrow> dk_files w i = Some f \<Longrightarrow> dk_paths w p = Some i"
  unfolding appended_def by (metis option.distinct(1))

lemma appended_refl [simp, grown_intros]: "appended w w"
  by (simp add: appended_def grown_def)

lemma appended_trans [trans]: "appended w w' \<Longrightarrow> appended w' w'' \<Longrightarrow> appended w w''"
  unfolding appended_def
proof (intro conjI allI impI)
  assume ab: "grown w w' \<and> (\<forall>p i. dk_paths w' p = Some i \<longrightarrow> dk_paths w p = Some i \<or> dk_files w i = None)"
    and bc: "grown w' w'' \<and> (\<forall>p i. dk_paths w'' p = Some i \<longrightarrow> dk_paths w' p = Some i \<or> dk_files w' i = None)"
  then show "grown w w''" unfolding grown_def by (meson prefix_order.trans)
  fix p i assume "dk_paths w'' p = Some i"
  with bc have "dk_paths w' p = Some i \<or> dk_files w' i = None" by metis
  then show "dk_paths w p = Some i \<or> dk_files w i = None"
    using ab unfolding grown_def by (metis option.exhaust option.distinct(1))
qed

lemma appended_steps: "appended w (w'\<lparr>dk_steps := n\<rparr>) \<longleftrightarrow> appended w w'"
  by (simp add: appended_def grown_def)

lemma appended_adv [grown_intros]: "appends_only h \<Longrightarrow> appended w (adv h w)"
  by (simp add: adv_def appended_steps appends_only_def)

lemma appended_write_end [grown_intros]: "appended w (write_end i b w)"
  by (auto simp: appended_def grown_def write_end_def)

lemma appended_create [grown_intros]: "dk_files w i = None \<Longrightarrow> appended w (create_file p i w)"
  by (auto simp: appended_def grown_def create_file_def)

lemma appended_adv_trans: "appends_only h \<Longrightarrow> appended w w' \<Longrightarrow> appended w (adv h w')"
  by (erule appended_trans) (rule appended_adv)

lemma appended_write_trans: "appended w w' \<Longrightarrow> appended w (write_end i b w')"
  by (erule appended_trans) (rule appended_write_end)

lemmas appended_steps_intros = appended_refl appended_adv_trans appended_write_trans

lemma write_checked_appended:
  "appends_only h \<Longrightarrow> appended w0 (snd (write_checked h dest before payload fd w0))"
  by (auto simp: write_checked_def Let_def split: option.splits intro!: appended_steps_intros)

lemma unchanged_since_appended:
  "appends_only h \<Longrightarrow> appended w0 (snd (unchanged_since h dest before fd w0))"
  by (auto simp: unchanged_since_def Let_def intro!: appended_steps_intros)

lemma append_open_appended:
  assumes "appends_only h"
  shows "appended w0 (snd (append_open h dest before payload fd w0))"
proof -
  note un = unchanged_since_appended [OF assms, of _ dest before fd]
  note wr = write_checked_appended [OF assms, of _ dest before payload fd]
  obtain b1 w1 where first: "unchanged_since h dest before fd w0 = (b1, w1)" by fastforce
  with un [of w0] have w1: "appended w0 w1" by simp
  let ?w2 = "adv h w1" let ?w3 = "adv h ?w2"
  have w3: "appended w0 ?w2" "appended w0 ?w3" using w1 assms by (auto intro!: appended_steps_intros)
  obtain b4 w4 where second: "unchanged_since h dest before fd ?w3 = (b4, w4)" by fastforce
  with un [of ?w3] w3 have w4: "appended w0 w4" by (auto intro: appended_trans)
  with wr [of w4] have "appended w0 (snd (write_checked h dest before payload fd w4))"
    by (auto intro: appended_trans)
  then show ?thesis using w1 w3 w4
    by (cases b1; cases b4; simp add: append_open_def first second Let_def)
qed

lemma append_payload_appended:
  assumes "appends_only h"
  shows "appended w0 (snd (snd (appendJsonlPayload h dest before payload pass w0)))"
proof -
  let ?w1 = "adv h w0" let ?w2 = "adv h ?w1"
  have steps: "appended w0 ?w1" "appended w0 ?w2" using assms by (auto intro!: appended_steps_intros)
  moreover have "appended w0 (snd (append_open h dest before payload fd ?w2))" for fd
    using steps(2) append_open_appended [OF assms, of ?w2 dest before payload fd] by (rule appended_trans)
  ultimately show ?thesis
    by (auto simp: appendJsonlPayload_def Let_def split: prod.splits option.splits) (metis snd_conv)+
qed

section \<open>What a merged payload means\<close>

text \<open>The file under an identity holds at least these bytes, and exactly these.\<close>

definition holds_prefix :: "disk \<Rightarrow> file_id \<Rightarrow> string \<Rightarrow> bool" where
  "holds_prefix w i b \<longleftrightarrow> (\<exists>f. dk_files w i = Some f \<and> prefix b (df_bytes f))"

lemma holds_prefix_grown: "appended w w' \<Longrightarrow> holds_prefix w i b \<Longrightarrow> holds_prefix w' i b"
  unfolding holds_prefix_def appended_def grown_def by (metis prefix_order.trans)

lemma holds_prefix_write:
  "holds_prefix w i b \<Longrightarrow> \<exists>x. prefix b x \<and> holds_prefix (write_end i p w) i (x @ p)"
  by (auto simp: holds_prefix_def write_end_def)

lemma fstat_Some: "fstat w i = Some s \<longleftrightarrow>
  (\<exists>f. dk_files w i = Some f \<and> s = \<lparr>sn_id = i, sn_size = length (df_bytes f), sn_mtime = df_mtime f\<rparr>)"
  by (auto simp: fstat_def)

lemma stat_Some: "stat w p = Some s \<longleftrightarrow> dk_paths w p = Some (sn_id s) \<and> fstat w (sn_id s) = Some s"
  by (auto simp: stat_def fstat_Some split: option.splits)

lemma bytes_at_stat:
  assumes "stat w p = Some s" "holds_prefix w (sn_id s) b" "sn_size s = length b"
  shows "bytes_at w p = Some b"
proof -
  from assms(1) have p: "dk_paths w p = Some (sn_id s)" and "fstat w (sn_id s) = Some s"
    by (simp_all add: stat_Some)
  then obtain f where f: "dk_files w (sn_id s) = Some f" "sn_size s = length (df_bytes f)"
    unfolding fstat_Some by (metis snapshot.select_convs(2))
  with assms(2,3) have "df_bytes f = b"
    by (auto simp: holds_prefix_def prefix_def)
  with f p show ?thesis by (simp add: bytes_at_def)
qed

lemma write_checked_exact:
  assumes only: "appends_only h" and run: "write_checked h dest before payload fd w0 = (Merged, w')"
    and held: "holds_prefix w0 fd b" and size: "length b = sn_size before"
  shows "bytes_at w' dest = Some (b @ payload)"
proof -
  let ?w1 = "adv h w0"
  let ?w2 = "write_end fd payload ?w1"
  let ?w3 = "adv h ?w2" let ?w4 = "adv h ?w3" let ?w5 = "adv h ?w4"
  from run have written: "ho_write h ?w1 payload = Some (length payload)"
    by (auto simp: write_checked_def Let_def split: option.splits if_splits)
  from run obtain after where after: "fstat ?w4 fd = Some after" "sn_size after = sn_size before + length payload"
      "stat ?w5 dest = Some after" and w': "w' = ?w5"
    by (auto simp: write_checked_def Let_def written split: option.splits if_splits)
  have "holds_prefix ?w1 fd b" using held only by (blast intro: holds_prefix_grown appended_adv)
  from holds_prefix_write [OF this] obtain x where x: "prefix b x" "holds_prefix ?w2 fd (x @ payload)" by blast
  have "holds_prefix ?w4 fd (x @ payload)" and later: "holds_prefix ?w5 fd (x @ payload)"
    using x(2) only by (blast intro: holds_prefix_grown appended_adv)+
  then have "length (x @ payload) \<le> sn_size after"
    using after(1) by (auto simp: holds_prefix_def fstat_Some dest: prefix_length_le)
  with after(2) size x(1) have "x = b" by (auto simp: prefix_def)
  moreover have "fd = sn_id after" using after(1) by (auto simp: fstat_Some)
  ultimately show ?thesis
    using bytes_at_stat [OF after(3)] later after(2) size w' by simp
qed

lemma unchanged_since_same: "unchanged_since h dest before fd w0 = (True, w1) \<Longrightarrow> fd = sn_id before"
  by (auto simp: unchanged_since_def Let_def fstat_Some split: if_splits)

lemma append_open_exact:
  assumes only: "appends_only h" and run: "append_open h dest before payload fd w0 = (Merged, w')"
    and held: "holds_prefix w0 (sn_id before) b" and size: "length b = sn_size before"
  shows "bytes_at w' dest = Some (b @ payload)"
proof -
  from run obtain w1 w4 where first: "unchanged_since h dest before fd w0 = (True, w1)"
    and second: "unchanged_since h dest before fd (adv h (adv h w1)) = (True, w4)"
    and last: "write_checked h dest before payload fd w4 = (Merged, w')"
    by (auto simp: append_open_def Let_def split: prod.splits bool.splits if_splits)
  have "appended w0 w1" "appended (adv h (adv h w1)) w4"
    using unchanged_since_appended [OF only, of _ dest before fd] first second by (metis snd_conv)+
  then have "appended w0 w4"
    using only by (blast intro: appended_trans appended_adv)
  with held have "holds_prefix w4 fd b"
    using holds_prefix_grown unchanged_since_same [OF first] by blast
  from write_checked_exact [OF only last this size] show ?thesis .
qed

lemma append_payload_exact:
  assumes only: "appends_only h" and run: "appendJsonlPayload h dest before payload pass w0 = (Merged, pass', w')"
    and held: "holds_prefix w0 (sn_id before) b" and size: "length b = sn_size before"
  shows "bytes_at w' dest = Some (b @ payload)"
proof -
  from run obtain fd where opened: "append_open h dest before payload fd (adv h (adv h w0)) = (Merged, w')"
    by (auto simp: appendJsonlPayload_def Let_def split: prod.splits option.splits if_splits)
  have "holds_prefix (adv h (adv h w0)) (sn_id before) b"
    using held only by (blast intro: holds_prefix_grown appended_adv)
  from append_open_exact [OF only opened this size] show ?thesis .
qed

section \<open>No record is lost\<close>

lemma read_sources_appended:
  assumes "appends_only h"
  shows "appended w (snd (read_sources h ps w))"
proof (induction ps arbitrary: w)
  case (Cons p ps)
  have "appended w (adv h w)" using assms by (rule appended_adv)
  moreover have "appended w (snd (read_sources h ps (adv h w)))"
    using appended_trans [OF appended_adv [OF assms] Cons.IH] .
  moreover obtain r w2 where "read_sources h ps (adv h w) = (r, w2)" by fastforce
  ultimately show ?case by (cases r) (simp_all add: Let_def split: option.splits)
qed simp

lemma write_created_appended:
  "appends_only h \<Longrightarrow> appended w0 (snd (write_created h dest payload fd w0))"
  by (auto simp: write_created_def Let_def split: option.splits intro!: appended_steps_intros)

lemma create_history_appended:
  assumes "appends_only h" "new_ids_unused h"
  shows "appended w0 (snd (create_history h dest dryRun sources w0))"
proof -
  let ?w1 = "adv h w0"
  have w1: "appended w0 ?w1" using assms(1) by (rule appended_adv)
  moreover have "appended w0 (snd (write_created h dest payload i (create_file dest i ?w1)))"
    if "ho_new_id h ?w1 = Some i" for payload i
  proof -
    have "dk_files ?w1 i = None" using that assms(2) by (simp add: new_ids_unused_def)
    from appended_trans [OF appended_trans [OF w1 appended_create [OF this]] write_created_appended [OF assms(1)]]
    show ?thesis .
  qed
  ultimately show ?thesis by (simp add: create_history_def Let_def split: option.splits)
qed

lemma read_stable_appended:
  "appends_only h \<Longrightarrow> appended w0 (snd (read_stable h dest w0))"
  by (auto simp: read_stable_def Let_def split: option.splits intro!: appended_steps_intros)

lemma extend_history_appended:
  assumes "appends_only h"
  shows "appended w0 (snd (snd (extend_history h dest dryRun sources pass w0)))"
proof -
  obtain r w1 where run: "read_stable h dest w0 = (r, w1)" by fastforce
  with read_stable_appended [OF assms, of w0 dest] have w1: "appended w0 w1" by simp
  have "appended w0 (snd (snd (appendJsonlPayload h dest before payload pass w1)))" for before payload
    using appended_trans [OF w1 append_payload_appended [OF assms]] .
  with w1 show ?thesis by (simp add: extend_history_def run Let_def split: stable_read.splits)
qed

lemma merge_files_appended:
  assumes "appends_only h" "new_ids_unused h"
  shows "appended w0 (snd (snd (mergeJsonlFiles h paths dest dryRun pass w0)))"
proof -
  let ?w1 = "adv h w0"
  obtain r w2 where run: "read_sources h (unique_paths paths) ?w1 = (r, w2)" by fastforce
  have "appended ?w1 w2"
    using read_sources_appended [OF assms(1), of ?w1 "unique_paths paths"] run by simp
  with appended_adv [OF assms(1)] have w2: "appended w0 w2" by (rule appended_trans)
  have "appended w0 (snd (create_history h dest dryRun sources w2))"
    and "appended w0 (snd (snd (extend_history h dest dryRun sources pass w2)))" for sources
    using appended_trans [OF w2 create_history_appended [OF assms]]
      appended_trans [OF w2 extend_history_appended [OF assms(1)]] by auto
  note cases = this
  show ?thesis
  proof (cases r)
    case (Inl e)
    with w2 show ?thesis by (simp add: mergeJsonlFiles_def run Let_def)
  next
    case (Inr sources)
    obtain rc wc re pe we where "create_history h dest dryRun sources w2 = (rc, wc)"
      and "extend_history h dest dryRun sources pass w2 = (re, pe, we)" using prod_cases3 by (metis surj_pair)
    with cases [of sources] Inr show ?thesis by (simp add: mergeJsonlFiles_def run Let_def)
  qed
qed

text \<open>Decoding a text goes record by record, keeps terminators and does not change what it
  produced: what UTF-8 decoding with replacement characters does.\<close>

definition decodes_records :: "(string \<Rightarrow> string) \<Rightarrow> bool" where
  "decodes_records dec \<longleftrightarrow>
     (\<forall>b. complete_lines (dec b) = map dec (complete_lines b))
     \<and> (\<forall>b. terminated (dec b) = terminated b) \<and> (\<forall>b. dec (dec b) = dec b)"

text \<open>The copies to merge are not moved meanwhile.\<close>

definition stays_put :: "host \<Rightarrow> string set \<Rightarrow> bool" where
  "stays_put h P \<longleftrightarrow> (\<forall>n w. \<forall>p \<in> P. dk_paths (ho_others h n w) p = dk_paths w p)"

definition records :: "host \<Rightarrow> string \<Rightarrow> string list" where
  "records h b = map (ho_text h) (complete_lines b)"

lemma records_mono: "prefix b b' \<Longrightarrow> mset (records h b) \<subseteq># mset (records h b')"
  unfolding records_def by (intro mset_prefix map_mono_prefix complete_lines_mono)

lemma stays_put_bytes:
  assumes "stays_put h P" "p \<in> P" "appends_only h" "bytes_at w p = Some b"
  shows "\<exists>b'. bytes_at (adv h w) p = Some b' \<and> prefix b b'"
proof -
  from assms(4) obtain i f where f: "dk_paths w p = Some i" "dk_files w i = Some f" "b = df_bytes f"
    by (auto simp: bytes_at_def split: option.splits)
  from assms(1,2) f(1) have "dk_paths (adv h w) p = Some i" by (simp add: stays_put_def adv_def)
  moreover from grownD [OF appended_grown [OF appended_adv [OF assms(3)]] f(2)]
  obtain f' where "dk_files (adv h w) i = Some f'" "prefix (df_bytes f) (df_bytes f')" by blast
  ultimately show ?thesis using f(3) by (simp add: bytes_at_def)
qed

lemma read_sources_covers:
  assumes only: "appends_only h" and put: "stays_put h (set ps)" and dec: "decodes_records (ho_text h)"
    and "read_sources h ps w = (Inr sources, w')" and "p \<in> set ps" and "bytes_at w p = Some b"
  shows "\<exists>s \<in> set sources. mset (records h b) \<subseteq># mset s"
  using put assms(4-6)
proof (induction ps arbitrary: w b sources w')
  case (Cons q ps)
  from Cons.prems(2) obtain bq rest where q: "bytes_at (adv h w) q = Some bq"
    and rest: "read_sources h ps (adv h w) = (Inr rest, w')"
    and sources: "sources = complete_lines (ho_text h bq) # rest"
    by (auto simp: Let_def split: option.splits prod.splits sum.splits)
  from stays_put_bytes [OF Cons.prems(1) Cons.prems(3) only Cons.prems(4)]
  obtain b' where b': "bytes_at (adv h w) p = Some b'" "prefix b b'" by blast
  note more = records_mono [OF b'(2), of h]
  show ?case
  proof (cases "p = q")
    case True
    with q b'(1) have "records h b' = complete_lines (ho_text h bq)"
      using dec by (simp add: records_def decodes_records_def)
    with more sources show ?thesis by simp
  next
    case False
    with Cons.prems(1,3) have "stays_put h (set ps)" "p \<in> set ps" by (auto simp: stays_put_def)
    from Cons.IH [OF this(1) rest this(2) b'(1)] more sources show ?thesis
      by (auto intro: subset_mset.trans)
  qed
qed simp

lemma sources_are_lines:
  "read_sources h ps w = (Inr sources, w') \<Longrightarrow> decodes_records (ho_text h) \<Longrightarrow> l \<in> set (concat sources) \<Longrightarrow>
   nl \<notin> set l \<and> ho_text h l = l"
proof (induction ps arbitrary: w sources w')
  case (Cons q ps)
  from Cons.prems(1) obtain bq rest where rest: "read_sources h ps (adv h w) = (Inr rest, w')"
    and sources: "sources = complete_lines (ho_text h bq) # rest"
    by (auto simp: Let_def split: option.splits prod.splits sum.splits)
  from Cons.prems(3) sources
  consider "l \<in> set (complete_lines (ho_text h bq))" | "l \<in> set (concat rest)" by auto
  then show ?case
  proof cases
    case 1
    then have "l \<in> ho_text h ` set (complete_lines bq)"
      using Cons.prems(2) by (simp add: decodes_records_def)
    with Cons.prems(2) have "ho_text h l = l" by (auto simp: decodes_records_def)
    with complete_lines_no_nl [OF 1] show ?thesis ..
  next
    case 2
    with Cons.IH [OF rest Cons.prems(2)] show ?thesis by blast
  qed
qed simp

lemma write_created_exact:
  assumes only: "appends_only h" and run: "write_created h dest payload fd w0 = (Inr Merged, w')"
  shows "bytes_at w' dest = Some payload"
proof -
  let ?w2 = "adv h (adv h w0)"
  let ?w3 = "write_end fd payload ?w2"
  let ?w5 = "adv h (adv h ?w3)" let ?w6 = "adv h ?w5"
  from run obtain pre where pre: "fstat (adv h w0) fd = Some pre" "sn_size pre = 0"
    and written: "ho_write h ?w2 payload = Some (length payload)"
    by (auto simp: write_created_def Let_def split: option.splits if_splits)
  from run obtain there where there: "fstat ?w5 fd = Some there" "stat ?w6 dest = Some there"
      "sn_size there = length payload" and w': "w' = ?w6"
    by (auto simp: write_created_def Let_def pre written split: option.splits if_splits)
  from pre(1) have "holds_prefix (adv h w0) fd ''''" by (auto simp: holds_prefix_def fstat_Some)
  then have "holds_prefix ?w2 fd ''''" using only by (blast intro: holds_prefix_grown appended_adv)
  from holds_prefix_write [OF this] obtain x where x: "holds_prefix ?w3 fd (x @ payload)" by blast
  have "holds_prefix ?w5 fd (x @ payload)" and later: "holds_prefix ?w6 fd (x @ payload)"
    using x only by (blast intro: holds_prefix_grown appended_adv)+
  then have "length (x @ payload) \<le> sn_size there"
    using there(1) by (auto simp: holds_prefix_def fstat_Some dest: prefix_length_le)
  with there(3) have "x = ''''" by simp
  moreover have "fd = sn_id there" using there(1) by (auto simp: fstat_Some)
  ultimately show ?thesis
    using bytes_at_stat [OF there(2)] later there(3) w' by simp
qed

lemma create_history_exact:
  assumes "appends_only h" "create_history h dest False sources w0 = (Inr r, w')" "r \<in> {Merged, Unchanged}"
  shows "bytes_at w' dest = Some (join_lines (mergeJsonlLineSets sources))"
proof -
  have "r \<noteq> Unchanged"
    using assms(2) by (auto simp: create_history_def write_created_def Let_def split: option.splits if_splits)
  with assms(3) have "r = Merged" by simp
  with assms(2) obtain i where "write_created h dest (join_lines (mergeJsonlLineSets sources)) i
      (create_file dest i (adv h w0)) = (Inr Merged, w')"
    by (auto simp: create_history_def Let_def split: if_splits option.splits)
  from write_created_exact [OF assms(1) this] show ?thesis .
qed

lemma read_stable_exact:
  assumes only: "appends_only h" and run: "read_stable h dest w0 = (Read_Ok before text, w')"
  shows "\<exists>b. text = ho_text h b \<and> bytes_at w' dest = Some b \<and> holds_prefix w' (sn_id before) b \<and> length b = sn_size before"
proof -
  let ?w1 = "adv h w0" let ?w2 = "adv h ?w1" let ?w3 = "adv h ?w2"
  from run obtain b where first: "stat ?w1 dest = Some before" and b: "bytes_at ?w2 dest = Some b" "text = ho_text h b"
    and last: "stat ?w3 dest = Some before" and w': "w' = ?w3"
    by (auto simp: read_stable_def Let_def split: option.splits if_splits)
  from first obtain f1 where f1: "dk_files ?w1 (sn_id before) = Some f1" "length (df_bytes f1) = sn_size before"
    unfolding stat_Some fstat_Some by (metis snapshot.select_convs(2))
  have steps: "appended ?w1 ?w2" "appended ?w2 ?w3" using only by (simp_all add: appended_adv)
  from grownD [OF appended_grown [OF steps(1)] f1(1)]
  obtain f2 where f2: "dk_files ?w2 (sn_id before) = Some f2" "prefix (df_bytes f1) (df_bytes f2)" by blast
  from last have "dk_paths ?w3 dest = Some (sn_id before)" by (simp add: stat_Some)
  from appended_path [OF steps(2) this f2(1)] f2(1) b(1) have b2: "b = df_bytes f2" by (simp add: bytes_at_def)
  from grownD [OF appended_grown [OF steps(2)] f2(1)]
  obtain f3 where f3: "dk_files ?w3 (sn_id before) = Some f3" "prefix (df_bytes f2) (df_bytes f3)" by blast
  from last have "fstat ?w3 (sn_id before) = Some before" by (simp add: stat_Some)
  with f3(1) have "length (df_bytes f3) = sn_size before" unfolding fstat_Some
    by (metis option.inject snapshot.select_convs(2))
  moreover have "length (df_bytes f1) \<le> length b" "length b \<le> length (df_bytes f3)"
    using f2(2) f3(2) b2 by (auto dest: prefix_length_le)
  ultimately have "length b = sn_size before" using f1(2) by simp
  moreover have "holds_prefix ?w3 (sn_id before) b" using f3 b2 by (auto simp: holds_prefix_def)
  ultimately show ?thesis using bytes_at_stat [OF last] b(2) w' by auto
qed

lemma extend_history_exact:
  assumes only: "appends_only h" and run: "extend_history h dest False sources pass w0 = (r, pass', w')"
    and ok: "r \<in> {Merged, Unchanged}"
  shows "\<exists>b. terminated (ho_text h b)
    \<and> bytes_at w' dest = Some (b @ join_lines (jsonl_additions (complete_lines (ho_text h b)) sources))"
proof -
  from run ok obtain before tx w1 where reading: "read_stable h dest w0 = (Read_Ok before tx, w1)"
    by (auto simp: extend_history_def read_stable_def Let_def split: stable_read.splits prod.splits option.splits if_splits)
  from read_stable_exact [OF only reading] obtain b where b: "tx = ho_text h b" "bytes_at w1 dest = Some b"
    "holds_prefix w1 (sn_id before) b" "length b = sn_size before" by blast
  let ?adds = "jsonl_additions (complete_lines tx) sources"
  from run ok have "tx = '''' \<or> ends_with tx [nl]"
    by (auto simp: extend_history_def reading split: if_splits)
  then have ended: "terminated tx"
    by (cases tx rule: rev_cases) (auto simp: terminated_def ends_with_def)
  show ?thesis
  proof (cases "?adds = []")
    case True
    with run have "w' = w1"
      using ended by (auto simp: extend_history_def reading Let_def split: if_splits)
    with True b ended show ?thesis by (auto simp: join_lines_def)
  next
    case False
    with run ok have "appendJsonlPayload h dest before (join_lines ?adds) pass w1 = (r, pass', w')"
      by (auto simp: extend_history_def reading Let_def split: if_splits)
    moreover from this have "r \<noteq> Unchanged"
      by (auto simp: appendJsonlPayload_def append_open_def write_checked_def Let_def
          split: prod.splits option.splits bool.splits if_splits)
    ultimately have "appendJsonlPayload h dest before (join_lines ?adds) pass w1 = (Merged, pass', w')"
      using ok by auto
    from append_payload_exact [OF only this b(3,4)] b(1) ended show ?thesis by auto
  qed
qed

lemma records_append:
  assumes "decodes_records (ho_text h)" "terminated b" "\<forall>l \<in> set ls. nl \<notin> set l \<and> ho_text h l = l"
  shows "records h (b @ join_lines ls) = records h b @ ls"
proof -
  have "map (ho_text h) ls = ls" using assms(3) by (simp add: map_idI)
  with assms show ?thesis by (simp add: records_def complete_lines_append complete_lines_join)
qed

lemma records_text: "decodes_records (ho_text h) \<Longrightarrow> records h b = complete_lines (ho_text h b)"
  by (simp add: records_def decodes_records_def)

text \<open>What the destination holds after a merge of sources that were read.\<close>

lemma merged_holds_sources:
  assumes decode: "decodes_records (ho_text h)" and lines: "\<forall>l \<in> set (concat sources). nl \<notin> set l \<and> ho_text h l = l"
    and s: "s \<in> set sources"
  shows "mset s \<subseteq># mset (records h (join_lines (mergeJsonlLineSets sources)))"
    and "terminated (ho_text h b) \<Longrightarrow>
         mset s \<subseteq># mset (records h (b @ join_lines (jsonl_additions (complete_lines (ho_text h b)) sources)))"
proof -
  have "set (mergeJsonlLineSets sources) \<subseteq> set (concat sources)"
  proof (cases "sources = []")
    case False
    let ?b = "hd (sort_key (\<lambda>s. - int (length s)) sources)"
    have "?b \<in> set sources" using longest_source [OF False] ..
    moreover obtain adds where "mergeJsonlLineSetsOnto ?b sources = ?b @ adds" "subseq adds (concat sources)"
      using merge_onto_adds(1) by blast
    moreover from this(2) have "set adds \<subseteq> set (concat sources)" by (rule subseq_set)
    ultimately show ?thesis using False by (auto simp: mergeJsonlLineSets_def)
  qed (simp add: mergeJsonlLineSets_def)
  with lines have "\<forall>l \<in> set (mergeJsonlLineSets sources). nl \<notin> set l \<and> ho_text h l = l" by blast
  from records_append [OF decode _ this, of "''''"]
  show "mset s \<subseteq># mset (records h (join_lines (mergeJsonlLineSets sources)))"
    using subset_union_all [OF s, of "{#}"] by (simp add: terminated_def merge_sets_union records_def)
  assume ended: "terminated (ho_text h b)"
  let ?adds = "jsonl_additions (complete_lines (ho_text h b)) sources"
  have "set ?adds \<subseteq> set (concat sources)"
    using additions_subseq by (rule subseq_set)
  with lines have "\<forall>l \<in> set ?adds. nl \<notin> set l \<and> ho_text h l = l" by blast
  moreover have "terminated b" using ended decode by (simp add: decodes_records_def)
  ultimately have "records h (b @ join_lines ?adds) = records h b @ ?adds"
    by (intro records_append [OF decode])
  then have "records h (b @ join_lines ?adds) = mergeJsonlLineSetsOnto (complete_lines (ho_text h b)) sources"
    by (simp only: records_text [OF decode, of b] merge_onto_append_additions)
  then show "mset s \<subseteq># mset (records h (b @ join_lines ?adds))"
    using subset_union_all [OF s] by (simp add: merge_onto_adds(2))
qed

lemma set_unique_paths [simp]: "set (unique_paths ps) = set ps"
  by (simp add: unique_paths_def)

text \<open>Property C9. A merge of histories, with other processes appending to them between any two of
  its system calls: whatever its result, no file loses a byte; and when it reports that it merged
  or that there was nothing to add, the destination holds every complete record that any of the
  copies held when it began, as often as that copy held it. The agents append to their histories
  and replace files only by new ones, and the staged copies stay where they are.\<close>

theorem no_record_lost:
  assumes only: "appends_only h" and ids: "new_ids_unused h" and put: "stays_put h (set paths)"
    and decode: "decodes_records (ho_text h)"
    and run: "mergeJsonlFiles h paths dest False pass w0 = (r, pass', w')"
  shows "appended w0 w'
    \<and> (r \<in> {Inr Merged, Inr Unchanged} \<longrightarrow>
       (\<forall>p \<in> set paths. \<forall>b. bytes_at w0 p = Some b \<longrightarrow>
          (\<exists>d. bytes_at w' dest = Some d \<and> mset (records h b) \<subseteq># mset (records h d))))"
proof (intro conjI impI ballI allI)
  show "appended w0 w'" using merge_files_appended [OF only ids, of w0 paths dest False pass] run by simp
  fix p b assume ok: "r \<in> {Inr Merged, Inr Unchanged}" and p: "p \<in> set paths" and b: "bytes_at w0 p = Some b"
  let ?ps = "unique_paths paths"
  from p have "?ps \<noteq> []" by (metis empty_iff list.set(1) set_unique_paths)
  with run ok obtain sources w2 where reads: "read_sources h ?ps (adv h w0) = (Inr sources, w2)"
    by (auto simp: mergeJsonlFiles_def Let_def split: prod.splits sum.splits)
  from stays_put_bytes [OF put p only b] obtain b' where b': "bytes_at (adv h w0) p = Some b'" "prefix b b'" by blast
  from read_sources_covers [OF only _ decode reads _ b'(1)] put p obtain s where
    s: "s \<in> set sources" "mset (records h b') \<subseteq># mset s" by auto
  with records_mono [OF b'(2), of h] have covered: "mset (records h b) \<subseteq># mset s"
    by (auto intro: subset_mset.trans)
  note lines = ballI [OF sources_are_lines [OF reads decode]]
  note holds = merged_holds_sources [OF decode lines s(1)]
  show "\<exists>d. bytes_at w' dest = Some d \<and> mset (records h b) \<subseteq># mset (records h d)"
  proof (cases "stat (adv h w0) dest = None")
    case True
    with run reads \<open>?ps \<noteq> []\<close> ok obtain r' where "create_history h dest False sources w2 = (Inr r', w')"
      "r' \<in> {Merged, Unchanged}"
      by (auto simp: mergeJsonlFiles_def Let_def split: prod.splits)
    from create_history_exact [OF only this] holds(1) covered show ?thesis
      by (auto intro: subset_mset.trans)
  next
    case False
    with run reads \<open>?ps \<noteq> []\<close> ok obtain r' where "extend_history h dest False sources pass w2 = (r', pass', w')"
      "r' \<in> {Merged, Unchanged}"
      by (auto simp: mergeJsonlFiles_def Let_def split: prod.splits)
    from extend_history_exact [OF only this] holds(2) covered show ?thesis
      by (auto intro: subset_mset.trans)
  qed
qed

text \<open>A receiver whose agent appends a record while the sources are read.\<close>

definition live_id :: file_id where "live_id = Device_Inode 1 10"
definition staged_id :: file_id where "staged_id = Device_Inode 1 11"

definition agent_appends :: "nat \<Rightarrow> disk \<Rightarrow> disk" where
  "agent_appends n w = (if n = 1 then write_end live_id (''c'' @ [nl]) w else w)"

definition quiet_host :: "(nat \<Rightarrow> disk \<Rightarrow> disk) \<Rightarrow> host" where
  "quiet_host others = \<lparr>ho_others = others, ho_realpath = (\<lambda>w p. Real_Path p),
     ho_owner_direct = (\<lambda>w p. Some False), ho_open_paths = (\<lambda>w. None),
     ho_owner_before_write = (\<lambda>w p. Some False), ho_may_open = (\<lambda>w p. True),
     ho_write = (\<lambda>w b. Some (length b)), ho_fsync = (\<lambda>w. True), ho_new_id = (\<lambda>w. None),
     ho_text = (\<lambda>b. b)\<rparr>"

definition no_lookups :: owner_pass where
  "no_lookups = \<lparr>op_lookups = 0, op_snapshot = None, op_known = Map.empty\<rparr>"

definition two_copies :: "string \<Rightarrow> string \<Rightarrow> disk" where
  "two_copies live staged =
     \<lparr>dk_paths = [''live'' \<mapsto> live_id, ''staged'' \<mapsto> staged_id],
      dk_files = [live_id \<mapsto> \<lparr>df_bytes = live, df_mtime = 1\<rparr>, staged_id \<mapsto> \<lparr>df_bytes = staged, df_mtime = 1\<rparr>],
      dk_now = 2, dk_steps = 0\<rparr>"

lemma quiet_host_laws:
  "\<forall>n w. appended w (others n w) \<Longrightarrow> appends_only (quiet_host others)"
  "\<forall>n w. dk_paths (others n w) = dk_paths w \<Longrightarrow> stays_put (quiet_host others) P"
  "new_ids_unused (quiet_host others)"
  "decodes_records (ho_text (quiet_host others))"
  by (simp_all add: appends_only_def stays_put_def new_ids_unused_def decodes_records_def quiet_host_def)

lemma agent_appends_laws:
  "appended w (agent_appends n w)" "dk_paths (agent_appends n w) = dk_paths w"
  by (simp_all add: agent_appends_def appended_write_end) (simp add: write_end_def)

definition concurrent_run :: "(sync_error + merge_result) \<times> owner_pass \<times> disk" where
  "concurrent_run = mergeJsonlFiles (quiet_host agent_appends) [''staged''] ''live'' False no_lookups
     (two_copies [CHR ''a'', nl] [CHR ''a'', nl, CHR ''b'', nl])"

lemma concurrent_run_result:
  "fst concurrent_run = Inr Merged"
  "bytes_at (snd (snd concurrent_run)) ''live'' = Some [CHR ''a'', nl, CHR ''c'', nl, CHR ''b'', nl]"
  by code_simp+

theorem no_record_lost_witness:
  "fst concurrent_run = Inr Merged
   \<and> appended (two_copies [CHR ''a'', nl] [CHR ''a'', nl, CHR ''b'', nl]) (snd (snd concurrent_run))
   \<and> (\<exists>d. bytes_at (snd (snd concurrent_run)) ''live'' = Some d
        \<and> {#''a'', ''b''#} \<subseteq># mset (records (quiet_host agent_appends) d))"
proof -
  let ?h = "quiet_host agent_appends"
  let ?w0 = "two_copies [CHR ''a'', nl] [CHR ''a'', nl, CHR ''b'', nl]"
  have laws: "appends_only ?h" "stays_put ?h (set [''staged''])"
    using quiet_host_laws agent_appends_laws by auto
  have "mergeJsonlFiles ?h [''staged''] ''live'' False no_lookups ?w0
      = (fst concurrent_run, fst (snd concurrent_run), snd (snd concurrent_run))"
    by (simp add: concurrent_run_def)
  note run = no_record_lost [OF laws(1) quiet_host_laws(3) laws(2) quiet_host_laws(4) this]
  have "bytes_at ?w0 ''staged'' = Some [CHR ''a'', nl, CHR ''b'', nl]"
    by (simp add: two_copies_def bytes_at_def live_id_def staged_id_def)
  moreover have "records ?h [CHR ''a'', nl, CHR ''b'', nl] = [''a'', ''b'']"
    by (simp add: records_def complete_lines_def quiet_host_def)
  ultimately show ?thesis using run concurrent_run_result(1) by fastforce
qed

text \<open>Bytes that are no UTF-8 text are replaced by the text read: a history created from such a copy
  is not the copy, although every copy of the other transfer path is taken byte by byte.\<close>

lemma malformed_bytes_are_replaced:
  assumes "appends_only h" "decodes_records (ho_text h)" "read_sources h [p] w = (Inr sources, w1)"
    and "bytes_at (adv h w) p = Some b" "terminated b" "ho_text h b \<noteq> b"
    and "create_history h dest False sources w1 = (Inr Merged, w')"
  shows "bytes_at w' dest \<noteq> Some b"
proof -
  have sources: "sources = [complete_lines (ho_text h b)]" using assms(3,4) by (simp add: Let_def)
  have "mergeJsonlLineSets [ls] = ls" for ls :: "string list"
    using merge_onto_append_additions [of ls "[ls]"] additions_empty_iff [of ls "[ls]"]
    by (simp add: mergeJsonlLineSets_def)
  then have "bytes_at w' dest = Some (join_lines (complete_lines (ho_text h b)))"
    using create_history_exact [OF assms(1,7)] sources by simp
  also have "join_lines (complete_lines (ho_text h b)) = ho_text h b"
  proof (rule join_lines_complete)
    show "terminated (ho_text h b)" using assms(2,5) by (simp add: decodes_records_def)
  qed
  finally show ?thesis using assms(6) by simp
qed

section \<open>A tail merges like the whole history\<close>

lemma tail_appended:
  assumes "appends_only h"
  shows "appended w0 (snd (snd (mergeJsonlTail h digest dest off pre tl_bytes pass w0)))"
proof -
  let ?w1 = "adv h w0"
  define w2 where "w2 = (if complete_lines tl_bytes = [] then ?w1 else adv h ?w1)"
  let ?w3 = "adv h w2" let ?w4 = "adv h ?w3" let ?w5 = "adv h ?w4"
  have w1: "appended w0 ?w1" using assms by (rule appended_adv)
  then have w2: "appended w0 w2" using assms by (simp add: w2_def appended_adv_trans)
  then have steps: "appended w0 ?w3" "appended w0 ?w4" "appended w0 ?w5"
    using assms by (auto intro!: appended_steps_intros)
  have "appended w0 (snd (snd (appendJsonlPayload h dest before payload pass' ?w5)))" for before payload pass'
    using appended_trans [OF steps(3) append_payload_appended [OF assms]] .
  with w1 w2 steps show ?thesis
    unfolding mergeJsonlTail_def Let_def w2_def [symmetric]
    by (simp split: option.splits prod.splits) (metis snd_conv)
qed

text \<open>Content seen between two equal snapshots is the content.\<close>

lemma between_snapshots:
  assumes "appended w w'" "appended w' w''" "stat w p = Some s" "stat w'' p = Some s"
  shows "\<exists>b. bytes_at w p = Some b \<and> bytes_at w' p = Some b \<and> bytes_at w'' p = Some b
            \<and> length b = sn_size s \<and> holds_prefix w'' (sn_id s) b"
proof -
  from assms(3) have p: "dk_paths w p = Some (sn_id s)" and "fstat w (sn_id s) = Some s"
    by (simp_all add: stat_Some)
  then obtain f where f: "dk_files w (sn_id s) = Some f" "length (df_bytes f) = sn_size s"
    unfolding fstat_Some by (metis snapshot.select_convs(2))
  from grownD [OF appended_grown [OF assms(1)] f(1)]
  obtain f' where f': "dk_files w' (sn_id s) = Some f'" "prefix (df_bytes f) (df_bytes f')" by blast
  from grownD [OF appended_grown [OF assms(2)] f'(1)]
  obtain f'' where f'': "dk_files w'' (sn_id s) = Some f''" "prefix (df_bytes f') (df_bytes f'')" by blast
  from assms(4) have p'': "dk_paths w'' p = Some (sn_id s)" and "fstat w'' (sn_id s) = Some s"
    by (simp_all add: stat_Some)
  with f''(1) have size: "length (df_bytes f'') = sn_size s"
    unfolding fstat_Some by (metis option.inject snapshot.select_convs(2))
  have p': "dk_paths w' p = Some (sn_id s)" using appended_path [OF assms(2) p'' f'(1)] .
  have "df_bytes f = df_bytes f''"
    using f(2) size prefix_order.trans [OF f'(2) f''(2)] by (auto simp: prefix_def)
  moreover from this have "df_bytes f' = df_bytes f"
    using f'(2) f''(2) by (simp add: prefix_order.antisym)
  ultimately show ?thesis
    using f f' f'' p p' p'' by (auto simp: bytes_at_def holds_prefix_def)
qed

lemma union_after_prefix: "(p::'a multiset) + (a \<union># b) = (p + a) \<union># (p + b)"
  by (rule multiset_eqI) simp

lemma tail_union:
  assumes "terminated p" "terminated x"
  shows "mset (complete_lines (p @ x @ join_lines (jsonl_additions (complete_lines x) [complete_lines t])))
       = mset (mergeJsonlLineSetsOnto (complete_lines (p @ x)) [complete_lines (p @ t)])"
proof -
  let ?adds = "jsonl_additions (complete_lines x) [complete_lines t]"
  have "set ?adds \<subseteq> set (complete_lines t)"
    using subseq_set [OF additions_subseq, of "complete_lines x" "[complete_lines t]"] by simp
  then have "\<forall>l \<in> set ?adds. nl \<notin> set l" using complete_lines_no_nl by blast
  then have "complete_lines (x @ join_lines ?adds) = mergeJsonlLineSetsOnto (complete_lines x) [complete_lines t]"
    using assms(2) by (simp add: complete_lines_append complete_lines_join merge_onto_append_additions)
  then have "mset (complete_lines (p @ x @ join_lines ?adds))
      = mset (complete_lines p) + (mset (complete_lines x) \<union># mset (complete_lines t))"
    using assms(1) by (simp add: complete_lines_append merge_one)
  also have "\<dots> = mset (mergeJsonlLineSetsOnto (complete_lines (p @ x)) [complete_lines (p @ t)])"
    using assms(1) by (simp add: merge_one complete_lines_append union_after_prefix)
  finally show ?thesis .
qed

lemma read_range_rest: "off \<le> length b \<Longrightarrow> read_range b off (length b - off) = drop off b"
  by (simp add: read_range_def)

lemma append_payload_not_unchanged: "appendJsonlPayload h dest before payload pass w \<noteq> (Unchanged, pass', w')"
  by (auto simp: appendJsonlPayload_def append_open_def write_checked_def Let_def
      split: prod.splits option.splits bool.splits if_splits)

text \<open>The course of a tail merge that succeeds.\<close>

lemma tail_course:
  assumes run: "mergeJsonlTail h digest dest off pre tl_bytes pass w0 = (Tail r, pass', w')"
    and r: "r \<in> {Merged, Unchanged}"
  obtains before w2 b3 where "stat (adv h w0) dest = Some before" "off \<le> sn_size before"
    "w2 = adv h w0 \<or> w2 = adv h (adv h w0)"
    "bytes_at (adv h w2) dest = Some b3" "off \<le> length b3" "digest (take off b3) = pre"
    "complete_lines tl_bytes = [] \<and> w' = adv h w2 \<or>
     (\<exists>b4 p. let w4 = adv h (adv h w2); w5 = adv h w4; extra = read_range b4 off (sn_size before - off);
                additions = jsonl_additions (complete_lines extra) [complete_lines tl_bytes] in
       bytes_at w4 dest = Some b4 \<and> stat w5 dest = Some before \<and> terminated extra
       \<and> (additions = [] \<and> w' = w5
          \<or> appendJsonlPayload h dest before (join_lines additions) p w5 = (Merged, pass', w')))"
proof -
  define w2 where "w2 = (if complete_lines tl_bytes = [] then adv h w0 else adv h (adv h w0))"
  from run obtain before where before: "stat (adv h w0) dest = Some before" "\<not> sn_size before < off"
    by (auto simp: mergeJsonlTail_def Let_def split: option.splits if_splits)
  obtain owner p where who: "(if complete_lines tl_bytes = [] then (Some False, pass) else hasOpenOwner h w2 dest pass) = (owner, p)"
    by fastforce
  note step = run [unfolded mergeJsonlTail_def Let_def, folded w2_def, simplified before who option.case prod.case if_False]
  from step r have free: "owner = Some False" by (auto split: if_splits)
  from step r free obtain b3 where b3: "bytes_at (adv h w2) dest = Some b3" "off \<le> length b3" "digest (take off b3) = pre"
    by (auto split: option.splits if_splits)
  note step2 = step [simplified free b3 option.case]
  have "w2 = adv h w0 \<or> w2 = adv h (adv h w0)" by (simp add: w2_def)
  moreover have "complete_lines tl_bytes = [] \<and> w' = adv h w2 \<or>
     (\<exists>b4 p. let w4 = adv h (adv h w2); w5 = adv h w4; extra = read_range b4 off (sn_size before - off);
                additions = jsonl_additions (complete_lines extra) [complete_lines tl_bytes] in
       bytes_at w4 dest = Some b4 \<and> stat w5 dest = Some before \<and> terminated extra
       \<and> (additions = [] \<and> w' = w5
          \<or> appendJsonlPayload h dest before (join_lines additions) p w5 = (Merged, pass', w')))"
  proof (cases "complete_lines tl_bytes = []")
    case True
    with step2 b3 show ?thesis by (auto split: if_splits)
  next
    case False
    with step2 b3 r show ?thesis
      by (auto simp: Let_def append_payload_not_unchanged split: option.splits if_splits prod.splits)
  qed
  ultimately show thesis using that before b3 by auto
qed

text \<open>The end of a tail merge whose contents lie between two equal snapshots.\<close>

lemma tail_ending:
  assumes only: "appends_only h" and b: "bytes_at w dest = Some b" "length b = sn_size before"
      "holds_prefix w (sn_id before) b" "off \<le> length b"
    and common: "take off b = take off sent" and ended: "terminated (take off sent)" "terminated (drop off b)"
    and additions: "additions = jsonl_additions (complete_lines (drop off b)) [complete_lines (drop off sent)]"
    and course: "additions = [] \<and> w' = w
      \<or> appendJsonlPayload h dest before (join_lines additions) p w = (Merged, pass', w')"
  shows "appended w w' \<and> (\<exists>d. bytes_at w' dest = Some d \<and> prefix b d
    \<and> mset (complete_lines d) = mset (mergeJsonlLineSetsOnto (complete_lines b) [complete_lines sent]))"
proof -
  have whole: "take off sent @ drop off b = b" using common by (metis append_take_drop_id)
  have union: "mset (complete_lines (b @ join_lines additions))
      = mset (mergeJsonlLineSetsOnto (complete_lines b) [complete_lines sent])"
    using tail_union [OF ended, of "drop off sent"] whole additions by (metis append.assoc append_take_drop_id)
  have "bytes_at w' dest = Some (b @ join_lines additions)"
    using course b(1) append_payload_exact [OF only _ b(3,2)] by (auto simp: join_lines_def)
  moreover have "appended w w'"
  proof -
    have "appended w (snd (snd (appendJsonlPayload h dest before (join_lines additions) p w)))"
      using only by (rule append_payload_appended)
    with course show ?thesis by auto
  qed
  ultimately show ?thesis using union by (metis prefixI)
qed

text \<open>A tail without a complete record adds nothing.\<close>

lemma tail_without_record:
  assumes "take off b = take off sent" "terminated (take off sent)" "complete_lines (drop off sent) = []"
  shows "mergeJsonlLineSetsOnto (complete_lines b) [complete_lines sent] = complete_lines b"
proof -
  have "complete_lines sent = complete_lines (take off sent)"
    using complete_lines_append [OF assms(2), of "drop off sent"] assms(3) by simp
  moreover have "prefix (complete_lines (take off sent)) (complete_lines b)"
    by (rule complete_lines_mono) (metis assms(1) take_is_prefix)
  ultimately have "jsonl_additions (complete_lines b) [complete_lines sent] = []"
    by (simp add: additions_empty_iff mset_prefix)
  then show ?thesis by (simp add: merge_onto_append_additions)
qed

text \<open>Appending a tail is merging the whole history: when the sender's first bytes, named by their
  digest, end with a complete record, a tail merge that reports success leaves the destination with
  exactly the records that a merge of the sender's whole file into the destination's contents at
  some moment of the call holds. The digest must not collide on what the destination held.\<close>

lemma tail_merge_is_whole_merge:
  assumes only: "appends_only h"
    and digest: "\<And>w b. \<lbrakk>appended w0 w; appended w w'; bytes_at w dest = Some b; digest (take off b) = digest (take off sent);
        off \<le> length b\<rbrakk>
      \<Longrightarrow> take off b = take off sent"
    and off: "off \<le> length sent" and ended: "terminated (take off sent)"
    and run: "mergeJsonlTail h digest dest off (digest (take off sent)) (drop off sent) pass w0 = (Tail r, pass', w')"
    and r: "r \<in> {Merged, Unchanged}"
  shows "\<exists>w b d. appended w0 w \<and> appended w w' \<and> bytes_at w dest = Some b \<and> bytes_at w' dest = Some d
    \<and> prefix b d \<and> mset (complete_lines d) = mset (mergeJsonlLineSetsOnto (complete_lines b) [complete_lines sent])"
proof -
  let ?P = "take off sent" and ?T = "drop off sent"
  from tail_course [OF run r] obtain before w2 b3 where before: "stat (adv h w0) dest = Some before" "off \<le> sn_size before"
    and w2: "w2 = adv h w0 \<or> w2 = adv h (adv h w0)"
    and b3: "bytes_at (adv h w2) dest = Some b3" "off \<le> length b3" "digest (take off b3) = digest ?P"
    and course: "complete_lines ?T = [] \<and> w' = adv h w2 \<or>
     (\<exists>b4 p. let w4 = adv h (adv h w2); w5 = adv h w4; extra = read_range b4 off (sn_size before - off);
                additions = jsonl_additions (complete_lines extra) [complete_lines ?T] in
       bytes_at w4 dest = Some b4 \<and> stat w5 dest = Some before \<and> terminated extra
       \<and> (additions = [] \<and> w' = w5
          \<or> appendJsonlPayload h dest before (join_lines additions) p w5 = (Merged, pass', w')))" .
  let ?w3 = "adv h w2" let ?w4 = "adv h ?w3" let ?w5 = "adv h ?w4"
  have w3: "appended w0 ?w3" "appended (adv h w0) ?w3"
    using w2 only by (auto intro!: appended_steps_intros)
  have later: "appended ?w3 ?w5" "appended (adv h w0) ?w4" "appended ?w4 ?w5" "appended w0 ?w5"
    using w3 only by (auto intro!: appended_steps_intros)
  have "appended ?w3 (snd (snd (appendJsonlPayload h dest before x p ?w5)))" for x p
    using later(1) append_payload_appended [OF only] by (rule appended_trans)
  with course later(1) have "appended ?w3 w'" by (auto simp: Let_def) (metis snd_conv)+
  from digest [OF w3(1) this b3(1,3,2)] have common: "take off b3 = ?P" .
  from course show ?thesis
  proof (elim disjE exE)
    assume "complete_lines ?T = [] \<and> w' = ?w3"
    with tail_without_record [OF common ended] b3(1) w3(1) show ?thesis
      by (metis appended_refl prefix_order.refl)
  next
    fix b4 p
    assume "let w4 = ?w4; w5 = adv h w4; extra = read_range b4 off (sn_size before - off);
        additions = jsonl_additions (complete_lines extra) [complete_lines ?T] in
      bytes_at w4 dest = Some b4 \<and> stat w5 dest = Some before \<and> terminated extra
      \<and> (additions = [] \<and> w' = w5
         \<or> appendJsonlPayload h dest before (join_lines additions) p w5 = (Merged, pass', w'))"
    note c = this [unfolded Let_def]
    then have "bytes_at ?w4 dest = Some b4" "stat ?w5 dest = Some before" by blast+
    with between_snapshots [OF later(2,3) before(1)] between_snapshots [OF w3(2) later(1) before(1)] b3(1)
    obtain b where b: "bytes_at ?w5 dest = Some b" "length b = sn_size before" "holds_prefix ?w5 (sn_id before) b"
      "b4 = b" "b3 = b" by auto
    have extra: "read_range b4 off (sn_size before - off) = drop off b"
      using read_range_rest [of off b] b b3(2) by simp
    have "off \<le> length b" "take off b = ?P" "terminated (drop off b)" using b b3(2) common c extra by auto
    from tail_ending [OF only b(1-3) this(1,2) ended this(3) refl] c b(1) later(4) show ?thesis
      unfolding extra by blast
  qed
qed

text \<open>The sender's tail arrives while the receiver's own record is already behind the common prefix;
  bytes are their own digest in the examples.\<close>

definition tail_run :: "nat \<Rightarrow> string \<Rightarrow> string \<Rightarrow> tail_result \<times> owner_pass \<times> disk" where
  "tail_run off live sent =
     mergeJsonlTail (quiet_host (\<lambda>n w. w)) id ''live'' off (id (take off sent)) (drop off sent)
       no_lookups (two_copies live ''x'')"

lemma tail_run_result:
  "fst (tail_run 2 [CHR ''a'', nl, CHR ''b'', nl] [CHR ''a'', nl, CHR ''c'', nl]) = Tail Merged"
  "bytes_at (snd (snd (tail_run 2 [CHR ''a'', nl, CHR ''b'', nl] [CHR ''a'', nl, CHR ''c'', nl]))) ''live''
     = Some [CHR ''a'', nl, CHR ''b'', nl, CHR ''c'', nl]"
  by code_simp+

text \<open>The hypothesis on the common prefix is needed and the code does not check it: the receiver's
  listing may end inside a record that its agent is writing, and the sender's next record may
  begin with the same bytes. The tail then begins inside a record, and the rest of the sender's
  record is appended as a record of its own: the history gets a record that no host wrote, and
  the sender's record is missing.\<close>

lemma tail_can_cut_a_record:
  defines "live \<equiv> [CHR ''<'', CHR ''1'', CHR ''a'', CHR ''>'', nl]"
    and "sent \<equiv> [CHR ''<'', CHR ''1'', CHR ''b'', CHR ''>'', nl]"
  shows "fst (tail_run 2 live sent) = Tail Merged"
    and "map_option complete_lines (bytes_at (snd (snd (tail_run 2 live sent))) ''live'') = Some [''<1a>'', ''b>'']"
    and "''b>'' \<notin> set (complete_lines live) \<union> set (complete_lines sent)"
    and "''<1b>'' \<in> set (complete_lines sent)"
  unfolding live_def sent_def by code_simp+

end
