(* ===== verification/Tail_Sync.thy ===== *)
theory Tail_Sync
  imports Jsonl_Append Browser_Hub
begin

text \<open>
  Sending only the end of a history (\<open>src/sync/tail-sync.ts\<close>, \<open>applyTails\<close> of \<open>src/sync/tree-merge.ts\<close>): the
  digest of a prefix with its cache of block digests, what the sender plans, and how the receiver
  applies a plan it does not trust. SHA-256 in hexadecimal is a parameter; a call sees one content of
  the file it holds open. Offsets and sizes are natural numbers and times whole milliseconds; the
  receiver computes its digest without the cache, which \<open>prefix_cached\<close> shows to be the same.
\<close>

section \<open>The digest of a prefix\<close>

definition BLOCK :: nat where
  "BLOCK = 262144"

definition WINDOW :: nat where
  "WINDOW = 65536"

lemma BLOCK_pos [simp]: "0 < BLOCK"
  by (simp add: BLOCK_def)

text \<open>\<open>readAt\<close>: \<open>n\<close> bytes from a position, or nothing when the file ends before.\<close>

definition readAt :: "string \<Rightarrow> nat \<Rightarrow> nat \<Rightarrow> string option" where
  "readAt b position n = (if n = 0 \<or> position + n \<le> length b then Some (take n (drop position b)) else None)"

definition windowOf :: "(string \<Rightarrow> string) \<Rightarrow> string \<Rightarrow> nat \<Rightarrow> string option" where
  "windowOf sha b covered =
     (let n = min covered WINDOW in map_option sha (if n = 0 then Some '''' else readAt b (covered - n) n))"

record prefix_entry =
  pe_ino :: file_id
  pe_size :: nat
  pe_mtime :: int
  pe_window :: string
  pe_blocks :: "string list"

text \<open>The loop that reads the blocks the cache does not know.\<close>

fun read_blocks :: "(string \<Rightarrow> string) \<Rightarrow> string \<Rightarrow> nat \<Rightarrow> nat \<Rightarrow> string list option" where
  "read_blocks sha b i 0 = Some []"
| "read_blocks sha b i (Suc n) =
     (case readAt b (i * BLOCK) BLOCK of
        None \<Rightarrow> None
      | Some bytes \<Rightarrow> map_option (Cons (sha bytes)) (read_blocks sha b (Suc i) n))"

text \<open>The block digests of an entry that may be used for the file: the same inode, long enough, and
  unchanged since or with the same last window.\<close>

definition known_blocks :: "(string \<Rightarrow> string) \<Rightarrow> snapshot \<Rightarrow> string \<Rightarrow> prefix_entry option \<Rightarrow> string list option" where
  "known_blocks sha info b entry =
     (case entry of
        None \<Rightarrow> None
      | Some e \<Rightarrow>
          if pe_ino e = sn_id info \<and> length (pe_blocks e) * BLOCK \<le> sn_size info
             \<and> (pe_size e = sn_size info \<and> pe_mtime e = sn_mtime info
                \<or> windowOf sha b (length (pe_blocks e) * BLOCK) = Some (pe_window e))
          then Some (pe_blocks e) else None)"

definition digest_text :: "(string \<Rightarrow> string) \<Rightarrow> nat \<Rightarrow> string list \<Rightarrow> string \<Rightarrow> string" where
  "digest_text sha len blocks rest = sha (''b1:'' @ decimal len @ '':'' @ concat blocks @ '':'' @ sha rest)"

text \<open>\<open>PrefixCache.prefix\<close>.\<close>

definition cached_prefix ::
  "(string \<Rightarrow> string) \<Rightarrow> snapshot \<Rightarrow> string \<Rightarrow> string \<Rightarrow> nat \<Rightarrow> (string \<rightharpoonup> prefix_entry)
     \<Rightarrow> string option \<times> (string \<rightharpoonup> prefix_entry)" where
  "cached_prefix sha info b path len entries =
     (if len > sn_size info then (None, entries)
      else
        (let need = len div BLOCK; used = known_blocks sha info b (entries path); known = default [] used;
             finish = (\<lambda>blocks entries'.
               (map_option (digest_text sha len blocks) (readAt b (need * BLOCK) (len - need * BLOCK)), entries')) in
         if need > length known then
           (case read_blocks sha b (length known) (need - length known) of
              None \<Rightarrow> (None, entries)
            | Some rest \<Rightarrow>
                (case windowOf sha b (need * BLOCK) of
                   None \<Rightarrow> (None, entries)
                 | Some window \<Rightarrow>
                     finish (take need known @ rest)
                       (entries(path \<mapsto> \<lparr>pe_ino = sn_id info, pe_size = sn_size info, pe_mtime = sn_mtime info,
                                       pe_window = window, pe_blocks = take need known @ rest\<rparr>))))
         else if used \<noteq> None then
           finish (take need known)
             (entries(path := map_option (\<lambda>e. e\<lparr>pe_size := sn_size info, pe_mtime := sn_mtime info\<rparr>) (entries path)))
         else finish (take need known) entries))"

section \<open>The cache does not change the digest\<close>

definition block_digests :: "(string \<Rightarrow> string) \<Rightarrow> string \<Rightarrow> nat \<Rightarrow> string list" where
  "block_digests sha b n = map (\<lambda>i. sha (take BLOCK (drop (i * BLOCK) b))) [0..<n]"

definition prefix_digest :: "(string \<Rightarrow> string) \<Rightarrow> nat \<Rightarrow> string \<Rightarrow> string" where
  "prefix_digest sha len b =
     digest_text sha len (block_digests sha b (len div BLOCK)) (drop (len div BLOCK * BLOCK) (take len b))"

text \<open>The blocks of an entry are those of the file it names, which may have grown.\<close>

definition entry_ok :: "(string \<Rightarrow> string) \<Rightarrow> disk \<Rightarrow> prefix_entry \<Rightarrow> bool" where
  "entry_ok sha w e \<longleftrightarrow>
     (\<exists>b. holds_prefix w (pe_ino e) b \<and> length (pe_blocks e) * BLOCK \<le> length b
        \<and> pe_blocks e = block_digests sha b (length (pe_blocks e)))"

definition prefix_cache_ok :: "(string \<Rightarrow> string) \<Rightarrow> disk \<Rightarrow> (string \<rightharpoonup> prefix_entry) \<Rightarrow> bool" where
  "prefix_cache_ok sha w entries \<longleftrightarrow> (\<forall>p e. entries p = Some e \<longrightarrow> entry_ok sha w e)"

lemma prefix_cache_ok_grown: "prefix_cache_ok sha w entries \<Longrightarrow> appended w w' \<Longrightarrow> prefix_cache_ok sha w' entries"
  unfolding prefix_cache_ok_def entry_ok_def by (meson holds_prefix_grown)

lemma block_within: "prefix b b' \<Longrightarrow> i * BLOCK + BLOCK \<le> length b \<Longrightarrow>
  take BLOCK (drop (i * BLOCK) b') = take BLOCK (drop (i * BLOCK) b)"
  by (auto simp: prefix_def)

lemma block_digests_grown:
  assumes "prefix b b'" "n * BLOCK \<le> length b"
  shows "block_digests sha b' n = block_digests sha b n"
proof -
  have "sha (take BLOCK (drop (i * BLOCK) b')) = sha (take BLOCK (drop (i * BLOCK) b))" if "i < n" for i
  proof -
    have "Suc i * BLOCK \<le> n * BLOCK" using that by (intro mult_right_mono) auto
    then have "i * BLOCK + BLOCK \<le> length b" using assms(2) by simp
    from block_within [OF assms(1) this] show ?thesis by simp
  qed
  then show ?thesis by (simp add: block_digests_def)
qed

lemma read_blocks_digests:
  "(i + n) * BLOCK \<le> length b \<Longrightarrow>
   read_blocks sha b i n = Some (map (\<lambda>i. sha (take BLOCK (drop (i * BLOCK) b))) [i..<i + n])"
proof (induction n arbitrary: i)
  case (Suc n)
  have "i * BLOCK + BLOCK = (i + 1) * BLOCK" by simp
  also have "\<dots> \<le> (i + Suc n) * BLOCK" by (intro mult_right_mono) simp_all
  also note Suc.prems
  finally have "i * BLOCK + BLOCK \<le> length b" .
  then have "readAt b (i * BLOCK) BLOCK = Some (take BLOCK (drop (i * BLOCK) b))"
    by (simp add: readAt_def)
  moreover have "[i..<i + Suc n] = i # [Suc i..<Suc i + n]" by (simp add: upt_conv_Cons)
  ultimately show ?case using Suc.IH [of "Suc i"] Suc.prems by simp
qed simp

lemma block_digests_split:
  "m \<le> n \<Longrightarrow> block_digests sha b m @ map (\<lambda>i. sha (take BLOCK (drop (i * BLOCK) b))) [m..<m + (n - m)] = block_digests sha b n"
proof -
  assume "m \<le> n"
  then have "[0..<n] = [0..<m] @ [m..<m + (n - m)]" by (metis le_add_diff_inverse upt_add_eq_append zero_le)
  then show ?thesis by (simp add: block_digests_def)
qed

lemma take_block_digests: "n \<le> m \<Longrightarrow> take n (block_digests sha b m) = block_digests sha b n"
  by (simp add: block_digests_def take_map)

lemma known_blocks_right:
  assumes "entry_ok sha w e" and held: "dk_files w (sn_id info) = Some f" "df_bytes f = b" "sn_size info = length b"
    and "known_blocks sha info b (Some e) = Some ks"
  shows "ks = pe_blocks e \<and> pe_ino e = sn_id info \<and> length ks * BLOCK \<le> length b \<and> ks = block_digests sha b (length ks)"
proof -
  from assms(5) have e: "ks = pe_blocks e" "pe_ino e = sn_id info" "length ks * BLOCK \<le> length b"
    using held(3) by (auto simp: known_blocks_def split: if_splits)
  from assms(1) obtain b0 where b0: "holds_prefix w (pe_ino e) b0" "length (pe_blocks e) * BLOCK \<le> length b0"
    "pe_blocks e = block_digests sha b0 (length (pe_blocks e))" by (auto simp: entry_ok_def)
  with e held have "prefix b0 b" by (simp add: holds_prefix_def)
  with block_digests_grown [OF this b0(2), of sha] b0(3) e show ?thesis by simp
qed

lemma readAt_rest:
  "len \<le> length b \<Longrightarrow> readAt b (len div BLOCK * BLOCK) (len - len div BLOCK * BLOCK)
     = Some (drop (len div BLOCK * BLOCK) (take len b))"
  by (auto simp: readAt_def drop_take)

lemma window_there: "covered \<le> length b \<Longrightarrow> \<exists>x. windowOf sha b covered = Some x"
  by (auto simp: windowOf_def readAt_def Let_def)

lemma prefix_cached:
  assumes cache: "prefix_cache_ok sha w entries" and held: "dk_files w (sn_id info) = Some f" "df_bytes f = b" "sn_size info = length b"
  shows "fst (cached_prefix sha info b path len entries)
           = (if len \<le> length b then Some (prefix_digest sha len b) else None)
       \<and> prefix_cache_ok sha w (snd (cached_prefix sha info b path len entries))"
proof (cases "len \<le> length b")
  case False
  then show ?thesis using cache held(3) by (simp add: cached_prefix_def)
next
  case True
  let ?need = "len div BLOCK"
  let ?used = "known_blocks sha info b (entries path)" let ?known = "default [] ?used"
  have "?need * BLOCK \<le> len" by simp
  with True have need: "?need * BLOCK \<le> length b" by linarith
  have known: "?known = block_digests sha b (length ?known)"
  proof (cases ?used)
    case None
    then show ?thesis by (simp add: block_digests_def)
  next
    case (Some ks)
    then obtain e where "entries path = Some e" by (auto simp: known_blocks_def split: option.splits)
    with Some have "known_blocks sha info b (Some e) = Some ks" by simp
    moreover have "entry_ok sha w e" using cache \<open>entries path = Some e\<close> by (simp add: prefix_cache_ok_def)
    ultimately have "ks = block_digests sha b (length ks)" using known_blocks_right [OF _ held] by blast
    with Some show ?thesis by (simp only: default_simps)
  qed
  show ?thesis
  proof (cases "?need > length ?known")
    case True
    then have sum: "length ?known + (?need - length ?known) = ?need" by simp
    have reading: "read_blocks sha b (length ?known) (?need - length ?known)
        = Some (map (\<lambda>i. sha (take BLOCK (drop (i * BLOCK) b))) [length ?known..<length ?known + (?need - length ?known)])"
      using need sum by (intro read_blocks_digests) simp
    have "take ?need ?known @ map (\<lambda>i. sha (take BLOCK (drop (i * BLOCK) b))) [length ?known..<length ?known + (?need - length ?known)]
        = block_digests sha b ?need"
      using block_digests_split [of "length ?known" ?need sha b] known True by simp
    moreover obtain x where "windowOf sha b (?need * BLOCK) = Some x" using window_there [OF need] by blast
    moreover have "entry_ok sha w \<lparr>pe_ino = sn_id info, pe_size = sn_size info, pe_mtime = sn_mtime info,
        pe_window = x, pe_blocks = block_digests sha b ?need\<rparr>"
      using held need by (auto simp: entry_ok_def holds_prefix_def block_digests_def)
    ultimately show ?thesis
      using True \<open>len \<le> length b\<close> held(3) reading cache readAt_rest [of len b]
      by (simp add: cached_prefix_def Let_def prefix_digest_def prefix_cache_ok_def)
  next
    case False
    then have "take ?need ?known = block_digests sha b ?need"
      using take_block_digests [of ?need "length ?known" sha b] known by simp
    moreover have "prefix_cache_ok sha w (entries(path := map_option (\<lambda>e. e\<lparr>pe_size := s, pe_mtime := m\<rparr>) (entries path)))" for s m
      using cache by (auto simp: prefix_cache_ok_def entry_ok_def)
    ultimately show ?thesis
      using False \<open>len \<le> length b\<close> held(3) cache readAt_rest [of len b]
      by (cases ?used) (simp_all add: cached_prefix_def Let_def prefix_digest_def)
  qed
qed


text \<open>A file that grew since its entry was written: its digest is that of the file.\<close>

definition grown_entry :: prefix_entry where
  "grown_entry = \<lparr>pe_ino = live_id, pe_size = 1, pe_mtime = 1, pe_window = '''', pe_blocks = []\<rparr>"

definition grown_info :: snapshot where
  "grown_info = \<lparr>sn_id = live_id, sn_size = 3, sn_mtime = 5\<rparr>"


section \<open>The sender's plan\<close>

definition TAIL_MIN_BYTES :: nat where
  "TAIL_MIN_BYTES = 1048576"

definition LIVE_HISTORY_MS :: int where
  "LIVE_HISTORY_MS = 86400000"

record history_info =
  hi_size :: nat
  hi_mtime :: int

record tail_entry =
  te_offset :: nat
  te_size :: nat
  te_mtime :: int
  te_prefix :: string

text \<open>What becomes of one history: left to the bulk transfer, kept out of it, or planned with the bytes
  written for it.\<close>

datatype plan_answer = Plan_Skip | Plan_Deferred | Plan_Tail tail_entry string

text \<open>The body of the loop of \<open>planTails\<close> for a history both sides have. \<open>opened\<close> is the snapshot and the
  content of the handle, \<open>later\<close> its content when the bytes are copied, \<open>steady\<close> whether the path still
  leads to the inode and the file is no shorter afterwards.\<close>

definition plan_tail ::
  "(string \<Rightarrow> string) \<Rightarrow> int \<Rightarrow> (snapshot \<times> string) option \<Rightarrow> string \<Rightarrow> history_info \<Rightarrow> string \<Rightarrow> bool
     \<Rightarrow> (string \<rightharpoonup> prefix_entry) \<Rightarrow> plan_answer \<times> (string \<rightharpoonup> prefix_entry)" where
  "plan_tail sha now opened path theirs later steady entries =
     (case opened of
        None \<Rightarrow> (Plan_Deferred, entries)
      | Some (info, b) \<Rightarrow>
          if sn_size info < TAIL_MIN_BYTES then (Plan_Skip, entries)
          else if sn_size info = hi_size theirs \<and> sn_mtime info div 1000 = hi_mtime theirs div 1000 then
            ((if now - sn_mtime info < LIVE_HISTORY_MS then Plan_Deferred else Plan_Skip), entries)
          else
            (let off = min (sn_size info) (hi_size theirs) in
             case cached_prefix sha info b path off entries of
               (None, entries') \<Rightarrow> (Plan_Deferred, entries')
             | (Some digest, entries') \<Rightarrow>
                 if digest = '''' then (Plan_Deferred, entries')
                 else if \<not> steady then (Plan_Deferred, entries')
                 else (Plan_Tail \<lparr>te_offset = off, te_size = sn_size info, te_mtime = sn_mtime info, te_prefix = digest\<rparr>
                         (take (sn_size info - off) (drop off later)), entries')))"

text \<open>\<open>planTails\<close> over the histories of the receiver's list, which has each path once. \<open>mine\<close> is the
  sender's own listing; \<open>opened\<close>, \<open>later\<close> and \<open>steady\<close> say what each file is found to be. The result is the
  plan with the bytes written beside it, and the deferred histories.\<close>

record tail_plan =
  tp_plan :: "(string \<times> tail_entry \<times> string) list"
  tp_deferred :: "string list"
  tp_cache :: "string \<rightharpoonup> prefix_entry"

definition plan_step ::
  "(string \<Rightarrow> string) \<Rightarrow> int \<Rightarrow> string \<Rightarrow> (string \<Rightarrow> bool) \<Rightarrow> (string \<Rightarrow> (snapshot \<times> string) option) \<Rightarrow> (string \<Rightarrow> string)
     \<Rightarrow> (string \<Rightarrow> bool) \<Rightarrow> string \<times> history_info \<Rightarrow> tail_plan \<Rightarrow> tail_plan" where
  "plan_step sha now home mine opened later steady rt st =
     (let rel = fst rt in
      if \<not> mine rel then st
      else
        (case plan_tail sha now (opened rel) (home @ ''/'' @ rel) (snd rt) (later rel) (steady rel) (tp_cache st) of
           (Plan_Skip, c) \<Rightarrow> st\<lparr>tp_cache := c\<rparr>
         | (Plan_Deferred, c) \<Rightarrow> st\<lparr>tp_deferred := tp_deferred st @ [rel], tp_cache := c\<rparr>
         | (Plan_Tail e bytes, c) \<Rightarrow> st\<lparr>tp_plan := tp_plan st @ [(rel, e, bytes)], tp_cache := c\<rparr>))"

definition planTails ::
  "(string \<Rightarrow> string) \<Rightarrow> int \<Rightarrow> string \<Rightarrow> (string \<Rightarrow> bool) \<Rightarrow> (string \<Rightarrow> (snapshot \<times> string) option) \<Rightarrow> (string \<Rightarrow> string)
     \<Rightarrow> (string \<Rightarrow> bool) \<Rightarrow> (string \<times> history_info) list \<Rightarrow> (string \<rightharpoonup> prefix_entry) \<Rightarrow> tail_plan" where
  "planTails sha now home mine opened later steady receiver cache =
     fold (plan_step sha now home mine opened later steady) receiver
       \<lparr>tp_plan = [], tp_deferred = [], tp_cache = cache\<rparr>"

text \<open>The histories kept out of the bulk transfer.\<close>

definition held_out :: "tail_plan \<Rightarrow> string list" where
  "held_out pl = map fst (tp_plan pl) @ tp_deferred pl"

lemma plan_step_held_out:
  "mset (held_out (plan_step sha now home mine opened later steady rt st)) \<subseteq># add_mset (fst rt) (mset (held_out st))"
  by (simp add: plan_step_def held_out_def Let_def split: prod.splits plan_answer.splits)

lemma plan_fold_held_out:
  "mset (held_out (fold (plan_step sha now home mine opened later steady) receiver st))
     \<subseteq># mset (map fst receiver) + mset (held_out st)"
proof (induction receiver arbitrary: st)
  case Nil
  then show ?case by simp
next
  case (Cons rt receiver)
  let ?st = "plan_step sha now home mine opened later steady rt st"
  have "mset (map fst receiver) + mset (held_out ?st) \<subseteq># mset (map fst receiver) + add_mset (fst rt) (mset (held_out st))"
    by (intro subset_mset.add_left_mono plan_step_held_out)
  with Cons.IH [of ?st] show ?case by (simp add: subset_mset.order_trans)
qed

text \<open>No history is planned twice, or planned and deferred, and only histories of the receiver's list are
  kept out of the bulk transfer.\<close>

lemma plan_once:
  assumes "distinct (map fst receiver)" and "pl = planTails sha now home mine opened later steady receiver cache"
  shows "distinct (held_out pl) \<and> set (held_out pl) \<subseteq> set (map fst receiver)"
proof -
  have sub: "mset (held_out pl) \<subseteq># mset (map fst receiver)"
    using plan_fold_held_out [of sha now home mine opened later steady receiver "\<lparr>tp_plan = [], tp_deferred = [], tp_cache = cache\<rparr>"]
    by (simp add: assms(2) planTails_def held_out_def)
  have "distinct (held_out pl)"
  proof (rule ccontr)
    assume "\<not> distinct (held_out pl)"
    then obtain xs ys zs y where "held_out pl = xs @ [y] @ ys @ [y] @ zs" using not_distinct_decomp by blast
    then have "2 \<le> count (mset (held_out pl)) y" by simp
    also have "\<dots> \<le> count (mset (map fst receiver)) y" by (rule mset_subset_eq_count [OF sub])
    also have "\<dots> \<le> 1" using assms(1) by (simp only: distinct_count_atmost_1) simp
    finally show False by simp
  qed
  moreover have "set (held_out pl) \<subseteq> set (map fst receiver)" using set_mset_mono [OF sub] by simp
  ultimately show ?thesis ..
qed

text \<open>\<open>tailExcludeFilters\<close>: glob characters of a path are escaped. Read without the escapes, a filter is
  the path again.\<close>

definition glob_char :: "char \<Rightarrow> bool" where
  "glob_char c \<longleftrightarrow> c \<in> set ''*?['' \<or> c = CHR 0x5C"

fun glob_escape :: "string \<Rightarrow> string" where
  "glob_escape [] = []"
| "glob_escape (c # cs) = (if glob_char c then CHR 0x5C # c # glob_escape cs else c # glob_escape cs)"

fun glob_literal :: "string \<Rightarrow> string option" where
  "glob_literal [] = Some []"
| "glob_literal (c # cs) =
     (if c = CHR 0x5C then (case cs of [] \<Rightarrow> None | d # ds \<Rightarrow> map_option (Cons d) (glob_literal ds))
      else if glob_char c then None
      else map_option (Cons c) (glob_literal cs))"

definition tailExcludeFilters :: "string list \<Rightarrow> string list \<Rightarrow> string list" where
  "tailExcludeFilters planned deferred = map (\<lambda>rel. ''--exclude=/'' @ glob_escape rel) (planned @ deferred)"

lemma backslash_glob: "glob_char (CHR 0x5C)"
  by (simp add: glob_char_def)

lemma glob_escape_literal: "glob_literal (glob_escape rel) = Some rel"
proof (induction rel)
  case (Cons c cs)
  then show ?case by (cases "glob_char c"; cases "c = CHR 0x5C") (simp_all add: backslash_glob)
qed simp

text \<open>So two paths never share a filter.\<close>

lemma exclude_filters_injective:
  "(''--exclude=/'' @ glob_escape rel = ''--exclude=/'' @ glob_escape rel') = (rel = rel')"
  by (metis append_same_eq glob_escape_literal option.inject same_append_eq)

text \<open>\<open>restrictTo\<close>\<close>

definition restrictTo :: "string list option \<Rightarrow> string list \<Rightarrow> string list" where
  "restrictTo requested allowed = filter (\<lambda>rel. rel \<in> set allowed) (default [] requested)"

section \<open>The receiver\<close>

record tails_state =
  ts_full :: "string list"
  ts_busy :: "string list"
  ts_unfinished :: "string list"
  ts_denied :: "string list"
  ts_merged :: nat

definition tail_allowed :: "bool \<Rightarrow> (string \<rightharpoonup> history_info) \<Rightarrow> string \<Rightarrow> tail_entry \<Rightarrow> bool" where
  "tail_allowed strict expected rel e \<longleftrightarrow>
     ends_with rel ''.jsonl'' \<and> \<not> starts_with rel ''/'' \<and> ''..'' \<notin> set (split_on CHR ''/'' rel)
     \<and> (case expected rel of
          None \<Rightarrow> False
        | Some known \<Rightarrow>
            if strict then te_offset e = min (te_size e) (hi_size known)
            else te_offset e \<le> min (te_size e) (hi_size known))"

definition set_mtime :: "file_id \<Rightarrow> int \<Rightarrow> disk \<Rightarrow> disk" where
  "set_mtime i t w = w\<lparr>dk_files := (dk_files w)(i := map_option (\<lambda>f. f\<lparr>df_mtime := t\<rparr>) (dk_files w i))\<rparr>"

text \<open>The end of the loop body of \<open>applyTails\<close>: with the sender's size after a complete tail the
  modification time is taken over.\<close>

definition adopt_mtime ::
  "host \<Rightarrow> (string \<Rightarrow> bool) \<Rightarrow> string \<Rightarrow> string \<Rightarrow> tail_entry \<Rightarrow> bool \<Rightarrow> tails_state \<Rightarrow> disk \<Rightarrow> tails_state \<times> disk" where
  "adopt_mtime h may_retime dest rel e whole st w0 =
     (let w1 = adv h w0 in
      case stat w1 dest of
        Some info \<Rightarrow>
          if whole \<and> sn_size info = te_size e \<and> sn_mtime info div 1000 \<noteq> te_mtime e div 1000 then
            (if may_retime rel then (st, set_mtime (sn_id info) (te_mtime e) w1)
             else (st\<lparr>ts_denied := ts_denied st @ [rel]\<rparr>, w1))
          else (st, w1)
      | None \<Rightarrow> (st, w1))"

text \<open>The loop body of \<open>applyTails\<close>; \<open>tails\<close> are the files staged beside the plan.\<close>

definition apply_tail ::
  "host \<Rightarrow> (string \<Rightarrow> string) \<Rightarrow> (string \<Rightarrow> bool) \<Rightarrow> bool \<Rightarrow> (string \<rightharpoonup> history_info) \<Rightarrow> (string \<rightharpoonup> string) \<Rightarrow> string
     \<Rightarrow> string \<times> tail_entry \<Rightarrow> tails_state \<times> owner_pass \<times> disk \<Rightarrow> tails_state \<times> owner_pass \<times> disk" where
  "apply_tail h sha may_retime strict expected tails home re s =
     (let rel = fst re; e = snd re; st = fst s; pass = fst (snd s); w = snd (snd s);
          full = st\<lparr>ts_full := ts_full st @ [rel]\<rparr>; dest = home @ ''/'' @ rel in
      if \<not> tail_allowed strict expected rel e then (full, pass, w)
      else
        (case tails rel of
           None \<Rightarrow> (full, pass, w)
         | Some t \<Rightarrow>
             if length t \<noteq> te_size e - te_offset e then (full, pass, w)
             else
               (case mergeJsonlTail h (prefix_digest sha (te_offset e)) dest (te_offset e) (te_prefix e) t pass w of
                  (Diverged, pass', w') \<Rightarrow> (full, pass', w')
                | (Tail Deferred, pass', w') \<Rightarrow> (full, pass', w')
                | (Tail Busy, pass', w') \<Rightarrow> (st\<lparr>ts_busy := ts_busy st @ [rel]\<rparr>, pass', w')
                | (Tail r, pass', w') \<Rightarrow>
                    (let st1 = (if r = Merged then st\<lparr>ts_merged := ts_merged st + 1\<rparr> else st);
                         st2 = (if terminated t then st1 else st1\<lparr>ts_unfinished := ts_unfinished st1 @ [rel]\<rparr>) in
                     case adopt_mtime h may_retime dest rel e (terminated t) st2 w' of (st3, w'') \<Rightarrow> (st3, pass', w'')))))"

text \<open>\<open>applyTails\<close>; an unreadable plan sends every expected history whole. The lookup of open files in
  advance (\<open>prefetchOpenOwners\<close>) is the \<open>op_known\<close> of the pass.\<close>

definition applyTails ::
  "host \<Rightarrow> (string \<Rightarrow> string) \<Rightarrow> (string \<Rightarrow> bool) \<Rightarrow> bool \<Rightarrow> (string \<times> history_info) list \<Rightarrow> (string \<rightharpoonup> string) \<Rightarrow> string
     \<Rightarrow> (string \<times> tail_entry) list option \<Rightarrow> tails_state \<times> owner_pass \<times> disk \<Rightarrow> tails_state \<times> owner_pass \<times> disk" where
  "applyTails h sha may_retime strict expected tails home plan s =
     (case plan of
        None \<Rightarrow> ((fst s)\<lparr>ts_full := ts_full (fst s) @ map fst expected\<rparr>, snd s)
      | Some entries \<Rightarrow> fold (apply_tail h sha may_retime strict (map_of expected) tails home) entries s)"

section \<open>Sender and receiver together\<close>

text \<open>No other bytes have the digest of this prefix.\<close>

definition no_second_preimage :: "(string \<Rightarrow> string) \<Rightarrow> nat \<Rightarrow> string \<Rightarrow> bool" where
  "no_second_preimage sha off b \<longleftrightarrow>
     (\<forall>x. off \<le> length x \<and> prefix_digest sha off x = prefix_digest sha off b \<longrightarrow> take off x = take off b)"

lemma block_digests_take:
  assumes "n * BLOCK \<le> off"
  shows "block_digests sha (take off b) n = block_digests sha b n"
proof -
  have "take BLOCK (drop (i * BLOCK) (take off b)) = take BLOCK (drop (i * BLOCK) b)" if "i < n" for i
  proof -
    have "Suc i * BLOCK \<le> n * BLOCK" using that by (intro mult_right_mono) auto
    with assms have "BLOCK \<le> off - i * BLOCK" by simp
    then show ?thesis by (simp add: drop_take min_def)
  qed
  then show ?thesis by (simp add: block_digests_def)
qed

lemma prefix_digest_take [simp]: "prefix_digest sha off (take off b) = prefix_digest sha off b"
  by (simp add: prefix_digest_def block_digests_take)

lemma plan_tail_sound:
  assumes "prefix_cache_ok sha ws entries" "dk_files ws (sn_id info) = Some f" "df_bytes f = b" "sn_size info = length b"
    and "prefix b later" and "fst (plan_tail sha now (Some (info, b)) path theirs later steady entries) = Plan_Tail e t"
  shows "te_offset e = min (length b) (hi_size theirs) \<and> te_size e = length b
    \<and> te_prefix e = prefix_digest sha (te_offset e) b \<and> t = drop (te_offset e) b"
proof -
  let ?off = "min (length b) (hi_size theirs)"
  have digest: "fst (cached_prefix sha info b path ?off entries) = Some (prefix_digest sha ?off b)"
    using prefix_cached [OF assms(1-4), of path ?off] by simp
  then obtain entries' where c: "cached_prefix sha info b path ?off entries = (Some (prefix_digest sha ?off b), entries')"
    by (metis prod.collapse)
  have "take (length b - ?off) (drop ?off later) = drop ?off b"
    using assms(5) by (auto simp: prefix_def min_def)
  with assms(4,6) c show ?thesis
    by (auto simp: plan_tail_def Let_def split: if_splits)
qed

text \<open>Property C10. From plan to history: the sender plans the tail of a file that other processes may
  extend meanwhile, the receiver, whose file others may extend too, applies it, and reports success.
  Then the receiver's file holds exactly the records of a merge of the sender's whole file into what the
  receiver's file held at some moment of the call, and begins with those bytes. The common
  prefix has to end with a complete record.\<close>

theorem planned_tail_merges:
  assumes sender: "prefix_cache_ok sha ws entries" "dk_files ws (sn_id info) = Some f" "df_bytes f = b" "sn_size info = length b"
      "prefix b later"
    and plan: "fst (plan_tail sha now (Some (info, b)) path theirs later steady entries) = Plan_Tail e t"
    and ended: "terminated (take (te_offset e) b)" and digest: "no_second_preimage sha (te_offset e) b"
    and only: "appends_only h" and r: "r \<in> {Merged, Unchanged}"
    and run: "mergeJsonlTail h (prefix_digest sha (te_offset e)) dest (te_offset e) (te_prefix e) t pass w0 = (Tail r, pass', w')"
  shows "length t = te_size e - te_offset e \<and> appended w0 w'
    \<and> (\<exists>w c d. appended w0 w \<and> appended w w' \<and> bytes_at w dest = Some c \<and> bytes_at w' dest = Some d \<and> prefix c d
        \<and> mset (complete_lines d) = mset (complete_lines c) \<union># mset (complete_lines b))"
proof -
  from plan_tail_sound [OF sender plan] have e: "te_offset e \<le> length b" "te_size e = length b"
    "te_prefix e = prefix_digest sha (te_offset e) (take (te_offset e) b)" "t = drop (te_offset e) b" by simp_all
  have same: "take (te_offset e) x = take (te_offset e) b"
    if "appended w0 w" "appended w w'" "bytes_at w dest = Some x"
      "prefix_digest sha (te_offset e) (take (te_offset e) x) = prefix_digest sha (te_offset e) (take (te_offset e) b)"
      "te_offset e \<le> length x" for w x
    using that(4,5) digest by (simp add: no_second_preimage_def)
  note run' = run [unfolded e(3,4)]
  from tail_merge_is_whole_merge [OF only same e(1) ended run' r]
  have "\<exists>w c d. appended w0 w \<and> appended w w' \<and> bytes_at w dest = Some c \<and> bytes_at w' dest = Some d \<and> prefix c d
        \<and> mset (complete_lines d) = mset (mergeJsonlLineSetsOnto (complete_lines c) [complete_lines b])" .
  moreover have "appended w0 w'" using calculation appended_trans by blast
  ultimately show ?thesis using e by (simp add: merge_one)
qed

text \<open>A sender whose receiver is ahead: proving the prefix is enough.\<close>

definition big_history :: string where
  "big_history = replicate TAIL_MIN_BYTES nl"

definition big_info :: snapshot where
  "big_info = \<lparr>sn_id = staged_id, sn_size = TAIL_MIN_BYTES, sn_mtime = 1\<rparr>"

definition ahead :: history_info where
  "ahead = \<lparr>hi_size = TAIL_MIN_BYTES + 2, hi_mtime = 9000\<rparr>"

definition big_disk :: disk where
  "big_disk = two_copies (big_history @ ''a'' @ [nl]) big_history"

definition big_entry :: tail_entry where
  "big_entry = \<lparr>te_offset = TAIL_MIN_BYTES, te_size = TAIL_MIN_BYTES, te_mtime = 1,
     te_prefix = prefix_digest (\<lambda>s. s) TAIL_MIN_BYTES big_history\<rparr>"

lemma length_big [simp]: "length big_history = TAIL_MIN_BYTES"
  by (simp add: big_history_def)

lemma concat_blocks: "n * BLOCK \<le> length b \<Longrightarrow> concat (block_digests (\<lambda>s. s) b n) = take (n * BLOCK) b"
proof (induction n)
  case (Suc n)
  have "n * BLOCK \<le> length b" using Suc.prems by simp
  from Suc.IH [OF this] have "concat (block_digests (\<lambda>s. s) b (Suc n)) = take (n * BLOCK) b @ take BLOCK (drop (n * BLOCK) b)"
    by (simp add: block_digests_def)
  also have "\<dots> = take (n * BLOCK + BLOCK) b" by (simp add: take_add)
  finally show ?case by (simp add: add.commute)
qed (simp add: block_digests_def)

lemma identity_no_second_preimage:
  assumes "off \<le> length b"
  shows "no_second_preimage (\<lambda>s. s) off b"
proof -
  have full: "prefix_digest (\<lambda>s. s) off x
      = ''b1:'' @ decimal off @ '':'' @ take (off div BLOCK * BLOCK) x @ '':'' @ drop (off div BLOCK * BLOCK) (take off x)"
    if "off \<le> length x" for x
  proof -
    have "off div BLOCK * BLOCK \<le> length x" using that by (meson div_times_less_eq_dividend le_trans)
    from concat_blocks [OF this] show ?thesis by (simp add: prefix_digest_def digest_text_def)
  qed
  have "take off x = take off b" if "off \<le> length x" "prefix_digest (\<lambda>s. s) off x = prefix_digest (\<lambda>s. s) off b" for x
  proof -
    let ?n = "off div BLOCK * BLOCK"
    have le: "?n \<le> off" by simp
    from that full [OF that(1)] full [OF assms]
    have "take ?n x @ '':'' @ drop ?n (take off x) = take ?n b @ '':'' @ drop ?n (take off b)" by simp
    moreover have "?n \<le> length x" "?n \<le> length b" using le that(1) assms by (meson le_trans)+
    then have "length (take ?n x) = length (take ?n b)" by simp
    ultimately have "take ?n x = take ?n b" "drop ?n (take off x) = drop ?n (take off b)" by simp_all
    then show ?thesis using le by (metis append_take_drop_id min.absorb1 take_take)
  qed
  then show ?thesis by (simp add: no_second_preimage_def)
qed

lemma big_plan:
  "fst (plan_tail (\<lambda>s. s) 0 (Some (big_info, big_history)) ''p'' ahead big_history True Map.empty) = Plan_Tail big_entry ''''"
proof -
  have "fst (cached_prefix (\<lambda>s. s) big_info big_history ''p'' TAIL_MIN_BYTES Map.empty) = Some (te_prefix big_entry)"
    using prefix_cached [of "\<lambda>s. s" big_disk Map.empty big_info _ big_history "''p''" TAIL_MIN_BYTES]
    by (simp add: prefix_cache_ok_def big_info_def big_disk_def big_entry_def two_copies_def)
  then obtain entries' where "cached_prefix (\<lambda>s. s) big_info big_history ''p'' TAIL_MIN_BYTES Map.empty = (Some (te_prefix big_entry), entries')"
    by (metis prod.collapse)
  moreover have "te_prefix big_entry \<noteq> ''''" by (simp add: big_entry_def prefix_digest_def digest_text_def)
  ultimately show ?thesis by (simp add: plan_tail_def big_info_def ahead_def big_entry_def Let_def)
qed

lemma big_run:
  "mergeJsonlTail (quiet_host (\<lambda>n w. w)) (prefix_digest (\<lambda>s. s) TAIL_MIN_BYTES) ''live'' TAIL_MIN_BYTES (te_prefix big_entry) ''''
     no_lookups big_disk = (Tail Unchanged, no_lookups, big_disk\<lparr>dk_steps := 2\<rparr>)"
proof -
  have "prefix_digest (\<lambda>s. s) TAIL_MIN_BYTES (big_history @ x) = prefix_digest (\<lambda>s. s) TAIL_MIN_BYTES big_history" for x
    using prefix_digest_take [of "\<lambda>s. s" TAIL_MIN_BYTES "big_history @ x"] by simp
  then show ?thesis
    by (simp add: mergeJsonlTail_def Let_def adv_def quiet_host_def big_disk_def two_copies_def stat_def fstat_def bytes_at_def
        big_entry_def prefix_digest_take live_id_def staged_id_def del: prefix_digest_take)
qed

theorem planned_tail_merges_witness:
  "\<exists>c d. bytes_at (big_disk\<lparr>dk_steps := 2\<rparr>) ''live'' = Some d \<and> prefix c d
     \<and> mset (complete_lines d) = mset (complete_lines c) \<union># mset (complete_lines big_history)"
proof -
  have sender: "prefix_cache_ok (\<lambda>s. s) big_disk Map.empty" "dk_files big_disk (sn_id big_info) = Some \<lparr>df_bytes = big_history, df_mtime = 1\<rparr>"
    "df_bytes \<lparr>df_bytes = big_history, df_mtime = 1\<rparr> = big_history" "sn_size big_info = length big_history" "prefix big_history big_history"
    by (simp_all add: prefix_cache_ok_def big_disk_def big_info_def two_copies_def)
  have off: "te_offset big_entry = TAIL_MIN_BYTES" by (simp add: big_entry_def)
  have "terminated (take (te_offset big_entry) big_history)"
    by (cases "TAIL_MIN_BYTES = 0") (simp_all add: off terminated_def big_history_def last_replicate)
  moreover have "no_second_preimage (\<lambda>s. s) (te_offset big_entry) big_history"
    by (rule identity_no_second_preimage) (simp add: off)
  moreover have "appends_only (quiet_host (\<lambda>n w. w))" by (rule quiet_host_laws) simp
  moreover have "Unchanged \<in> {Merged, Unchanged}" by simp
  ultimately show ?thesis
    using planned_tail_merges [OF sender big_plan, of "quiet_host (\<lambda>n w. w)" Unchanged "''live''" no_lookups big_disk] big_run off
    by auto
qed

section \<open>A plan is not trusted\<close>

text \<open>What a step leaves alone when no other process acts: the paths, and every file but one.\<close>

definition undisturbed :: "host \<Rightarrow> bool" where
  "undisturbed h \<longleftrightarrow> (\<forall>n w. ho_others h n w = w)"

definition untouched :: "file_id \<Rightarrow> disk \<Rightarrow> disk \<Rightarrow> bool" where
  "untouched i w w' \<longleftrightarrow> dk_files w' i = dk_files w i \<and> dk_paths w' = dk_paths w"

lemma untouched_refl [simp]: "untouched i w w"
  by (simp add: untouched_def)

lemma untouched_trans: "untouched i w w' \<Longrightarrow> untouched i w' w'' \<Longrightarrow> untouched i w w''"
  by (simp add: untouched_def)

lemma untouched_adv: "undisturbed h \<Longrightarrow> untouched i w w' \<Longrightarrow> untouched i w (adv h w')"
  by (simp add: untouched_def adv_def undisturbed_def)

lemma untouched_write: "i \<noteq> fd \<Longrightarrow> untouched i w w' \<Longrightarrow> untouched i w (write_end fd b w')"
  by (simp add: untouched_def write_end_def)

lemmas untouched_intros = untouched_refl untouched_adv untouched_write

lemma write_checked_untouched:
  "undisturbed h \<Longrightarrow> i \<noteq> fd \<Longrightarrow> untouched i w0 (snd (write_checked h dest before payload fd w0))"
  by (auto simp: write_checked_def Let_def split: option.splits intro!: untouched_intros)

lemma unchanged_since_untouched: "undisturbed h \<Longrightarrow> untouched i w0 (snd (unchanged_since h dest before fd w0))"
  by (auto simp: unchanged_since_def Let_def intro!: untouched_intros)

lemma append_open_untouched:
  assumes "undisturbed h" "i \<noteq> fd"
  shows "untouched i w0 (snd (append_open h dest before payload fd w0))"
proof -
  note un = unchanged_since_untouched [OF assms(1), of i _ dest before fd]
  obtain b1 w1 where first: "unchanged_since h dest before fd w0 = (b1, w1)" by fastforce
  with un [of w0] have w1: "untouched i w0 w1" by simp
  let ?w2 = "adv h w1" let ?w3 = "adv h ?w2"
  have w3: "untouched i w0 ?w2" "untouched i w0 ?w3" using w1 assms by (auto intro!: untouched_intros)
  obtain b4 w4 where second: "unchanged_since h dest before fd ?w3 = (b4, w4)" by fastforce
  with un [of ?w3] w3 have w4: "untouched i w0 w4" by (auto intro: untouched_trans)
  with write_checked_untouched [OF assms, of w4 dest before payload]
  have "untouched i w0 (snd (write_checked h dest before payload fd w4))" by (auto intro: untouched_trans)
  then show ?thesis using w1 w3 w4
    by (cases b1; cases b4; simp add: append_open_def first second Let_def)
qed

lemma append_payload_untouched:
  assumes "undisturbed h" "dk_paths w0 dest \<noteq> Some i"
  shows "untouched i w0 (snd (snd (appendJsonlPayload h dest before payload pass w0)))"
proof -
  let ?w1 = "adv h w0" let ?w2 = "adv h ?w1"
  have steps: "untouched i w0 ?w1" "untouched i w0 ?w2" using assms(1) by (auto intro!: untouched_intros)
  have "untouched i w0 (snd (append_open h dest before payload fd ?w2))" if "open_append h ?w2 dest = Some fd" for fd
  proof -
    have "dk_paths ?w2 = dk_paths w0" using steps(2) by (simp add: untouched_def)
    with that assms(2) have "i \<noteq> fd" by (auto simp: open_append_def split: option.splits if_splits)
    from append_open_untouched [OF assms(1) this] steps(2) show ?thesis by (rule untouched_trans [rotated])
  qed
  with steps show ?thesis
    by (auto simp: appendJsonlPayload_def Let_def split: prod.splits option.splits)
qed

lemma tail_untouched:
  assumes "undisturbed h" "dk_paths w0 dest \<noteq> Some i"
  shows "untouched i w0 (snd (snd (mergeJsonlTail h digest dest off pre tl_bytes pass w0)))"
proof -
  let ?w1 = "adv h w0"
  define w2 where "w2 = (if complete_lines tl_bytes = [] then ?w1 else adv h ?w1)"
  let ?w3 = "adv h w2" let ?w4 = "adv h ?w3" let ?w5 = "adv h ?w4"
  have w1: "untouched i w0 ?w1" and w2: "untouched i w0 w2" and steps: "untouched i w0 ?w3" "untouched i w0 ?w4" "untouched i w0 ?w5"
    using assms(1) by (auto simp: w2_def intro!: untouched_intros)
  then have "dk_paths ?w5 dest \<noteq> Some i" using assms(2) by (simp add: untouched_def)
  from append_payload_untouched [OF assms(1) this]
  have "untouched i w0 (snd (snd (appendJsonlPayload h dest before payload pass' ?w5)))" for before payload pass'
    using steps(3) by (rule untouched_trans [rotated])
  with w1 w2 steps show ?thesis
    unfolding mergeJsonlTail_def Let_def w2_def [symmetric]
    by (simp split: option.splits prod.splits) (metis snd_conv)
qed

lemma adopt_untouched:
  assumes "undisturbed h" "dk_paths w0 dest \<noteq> Some i"
  shows "untouched i w0 (snd (adopt_mtime h may_retime dest rel e whole st w0))"
proof -
  have w1: "untouched i w0 (adv h w0)" using assms(1) by (auto intro!: untouched_intros)
  then have "stat (adv h w0) dest = Some info \<Longrightarrow> sn_id info \<noteq> i" for info
    using assms(2) by (auto simp: untouched_def stat_Some)
  with w1 show ?thesis
    by (auto simp: adopt_mtime_def Let_def untouched_def set_mtime_def split: option.splits)
qed

lemma adopt_appended:
  assumes "appends_only h"
  shows "appended w0 (snd (adopt_mtime h may_retime dest rel e whole st w0))"
proof -
  have "appended w (set_mtime i t w)" for i t w
    by (auto simp: appended_def grown_def set_mtime_def)
  with appended_adv [OF assms, of w0] show ?thesis
    by (auto simp: adopt_mtime_def Let_def split: option.splits intro: appended_trans)
qed

lemma adopt_state: "ts_full (fst (adopt_mtime h may_retime dest rel e whole st w)) = ts_full st"
  by (auto simp: adopt_mtime_def Let_def split: option.splits)

lemma apply_tail_untouched:
  assumes "undisturbed h" "tail_allowed strict expected (fst re) (snd re) \<Longrightarrow> dk_paths (snd (snd s)) (home @ ''/'' @ fst re) \<noteq> Some i"
  shows "untouched i (snd (snd s)) (snd (snd (apply_tail h sha may_retime strict expected tails home re s)))"
proof (cases "tail_allowed strict expected (fst re) (snd re)")
  case False
  then show ?thesis by (simp add: apply_tail_def Let_def)
next
  case True
  let ?dest = "home @ ''/'' @ fst re" and ?w = "snd (snd s)"
  note away = assms(2) [OF True]
  show ?thesis
  proof (cases "tails (fst re)")
    case None
    then show ?thesis by (simp add: apply_tail_def Let_def True)
  next
    case (Some t)
    let ?w' = "snd (snd (mergeJsonlTail h (prefix_digest sha (te_offset (snd re))) ?dest (te_offset (snd re))
        (te_prefix (snd re)) t (fst (snd s)) ?w))"
    have w': "untouched i ?w ?w'" using tail_untouched [OF assms(1) away] .
    with away have "dk_paths ?w' ?dest \<noteq> Some i" by (simp add: untouched_def)
    from adopt_untouched [OF assms(1) this] w'
    have "untouched i ?w (snd (adopt_mtime h may_retime ?dest (fst re) (snd re) whole st ?w'))" for whole st
      by (blast intro: untouched_trans)
    with w' show ?thesis
      by (simp add: apply_tail_def Let_def True Some case_prod_beta split: tail_result.splits merge_result.splits)
  qed
qed

lemma apply_tail_full:
  "\<exists>more. ts_full (fst (apply_tail h sha may_retime strict expected tails home re s)) = ts_full (fst s) @ more
     \<and> (\<not> tail_allowed strict expected (fst re) (snd re) \<longrightarrow> more = [fst re])"
  by (simp add: apply_tail_def Let_def case_prod_beta adopt_state split: option.splits tail_result.splits merge_result.splits)

lemma apply_tail_appended:
  assumes "appends_only h"
  shows "appended (snd (snd s)) (snd (snd (apply_tail h sha may_retime strict expected tails home re s)))"
proof (cases "tails (fst re)")
  case None
  then show ?thesis by (simp add: apply_tail_def Let_def)
next
  case (Some t)
  let ?w = "snd (snd s)" and ?dest = "home @ ''/'' @ fst re"
  let ?w' = "snd (snd (mergeJsonlTail h (prefix_digest sha (te_offset (snd re))) ?dest (te_offset (snd re))
      (te_prefix (snd re)) t (fst (snd s)) ?w))"
  have w': "appended ?w ?w'" using assms by (rule tail_appended)
  with adopt_appended [OF assms, of ?w']
  have "appended ?w (snd (adopt_mtime h may_retime ?dest (fst re) (snd re) whole st ?w'))" for whole st
    by (blast intro: appended_trans)
  with w' show ?thesis
    by (simp add: apply_tail_def Let_def Some case_prod_beta split: tail_result.splits merge_result.splits)
qed

lemma apply_tails_appended:
  "appends_only h \<Longrightarrow> appended (snd (snd s)) (snd (snd (fold (apply_tail h sha may_retime strict expected tails home) plan s)))"
proof (induction plan arbitrary: s)
  case Nil
  then show ?case by simp
next
  case (Cons re plan)
  show ?case
    using appended_trans [OF apply_tail_appended [OF Cons.prems] Cons.IH [OF Cons.prems]] by simp
qed

lemma plan_contained:
  assumes calm: "undisturbed h"
    and away: "\<And>rel e. \<lbrakk>(rel, e) \<in> set plan; tail_allowed strict (map_of expected) rel e\<rbrakk>
      \<Longrightarrow> dk_paths (snd (snd s)) (home @ ''/'' @ rel) \<noteq> Some i"
    and run: "applyTails h sha may_retime strict expected tails home (Some plan) s = s'"
  shows "dk_files (snd (snd s')) i = dk_files (snd (snd s)) i \<and> appended (snd (snd s)) (snd (snd s'))
    \<and> (\<forall>(rel, e) \<in> set plan. tail_allowed strict (map_of expected) rel e \<or> rel \<in> set (ts_full (fst s')))"
proof -
  let ?step = "apply_tail h sha may_retime strict (map_of expected) tails home"
  have "untouched i (snd (snd s)) (snd (snd (fold ?step plan s)))
      \<and> (\<exists>more. ts_full (fst (fold ?step plan s)) = ts_full (fst s) @ more
           \<and> (\<forall>(rel, e) \<in> set plan. tail_allowed strict (map_of expected) rel e \<or> rel \<in> set more))"
    using away
  proof (induction plan arbitrary: s)
    case (Cons re plan)
    let ?s = "?step re s"
    have first: "untouched i (snd (snd s)) (snd (snd ?s))"
      using Cons.prems [of "fst re" "snd re"] by (intro apply_tail_untouched [OF calm]) simp
    then have paths: "dk_paths (snd (snd ?s)) = dk_paths (snd (snd s))" by (simp add: untouched_def)
    have "untouched i (snd (snd ?s)) (snd (snd (fold ?step plan ?s)))
      \<and> (\<exists>more. ts_full (fst (fold ?step plan ?s)) = ts_full (fst ?s) @ more
           \<and> (\<forall>(rel, e) \<in> set plan. tail_allowed strict (map_of expected) rel e \<or> rel \<in> set more))"
      by (rule Cons.IH) (use Cons.prems paths in auto)
    moreover obtain more where "ts_full (fst ?s) = ts_full (fst s) @ more"
        "tail_allowed strict (map_of expected) (fst re) (snd re) \<or> more = [fst re]"
      using apply_tail_full [of h sha may_retime strict "map_of expected" tails home re s] by blast
    ultimately show ?case using untouched_trans [OF first] by (cases re) fastforce
  qed simp
  moreover have "appends_only h" using calm by (simp add: appends_only_def undisturbed_def)
  then have "appended (snd (snd s)) (snd (snd (fold ?step plan s)))" by (rule apply_tails_appended)
  ultimately show ?thesis using run by (auto simp: applyTails_def untouched_def)
qed


text \<open>A plan that names a file outside and one at a wrong offset.\<close>

definition hostile_plan :: "(string \<times> tail_entry) list" where
  "hostile_plan = [(''../x.jsonl'', \<lparr>te_offset = 0, te_size = 1, te_mtime = 0, te_prefix = ''''\<rparr>),
     (''a.jsonl'', \<lparr>te_offset = 5, te_size = 9, te_mtime = 0, te_prefix = ''''\<rparr>)]"

definition known_histories :: "(string \<times> history_info) list" where
  "known_histories = [(''../x.jsonl'', \<lparr>hi_size = 1, hi_mtime = 0\<rparr>), (''a.jsonl'', \<lparr>hi_size = 3, hi_mtime = 0\<rparr>)]"

definition no_tails :: tails_state where
  "no_tails = \<lparr>ts_full = [], ts_busy = [], ts_unfinished = [], ts_denied = [], ts_merged = 0\<rparr>"

lemma hostile_refused:
  "\<lbrakk>(rel, e) \<in> set hostile_plan; map_of known_histories rel = Some known; ''..'' \<notin> set (split_on CHR ''/'' rel);
    te_offset e \<le> min (te_size e) (hi_size known)\<rbrakk> \<Longrightarrow> False"
  by (auto simp: hostile_plan_def known_histories_def)


end
