(* ===== verification/Spec2Isabelle.thy ===== *)
theory Spec2Isabelle
  imports Identity_Colour Directory_Match Resolve Grant_Heal Body_Budget Ledger_Buffer
    Gateway_Request Gateway_Sources Browser_Pairing Spend_Guard Tail_Sync
begin

text \<open>
  A verification development for the core of AISwitcher, the TypeScript program under
  \<open>src/src\<close> that runs several accounts of AI command line tools beside each other.

  \<^bold>\<open>The program.\<close> An identity is a named config directory of one tool. The registry file lists the
  identities of a tool with directory patterns; a launch resolves one identity (flag, environment
  or directory) and starts the tool with it. A swap pool is an identity whose directory holds the
  login of one of its member identities at a time. When the active member runs into its limit the
  pool swaps: the credentials in the pool directory are written back to the member that owns them
  and those of another member are copied in, under locks shared with other processes; the swap is
  recorded in a ledger.

  \<^bold>\<open>Theories\<close>, in import order.
  \<^item> \<open>Prelude\<close>: JSON values with the JavaScript rules the code relies on (truthiness, trimming,
    number to string), results as \<open>error + 'a\<close>, lists, maps and words shared by all parts.
  \<^item> \<open>Host_Path\<close>, \<open>Directory_Match\<close>: \<open>identities/match.ts\<close> and \<open>chrome-profile.ts\<close>. Paths are
    strings, resolved by \<open>path_resolve\<close> as Node does; the environment, the home directory and
    \<open>realpath\<close> are a record \<open>host_env\<close>. The matching loop is shown equal to its specification.
  \<^item> \<open>Identity_Model\<close>, \<open>Identity_Colour\<close>: the types of \<open>types.ts\<close>, errors, tool table,
    retirement, and the colours with their 32-bit hash.
  \<^item> \<open>Registry_Store\<close>, \<open>Registry_Laws\<close>: \<open>store.ts\<close>, from raw JSON to a registry and back.
  \<^item> \<open>Swap_Pool\<close>, \<open>Resolve\<close>: \<open>pool/swap-pool.ts\<close>, \<open>resolve.ts\<close>.
  \<^item> \<open>Swap_Ledger\<close>, \<open>Pool_Adapter\<close>, \<open>Pool_Swap\<close>: the ledger, the adapter interface, and the swap
    itself. A world is the registry file, the ledger and the credential store; what other processes
    do while the swap waits is the record \<open>interference\<close> of arbitrary functions.
  \<^item> \<open>Pool_Ops\<close>, \<open>Pool_Ops_Laws\<close>, \<open>Pool_Scheduler\<close>, \<open>Pool_Launch\<close>: the choice of a member,
    \<open>swapIfLimited\<close>, the polling scheduler as a step function with an inductive history relation,
    and the check before a launch.
  \<^item> \<open>Lock_Order\<close>, \<open>Token_Account\<close>, \<open>Grant_File\<close>, \<open>Grant_Adapters\<close>, \<open>Grant_Laws\<close>: the locks, and the
    adapters whose credentials are one JSON file (Kimi and Pi), with what their swap and repair keep.
  \<^item> \<open>Grant_Pool\<close>, \<open>Grant_Heal\<close>: the grant-file adapter under the pool swap (registry, ledger and
    directory agree), what its swaps and repairs keep of the grants, and how the pool core reads
    an exhausted member of such a pool.
  \<^item> \<open>Body_Budget\<close>: \<open>gateway/body-budget.ts\<close>, the bound on the request bodies held for replay, with
    the reachable states as an inductive predicate.
  \<^item> \<open>Model_Pricing\<close>, \<open>Usage_Tap\<close>: \<open>identities/model-pricing.ts\<close> with its tables, and the
    observer of response bodies of \<open>gateway/usage.ts\<close>, shown independent of the cutting into chunks
    and bounded in memory.
  \<^item> \<open>Gateway_Store\<close>, \<open>Ledger_Buffer\<close>: \<open>gateway/types.ts\<close>, \<open>browser/types.ts\<close>, the in-memory
    store of \<open>gateway/store.ts\<close> and the write-behind buffer of \<open>gateway/ledger-buffer.ts\<close>, whose
    drain is split at every \<open>await\<close> into the steps of a machine.
  \<^item> \<open>Gateway_Access\<close>: \<open>tokens.ts\<close>, \<open>auth.ts\<close>, \<open>caps.ts\<close>, \<open>errors.ts\<close> and the token routes of
    \<open>admin.ts\<close>. SHA-256 and random bytes are arguments.
  \<^item> \<open>Gateway_Cache\<close>: the cached view of apps and tokens of \<open>cache-store.ts\<close> as a machine whose writes
    and warm-ups are split at every answer of the store.
  \<^item> \<open>Gateway_Select\<close>, \<open>Gateway_Limit\<close>, \<open>Gateway_Provider\<close>: \<open>select.ts\<close>, \<open>native-limit.ts\<close>, the
    adapters under \<open>providers\<close>, and the parts of \<open>app.ts\<close> that read quota answers and build the
    upstream headers. \<open>Number(string)\<close> is written out; \<open>Date.parse\<close> is a parameter.
  \<^item> \<open>Model_Scan\<close>: the byte scanner of \<open>app.ts\<close> for the model of a request, with the grammar of JSON
    texts it is compared with.
  \<^item> \<open>Gateway_Proxy\<close>, \<open>Gateway_Request\<close>: \<open>proxy\<close> of \<open>app.ts\<close>. The first holds the attempts for one
    identity and the failover between the members of a pool, the second everything around them, from
    the body and the token to the usage row and the events of the relayed stream. The world is a type
    parameter; what an \<open>await\<close> lets others do is a function on the state.

  \<^item> \<open>Gateway_Credentials\<close>: \<open>credentials.ts\<close> and \<open>alerts.ts\<close>. The refresh after a 401 is a task that
    advances one answer at a time; the states that requests, reads and other processes can reach are
    an inductive predicate.
  \<^item> \<open>Gateway_Admin\<close>, \<open>Gateway_Sources\<close>: the other routes of \<open>admin.ts\<close>, and what \<open>serve.ts\<close> and
    \<open>usage-source.ts\<close> read between requests.
  \<^item> \<open>Browser_Hub\<close>, \<open>Browser_Routing\<close>: the relay between agents and browser extensions
    (\<open>gateway/browser/hub.ts\<close>, \<open>auth.ts\<close>, \<open>routing.ts\<close>, \<open>browser/protocol.ts\<close>). Sockets, token checks, calls,
    time-outs and revocations are the events of a machine in any order; its reachable states are an
    inductive predicate.
  \<^item> \<open>Pair_Limiter\<close>, \<open>Browser_Pairing\<close>: pairing a browser (\<open>gateway/browser/pair.ts\<close>, \<open>admin.ts\<close>). Polls and
    approvals are tasks that stop at every answer of the store.
  \<^item> \<open>Spend_State\<close>, \<open>Spend_Guard\<close>: the AWS spend control of \<open>spend\<close>, \<open>server/spend-guard.ts\<close> and
    \<open>identities/aws-profile.ts\<close>: configuration, the state of an account, its cache, the launch gate, the cycle
    over the accounts and the daemon that terminates sessions.
  \<^item> \<open>Jsonl_Merge\<close>, \<open>Jsonl_Append\<close>: the merge of session histories between hosts (\<open>sync/dedupe.ts\<close>, and of
    \<open>sync/tree-merge.ts\<close> the ownership lookups, the choice between two copies and the archives). The first
    has the union of records, the second the system calls that write it, with other processes acting
    before each of them.
  \<^item> \<open>Tail_Sync\<close>: sending only the end of a history (\<open>sync/tail-sync.ts\<close>, \<open>applyTails\<close> of \<open>sync/tree-merge.ts\<close>):
    prefix digests with their cache, the sender's plan, and the receiver that does not trust it.

  \<^bold>\<open>Interfaces.\<close> \<open>pool_adapter_contract\<close> is what the pool core relies on in an adapter,
  \<open>grant_merge_contract\<close> what the swap of a grant file relies on in a tool's merge,
  \<open>grant_heal_contract\<close> what its repair adds to that, and \<open>usage_sink\<close> what the ledger buffer relies
  on in a store (interpreted on the in-memory store). \<open>sticky_write\<close> is what a cached write must
  promise so that no warm-up undoes it (interpreted for revocation and for rotation).

  \<^bold>\<open>Conventions.\<close> Numbers that JavaScript keeps as doubles are rationals (time stamps, percentages);
  no operation of the modelled code depends on rounding except where \<open>js_round\<close> is written out.
  A rejected promise or thrown error is \<open>Inl\<close>. The text of messages is abridged where nothing reads
  it. The lock rounds of a swap take fuel: as many rounds as there are members and one more, which
  \<open>lock_rounds_terminate\<close> shows to be enough. The failover loop takes fuel, nine turns for each member
  the pool may offer and nine more, which \<open>call_upstream_bounded\<close> shows to be enough. The search for a
  free browser name is a stage that is carried on step by step; among one more names than there are bindings
  one is free (\<open>name_search_ends\<close>). Response bytes and the UTF-16 units of their text are
  natural numbers; the streaming UTF-8 decoder and \<open>JSON.parse\<close> are parameters with their documented
  behaviour. \<open>Date.parse\<close> is partial (\<open>None\<close> for an unreadable date). Prices are exact rationals, and a
  table is an association list: names inherited from the object prototype are not considered. The local
  calendar and \<open>localeCompare\<close> are parameters of the spend control; the long dash in its texts is written
  as a hyphen. The files of a history merge are maps from paths to file identities and from those to bytes;
  SHA-256 is a parameter, injective where a theorem needs it.

  \<^bold>\<open>Not modelled.\<close> The network exchanges of token refresh and usage queries (parameters), timers,
  printing, the terminal and web interfaces, the Rust host, shell scripts of the live image. Of the
  gateway: metrics, SQL, start-up. Of the spend control: the user texts of the gate, the AWS calls. Of the
  synchronisation: the walk over the trees, \<open>rsync\<close> and \<open>ssh\<close>, \<open>.claude.json\<close>,
  the grouping of duplicate sessions. The server's routes and the command line mostly pass values on to the
  parts modelled here.
\<close>

end
